(* ===== verification/Prelude.thy ===== *)
theory Prelude
  imports Main "HOL-Library.Code_Target_Nat" "HOL-Library.Char_ord" "HOL-Library.List_Lexorder"
begin

section \<open>Shared notions: results, byte strings, lexicographic order\<close>

text \<open>
  What every component of the model shares.
  A Go function that returns \<open>(T, error)\<close> is modelled by a value of type
  \<open>'e + 'a\<close>: \<open>Inl e\<close> is the early return with error \<open>e\<close>, \<open>Inr x\<close> the successful
  return; \<open>rbind\<close> is the \<open>if err != nil { return err }\<close> idiom.
  A Go string is a \<open>string\<close> (a list of bytes); Go compares strings byte-wise, which is
  the lexicographic order of \<open>HOL-Library.List_Lexorder\<close> over \<open>HOL-Library.Char_ord\<close>.
\<close>

named_theorems lex_order "facts on the lexicographic order of byte strings"
named_theorems result_simps "unfolding of the result monad"

subsection \<open>Results\<close>

definition rbind :: "'e + 'a \<Rightarrow> ('a \<Rightarrow> 'e + 'b) \<Rightarrow> 'e + 'b" where
  "rbind m f = (case m of Inl e \<Rightarrow> Inl e | Inr x \<Rightarrow> f x)"

lemma rbind_Inl [simp, result_simps]: "rbind (Inl e) f = Inl e"
  by (simp add: rbind_def)

lemma rbind_Inr [simp, result_simps]: "rbind (Inr x) f = f x"
  by (simp add: rbind_def)

lemma rbind_eq_Inr_iff [simp]: "rbind m f = Inr y \<longleftrightarrow> (\<exists>x. m = Inr x \<and> f x = Inr y)"
  by (cases m) simp_all

lemma rbind_eq_Inl_iff: "rbind m f = Inl e \<longleftrightarrow> m = Inl e \<or> (\<exists>x. m = Inr x \<and> f x = Inl e)"
  by (cases m) simp_all

text \<open>A loop over a list that stops at the first error (\<open>for ... { if err != nil { return err } }\<close>).\<close>

fun rfold :: "('s \<Rightarrow> 'x \<Rightarrow> 'e + 's) \<Rightarrow> 's \<Rightarrow> 'x list \<Rightarrow> 'e + 's" where
  "rfold f s [] = Inr s"
| "rfold f s (x # xs) = rbind (f s x) (\<lambda>s'. rfold f s' xs)"

lemma rfold_append: "rfold f s (xs @ ys) = rbind (rfold f s xs) (\<lambda>s'. rfold f s' ys)"
  by (induction xs arbitrary: s) (auto simp: rbind_def split: sum.splits)

lemma rfold_invariant:
  assumes "rfold f s xs = Inr s'" and "P s"
    and "\<And>s x s'. P s \<Longrightarrow> x \<in> set xs \<Longrightarrow> f s x = Inr s' \<Longrightarrow> P s'"
  shows "P s'"
  using assms
proof (induction xs arbitrary: s)
  case Nil
  then show ?case by simp
next
  case (Cons x xs)
  from Cons.prems(1) obtain t where t: "f s x = Inr t" and rest: "rfold f t xs = Inr s'"
    by auto
  have "P t" using Cons.prems(3)[OF Cons.prems(2) _ t] by simp
  show ?case
    by (rule Cons.IH[OF rest \<open>P t\<close>]) (rule Cons.prems(3), simp_all)
qed

subsection \<open>The lexicographic order of strings\<close>

lemma append_less_same_iff [lex_order, simp]:
  "(p @ a :: 'a::linorder list) < p @ b \<longleftrightarrow> a < b"
  by (induction p) simp_all

lemma less_append_right_iff [lex_order, simp]:
  "(a :: 'a::linorder list) < a @ b \<longleftrightarrow> b \<noteq> []"
  using append_less_same_iff[of a "[]" b] by (cases b) auto

lemma Nil_less_iff [lex_order, simp]: "[] < (k :: 'a::linorder list) \<longleftrightarrow> k \<noteq> []"
  by (cases k) simp_all

lemma less_append_mono:
  "(a :: 'a::linorder list) < b \<Longrightarrow> a < b @ c"
proof (induction a arbitrary: b)
  case Nil
  then show ?case by (cases b) auto
next
  case (Cons x a)
  then show ?case by (cases b) auto
qed

lemma less_append_same_length:
  "length a = length b \<Longrightarrow> (a :: 'a::linorder list) < b \<Longrightarrow> a @ x < b @ y"
proof (induction a arbitrary: b)
  case Nil
  then show ?case by simp
next
  case (Cons c a)
  then show ?case by (cases b) auto
qed

lemma not_append_less_self [simp]: "\<not> (a @ b :: 'a::linorder list) < a"
proof (induction a)
  case Nil
  show ?case by simp
next
  case (Cons x a)
  then show ?case by simp
qed

subsection \<open>Lists\<close>

lemma list_update_append_last [simp]: "(xs @ [x])[length xs := y] = xs @ [y]"
  by (induction xs) simp_all

lemma take_Suc_snoc: "i < length xs \<Longrightarrow> take (Suc i) xs = take i xs @ [xs ! i]"
  by (rule take_Suc_conv_app_nth)

end
