(* ===== verification/Errs.thy ===== *)
theory Errs
  imports Prelude
begin

section \<open>The error taxonomy\<close>

text \<open>
  \<open>internal/shared/errs/errs.go\<close>: the typed errors every use case returns. \<open>GoPanic\<close> stands for
  a run-time panic of the Go program (an index out of range, a division by zero), which ends
  the request. \<open>OtherError\<close> is any untyped \<open>error\<close> (a driver failure, \<open>errors.New\<close>).
  The message texts are kept where the code branches on them or a property names them;
  \<open>MsgCode\<close>/\<open>Code\<close> strings are the catalogue keys of \<open>errs/codes.go\<close>.
\<close>

record field_error =
  fe_key :: string
  fe_message :: string
  fe_code :: string

datatype go_error =
    ValidationError string string "field_error list" \<comment> \<open>Msg, MsgCode, Fields\<close>
  | NotFoundError string
  | AccessDeniedError string string int \<comment> \<open>Msg, Code, RetryAfter\<close>
  | UnauthorizedError string string
  | TooManyRequestsError string int \<comment> \<open>Msg, RetryAfter\<close>
  | PaymentRequiredError string string
  | OtherError string
  | GoPanic string

type_synonym 'a result = "go_error + 'a"

definition as_not_found :: "go_error \<Rightarrow> string option" where
  "as_not_found e = (case e of NotFoundError m \<Rightarrow> Some m | _ \<Rightarrow> None)"

definition as_too_many_requests :: "go_error \<Rightarrow> (string \<times> int) option" where
  "as_too_many_requests e = (case e of TooManyRequestsError m r \<Rightarrow> Some (m, r) | _ \<Rightarrow> None)"

text \<open>Ids (\<open>vo.Id\<close>) are their canonical strings; the zero id is the empty string.\<close>

type_synonym ident = string

definition field_validation :: "string \<Rightarrow> string \<Rightarrow> string \<Rightarrow> go_error" where
  "field_validation key msg code =
     ValidationError ''Validation failed'' [] [\<lparr>fe_key = key, fe_message = msg, fe_code = code\<rparr>]"

end
