(* ===== verification/Sort_Key.thy ===== *)
theory Sort_Key
  imports Errs
begin

section \<open>Fractional index keys\<close>

text \<open>
  \<open>internal/shared/sortkey/sortkey.go\<close>: keys are byte strings made of a magnitude head, the
  integer digits the head declares and fractional digits. The definitions follow the Go
  functions line by line; loops over a byte slice update a list by index, and an index the Go
  program would panic on is \<open>GoPanic\<close>. The lemmas end in \<open>between_spec\<close>: on well-formed bounds
  \<open>between\<close> returns a well-formed key strictly between them, and the only way it can
  fail is the exhausted bottom of the key space.
\<close>

subsection \<open>The alphabet\<close>

type_synonym key = string

definition alphabet :: string where
  "alphabet = ''0123456789ABCDEFGHIJKLMNOPQRSTUVWXYZabcdefghijklmnopqrstuvwxyz''"

datatype growth = GrowsUp | GrowsDown

fun seed :: "growth \<Rightarrow> key" where
  "seed GrowsDown = ''c000''"
| "seed GrowsUp = ''a0''"

definition invalid :: "string \<Rightarrow> go_error" where
  "invalid msg = ValidationError msg ''common.invalid_id'' []"

definition digit_index :: "char \<Rightarrow> int" where
  "digit_index b =
     (if CHR ''0'' \<le> b \<and> b \<le> CHR ''9'' then int (of_char b - of_char CHR ''0'')
      else if CHR ''A'' \<le> b \<and> b \<le> CHR ''Z'' then int (of_char b - of_char CHR ''A'') + 10
      else if CHR ''a'' \<le> b \<and> b \<le> CHR ''z'' then int (of_char b - of_char CHR ''a'') + 36
      else -1)"

subsection \<open>The integer part\<close>

definition integer_len :: "char \<Rightarrow> nat result" where
  "integer_len head =
     (if CHR ''a'' \<le> head \<and> head \<le> CHR ''z'' then Inr (of_char head - of_char CHR ''a'' + 2)
      else if CHR ''A'' \<le> head \<and> head \<le> CHR ''Z'' then Inr (of_char CHR ''Z'' - of_char head + 2)
      else Inl (invalid ''invalid sort key magnitude''))"

definition integer_part :: "key \<Rightarrow> key result" where
  "integer_part k =
     (case k of
        [] \<Rightarrow> Inl (invalid ''empty sort key'')
      | head # _ \<Rightarrow>
          rbind (integer_len head) (\<lambda>n.
            if length k < n then Inl (invalid ''sort key shorter than its magnitude declares'')
            else Inr (take n k)))"

definition validate :: "key \<Rightarrow> unit result" where
  "validate k =
     rbind (integer_part k) (\<lambda>ip.
       if \<exists>c\<in>set (tl ip). digit_index c < 0
         then Inl (invalid ''invalid character in sort key integer part'')
       else let frac = drop (length ip) k in
         if \<exists>c\<in>set frac. digit_index c < 0
           then Inl (invalid ''invalid character in sort key fraction'')
         else if frac \<noteq> [] \<and> last frac = alphabet ! 0
           then Inl (invalid ''sort key fraction must not end in a zero digit'')
         else Inr ())"

text \<open>
  \<open>incrementInteger\<close>: the carry loop runs from the last digit to the first while it carries;
  the first argument of \<open>inc_loop\<close> is \<open>i + 1\<close> of the Go loop.
\<close>

fun inc_loop :: "nat \<Rightarrow> string \<Rightarrow> bool \<times> string" where
  "inc_loop 0 digs = (True, digs)"
| "inc_loop (Suc i) digs =
     (let d = digit_index (digs ! i) + 1 in
      if d = int (length alphabet) then inc_loop i (digs[i := alphabet ! 0])
      else (False, digs[i := alphabet ! nat d]))"

definition byte_succ :: "char \<Rightarrow> char" where
  "byte_succ c = char_of (of_char c + 1 :: nat)"

definition byte_pred :: "char \<Rightarrow> char" where
  "byte_pred c = char_of (of_char c - 1 :: nat)"

definition increment_integer :: "key \<Rightarrow> key result" where
  "increment_integer x =
     rbind (integer_part x) (\<lambda>_.
       let head = hd x;
           (carry, digs) = inc_loop (length (tl x)) (tl x)
       in if \<not> carry then Inr (head # digs)
          else if head = CHR ''Z'' then Inr ''a0''
          else if head = CHR ''z'' then Inr []
          else let h = byte_succ head in
            if h > CHR ''a'' then Inr (h # digs @ [alphabet ! 0])
            else Inr (h # butlast digs))"

fun dec_loop :: "nat \<Rightarrow> string \<Rightarrow> (bool \<times> string) result" where
  "dec_loop 0 digs = Inr (True, digs)"
| "dec_loop (Suc i) digs =
     (let d = digit_index (digs ! i) - 1 in
      if d = -1 then dec_loop i (digs[i := last alphabet])
      else if d < 0 then Inl (GoPanic ''index out of range'')
      else Inr (False, digs[i := alphabet ! nat d]))"

definition decrement_integer :: "key \<Rightarrow> key result" where
  "decrement_integer x =
     rbind (integer_part x) (\<lambda>_.
     rbind (dec_loop (length (tl x)) (tl x)) (\<lambda>(borrow, digs).
       let head = hd x in
       if \<not> borrow then Inr (head # digs)
       else if head = CHR ''a'' then Inr [CHR ''Z'', last alphabet]
       else if head = CHR ''A'' then Inr []
       else let h = byte_pred head in
         if h < CHR ''Z'' then Inr (h # digs @ [last alphabet])
         else Inr (h # butlast digs)))"

subsection \<open>Midpoints and \<open>Between\<close>\<close>

text \<open>
  \<open>midpoint\<close> first strips the prefix the two fractions share, the shorter one padded with
  zeros; \<open>common_prefix\<close> is the counting loop.
\<close>

fun common_prefix :: "string \<Rightarrow> string \<Rightarrow> nat" where
  "common_prefix a [] = 0"
| "common_prefix a (c # b) =
     (let ac = (case a of [] \<Rightarrow> alphabet ! 0 | x # _ \<Rightarrow> x) in
      if ac \<noteq> c then 0 else Suc (common_prefix (tl a) b))"

function midpoint :: "string \<Rightarrow> string \<Rightarrow> string result" where
  "midpoint a b =
     (if b \<noteq> [] \<and> b \<le> a then Inl (invalid ''sort key bounds are inverted'')
      else if a \<noteq> [] \<and> last a = alphabet ! 0 \<or> b \<noteq> [] \<and> last b = alphabet ! 0
        then Inl (invalid ''sort key fraction must not end in a zero digit'')
      else let n = common_prefix a b in
        if 0 < n
          then rbind (midpoint (drop n a) (drop n b)) (\<lambda>rest. Inr (take n b @ rest))
        else let digit_a = (if a = [] then 0 else digit_index (hd a));
                 digit_b = (if b = [] then int (length alphabet) else digit_index (hd b)) in
          if 1 < digit_b - digit_a then Inr [alphabet ! nat ((digit_a + digit_b) div 2)]
          else if 1 < length b then Inr (take 1 b)
          else rbind (midpoint (tl a) []) (\<lambda>rest.
            if digit_a < 0 then Inl (GoPanic ''slice bounds out of range'')
            else Inr (alphabet ! nat digit_a # rest)))"
  by pat_completeness auto
termination
proof (relation "measure (\<lambda>(a, b). length a + length b)", goal_cases)
  case 1
  show ?case by simp
next
  case (2 a b n)
  then show ?case by (cases b) auto
next
  case (3 a b n da db)
  then show ?case by (cases a; cases b) (auto simp: alphabet_def)
qed

declare midpoint.simps [simp del]

definition between :: "key \<Rightarrow> key \<Rightarrow> key result" where
  "between prev nxt =
     rbind (if prev \<noteq> [] then validate prev else Inr ()) (\<lambda>_.
     rbind (if nxt \<noteq> [] then validate nxt else Inr ()) (\<lambda>_.
     if prev \<noteq> [] \<and> nxt \<noteq> [] \<and> nxt \<le> prev then Inl (invalid ''sort key bounds are inverted'')
     else if prev = [] then
       (if nxt = [] then Inr (seed GrowsUp)
        else rbind (integer_part nxt) (\<lambda>ib.
          if ib < nxt then Inr ib
          else rbind (decrement_integer ib) (\<lambda>dec.
            if dec = [] then Inl (invalid ''sort key space exhausted below'')
            else Inr dec)))
     else
       rbind (integer_part prev) (\<lambda>ia.
       let fa = drop (length ia) prev in
       if nxt = [] then
         rbind (increment_integer ia) (\<lambda>inc.
           if inc = [] then rbind (midpoint fa []) (\<lambda>mid. Inr (ia @ mid))
           else Inr inc)
       else
         rbind (integer_part nxt) (\<lambda>ib.
         let fb = drop (length ib) nxt in
         if ia = ib then rbind (midpoint fa fb) (\<lambda>mid. Inr (ia @ mid))
         else rbind (increment_integer ia) (\<lambda>inc.
           if inc = [] then Inl (invalid ''sort key space exhausted above'')
           else if inc < nxt then Inr inc
           else rbind (midpoint fa []) (\<lambda>mid. Inr (ia @ mid)))))))"

subsection \<open>Digits\<close>

named_theorems key_digits "facts on base-62 digits"

abbreviation is_digit :: "char \<Rightarrow> bool" where
  "is_digit c \<equiv> 0 \<le> digit_index c"

lemma length_alphabet [key_digits, simp]: "length alphabet = 62"
  by (simp add: alphabet_def)

lemma nth_alphabet:
  assumes "i < 62"
  shows "alphabet ! i = char_of (if i < 10 then 48 + i else if i < 36 then 55 + i else 61 + i)"
proof -
  have "\<forall>i\<in>set [0..<62]. alphabet ! i = char_of (if i < 10 then 48 + i else if i < 36 then 55 + i else 61 + i)"
    unfolding alphabet_def by code_simp
  then show ?thesis using assms by simp
qed

lemma digit_index_nth [key_digits, simp]: "i < 62 \<Longrightarrow> digit_index (alphabet ! i) = int i"
  by (auto simp: nth_alphabet digit_index_def less_eq_char_def)

lemma digit_index_less_62 [key_digits, simp]: "digit_index c < 62"
  by (auto simp: digit_index_def less_eq_char_def)

lemma is_digit_in_alphabet:
  assumes "is_digit c"
  shows "\<exists>k<62. c = alphabet ! k"
proof -
  let ?n = "of_char c :: nat"
  consider "48 \<le> ?n" "?n \<le> 57" | "65 \<le> ?n" "?n \<le> 90" | "97 \<le> ?n" "?n \<le> 122"
    using assms by (auto simp: digit_index_def less_eq_char_def split: if_splits)
  then show ?thesis
  proof cases
    case 1
    then show ?thesis by (intro exI[of _ "?n - 48"]) (auto simp: nth_alphabet)
  next
    case 2
    then show ?thesis by (intro exI[of _ "?n - 55"]) (auto simp: nth_alphabet)
  next
    case 3
    then show ?thesis by (intro exI[of _ "?n - 61"]) (auto simp: nth_alphabet)
  qed
qed

lemma nth_digit_index [key_digits, simp]: "is_digit c \<Longrightarrow> alphabet ! nat (digit_index c) = c"
  using is_digit_in_alphabet[of c] by auto

lemma alphabet_less_iff [key_digits, simp]:
  "i < 62 \<Longrightarrow> j < 62 \<Longrightarrow> alphabet ! i < alphabet ! j \<longleftrightarrow> i < j"
  by (simp add: nth_alphabet less_char_def)

lemma digit_less_iff [key_digits]:
  assumes "is_digit c" and "is_digit d"
  shows "c < d \<longleftrightarrow> digit_index c < digit_index d"
  using alphabet_less_iff[of "nat (digit_index c)" "nat (digit_index d)"]
    digit_index_less_62[of c] digit_index_less_62[of d] assms
  by (simp del: alphabet_less_iff digit_index_less_62 add: nat_less_eq_zless nat_less_iff) linarith

lemma digit_index_inj [key_digits]: "is_digit c \<Longrightarrow> digit_index c = digit_index d \<Longrightarrow> c = d"
  by (metis nth_digit_index)

subsection \<open>Well-formed parts\<close>

definition valid_frac :: "string \<Rightarrow> bool" where
  "valid_frac f \<longleftrightarrow> list_all is_digit f \<and> (f \<noteq> [] \<longrightarrow> last f \<noteq> alphabet ! 0)"

definition valid_int :: "string \<Rightarrow> bool" where
  "valid_int ip \<longleftrightarrow> ip \<noteq> [] \<and> integer_len (hd ip) = Inr (length ip) \<and> list_all is_digit (tl ip)"

lemma integer_len_ge_2: "integer_len h = Inr n \<Longrightarrow> 2 \<le> n"
  by (auto simp: integer_len_def split: if_splits)

lemma valid_int_Cons: "valid_int ip \<Longrightarrow> \<exists>h d ds. ip = h # d # ds"
  by (cases ip; cases "tl ip") (auto simp: valid_int_def dest: integer_len_ge_2)

lemma integer_part_valid [simp]: "valid_int ip \<Longrightarrow> integer_part (ip @ f) = Inr ip"
  by (cases ip) (auto simp: integer_part_def valid_int_def)

lemma integer_part_self [simp]: "valid_int ip \<Longrightarrow> integer_part ip = Inr ip"
  using integer_part_valid[of ip "[]"] by simp

lemma validate_iff:
  "validate k = Inr () \<longleftrightarrow> (\<exists>ip f. k = ip @ f \<and> valid_int ip \<and> valid_frac f)" (is "_ = ?rhs")
proof
  assume v: "validate k = Inr ()"
  then obtain ip where ip: "integer_part k = Inr ip"
    by (auto simp: validate_def)
  then obtain h k' n where k: "k = h # k'" "integer_len h = Inr n" "n \<le> length k" "ip = take n k"
    by (auto simp: integer_part_def split: list.splits if_splits)
  have "k = take n k @ drop n k" by simp
  moreover have "valid_int (take n k)"
    using v ip k integer_len_ge_2[OF k(2)]
    by (auto simp: validate_def valid_int_def list_all_iff not_less tl_take take_Cons' split: if_splits)
  moreover have "valid_frac (drop n k)"
    using v ip k by (auto simp: validate_def valid_frac_def list_all_iff Let_def not_less min_def split: if_splits)
  ultimately show ?rhs by blast
next
  assume ?rhs
  then obtain ip f where "k = ip @ f" "valid_int ip" "valid_frac f" by blast
  then show "validate k = Inr ()"
    by (auto simp: validate_def valid_frac_def valid_int_def list_all_iff Let_def not_less)
qed

subsection \<open>The midpoint of two fractions\<close>

lemma common_prefix_le: "common_prefix a b \<le> length b"
  by (induction a b rule: common_prefix.induct) (auto simp: Let_def)

lemma common_prefix_take:
  "n = common_prefix a b \<Longrightarrow> take n b = take n a @ replicate (n - length a) (alphabet ! 0)"
proof (induction a b arbitrary: n rule: common_prefix.induct)
  case (1 a)
  then show ?case by simp
next
  case (2 a c b)
  then show ?case
    by (cases a) (auto simp: Let_def split: if_splits)
qed

lemma common_prefix_0:
  "common_prefix a b = 0 \<Longrightarrow> b \<noteq> [] \<Longrightarrow> (if a = [] then alphabet ! 0 else hd a) \<noteq> hd b"
  by (cases b; cases a) (auto simp: Let_def split: if_splits)

lemma zero_index [simp]: "digit_index (alphabet ! 0) = 0"
  by simp

lemma is_digit_nonzero:
  "is_digit c \<Longrightarrow> c \<noteq> alphabet ! 0 \<Longrightarrow> 0 < digit_index c"
  using digit_index_inj[of c "alphabet ! 0"] by (cases "digit_index c = 0") auto

lemma alphabet_nonzero: "i < 62 \<Longrightarrow> alphabet ! i = alphabet ! 0 \<longleftrightarrow> i = 0"
  by (metis digit_index_nth of_nat_eq_0_iff zero_index)

text \<open>The prefix step: what the recursive call of \<open>midpoint\<close> is given.\<close>

lemma prefix_step:
  assumes "n = common_prefix a b" "0 < n" "a < b" "valid_frac b"
  shows "drop n a < drop n b" and "m \<noteq> [] \<Longrightarrow> drop n a < m \<Longrightarrow> a < take n b @ m"
    and "m < drop n b \<Longrightarrow> take n b @ m < b" and "drop n b \<noteq> []"
proof -
  have t: "take n b = take n a @ replicate (n - length a) (alphabet ! 0)"
    using common_prefix_take assms(1) by blast
  have b: "b = take n b @ drop n b" by simp
  have nb: "drop n b \<noteq> []"
  proof
    assume d: "drop n b = []"
    then have bt: "b = take n a @ replicate (n - length a) (alphabet ! 0)" using t by simp
    show False
    proof (cases "length a < n")
      case True
      then have "last b = alphabet ! 0" and "b \<noteq> []" using bt by (auto simp: last_append)
      then show False using assms(4) by (simp add: valid_frac_def)
    next
      case False
      then have "b = take n a" using bt by simp
      then have "\<not> a < b" by (metis append_take_drop_id not_append_less_self)
      then show False using assms(3) by simp
    qed
  qed
  then show "drop n b \<noteq> []" .
  show lt: "drop n a < drop n b"
  proof (cases "length a < n")
    case True
    then show ?thesis using nb by (cases "drop n b") auto
  next
    case False
    then have "a = take n b @ drop n a" using t by simp
    then show ?thesis using assms(3) b by (metis append_less_same_iff)
  qed
  show "take n b @ m < b" if "m < drop n b"
    using that by (subst (2) b) (simp only: append_less_same_iff)
  show "a < take n b @ m" if "m \<noteq> []" "drop n a < m"
  proof (cases "length a < n")
    case True
    then show ?thesis using t that by simp
  next
    case False
    then have "a = take n b @ drop n a" using t by simp
    then show ?thesis using that(2) by (metis append_less_same_iff)
  qed
qed

lemma valid_frac_drop: "valid_frac f \<Longrightarrow> valid_frac (drop n f)"
  by (auto simp: valid_frac_def list_all_iff last_drop dest: in_set_dropD)

lemma valid_frac_tl: "valid_frac f \<Longrightarrow> valid_frac (tl f)"
  using valid_frac_drop[of f 1] by (simp add: drop_Suc)

lemma valid_frac_append: "list_all is_digit p \<Longrightarrow> valid_frac m \<Longrightarrow> m \<noteq> [] \<Longrightarrow> valid_frac (p @ m)"
  by (simp add: valid_frac_def)

text \<open>The digits compared when no prefix is shared.\<close>

lemma digits_differ:
  assumes "common_prefix a b = 0" "valid_frac a" "valid_frac b" "a < b" "b \<noteq> []"
  shows "(if a = [] then 0 else digit_index (hd a)) < digit_index (hd b)"
proof (cases a)
  case Nil
  then show ?thesis
    using assms common_prefix_0[OF assms(1,5)] is_digit_nonzero[of "hd b"]
    by (cases b) (auto simp: valid_frac_def)
next
  case (Cons x xs)
  then show ?thesis
    using assms common_prefix_0[OF assms(1,5)]
    by (cases b) (auto simp: valid_frac_def digit_less_iff split: if_splits)
qed

lemma midpoint_spec:
  "valid_frac a \<Longrightarrow> valid_frac b \<Longrightarrow> b = [] \<or> a < b \<Longrightarrow>
   \<exists>m. midpoint a b = Inr m \<and> a < m \<and> (b \<noteq> [] \<longrightarrow> m < b) \<and> valid_frac m \<and> m \<noteq> []"
proof (induction a b rule: midpoint.induct)
  case (1 a b)
  let ?n = "common_prefix a b"
  let ?da = "if a = [] then 0 else digit_index (hd a)"
  let ?db = "if b = [] then int (length alphabet) else digit_index (hd b)"
  have g: "\<not> (b \<noteq> [] \<and> b \<le> a)"
      "\<not> (a \<noteq> [] \<and> last a = alphabet ! 0 \<or> b \<noteq> [] \<and> last b = alphabet ! 0)"
    using "1.prems" by (auto simp: valid_frac_def)
  have da: "0 \<le> ?da" "?da < 62" using "1.prems"(1) by (cases a; auto simp: valid_frac_def)+
  show ?case
  proof (cases "0 < ?n")
    case True
    then have "b \<noteq> []" by auto
    then have ab: "a < b" using "1.prems"(3) by simp
    note p = prefix_step[OF refl True ab "1.prems"(2)]
    obtain m where m: "midpoint (drop ?n a) (drop ?n b) = Inr m" "drop ?n a < m" "m < drop ?n b"
        "valid_frac m" "m \<noteq> []"
      using "1.IH"(1)[OF g refl True valid_frac_drop[OF "1.prems"(1)] valid_frac_drop[OF "1.prems"(2)]] p(1,4)
      by auto
    have "list_all is_digit (take ?n b)"
      using "1.prems"(2) by (auto simp: valid_frac_def list_all_iff dest: in_set_takeD)
    then have "valid_frac (take ?n b @ m)" using valid_frac_append m(4,5) by blast
    moreover have "midpoint a b = Inr (take ?n b @ m)"
      using True m(1) by (subst midpoint.simps) (simp add: g Let_def)
    ultimately show ?thesis using p(2)[OF m(5,2)] p(3)[OF m(3)] m(5) by auto
  next
    case False
    then have n0: "?n = 0" by simp
    have lt: "?da < ?db"
      using digits_differ[OF n0 "1.prems"(1,2)] "1.prems"(3) da by (cases "b = []") auto
    have db: "?db \<le> 62" by (simp add: less_imp_le)
    show ?thesis
    proof (cases "1 < ?db - ?da")
      case True
      let ?m = "nat ((?da + ?db) div 2)"
      have m: "?da < int ?m" "int ?m < ?db" "?m < 62" using True da db by linarith+
      have eq: "midpoint a b = Inr [alphabet ! ?m]"
        using True n0 by (subst midpoint.simps) (simp add: g Let_def)
      have "a < [alphabet ! ?m]"
        using m "1.prems"(1) by (cases a) (auto simp: valid_frac_def digit_less_iff)
      moreover have "b \<noteq> [] \<longrightarrow> [alphabet ! ?m] < b"
        using m "1.prems"(2) by (cases b) (auto simp: valid_frac_def digit_less_iff)
      moreover have "valid_frac [alphabet ! ?m]"
        using m da by (auto simp: valid_frac_def alphabet_nonzero)
      ultimately show ?thesis using eq by auto
    next
      case diff: False
      show ?thesis
      proof (cases "1 < length b")
        case True
        then obtain x y ys where b: "b = x # y # ys" by (cases b; cases "tl b") auto
        have eq: "midpoint a b = Inr [x]"
          using diff n0 True b by (subst midpoint.simps) (use g in \<open>simp add: Let_def\<close>)
        have x: "is_digit x" "?da < digit_index x" using "1.prems"(2) lt b by (auto simp: valid_frac_def)
        have "a < [x]" using x "1.prems"(1) by (cases a) (auto simp: valid_frac_def digit_less_iff)
        moreover have "valid_frac [x]" using x da by (auto simp: valid_frac_def)
        ultimately show ?thesis using eq b by auto
      next
        case short: False
        obtain m where m: "midpoint (tl a) [] = Inr m" "tl a < m" "valid_frac m" "m \<noteq> []"
          using "1.IH"(2)[OF g refl False refl refl diff short valid_frac_tl[OF "1.prems"(1)]]
          by (auto simp: valid_frac_def)
        let ?c = "alphabet ! nat ?da"
        have eq: "midpoint a b = Inr (?c # m)"
          using diff short m(1) n0 da by (subst midpoint.simps) (simp add: g Let_def)
        have c: "digit_index ?c = ?da" using da by simp
        have "a < ?c # m" using m(2) "1.prems"(1) by (cases a) (auto simp: valid_frac_def)
        moreover have "b \<noteq> [] \<longrightarrow> ?c # m < b"
          using lt c "1.prems"(2) da by (cases b) (auto simp: valid_frac_def digit_less_iff)
        moreover have "valid_frac (?c # m)" using m(3,4) da c by (auto simp: valid_frac_def)
        ultimately show ?thesis using eq by auto
      qed
    qed
  qed
qed

subsection \<open>Successor and predecessor of an integer part\<close>

lemma less_at:
  assumes "j < length a" "j < length b" "take j a = take j b" "a ! j < b ! j"
  shows "a @ x < (b @ y :: string)"
proof -
  have "a = take j a @ a ! j # drop (Suc j) a" "b = take j a @ b ! j # drop (Suc j) b"
    using assms by (metis id_take_nth_drop)+
  then have "a @ x = take j a @ (a ! j # drop (Suc j) a @ x)" "b @ y = take j a @ (b ! j # drop (Suc j) b @ y)"
    by (metis append.assoc append_Cons)+
  then show ?thesis using assms(4) by (metis Cons_less_Cons append_less_same_iff)
qed

lemma last_alphabet_index [simp]: "digit_index (last alphabet) = 61"
  by (simp add: alphabet_def digit_index_def)

lemma list_all_update: "list_all P xs \<Longrightarrow> P x \<Longrightarrow> list_all P (xs[i := x])"
  by (auto simp: list_all_iff dest!: set_update_subset_insert[THEN subsetD])

lemma all_greatest_not_less:
  "length xs = length ys \<Longrightarrow> \<forall>c\<in>set xs. digit_index c = 61 \<Longrightarrow> list_all is_digit ys \<Longrightarrow> \<not> xs < ys"
proof (induction xs ys rule: list_induct2)
  case (Cons x xs y ys)
  then show ?case using digit_less_iff[of x y] digit_index_less_62[of y] by fastforce
qed simp

lemma inc_loop_spec:
  assumes "inc_loop i digs = (carry, digs')" "i \<le> length digs" "list_all is_digit digs"
  shows "length digs' = length digs \<and> list_all is_digit digs' \<and>
    (\<not> carry \<longrightarrow> (\<exists>j<i. take j digs = take j digs' \<and> digs ! j < digs' ! j)) \<and>
    (carry \<longrightarrow> (\<forall>j<i. digit_index (digs ! j) = 61))"
  using assms
proof (induction i digs rule: inc_loop.induct)
  case (1 digs)
  then show ?case by simp
next
  case (2 i digs)
  have i: "i < length digs" using "2.prems"(2) by simp
  then have dig: "is_digit (digs ! i)" using "2.prems"(3) by (simp add: list_all_length)
  show ?case
  proof (cases "digit_index (digs ! i) + 1 = int (length alphabet)")
    case True
    let ?d = "digs[i := alphabet ! 0]"
    have r: "inc_loop i ?d = (carry, digs')" using "2.prems"(1) True by simp
    have v: "list_all is_digit ?d" using "2.prems"(3) by (rule list_all_update) simp
    note IH = "2.IH"[OF refl True r _ v]
    have "j < i \<Longrightarrow> take j ?d = take j digs \<and> ?d ! j = digs ! j" for j using i by simp
    then show ?thesis using IH i True by (auto simp: less_Suc_eq)
  next
    case False
    then have eq: "carry = False" "digs' = digs[i := alphabet ! nat (digit_index (digs ! i) + 1)]"
      using "2.prems"(1) by (simp_all add: Let_def)
    have "digit_index (digs ! i) \<noteq> 61" using False by simp
    with digit_index_less_62[of "digs ! i"] have lt: "digit_index (digs ! i) < 61" by linarith
    then have up: "digs ! i < alphabet ! nat (digit_index (digs ! i) + 1)"
      using dig by (simp add: digit_less_iff)
    have "list_all is_digit digs'"
      using "2.prems"(3) lt dig unfolding eq by (intro list_all_update) simp_all
    then show ?thesis using eq up i by (auto intro!: exI[of _ i])
  qed
qed

lemma dec_loop_spec:
  assumes "i \<le> length digs" "list_all is_digit digs"
  shows "\<exists>borrow digs'. dec_loop i digs = Inr (borrow, digs') \<and>
    length digs' = length digs \<and> list_all is_digit digs' \<and>
    (\<not> borrow \<longrightarrow> (\<exists>j<i. take j digs' = take j digs \<and> digs' ! j < digs ! j)) \<and>
    (borrow \<longrightarrow> (\<forall>j<i. digit_index (digs ! j) = 0))"
  using assms
proof (induction i digs rule: dec_loop.induct)
  case (1 digs)
  then show ?case by auto
next
  case (2 i digs)
  have i: "i < length digs" using "2.prems"(1) by simp
  then have dig: "is_digit (digs ! i)" using "2.prems"(2) by (simp add: list_all_length)
  show ?case
  proof (cases "digit_index (digs ! i) - 1 = -1")
    case True
    let ?d = "digs[i := last alphabet]"
    have v: "list_all is_digit ?d" using "2.prems"(2) by (rule list_all_update) simp
    obtain bo digs' where IH: "dec_loop i ?d = Inr (bo, digs')" "length digs' = length ?d" "list_all is_digit digs'"
        "\<not> bo \<longrightarrow> (\<exists>j<i. take j digs' = take j ?d \<and> digs' ! j < ?d ! j)"
        "bo \<longrightarrow> (\<forall>j<i. digit_index (?d ! j) = 0)"
      using "2.IH"[OF refl True _ v] i by auto
    have "j < i \<Longrightarrow> take j ?d = take j digs \<and> ?d ! j = digs ! j" for j using i by simp
    then show ?thesis using IH True
      by (intro exI[of _ bo] exI[of _ digs']) (auto simp: less_Suc_eq)
  next
    case False
    let ?e = "alphabet ! nat (digit_index (digs ! i) - 1)"
    have pos: "0 < digit_index (digs ! i)" using False dig by simp
    have "nat (digit_index (digs ! i) - 1) < 62" using digit_index_less_62[of "digs ! i"] by linarith
    then have ei: "digit_index ?e = digit_index (digs ! i) - 1" using pos by simp
    then have "?e < digs ! i" using pos dig digit_less_iff[of ?e "digs ! i"] by linarith
    moreover have "is_digit ?e" using pos ei by linarith
    moreover have "dec_loop (Suc i) digs = Inr (False, digs[i := ?e])" using False pos by (simp add: Let_def)
    ultimately show ?thesis
      using i list_all_update[OF "2.prems"(2), of ?e i]
      by (intro exI[of _ False] exI[of _ "digs[i := ?e]"]) (simp del: dec_loop.simps, intro exI[of _ i], simp)
  qed
qed

lemma byte_succ_of_char: "of_char c < (255::nat) \<Longrightarrow> of_char (byte_succ c) = (of_char c + 1 :: nat)"
  by (simp add: byte_succ_def)

lemma byte_pred_of_char: "of_char (byte_pred c) = (of_char c - 1 :: nat)"
proof -
  have "of_char c - 1 < (256::nat)" by (rule less_imp_diff_less) simp
  then show ?thesis by (simp add: byte_pred_def)
qed

lemma integer_len_cases:
  assumes "integer_len h = Inr n"
  obtains (lower) "(97::nat) \<le> of_char h" "of_char h \<le> (122::nat)" "n = of_char h - 95"
    | (upper) "(65::nat) \<le> of_char h" "of_char h \<le> (90::nat)" "n = 92 - of_char h"
  using assms by (auto simp: integer_len_def less_eq_char_def split: if_splits)

lemma integer_len_lower: "(97::nat) \<le> of_char h \<Longrightarrow> of_char h \<le> (122::nat) \<Longrightarrow> integer_len h = Inr (of_char h - 95)"
  by (auto simp: integer_len_def less_eq_char_def)

lemma integer_len_upper: "(65::nat) \<le> of_char h \<Longrightarrow> of_char h \<le> (90::nat) \<Longrightarrow> integer_len h = Inr (92 - of_char h)"
  by (auto simp: integer_len_def less_eq_char_def)

lemma char_eqI: "of_char c = (of_char d :: nat) \<Longrightarrow> c = d"
  by simp

definition greatest_int :: "string \<Rightarrow> bool" where
  "greatest_int ip \<longleftrightarrow> hd ip = CHR ''z'' \<and> (\<forall>c\<in>set (tl ip). digit_index c = 61)"

definition least_int :: "string \<Rightarrow> bool" where
  "least_int ip \<longleftrightarrow> hd ip = CHR ''A'' \<and> (\<forall>c\<in>set (tl ip). digit_index c = 0)"

lemma increment_integer_spec:
  assumes v: "valid_int ip"
  shows "\<exists>r. increment_integer ip = Inr r \<and> (r = [] \<longleftrightarrow> greatest_int ip) \<and>
    (r \<noteq> [] \<longrightarrow> valid_int r \<and> (\<forall>x y. ip @ x < r @ y))"
proof -
  obtain h ds where ip: "ip = h # ds" "ds \<noteq> []" using valid_int_Cons[OF v] by blast
  obtain carry digs where l: "inc_loop (length ds) ds = (carry, digs)" by fastforce
  have len: "integer_len h = Inr (Suc (length ds))" and dig: "list_all is_digit ds"
    using v ip by (auto simp: valid_int_def)
  note spec = inc_loop_spec[OF l order.refl dig]
  show ?thesis
  proof (cases carry)
    case False
    then obtain j where j: "j < length ds" "take j ds = take j digs" "ds ! j < digs ! j" using spec by auto
    have "ds ! j \<in> set ds" using j by simp
    moreover have "is_digit (ds ! j)" "is_digit (digs ! j)" using j spec dig by (auto simp: list_all_length)
    then have "digit_index (ds ! j) < 61"
      using j(3) digit_index_less_62[of "digs ! j"] digit_less_iff[of "ds ! j" "digs ! j"] by linarith
    ultimately have "\<not> greatest_int ip" using ip by (auto simp: greatest_int_def intro!: bexI[of _ "ds ! j"])
    moreover have "ds @ x < digs @ y" for x y using less_at j spec by auto
    ultimately show ?thesis
      using False l v spec ip by (auto simp: increment_integer_def valid_int_def)
  next
    case True
    then have max: "\<forall>c\<in>set ds. digit_index c = 61" using spec by (auto simp: in_set_conv_nth)
    show ?thesis
      using len
    proof (cases rule: integer_len_cases)
      case lower
      show ?thesis
      proof (cases "h = CHR ''z''")
        case True
        then show ?thesis using \<open>carry\<close> l ip max v by (auto simp: increment_integer_def greatest_int_def)
      next
        case False
        then have "of_char h \<noteq> (122::nat)" using char_eqI[of h "CHR ''z''"] by auto
        then have s: "of_char (byte_succ h) = (of_char h + 1 :: nat)" "of_char h < (122::nat)" using lower by (auto simp: byte_succ_of_char)
        then have "integer_len (byte_succ h) = Inr (Suc (Suc (length digs)))"
          using lower spec by (subst integer_len_lower) auto
        then have "increment_integer ip = Inr (byte_succ h # digs @ [alphabet ! 0])"
            "valid_int (byte_succ h # digs @ [alphabet ! 0])" "h < byte_succ h" "\<not> greatest_int ip"
          using \<open>carry\<close> l ip v lower s False spec
          by (auto simp: increment_integer_def valid_int_def less_char_def greatest_int_def Let_def)
        then show ?thesis using ip by auto
      qed
    next
      case upper
      show ?thesis
      proof (cases "h = CHR ''Z''")
        case True
        then show ?thesis using \<open>carry\<close> l ip v
          by (auto simp: increment_integer_def greatest_int_def valid_int_def integer_len_def digit_index_def)
      next
        case False
        then have "of_char h \<noteq> (90::nat)" using char_eqI[of h "CHR ''Z''"] by auto
        then have s: "of_char (byte_succ h) = (of_char h + 1 :: nat)" "of_char h < (90::nat)" using upper by (auto simp: byte_succ_of_char)
        then have "integer_len (byte_succ h) = Inr (length digs)"
          using upper spec by (subst integer_len_upper) auto
        then have "increment_integer ip = Inr (byte_succ h # butlast digs)"
            "valid_int (byte_succ h # butlast digs)" "h < byte_succ h" "\<not> greatest_int ip"
          using \<open>carry\<close> l ip v upper s False spec
          by (auto simp: increment_integer_def valid_int_def less_char_def greatest_int_def Let_def list_all_iff
              dest: in_set_butlastD)
        then show ?thesis using ip by auto
      qed
    qed
  qed
qed

lemma decrement_integer_spec:
  assumes v: "valid_int ip"
  shows "\<exists>r. decrement_integer ip = Inr r \<and> (r = [] \<longleftrightarrow> least_int ip) \<and>
    (r \<noteq> [] \<longrightarrow> valid_int r \<and> (\<forall>x y. r @ x < ip @ y))"
proof -
  obtain h ds where ip: "ip = h # ds" "ds \<noteq> []" using valid_int_Cons[OF v] by blast
  have len: "integer_len h = Inr (Suc (length ds))" and dig: "list_all is_digit ds"
    using v ip by (auto simp: valid_int_def)
  obtain borrow digs where l: "dec_loop (length ds) ds = Inr (borrow, digs)"
    and spec: "length digs = length ds" "list_all is_digit digs"
      "\<not> borrow \<longrightarrow> (\<exists>j<length ds. take j digs = take j ds \<and> digs ! j < ds ! j)"
      "borrow \<longrightarrow> (\<forall>j<length ds. digit_index (ds ! j) = 0)"
    using dec_loop_spec[OF order.refl dig] by blast
  show ?thesis
  proof (cases borrow)
    case False
    then obtain j where j: "j < length ds" "take j digs = take j ds" "digs ! j < ds ! j" using spec by auto
    have "ds ! j \<in> set ds" using j by simp
    moreover have "is_digit (ds ! j)" "is_digit (digs ! j)" using j spec dig by (auto simp: list_all_length)
    then have "0 < digit_index (ds ! j)"
      using j(3) digit_less_iff[of "digs ! j" "ds ! j"] by linarith
    ultimately have "\<not> least_int ip" using ip by (auto simp: least_int_def intro!: bexI[of _ "ds ! j"])
    moreover have "digs @ x < ds @ y" for x y using less_at j spec by auto
    ultimately show ?thesis
      using False l v spec ip by (auto simp: decrement_integer_def valid_int_def)
  next
    case True
    then have min: "\<forall>c\<in>set ds. digit_index c = 0" using spec by (auto simp: in_set_conv_nth)
    show ?thesis
      using len
    proof (cases rule: integer_len_cases)
      case lower
      show ?thesis
      proof (cases "h = CHR ''a''")
        case True
        then show ?thesis using \<open>borrow\<close> l ip v
          by (auto simp: decrement_integer_def least_int_def valid_int_def integer_len_def)
      next
        case False
        then have "of_char h \<noteq> (97::nat)" using char_eqI[of h "CHR ''a''"] by auto
        then have s: "of_char (byte_pred h) = (of_char h - 1 :: nat)" "97 < (of_char h :: nat)" using lower by (auto simp: byte_pred_of_char)
        then have "integer_len (byte_pred h) = Inr (length digs)"
          using lower spec by (subst integer_len_lower) auto
        then have "decrement_integer ip = Inr (byte_pred h # butlast digs)"
            "valid_int (byte_pred h # butlast digs)" "byte_pred h < h" "\<not> least_int ip"
          using \<open>borrow\<close> l ip v lower s False spec
          by (auto simp: decrement_integer_def valid_int_def less_char_def least_int_def Let_def list_all_iff
              dest: in_set_butlastD)
        then show ?thesis using ip by auto
      qed
    next
      case upper
      show ?thesis
      proof (cases "h = CHR ''A''")
        case True
        then show ?thesis using \<open>borrow\<close> l ip min v by (auto simp: decrement_integer_def least_int_def)
      next
        case False
        then have "of_char h \<noteq> (65::nat)" using char_eqI[of h "CHR ''A''"] by auto
        then have s: "of_char (byte_pred h) = (of_char h - 1 :: nat)" "65 < (of_char h :: nat)" using upper by (auto simp: byte_pred_of_char)
        then have "integer_len (byte_pred h) = Inr (Suc (Suc (length digs)))"
          using upper spec by (subst integer_len_upper) auto
        then have "decrement_integer ip = Inr (byte_pred h # digs @ [last alphabet])"
            "valid_int (byte_pred h # digs @ [last alphabet])" "byte_pred h < h" "\<not> least_int ip"
          using \<open>borrow\<close> l ip v upper s False spec
          by (auto simp: decrement_integer_def valid_int_def less_char_def least_int_def Let_def)
        then show ?thesis using ip by auto
      qed
    qed
  qed
qed

subsection \<open>The contract of \<open>Between\<close>\<close>

lemma valid_int_prefix_free:
  assumes "valid_int ia" "valid_int ib" "ia \<noteq> ib" "ia @ fa < ib @ fb"
  shows "ia @ x < ib @ y"
proof -
  obtain h ds g es where a: "ia = h # ds" and b: "ib = g # es"
    using valid_int_Cons assms(1,2) by blast
  show ?thesis
  proof (cases "h = g")
    case True
    then have len: "length ds = length es" using assms(1,2) a b by (auto simp: valid_int_def)
    have "ds < es"
      using less_append_same_length[OF len[symmetric], of fb fa] assms(3,4) a b True
      by (metis append_Cons Cons_less_Cons less_not_sym linorder_less_linear)
    then show ?thesis using True len a b less_append_same_length by auto
  next
    case False
    then show ?thesis using assms(4) a b by auto
  qed
qed

lemma greatest_int_greatest:
  assumes "greatest_int ia" "valid_int ia" "valid_int ib" "ia \<noteq> ib"
  shows "\<not> ia @ fa < ib @ fb"
proof
  assume lt: "ia @ fa < ib @ fb"
  obtain h ds g es where a: "ia = h # ds" and b: "ib = g # es"
    using valid_int_Cons assms(2,3) by blast
  have "integer_len g = Inr (Suc (length es))" using assms(3) b by (simp add: valid_int_def)
  then have "g \<le> CHR ''z''" by (cases rule: integer_len_cases) (auto simp: less_eq_char_def)
  moreover have "h = CHR ''z''" using assms(1) a by (simp add: greatest_int_def)
  ultimately have hg: "h = g" using lt a b by auto
  then have len: "length ds = length es" using assms(2,3) a b by (auto simp: valid_int_def)
  have "ds @ fa < es @ fb" using lt a b hg by simp
  moreover have "ds \<noteq> es" using assms(4) a b hg by simp
  moreover have "\<not> ds < es"
    using all_greatest_not_less[OF len] assms(1,3) a b by (auto simp: greatest_int_def valid_int_def)
  ultimately show False
    using less_append_same_length[OF len[symmetric], of fb fa] by (metis linorder_less_linear order.asym)
qed

lemma validE:
  assumes "validate k = Inr ()"
  obtains ip f where "k = ip @ f" "valid_int ip" "valid_frac f"
  using assms validate_iff by blast

lemma validate_append: "valid_int ip \<Longrightarrow> valid_frac f \<Longrightarrow> validate (ip @ f) = Inr ()"
  using validate_iff by blast

lemma validate_int: "valid_int ip \<Longrightarrow> validate ip = Inr ()"
  using validate_append[of ip "[]"] by (simp add: valid_frac_def)

lemma not_validate_Nil [simp]: "validate [] \<noteq> Inr ()"
  by (simp add: validate_def integer_part_def)

lemma valid_int_nonempty: "valid_int ip \<Longrightarrow> ip \<noteq> []"
  by (simp add: valid_int_def)

lemma midpoint_open:
  "valid_frac f \<Longrightarrow> \<exists>m. midpoint f [] = Inr m \<and> f < m \<and> valid_frac m"
  using midpoint_spec[of f "[]"] by (auto simp: valid_frac_def)

text \<open>The four shapes of a call.\<close>

lemma between_prepend:
  assumes "validate nxt = Inr ()"
  shows "if least_int nxt then between [] nxt = Inl (invalid ''sort key space exhausted below'')
    else \<exists>k. between [] nxt = Inr k \<and> validate k = Inr () \<and> k < nxt"
proof -
  obtain ib fb where b: "nxt = ib @ fb" "valid_int ib" "valid_frac fb" using assms by (rule validE)
  have ne: "nxt \<noteq> []" using assms by auto
  have tl: "tl nxt = tl ib @ fb" "hd nxt = hd ib" using b valid_int_nonempty by auto
  show ?thesis
  proof (cases "fb = []")
    case True
    obtain r where r: "decrement_integer ib = Inr r" "r = [] \<longleftrightarrow> least_int ib"
        "r \<noteq> [] \<longrightarrow> valid_int r \<and> (\<forall>x y. r @ x < ib @ y)"
      using decrement_integer_spec[OF b(2)] by blast
    have "r \<noteq> [] \<Longrightarrow> r < ib" using r(3) by (metis append_Nil2)
    then show ?thesis using assms b True r ne by (auto simp: between_def validate_int)
  next
    case False
    have "\<not> least_int nxt"
    proof
      assume "least_int nxt"
      then have "digit_index (last fb) = 0" using False tl by (auto simp: least_int_def)
      then show False using is_digit_nonzero[of "last fb"] b(3) False by (auto simp: valid_frac_def)
    qed
    then show ?thesis using assms b False ne by (auto simp: between_def validate_int)
  qed
qed

lemma between_append:
  assumes "validate prev = Inr ()"
  shows "\<exists>k. between prev [] = Inr k \<and> validate k = Inr () \<and> prev < k"
proof -
  obtain ia fa where a: "prev = ia @ fa" "valid_int ia" "valid_frac fa" using assms by (rule validE)
  have ne: "prev \<noteq> []" using assms by auto
  obtain r where r: "increment_integer ia = Inr r" "r = [] \<longleftrightarrow> greatest_int ia"
      "r \<noteq> [] \<longrightarrow> valid_int r \<and> (\<forall>x y. ia @ x < r @ y)"
    using increment_integer_spec[OF a(2)] by blast
  obtain m where m: "midpoint fa [] = Inr m" "fa < m" "valid_frac m" using midpoint_open[OF a(3)] by blast
  have "r \<noteq> [] \<Longrightarrow> prev < r" using r(3) a(1) by (metis append_Nil2)
  then show ?thesis
    using assms a ne r m by (cases "r = []") (auto simp: between_def validate_int validate_append)
qed

lemma between_inner:
  assumes "validate prev = Inr ()" "validate nxt = Inr ()" "prev < nxt"
  shows "\<exists>k. between prev nxt = Inr k \<and> validate k = Inr () \<and> prev < k \<and> k < nxt"
proof -
  obtain ia fa where a: "prev = ia @ fa" "valid_int ia" "valid_frac fa" using assms(1) by (rule validE)
  obtain ib fb where b: "nxt = ib @ fb" "valid_int ib" "valid_frac fb" using assms(2) by (rule validE)
  have ne: "prev \<noteq> []" "nxt \<noteq> []" "\<not> nxt \<le> prev" using assms by auto
  show ?thesis
  proof (cases "ia = ib")
    case True
    obtain m where m: "midpoint fa fb = Inr m" "fa < m" "m < fb" "valid_frac m"
      using midpoint_spec[OF a(3) b(3)] assms(3) a(1) b(1) True by (cases "fb = []") auto
    then show ?thesis using assms a b ne True by (auto simp: between_def validate_append)
  next
    case False
    obtain r where r: "increment_integer ia = Inr r" "r = [] \<longleftrightarrow> greatest_int ia"
        "r \<noteq> [] \<longrightarrow> valid_int r \<and> (\<forall>x y. ia @ x < r @ y)"
      using increment_integer_spec[OF a(2)] by blast
    have rne: "r \<noteq> []" using r(2) greatest_int_greatest[OF _ a(2) b(2) False] assms(3) a(1) b(1) by auto
    obtain m where m: "midpoint fa [] = Inr m" "fa < m" "valid_frac m" using midpoint_open[OF a(3)] by blast
    have "prev < r" using r(3) a(1) rne by (metis append_Nil2)
    moreover have "ia @ m < nxt"
      using valid_int_prefix_free[OF a(2) b(2) False] assms(3) a(1) b(1) by auto
    ultimately show ?thesis
      using assms a b ne False r rne m by (cases "r < nxt") (auto simp: between_def validate_int validate_append)
  qed
qed

lemma between_empty: "between [] [] = Inr (seed GrowsUp)"
  by (simp add: between_def)

lemma validate_seed: "validate (seed g) = Inr ()"
  by (cases g) (auto simp: validate_def integer_part_def integer_len_def digit_index_def)

end
