(* ===== verification/Placement.thy ===== *)
theory Placement
  imports Sort_Key
begin

section \<open>Placing rows in an ordered list\<close>

text \<open>
  \<open>internal/shared/sortkey/place.go\<close>: \<open>Place\<close>, \<open>MoveWithin\<close>, \<open>Append\<close>, \<open>Prepend\<close> and
  \<open>Resequence\<close>, which every ordered list of the program goes through. What they need of
  \<open>Between\<close> is the locale \<open>key_space\<close>; its interpretation \<open>ks\<close> discharges the laws for
  the model of \<open>sortkey.go\<close>.
\<close>

subsection \<open>The interface of a key space\<close>

locale key_space =
  fixes btw :: "string \<Rightarrow> string \<Rightarrow> 'e + string"
    and ok :: "string \<Rightarrow> bool"
    and start :: "'g \<Rightarrow> string"
  assumes ok_nonempty: "ok k \<Longrightarrow> k \<noteq> []"
    and ok_start: "ok (start g)"
    and btw_above: "ok p \<Longrightarrow> \<exists>k. btw p [] = Inr k \<and> ok k \<and> p < k"
    and btw_below: "ok n \<Longrightarrow> btw [] n = Inr k \<Longrightarrow> ok k \<and> k < n"
    and btw_inner: "ok p \<Longrightarrow> ok n \<Longrightarrow> p < n \<Longrightarrow> \<exists>k. btw p n = Inr k \<and> ok k \<and> p < k \<and> k < n"
begin

text \<open>The slot after \<open>p\<close>: below the first following key that is above \<open>p\<close>.\<close>

lemma slot_after:
  assumes "ok p" and "\<forall>k\<in>set ks. ok k" and "sorted ks"
  shows "\<exists>k. (case find (\<lambda>n. p < n) ks of Some n \<Rightarrow> btw p n | None \<Rightarrow> btw p []) = Inr k \<and>
    ok k \<and> p < k \<and> (\<forall>n\<in>set ks. p < n \<longrightarrow> k < n)"
proof (cases "find (\<lambda>n. p < n) ks")
  case None
  then have "\<forall>n\<in>set ks. \<not> p < n" by (simp add: find_None_iff)
  then show ?thesis using None btw_above[OF assms(1)] by auto
next
  case (Some n)
  then obtain i where i: "i < length ks" "p < ks ! i" "n = ks ! i" "\<forall>j<i. \<not> p < ks ! j"
    by (auto simp: find_Some_iff)
  then have "ok n" "p < n" using assms(2) by auto
  then obtain k where k: "btw p n = Inr k" "ok k" "p < k" "k < n" using btw_inner assms(1) by blast
  have "k < m" if m: "m \<in> set ks" "p < m" for m
  proof -
    obtain j where j: "j < length ks" "m = ks ! j" using m(1) by (auto simp: in_set_conv_nth)
    then have "i \<le> j" using i(4) m(2) not_less by blast
    then have "n \<le> m" using sorted_nth_mono[OF assms(3)] i(3) j by simp
    then show ?thesis using k(4) by simp
  qed
  then show ?thesis using Some k by auto
qed

text \<open>One step of a walk that keeps the highest key placed so far.\<close>

lemma next_above:
  assumes "p = [] \<or> ok p"
  shows "\<exists>k. (if p = [] then Inr (start g) else btw p []) = Inr k \<and> ok k \<and> p < k"
proof (cases "p = []")
  case True
  then show ?thesis using ok_start[of g] ok_nonempty[OF ok_start, of g] by simp
next
  case False
  then show ?thesis using assms btw_above by simp
qed

end

abbreviation valid_key :: "key \<Rightarrow> bool" where
  "valid_key k \<equiv> validate k = Inr ()"

interpretation ks: key_space between valid_key seed
proof unfold_locales
  show "k \<noteq> []" if "valid_key k" for k using that by auto
  show "valid_key (seed g)" for g by (rule validate_seed)
  show "\<exists>k. between p [] = Inr k \<and> valid_key k \<and> p < k" if "valid_key p" for p
    using between_append[OF that] .
  show "valid_key k \<and> k < n" if "valid_key n" "between [] n = Inr k" for n k
    using between_prepend[OF that(1)] that(2) by (auto split: if_splits)
  show "\<exists>k. between p n = Inr k \<and> valid_key k \<and> p < k \<and> k < n"
    if "valid_key p" "valid_key n" "p < n" for p n
    using between_inner[OF that] .
qed

subsection \<open>\<open>Place\<close>, \<open>MoveWithin\<close>, \<open>Append\<close>, \<open>Prepend\<close>\<close>

record item =
  item_id :: string
  item_key :: key

text \<open>The first index whose id is the given one (the \<open>for i, s := range siblings\<close> loop).\<close>

fun index_of :: "string \<Rightarrow> item list \<Rightarrow> nat option" where
  "index_of i [] = None"
| "index_of i (s # ss) = (if item_id s = i then Some 0 else map_option Suc (index_of i ss))"

definition place :: "item list \<Rightarrow> string \<Rightarrow> growth \<Rightarrow> key result" where
  "place siblings after_id g =
     (if siblings = [] then Inr (seed g)
      else if after_id = [] then between [] (item_key (hd siblings))
      else case index_of after_id siblings of
        None \<Rightarrow> between (item_key (last siblings)) []
      | Some idx \<Rightarrow>
          (let prev = item_key (siblings ! idx) in
           case find (\<lambda>s. prev < item_key s) (drop (Suc idx) siblings) of
             Some s \<Rightarrow> between prev (item_key s)
           | None \<Rightarrow> between prev []))"

text \<open>The loop of \<open>MoveWithin\<close>: the first row with the id is taken out, the others are siblings.\<close>

fun take_out :: "('t \<Rightarrow> item) \<Rightarrow> string \<Rightarrow> 't list \<Rightarrow> 't option \<times> item list" where
  "take_out f moved_id [] = (None, [])"
| "take_out f moved_id (it # its) =
     (if item_id (f it) = moved_id then (Some it, map f its)
      else let (m, sibs) = take_out f moved_id its in (m, f it # sibs))"

text \<open>\<open>Inr None\<close> is \<open>ok == false\<close>; an error of \<open>Place\<close> is returned with \<open>ok\<close> set and ends the caller.\<close>

definition move_within ::
  "'t list \<Rightarrow> string \<Rightarrow> string \<Rightarrow> ('t \<Rightarrow> item) \<Rightarrow> growth \<Rightarrow> ('t \<times> key) option result" where
  "move_within items moved_id after_id f g =
     (case take_out f moved_id items of
        (None, _) \<Rightarrow> Inr None
      | (Some moved, siblings) \<Rightarrow>
          rbind (place siblings after_id g) (\<lambda>k. Inr (Some (moved, k))))"

definition append_key :: "'t list \<Rightarrow> ('t \<Rightarrow> item) \<Rightarrow> growth \<Rightarrow> key result" where
  "append_key items f g =
     (if items = [] then Inr (seed g) else between (item_key (f (last items))) [])"

definition prepend_key :: "'t list \<Rightarrow> ('t \<Rightarrow> item) \<Rightarrow> growth \<Rightarrow> key result" where
  "prepend_key items f g =
     (if items = [] then Inr (seed g) else between [] (item_key (f (hd items))))"

subsection \<open>\<open>Resequence\<close>\<close>

text \<open>
  The map \<open>byID\<close> keeps the last row of an id; \<open>changed\<close> is the map that is returned and
  \<open>prev\<close> the highest key placed so far.
\<close>

definition by_id :: "'t list \<Rightarrow> ('t \<Rightarrow> item) \<Rightarrow> string \<Rightarrow> item option" where
  "by_id items f = map_of (rev (map (\<lambda>it. (item_id (f it), f it)) items))"

definition reseq_step ::
  "(string \<Rightarrow> item option) \<Rightarrow> growth \<Rightarrow> (string \<Rightarrow> key option) \<times> key \<Rightarrow> string \<Rightarrow>
    ((string \<Rightarrow> key option) \<times> key) result" where
  "reseq_step byid g st i =
     (case st of (changed, prev) \<Rightarrow>
       (case byid i of
          None \<Rightarrow> Inr (changed, prev)
        | Some e \<Rightarrow>
            if item_key e \<noteq> [] \<and> prev < item_key e then Inr (changed, item_key e)
            else rbind (if prev = [] then Inr (seed g) else between prev []) (\<lambda>k.
              Inr (changed(i \<mapsto> k), k))))"

definition resequence ::
  "'t list \<Rightarrow> string list \<Rightarrow> ('t \<Rightarrow> item) \<Rightarrow> growth \<Rightarrow> (string \<Rightarrow> key option) result" where
  "resequence items order f g =
     rbind (rfold (reseq_step (by_id items f) g) (Map.empty, []) order) (\<lambda>(changed, prev). Inr changed)"

subsection \<open>Correctness of placing\<close>

abbreviation sorted_items :: "item list \<Rightarrow> bool" where
  "sorted_items its \<equiv> sorted (map item_key its)"

abbreviation valid_items :: "item list \<Rightarrow> bool" where
  "valid_items its \<equiv> \<forall>s\<in>set its. valid_key (item_key s)"

lemma index_of_Some:
  "index_of i ss = Some n \<Longrightarrow> n < length ss \<and> item_id (ss ! n) = i \<and> (\<forall>m<n. item_id (ss ! m) \<noteq> i)"
proof (induction ss arbitrary: n)
  case Nil
  then show ?case by simp
next
  case (Cons s ss)
  then show ?case by (fastforce simp: less_Suc_eq_0_disj split: if_splits)
qed

lemma index_of_None: "index_of i ss = None \<longleftrightarrow> i \<notin> item_id ` set ss"
  by (induction ss) auto

lemma find_map: "find P (map f xs) = map_option f (find (P \<circ> f) xs)"
  by (induction xs) auto

lemma place_after:
  assumes "sorted_items sibs" "valid_items sibs" "index_of after sibs = Some idx" "after \<noteq> []"
  shows "\<exists>k. place sibs after g = Inr k \<and> valid_key k \<and> item_key (sibs ! idx) < k \<and>
    (\<forall>s\<in>set sibs. item_key (sibs ! idx) < item_key s \<longrightarrow> k < item_key s)"
proof -
  let ?p = "item_key (sibs ! idx)" and ?rest = "drop (Suc idx) sibs"
  have idx: "idx < length sibs" using index_of_Some[OF assms(3)] by simp
  have srt: "sorted (map item_key ?rest)" using assms(1) by (simp only: drop_map[symmetric] sorted_wrt_drop)
  have ok: "\<forall>k\<in>set (map item_key ?rest). valid_key k" using assms(2) by (auto dest: in_set_dropD)
  have okp: "valid_key ?p" using assms(2) idx by simp
  obtain k where k: "(case find (\<lambda>n. ?p < n) (map item_key ?rest) of Some n \<Rightarrow> between ?p n | None \<Rightarrow> between ?p []) = Inr k"
      "valid_key k" "?p < k" "\<forall>n\<in>set (map item_key ?rest). ?p < n \<longrightarrow> k < n"
    using ks.slot_after[OF okp ok srt] by blast
  have "k < item_key s" if s: "s \<in> set sibs" "?p < item_key s" for s
  proof -
    obtain j where j: "j < length sibs" "s = sibs ! j" using s(1) by (auto simp: in_set_conv_nth)
    have "idx < j"
    proof (rule ccontr)
      assume "\<not> idx < j"
      then have "item_key s \<le> ?p" using sorted_nth_mono[OF assms(1), of j idx] j idx by simp
      then show False using s(2) by simp
    qed
    then have "?rest ! (j - Suc idx) = s" "j - Suc idx < length ?rest" using j by auto
    then have "s \<in> set ?rest" using nth_mem by metis
    then show ?thesis using k(4) s(2) by auto
  qed
  moreover have "place sibs after g = Inr k"
    using k(1) assms(3,4) idx by (cases "sibs = []") (auto simp: place_def find_map o_def Let_def split: option.splits)
  ultimately show ?thesis using k(2,3) by blast
qed

lemma place_absent:
  assumes "sorted_items sibs" "valid_items sibs" "after \<notin> item_id ` set sibs" "after \<noteq> []" "sibs \<noteq> []"
  shows "\<exists>k. place sibs after g = Inr k \<and> valid_key k \<and> (\<forall>s\<in>set sibs. item_key s < k)"
proof -
  have "valid_key (item_key (last sibs))" using assms(2,5) by simp
  then obtain k where k: "between (item_key (last sibs)) [] = Inr k" "valid_key k" "item_key (last sibs) < k"
    using ks.btw_above by blast
  have "item_key s \<le> item_key (last sibs)" if "s \<in> set sibs" for s
    using that assms(1,5) by (induction sibs) auto
  then show ?thesis using k assms(3-5) by (auto simp: place_def index_of_None[symmetric] intro: le_less_trans)
qed

lemma place_front:
  assumes "sorted_items sibs" "valid_items sibs" "sibs \<noteq> []"
  shows "if least_int (item_key (hd sibs)) then place sibs [] g = Inl (invalid ''sort key space exhausted below'')
    else \<exists>k. place sibs [] g = Inr k \<and> valid_key k \<and> (\<forall>s\<in>set sibs. k < item_key s)"
proof -
  have v: "valid_key (item_key (hd sibs))" using assms(2,3) by simp
  have le: "item_key (hd sibs) \<le> item_key s" if "s \<in> set sibs" for s
    using that assms(1,3) by (cases sibs) auto
  show ?thesis
    using between_prepend[OF v] assms(3) le by (fastforce simp: place_def intro: less_le_trans)
qed

text \<open>Inserting the placed row by its key puts it right after the anchor.\<close>

lemma insort_slot:
  assumes "sorted_wrt (\<lambda>a b. item_key a < item_key b) sibs" "idx < length sibs"
    and "item_key (sibs ! idx) < item_key m"
    and "\<forall>s\<in>set sibs. item_key (sibs ! idx) < item_key s \<longrightarrow> item_key m < item_key s"
  shows "insort_key item_key m sibs = take (Suc idx) sibs @ m # drop (Suc idx) sibs"
  using assms
proof (induction sibs arbitrary: idx)
  case Nil
  then show ?case by simp
next
  case (Cons s ss)
  show ?case
  proof (cases idx)
    case 0
    then show ?thesis using Cons.prems by (cases ss) auto
  next
    case (Suc i)
    then have lt: "item_key s < item_key (ss ! i)" and i: "i < length ss" using Cons.prems by auto
    have "insort_key item_key m ss = take (Suc i) ss @ m # drop (Suc i) ss"
      using Cons.IH[of i] Cons.prems Suc i by auto
    moreover have "\<not> item_key m \<le> item_key s" using lt Cons.prems(3) Suc by auto
    ultimately show ?thesis using Suc by simp
  qed
qed

subsection \<open>\<open>MoveWithin\<close>\<close>

lemma take_out_None:
  "fst (take_out f i items) = None \<longleftrightarrow> i \<notin> (item_id \<circ> f) ` set items"
  by (induction items) (auto split: prod.splits)

lemma take_out_Some:
  assumes "take_out f i items = (Some m, sibs)"
  shows "\<exists>pre post. items = pre @ m # post \<and> sibs = map f (pre @ post) \<and> item_id (f m) = i \<and>
    i \<notin> (item_id \<circ> f) ` set pre"
  using assms
proof (induction items arbitrary: sibs)
  case Nil
  then show ?case by simp
next
  case (Cons x xs)
  show ?case
  proof (cases "item_id (f x) = i")
    case True
    then show ?thesis using Cons.prems by (intro exI[of _ "[]"] exI[of _ xs]) auto
  next
    case False
    then obtain sibs' where t: "take_out f i xs = (Some m, sibs')" "sibs = f x # sibs'"
      using Cons.prems by (auto split: prod.splits)
    obtain pre post where "xs = pre @ m # post" "sibs' = map f (pre @ post)" "item_id (f m) = i" "i \<notin> (item_id \<circ> f) ` set pre"
      using Cons.IH[OF t(1)] by blast
    then show ?thesis using t(2) False by (intro exI[of _ "x # pre"] exI[of _ post]) auto
  qed
qed

text \<open>
  Moving a row of a strictly ordered list with distinct ids after an anchor: sorting by the new key
  gives the other rows in their old order with the moved row right after the anchor.
\<close>

lemma move_within_anchor:
  assumes srt: "sorted_wrt (\<lambda>a b. item_key a < item_key b) (map f items)"
    and val: "\<forall>it\<in>set items. valid_key (item_key (f it))"
    and m: "take_out f mid items = (Some m, sibs)"
    and idx: "index_of after sibs = Some idx" and ne: "after \<noteq> []"
  shows "\<exists>k. move_within items mid after f g = Inr (Some (m, k)) \<and> valid_key k \<and>
    insort_key item_key (f m\<lparr>item_key := k\<rparr>) sibs = take (Suc idx) sibs @ f m\<lparr>item_key := k\<rparr> # drop (Suc idx) sibs"
proof -
  obtain pre post where split: "items = pre @ m # post" "sibs = map f (pre @ post)"
    using take_out_Some[OF m] by blast
  have s: "sorted_wrt (\<lambda>a b. item_key a < item_key b) sibs"
    using srt split by (auto simp: sorted_wrt_append)
  then have s': "sorted_items sibs" by (simp add: sorted_wrt_map) (rule sorted_wrt_mono_rel, auto)
  have v: "valid_items sibs" using val split by auto
  obtain k where k: "place sibs after g = Inr k" "valid_key k" "item_key (sibs ! idx) < k"
      "\<forall>s\<in>set sibs. item_key (sibs ! idx) < item_key s \<longrightarrow> k < item_key s"
    using place_after[OF s' v idx ne] by blast
  have "idx < length sibs" using index_of_Some[OF idx] by simp
  then have "insort_key item_key (f m\<lparr>item_key := k\<rparr>) sibs = take (Suc idx) sibs @ f m\<lparr>item_key := k\<rparr> # drop (Suc idx) sibs"
    using insort_slot[OF s] k(3,4) by simp
  then show ?thesis using k(1,2) m by (auto simp: move_within_def)
qed

subsection \<open>\<open>Resequence\<close>\<close>

definition final_key :: "(string \<Rightarrow> item option) \<Rightarrow> (string \<Rightarrow> key option) \<Rightarrow> string \<Rightarrow> key option" where
  "final_key byid changed i =
     (case byid i of None \<Rightarrow> None | Some e \<Rightarrow> Some (case changed i of Some k \<Rightarrow> k | None \<Rightarrow> item_key e))"

text \<open>The keys the requested rows end up with, in the requested order.\<close>

definition order_keys :: "(string \<Rightarrow> item option) \<Rightarrow> (string \<Rightarrow> key option) \<Rightarrow> string list \<Rightarrow> key list" where
  "order_keys byid changed order = List.map_filter (final_key byid changed) order"

lemma reseq_step_spec:
  assumes "prev = [] \<or> valid_key prev" "\<forall>i e. byid i = Some e \<longrightarrow> item_key e = [] \<or> valid_key (item_key e)"
  shows "\<exists>changed' prev'. reseq_step byid g (changed, prev) i = Inr (changed', prev') \<and>
    (prev' = [] \<or> valid_key prev') \<and>
    (byid i = None \<longrightarrow> changed' = changed \<and> prev' = prev) \<and>
    (byid i \<noteq> None \<longrightarrow> prev < prev' \<and> (changed' = changed(i \<mapsto> prev') \<and> valid_key prev' \<or>
       changed' = changed \<and> item_key (the (byid i)) = prev'))"
proof (cases "byid i")
  case None
  then show ?thesis using assms(1) by (auto simp: reseq_step_def)
next
  case (Some e)
  obtain k where k: "(if prev = [] then Inr (seed g) else between prev []) = Inr k" "valid_key k" "prev < k"
    using ks.next_above[OF assms(1)] by blast
  have "item_key e = [] \<or> valid_key (item_key e)" using assms(2) Some by blast
  then show ?thesis using Some k by (auto simp: reseq_step_def)
qed

lemma order_keys_Cons:
  "order_keys byid ch (i # order) =
    (case final_key byid ch i of None \<Rightarrow> order_keys byid ch order | Some k \<Rightarrow> k # order_keys byid ch order)"
  by (simp add: order_keys_def List.map_filter_simps split: option.split)

lemma reseq_fold:
  assumes "\<forall>i e. byid i = Some e \<longrightarrow> item_key e = [] \<or> valid_key (item_key e)"
  shows "distinct order \<Longrightarrow> set order \<inter> dom changed = {} \<Longrightarrow> prev = [] \<or> valid_key prev \<Longrightarrow>
    \<exists>changed' prev'. rfold (reseq_step byid g) (changed, prev) order = Inr (changed', prev') \<and>
      (\<forall>i. i \<notin> set order \<longrightarrow> changed' i = changed i) \<and>
      (\<forall>i k. changed' i = Some k \<longrightarrow> changed i = Some k \<or> i \<in> set order \<and> byid i \<noteq> None \<and> valid_key k) \<and>
      sorted_wrt (<) (prev # order_keys byid changed' order)"
proof (induction order arbitrary: changed prev)
  case Nil
  then show ?case by (simp add: order_keys_def List.map_filter_simps)
next
  case (Cons i order)
  obtain ch1 prev1 where st: "reseq_step byid g (changed, prev) i = Inr (ch1, prev1)"
    and p1: "prev1 = [] \<or> valid_key prev1"
    and none: "byid i = None \<longrightarrow> ch1 = changed \<and> prev1 = prev"
    and some: "byid i \<noteq> None \<longrightarrow> prev < prev1 \<and> (ch1 = changed(i \<mapsto> prev1) \<and> valid_key prev1 \<or>
       ch1 = changed \<and> item_key (the (byid i)) = prev1)"
    using reseq_step_spec[OF Cons.prems(3) assms] by blast
  have ch1: "ch1 = changed \<or> ch1 = changed(i \<mapsto> prev1) \<and> byid i \<noteq> None \<and> valid_key prev1" using none some by blast
  have "set order \<inter> dom ch1 = {}" using ch1 Cons.prems(1,2) by (auto simp: disjoint_iff split: if_splits)
  then obtain ch' prev' where r: "rfold (reseq_step byid g) (ch1, prev1) order = Inr (ch', prev')"
    and frame: "\<forall>i. i \<notin> set order \<longrightarrow> ch' i = ch1 i"
    and dom: "\<forall>i k. ch' i = Some k \<longrightarrow> ch1 i = Some k \<or> i \<in> set order \<and> byid i \<noteq> None \<and> valid_key k"
    and srt: "sorted_wrt (<) (prev1 # order_keys byid ch' order)"
    using Cons.IH[of ch1 prev1] Cons.prems(1) p1 by auto
  have i: "ch' i = ch1 i" "changed i = None" using frame Cons.prems(1,2) by auto
  have "sorted_wrt (<) (prev # order_keys byid ch' (i # order))"
  proof (cases "byid i")
    case None
    then show ?thesis using none srt by (simp add: order_keys_Cons final_key_def)
  next
    case (Some e)
    then have "final_key byid ch' i = Some prev1" using some i by (auto simp: final_key_def)
    then show ?thesis using some Some srt by (auto simp: order_keys_Cons intro: less_trans)
  qed
  moreover have "rfold (reseq_step byid g) (changed, prev) (i # order) = Inr (ch', prev')" using st r by simp
  moreover have "\<forall>j. j \<notin> set (i # order) \<longrightarrow> ch' j = changed j" using frame ch1 by auto
  moreover have "\<forall>j k. ch' j = Some k \<longrightarrow> changed j = Some k \<or> j \<in> set (i # order) \<and> byid j \<noteq> None \<and> valid_key k"
  proof (intro allI impI)
    fix j k
    assume "ch' j = Some k"
    then have "ch1 j = Some k \<or> j \<in> set order \<and> byid j \<noteq> None \<and> valid_key k" using dom by blast
    then show "changed j = Some k \<or> j \<in> set (i # order) \<and> byid j \<noteq> None \<and> valid_key k"
      using ch1 by (cases "j = i") auto
  qed
  ultimately show ?case by blast
qed

lemma by_id_valid:
  assumes "\<forall>it\<in>set items. item_key (f it) = [] \<or> valid_key (item_key (f it))"
  shows "\<forall>i e. by_id items f i = Some e \<longrightarrow> item_key e = [] \<or> valid_key (item_key e)"
  using assms by (auto simp: by_id_def dest!: map_of_SomeD)

lemma resequence_spec:
  assumes "distinct order" "\<forall>it\<in>set items. item_key (f it) = [] \<or> valid_key (item_key (f it))"
  shows "\<exists>changed. resequence items order f g = Inr changed \<and>
    (\<forall>i k. changed i = Some k \<longrightarrow> i \<in> set order \<and> by_id items f i \<noteq> None \<and> valid_key k) \<and>
    sorted_wrt (<) (order_keys (by_id items f) changed order)"
proof -
  obtain ch prev where "rfold (reseq_step (by_id items f) g) (Map.empty, []) order = Inr (ch, prev)"
      "\<forall>i k. ch i = Some k \<longrightarrow> i \<in> set order \<and> by_id items f i \<noteq> None \<and> valid_key k"
      "sorted_wrt (<) ([] # order_keys (by_id items f) ch order)"
    using reseq_fold[OF by_id_valid[OF assms(2)] assms(1), where g = g and changed = Map.empty and prev = "[]"] by auto
  then show ?thesis by (auto simp: resequence_def)
qed

text \<open>An order that already holds is not rewritten.\<close>

lemma reseq_fold_sorted:
  assumes "sorted_wrt (<) (prev # order_keys byid changed order)"
    and "\<forall>i\<in>set order. changed i = None"
  shows "\<exists>prev'. rfold (reseq_step byid g) (changed, prev) order = Inr (changed, prev')"
  using assms
proof (induction order arbitrary: prev)
  case Nil
  then show ?case by simp
next
  case (Cons i order)
  show ?case
  proof (cases "byid i")
    case None
    then show ?thesis using Cons by (auto simp: reseq_step_def order_keys_Cons final_key_def)
  next
    case (Some e)
    then have f: "final_key byid changed i = Some (item_key e)" using Cons.prems(2) by (simp add: final_key_def)
    then have "prev < item_key e" "sorted_wrt (<) (item_key e # order_keys byid changed order)"
      using Cons.prems(1) by (auto simp: order_keys_Cons)
    then show ?thesis using Cons.IH[of "item_key e"] Cons.prems(2) Some by (auto simp: reseq_step_def)
  qed
qed

lemma resequence_sorted_noop:
  assumes "sorted_wrt (<) ([] # order_keys (by_id items f) Map.empty order)"
  shows "resequence items order f g = Inr Map.empty"
  using reseq_fold_sorted[OF assms, of g] by (auto simp: resequence_def)

subsection \<open>The length of appended keys\<close>

definition digits_val :: "string \<Rightarrow> int" where
  "digits_val ds = foldl (\<lambda>v c. v * 62 + digit_index c) 0 ds"

lemma digits_val_snoc [simp]: "digits_val (ds @ [c]) = digits_val ds * 62 + digit_index c"
  by (simp add: digits_val_def)

lemma digits_val_Nil [simp]: "digits_val [] = 0"
  by (simp add: digits_val_def)

lemma digits_val_zeros: "digits_val (replicate n (alphabet ! 0)) = 0"
proof (induction n)
  case (Suc n)
  then show ?case using digits_val_snoc[of "replicate n (alphabet ! 0)" "alphabet ! 0"]
    by (simp add: replicate_append_same)
qed simp

lemma digits_val_nonneg: "list_all is_digit ds \<Longrightarrow> 0 \<le> digits_val ds"
  by (induction ds rule: rev_induct) auto

lemma inc_loop_frame: "inc_loop i digs = (carry, digs') \<Longrightarrow> i \<le> length digs \<Longrightarrow>
    drop i digs' = drop i digs \<and> length digs' = length digs"
proof (induction i digs rule: inc_loop.induct)
  case (1 digs)
  then show ?case by simp
next
  case (2 i digs)
  show ?case
  proof (cases "digit_index (digs ! i) + 1 = int (length alphabet)")
    case True
    then have "inc_loop i (digs[i := alphabet ! 0]) = (carry, digs')" using "2.prems" by simp
    then have "drop i digs' = drop i (digs[i := alphabet ! 0])" "length digs' = length digs"
      using "2.IH"[OF refl True] "2.prems"(2) by auto
    then have "drop (Suc i) digs' = drop (Suc i) (digs[i := alphabet ! 0])"
      by (metis drop_Suc drop_tl tl_drop)
    then show ?thesis using \<open>length digs' = length digs\<close> by simp
  next
    case False
    then show ?thesis using "2.prems" by (auto simp: Let_def)
  qed
qed

lemma inc_loop_val:
  "inc_loop i digs = (carry, digs') \<Longrightarrow> i \<le> length digs \<Longrightarrow> list_all is_digit digs \<Longrightarrow>
    (if carry then digits_val (take i digs) = 62 ^ i - 1 \<and> take i digs' = replicate i (alphabet ! 0)
     else digits_val (take i digs') = digits_val (take i digs) + 1)"
proof (induction i digs rule: inc_loop.induct)
  case (1 digs)
  then show ?case by simp
next
  case (2 i digs)
  have i: "i < length digs" using "2.prems"(2) by simp
  note t = take_Suc_conv_app_nth
  have dig: "is_digit (digs ! i)" using i "2.prems"(3) by (simp add: list_all_length)
  show ?case
  proof (cases "digit_index (digs ! i) + 1 = int (length alphabet)")
    case True
    let ?d = "digs[i := alphabet ! 0]"
    have r: "inc_loop i ?d = (carry, digs')" using "2.prems"(1) True by simp
    have v: "list_all is_digit ?d" using "2.prems"(3) by (rule list_all_update) simp
    have f: "drop i digs' = drop i ?d" "length digs' = length digs" using inc_loop_frame[OF r] i by auto
    then have di: "digs' ! i = alphabet ! 0"
      using i by (metis Cons_nth_drop_Suc length_list_update nth_list_update_eq list.inject)
    have IH: "if carry then digits_val (take i digs) = 62 ^ i - 1 \<and> take i digs' = replicate i (alphabet ! 0)
     else digits_val (take i digs') = digits_val (take i digs) + 1"
      using "2.IH"[OF refl True r _ v] i by (cases carry) simp_all
    have "digit_index (digs ! i) = 61" using True by simp
    then show ?thesis using IH i f(2) di by (auto simp: t replicate_append_same simp flip: replicate_Suc)
  next
    case False
    have "digit_index (digs ! i) \<noteq> 61" using False by simp
    with digit_index_less_62[of "digs ! i"] have lt: "nat (digit_index (digs ! i) + 1) < 62" by linarith
    have "carry = False" "digs' = digs[i := alphabet ! nat (digit_index (digs ! i) + 1)]"
      using "2.prems"(1) False by (simp_all add: Let_def)
    then show ?thesis using i lt dig by (simp add: t)
  qed
qed

text \<open>
  The position of a non-negative integer part: the number of integer parts from \<open>a0\<close> to it.
  \<open>magnitude_offset L\<close> counts those with fewer than \<open>L\<close> digits.
\<close>

definition magnitude_offset :: "nat \<Rightarrow> int" where
  "magnitude_offset n = (\<Sum>j\<in>{1..<n}. 62 ^ j)"

definition int_position :: "string \<Rightarrow> int" where
  "int_position ip = magnitude_offset (length (tl ip)) + digits_val (tl ip)"

lemma magnitude_offset_Suc: "1 \<le> n \<Longrightarrow> magnitude_offset (Suc n) = magnitude_offset n + 62 ^ n"
  by (simp add: magnitude_offset_def)

lemma magnitude_offset_mono: "m \<le> n \<Longrightarrow> magnitude_offset m \<le> magnitude_offset n"
  unfolding magnitude_offset_def by (rule sum_mono2) auto

lemma increment_position:
  assumes v: "valid_int ip" and lo: "CHR ''a'' \<le> hd ip" and hi: "hd ip < CHR ''z''"
  shows "\<exists>r. increment_integer ip = Inr r \<and> valid_int r \<and> CHR ''a'' \<le> hd r \<and> int_position r = int_position ip + 1"
proof -
  obtain h ds where ip: "ip = h # ds" "ds \<noteq> []" using valid_int_Cons[OF v] by blast
  obtain carry digs where l: "inc_loop (length ds) ds = (carry, digs)" by fastforce
  have dig: "list_all is_digit ds" using v ip by (simp add: valid_int_def)
  have val: "if carry then digits_val ds = 62 ^ length ds - 1 \<and> digs = replicate (length ds) (alphabet ! 0)
     else digits_val digs = digits_val ds + 1" and len: "length digs = length ds"
    using inc_loop_val[OF l order.refl dig] inc_loop_frame[OF l] by auto
  obtain r where r: "increment_integer ip = Inr r" "valid_int r"
    using increment_integer_spec[OF v] hi by (auto simp: greatest_int_def)
  have h: "97 \<le> (of_char h :: nat)" "(of_char h :: nat) < 122" using lo hi ip by (auto simp: less_eq_char_def less_char_def)
  then have hs: "of_char (byte_succ h) = (of_char h + 1 :: nat)" by (simp add: byte_succ_of_char)
  have neq: "h \<noteq> CHR ''Z''" "h \<noteq> CHR ''z''" using h by auto
  have gt: "CHR ''a'' < byte_succ h" using hs h by (simp add: less_char_def)
  have len1: "1 \<le> length ds" using ip by (cases ds) auto
  show ?thesis
  proof (cases carry)
    case True
    then have rr: "r = byte_succ h # digs @ [alphabet ! 0]" using r(1) l ip v neq gt by (simp add: increment_integer_def)
    have "int_position r = int_position ip + 1"
      using val True rr ip len len1 by (simp add: int_position_def magnitude_offset_Suc digits_val_zeros)
    then show ?thesis using r rr gt by auto
  next
    case False
    then have rr: "r = h # digs" using r(1) l ip v by (simp add: increment_integer_def)
    have "int_position r = int_position ip + 1"
      using val False rr ip len by (simp add: int_position_def)
    then show ?thesis using r rr lo ip by auto
  qed
qed

text \<open>A list that only grows at its end: every new row is placed with \<open>Append\<close>.\<close>

fun append_times :: "nat \<Rightarrow> key result" where
  "append_times 0 = Inr (seed GrowsUp)"
| "append_times (Suc n) = rbind (append_times n) (\<lambda>k. between k [])"

lemma append_times_spec:
  "int n < magnitude_offset 4 \<Longrightarrow>
    \<exists>k. append_times n = Inr k \<and> valid_int k \<and> CHR ''a'' \<le> hd k \<and> int_position k = int n"
proof (induction n)
  case 0
  show ?case by (auto simp: valid_int_def integer_len_def digit_index_def int_position_def magnitude_offset_def digits_val_def)
next
  case (Suc n)
  then obtain k where k: "append_times n = Inr k" "valid_int k" "CHR ''a'' \<le> hd k" "int_position k = int n" by auto
  obtain h ds where ip: "k = h # ds" "ds \<noteq> []" using valid_int_Cons[OF k(2)] by blast
  have "integer_len h = Inr (Suc (length ds))" using k(2) ip by (simp add: valid_int_def)
  moreover have "\<not> 4 \<le> length ds"
    using magnitude_offset_mono[of 4 "length ds"] Suc.prems k(2,4) ip digits_val_nonneg[of ds]
    by (auto simp: int_position_def valid_int_def)
  ultimately have "h < CHR ''z''"
    using k(3) ip by (cases rule: integer_len_cases) (auto simp: less_char_def less_eq_char_def)
  then obtain r where r: "increment_integer k = Inr r" "valid_int r" "CHR ''a'' \<le> hd r" "int_position r = int_position k + 1"
    using increment_position[OF k(2,3)] ip by auto
  have "between k [] = Inr r"
    using r(1,2) k(2) ip validate_int[OF k(2)] by (auto simp: between_def valid_int_def)
  then show ?case using k r by auto
qed

lemma append_times_length:
  assumes "int n < magnitude_offset 4"
  shows "\<exists>k. append_times n = Inr k \<and> valid_key k \<and> length k \<le> 4"
proof -
  obtain k where k: "append_times n = Inr k" "valid_int k" "int_position k = int n" using append_times_spec[OF assms] by blast
  obtain h ds where ip: "k = h # ds" "ds \<noteq> []" using valid_int_Cons[OF k(2)] by blast
  have "\<not> 4 \<le> length ds"
    using magnitude_offset_mono[of 4 "length ds"] assms k(2,3) ip digits_val_nonneg[of ds]
    by (auto simp: int_position_def valid_int_def)
  then show ?thesis using k ip validate_int by auto
qed

subsection \<open>Properties\<close>

text \<open>The bounds \<open>Between\<close> can serve: each empty or well-formed, in order, and room below.\<close>

definition usable_bounds :: "key \<Rightarrow> key \<Rightarrow> bool" where
  "usable_bounds prev nxt =
     (if prev = [] then (if nxt = [] then True else valid_key nxt \<and> \<not> least_int nxt)
      else valid_key prev \<and> (if nxt = [] then True else valid_key nxt \<and> prev < nxt))"

lemma between_rejects: "\<not> usable_bounds prev nxt \<Longrightarrow> \<exists>e. between prev nxt = Inl e"
  using between_prepend[of nxt]
  by (cases "validate prev"; cases "validate nxt")
    (auto simp: usable_bounds_def between_def split: if_splits)

text \<open>C16: \<open>Between(prev, next)\<close> succeeds exactly when both bounds are open or well-formed, in order, and (for an
  open lower bound) the upper bound is not the lowest key of the lowest magnitude; the key it returns is
  well-formed and strictly between the bounds, and it never panics on an index.
\<close>
theorem between_characterised:
  "case between prev nxt of
     Inl e \<Rightarrow> \<not> usable_bounds prev nxt
   | Inr k \<Rightarrow> usable_bounds prev nxt \<and> valid_key k \<and> prev < k \<and> (nxt = [] \<or> k < nxt)"
proof (cases "usable_bounds prev nxt")
  case False
  then show ?thesis using between_rejects[OF False] by auto
next
  case True
  then show ?thesis
    using between_prepend[of nxt] between_append[of prev] between_inner[of prev nxt] between_empty validate_seed[of GrowsUp]
    by (cases "prev = []"; cases "nxt = []") (auto simp: usable_bounds_def)
qed

text \<open>C32: a list that only ever grows at its end keeps keys of at most four bytes for its first 242,234 rows,
  each append succeeding with a well-formed key.
\<close>
theorem append_keys_stay_short:
  assumes "n < 242234"
  shows "\<exists>k. append_times n = Inr k \<and> valid_key k \<and> length k \<le> 4"
proof -
  have "{1..<4} = {1, 2, 3::nat}" by auto
  then have "magnitude_offset 4 = 242234" by (simp add: magnitude_offset_def)
  then show ?thesis using assms append_times_length[of n] by simp
qed

lemma append_keys_stay_short_witness: "append_times 70 = Inr ''b08'' \<and> (\<exists>k. append_times 70 = Inr k \<and> length k \<le> 4)"
proof -
  have "append_times 70 = Inr ''b08''" by code_simp
  then show ?thesis using append_keys_stay_short[of 70] by auto
qed

text \<open>C30: moving a row after an anchor in a list with strictly increasing well-formed keys succeeds with a
  well-formed key, and reading the list back sorted by key gives the other rows in their old order
  with the moved row right after the anchor.
\<close>
theorem move_lands_after_anchor:
  assumes "sorted_wrt (\<lambda>a b. item_key a < item_key b) (map f items)"
    and "\<forall>it\<in>set items. valid_key (item_key (f it))"
    and "take_out f mid items = (Some m, sibs)"
    and "index_of after sibs = Some idx" and "after \<noteq> []"
  shows "\<exists>k. move_within items mid after f g = Inr (Some (m, k)) \<and> valid_key k \<and>
    insort_key item_key (f m\<lparr>item_key := k\<rparr>) sibs = take (Suc idx) sibs @ f m\<lparr>item_key := k\<rparr> # drop (Suc idx) sibs"
  using move_within_anchor[OF assms] .

definition sample_items :: "item list" where
  "sample_items = [\<lparr>item_id = ''x'', item_key = ''a0''\<rparr>, \<lparr>item_id = ''y'', item_key = ''a1''\<rparr>,
     \<lparr>item_id = ''z'', item_key = ''a2''\<rparr>]"

lemma move_lands_after_anchor_witness:
  "move_within sample_items ''z'' ''x'' id GrowsUp = Inr (Some (\<lparr>item_id = ''z'', item_key = ''a2''\<rparr>, ''a0V''))"
proof -
  have v: "valid_key ''a0'' \<and> valid_key ''a1'' \<and> valid_key ''a2''" by code_simp
  have "\<exists>k. move_within sample_items ''z'' ''x'' id GrowsUp = Inr (Some (\<lparr>item_id = ''z'', item_key = ''a2''\<rparr>, k)) \<and> valid_key k \<and>
    insort_key item_key (id \<lparr>item_id = ''z'', item_key = ''a2''\<rparr>\<lparr>item_key := k\<rparr>) (butlast sample_items) =
      take (Suc 0) (butlast sample_items) @ id \<lparr>item_id = ''z'', item_key = ''a2''\<rparr>\<lparr>item_key := k\<rparr> # drop (Suc 0) (butlast sample_items)"
    by (rule move_lands_after_anchor) (simp_all add: sample_items_def v less_char_def)
  moreover have "place (butlast sample_items) ''x'' GrowsUp = Inr ''a0V''" by code_simp
  ultimately show ?thesis by (auto simp: move_within_def sample_items_def)
qed

text \<open>C26: \<open>Resequence\<close> never fails on distinct ids and rows with empty or well-formed keys; it rewrites only requested
  existing rows, with well-formed keys, and afterwards the requested rows sort in the requested order.
\<close>
theorem resequence_orders:
  assumes "distinct order" "\<forall>it\<in>set items. item_key (f it) = [] \<or> valid_key (item_key (f it))"
  shows "\<exists>changed. resequence items order f g = Inr changed \<and>
    (\<forall>i k. changed i = Some k \<longrightarrow> i \<in> set order \<and> by_id items f i \<noteq> None \<and> valid_key k) \<and>
    sorted_wrt (<) (order_keys (by_id items f) changed order)"
  by (rule resequence_spec[OF assms])

lemma resequence_orders_witness:
  "\<exists>changed. resequence sample_items [''z'', ''x''] id GrowsUp = Inr changed \<and>
    sorted_wrt (<) (order_keys (by_id sample_items id) changed [''z'', ''x''])"
proof -
  have v: "valid_key ''a0'' \<and> valid_key ''a1'' \<and> valid_key ''a2''" by code_simp
  have "\<forall>it\<in>set sample_items. item_key (id it) = [] \<or> valid_key (item_key (id it))"
    by (simp add: sample_items_def v)
  then show ?thesis using resequence_orders[of "[''z'', ''x'']" sample_items id GrowsUp] by auto
qed

text \<open>C31: \<open>Resequence\<close> with the order the rows already have rewrites nothing.\<close>
theorem resequence_idle:
  assumes "sorted_wrt (<) ([] # order_keys (by_id items f) Map.empty order)"
  shows "resequence items order f g = Inr Map.empty"
  by (rule resequence_sorted_noop[OF assms])

lemma resequence_idle_witness: "resequence sample_items [''x'', ''z''] id GrowsUp = Inr Map.empty"
  by (rule resequence_idle)
    (simp add: sample_items_def order_keys_def final_key_def by_id_def List.map_filter_simps less_char_def)

end
