(* ===== verification/Go_Strings.thy ===== *)
theory Go_Strings
  imports Prelude "HOL-Library.Sublist"
begin

section \<open>Byte strings: the functions of Go's \<open>strings\<close> and \<open>math/big\<close> the code uses\<close>

text \<open>
  \<open>strings.TrimSpace\<close>, \<open>TrimLeft/TrimRight\<close> with a one-byte cut set, \<open>IndexByte\<close>,
  \<open>SplitN\<close> at a byte, and the decimal text of a \<open>big.Int\<close>. A string is its UTF-8 bytes;
  \<open>white_runes\<close> lists the encodings of the runes \<open>unicode.IsSpace\<close> accepts.
\<close>

subsection \<open>Trimming\<close>

definition white_runes :: "string list" where
  "white_runes =
     [[CHR 0x09], [CHR 0x0A], [CHR 0x0B], [CHR 0x0C], [CHR 0x0D], [CHR 0x20],
      [CHR 0xC2, CHR 0x85], [CHR 0xC2, CHR 0xA0], [CHR 0xE1, CHR 0x9A, CHR 0x80],
      [CHR 0xE2, CHR 0x80, CHR 0x80], [CHR 0xE2, CHR 0x80, CHR 0x81], [CHR 0xE2, CHR 0x80, CHR 0x82],
      [CHR 0xE2, CHR 0x80, CHR 0x83], [CHR 0xE2, CHR 0x80, CHR 0x84], [CHR 0xE2, CHR 0x80, CHR 0x85],
      [CHR 0xE2, CHR 0x80, CHR 0x86], [CHR 0xE2, CHR 0x80, CHR 0x87], [CHR 0xE2, CHR 0x80, CHR 0x88],
      [CHR 0xE2, CHR 0x80, CHR 0x89], [CHR 0xE2, CHR 0x80, CHR 0x8A], [CHR 0xE2, CHR 0x80, CHR 0xA8],
      [CHR 0xE2, CHR 0x80, CHR 0xA9], [CHR 0xE2, CHR 0x80, CHR 0xAF], [CHR 0xE2, CHR 0x81, CHR 0x9F],
      [CHR 0xE3, CHR 0x80, CHR 0x80]]"

lemma white_runes_nonempty: "w \<in> set white_runes \<Longrightarrow> w \<noteq> []"
  by (auto simp: white_runes_def)

function trim_left_space :: "string \<Rightarrow> string" where
  "trim_left_space s =
     (case find (\<lambda>w. prefix w s) white_runes of
        Some w \<Rightarrow> trim_left_space (drop (length w) s)
      | None \<Rightarrow> s)"
  by pat_completeness auto
termination
proof (relation "measure length", goal_cases)
  case 1
  show ?case by simp
next
  case (2 s w)
  then have "w \<in> set white_runes" "prefix w s" by (auto simp: find_Some_iff)
  then show ?case using white_runes_nonempty[of w] by (auto simp: prefix_def)
qed

declare trim_left_space.simps [simp del]

function trim_right_space :: "string \<Rightarrow> string" where
  "trim_right_space s =
     (case find (\<lambda>w. suffix w s) white_runes of
        Some w \<Rightarrow> trim_right_space (take (length s - length w) s)
      | None \<Rightarrow> s)"
  by pat_completeness auto
termination
proof (relation "measure length", goal_cases)
  case 1
  show ?case by simp
next
  case (2 s w)
  then have "w \<in> set white_runes" "suffix w s" by (auto simp: find_Some_iff)
  then show ?case using white_runes_nonempty[of w] by (auto simp: suffix_def)
qed

declare trim_right_space.simps [simp del]

definition trim_space :: "string \<Rightarrow> string" where
  "trim_space s = trim_right_space (trim_left_space s)"

definition trim_left_byte :: "char \<Rightarrow> string \<Rightarrow> string" where
  "trim_left_byte c s = dropWhile (\<lambda>x. x = c) s"

definition trim_right_byte :: "char \<Rightarrow> string \<Rightarrow> string" where
  "trim_right_byte c s = rev (dropWhile (\<lambda>x. x = c) (rev s))"

definition has_prefix :: "string \<Rightarrow> string \<Rightarrow> bool" where
  "has_prefix s p \<longleftrightarrow> prefix p s"

text \<open>\<open>SplitN(s, c, 2)\<close> of a string that holds \<open>c\<close>: the parts before and after its first \<open>c\<close>.\<close>

definition split_at_byte :: "char \<Rightarrow> string \<Rightarrow> string \<times> string" where
  "split_at_byte c s = (takeWhile (\<lambda>x. x \<noteq> c) s, drop 1 (dropWhile (\<lambda>x. x \<noteq> c) s))"

text \<open>A string none of whose bytes starts or ends a white rune is not trimmed.\<close>

definition solid :: "char \<Rightarrow> bool" where
  "solid c \<longleftrightarrow> (\<forall>w\<in>set white_runes. hd w \<noteq> c \<and> last w \<noteq> c)"

lemma trim_space_solid:
  assumes "s \<noteq> [] \<Longrightarrow> solid (hd s) \<and> solid (last s)"
  shows "trim_space s = s"
proof -
  have "\<not> prefix w s" if w: "w \<in> set white_runes" for w
  proof
    assume "prefix w s"
    then have "s \<noteq> []" "hd s = hd w" using white_runes_nonempty[OF w] by (auto simp: prefix_def)
    then show False using assms w unfolding solid_def by metis
  qed
  then have "find (\<lambda>w. prefix w s) white_runes = None" by (simp add: find_None_iff)
  then have l: "trim_left_space s = s" by (simp add: trim_left_space.simps)
  have "\<not> suffix w s" if w: "w \<in> set white_runes" for w
  proof
    assume "suffix w s"
    then have "s \<noteq> []" "last s = last w" using white_runes_nonempty[OF w] by (auto simp: suffix_def)
    then show False using assms w unfolding solid_def by metis
  qed
  then have "find (\<lambda>w. suffix w s) white_runes = None" by (simp add: find_None_iff)
  then show ?thesis using l by (simp add: trim_space_def trim_right_space.simps)
qed

lemma split_at_byte_append [simp]: "c \<notin> set a \<Longrightarrow> split_at_byte c (a @ c # b) = (a, b)"
  by (auto simp: split_at_byte_def takeWhile_append dropWhile_append)

subsection \<open>Decimal text\<close>

definition is_dec :: "char \<Rightarrow> bool" where
  "is_dec c \<longleftrightarrow> CHR ''0'' \<le> c \<and> c \<le> CHR ''9''"

definition dec_digit :: "char \<Rightarrow> nat" where
  "dec_digit c = of_char c - of_char CHR ''0''"

definition digit_char :: "nat \<Rightarrow> char" where
  "digit_char d = char_of (48 + d)"

definition dec_val :: "string \<Rightarrow> nat" where
  "dec_val ds = foldl (\<lambda>v c. v * 10 + dec_digit c) 0 ds"

text \<open>\<open>Int.String\<close> of a non-negative number and \<open>Int.SetString(s, 10)\<close>.\<close>

fun nat_str :: "nat \<Rightarrow> string" where
  "nat_str n = (if n < 10 then [digit_char n] else nat_str (n div 10) @ [digit_char (n mod 10)])"

declare nat_str.simps [simp del]

definition parse_digits :: "string \<Rightarrow> nat option" where
  "parse_digits s = (if s \<noteq> [] \<and> list_all is_dec s then Some (dec_val s) else None)"

definition set_string :: "string \<Rightarrow> int option" where
  "set_string s =
     (case s of
        [] \<Rightarrow> None
      | c # r \<Rightarrow>
          if c = CHR ''-'' then map_option (\<lambda>n. - int n) (parse_digits r)
          else if c = CHR ''+'' then map_option int (parse_digits r)
          else map_option int (parse_digits s))"

lemma is_dec_digit_char [simp]: "d < 10 \<Longrightarrow> is_dec (digit_char d)"
  by (simp add: is_dec_def digit_char_def less_eq_char_def)

lemma dec_digit_char [simp]: "d < 10 \<Longrightarrow> dec_digit (digit_char d) = d"
  by (simp add: dec_digit_def digit_char_def)

lemma dec_digit_less [simp]: "is_dec c \<Longrightarrow> dec_digit c < 10"
  by (auto simp: is_dec_def dec_digit_def less_eq_char_def)

lemma digit_char_dec [simp]: "is_dec c \<Longrightarrow> digit_char (dec_digit c) = c"
  by (auto simp: is_dec_def dec_digit_def digit_char_def less_eq_char_def)

lemma dec_digit_inj: "is_dec c \<Longrightarrow> is_dec d \<Longrightarrow> dec_digit c = dec_digit d \<Longrightarrow> c = d"
  by (metis digit_char_dec)

lemma dec_zero [simp]: "dec_digit CHR ''0'' = 0" "is_dec CHR ''0''"
  by (simp_all add: dec_digit_def is_dec_def)

lemma digit_char_0: "digit_char 0 = CHR ''0''"
  using digit_char_dec[of "CHR ''0''"] by simp

lemma dec_val_Nil [simp]: "dec_val [] = 0"
  by (simp add: dec_val_def)

lemma dec_val_snoc [simp]: "dec_val (ds @ [c]) = dec_val ds * 10 + dec_digit c"
  by (simp add: dec_val_def)

lemma dec_val_single [simp]: "dec_val [c] = dec_digit c"
  by (simp add: dec_val_def)

lemma dec_val_append: "dec_val (a @ b) = dec_val a * 10 ^ length b + dec_val b"
proof (induction b rule: rev_induct)
  case (snoc c b)
  have "dec_val (a @ b @ [c]) = dec_val (a @ b) * 10 + dec_digit c"
    using dec_val_snoc[of "a @ b" c] by simp
  then show ?case using snoc by (simp add: algebra_simps)
qed simp

lemma dec_val_Cons: "dec_val (c # ds) = dec_digit c * 10 ^ length ds + dec_val ds"
  using dec_val_append[of "[c]" ds] by (simp add: dec_val_def)

lemma dec_val_replicate_zero [simp]: "dec_val (replicate n CHR ''0'') = 0"
  by (induction n) (simp_all add: dec_val_Cons)

lemma dec_val_bound: "list_all is_dec ds \<Longrightarrow> dec_val ds < 10 ^ length ds"
proof (induction ds rule: rev_induct)
  case (snoc c ds)
  then have "dec_val ds < 10 ^ length ds" "dec_digit c < 10" by simp_all
  then show ?case by simp
qed simp

lemma dec_val_inj:
  "length a = length b \<Longrightarrow> list_all is_dec a \<Longrightarrow> list_all is_dec b \<Longrightarrow> dec_val a = dec_val b \<Longrightarrow> a = b"
proof (induction a arbitrary: b rule: rev_induct)
  case (snoc c a)
  then obtain b' d where b: "b = b' @ [d]" by (metis length_0_conv append_is_Nil_conv list.distinct(1) rev_exhaust)
  have "dec_val a * 10 + dec_digit c = dec_val b' * 10 + dec_digit d" "dec_digit c < 10" "dec_digit d < 10"
    using snoc.prems b by simp_all
  then have "dec_digit c = dec_digit d" "dec_val a = dec_val b'" by presburger+
  then show ?case using snoc b dec_digit_inj by auto
qed simp

lemma nat_str_digits: "list_all is_dec (nat_str n)"
proof (induction n rule: nat_str.induct)
  case (1 n)
  then show ?case by (subst nat_str.simps) simp
qed

lemma nat_str_nonempty [simp]: "nat_str n \<noteq> []"
  by (subst nat_str.simps) simp

lemma dec_val_nat_str [simp]: "dec_val (nat_str n) = n"
proof (induction n rule: nat_str.induct)
  case (1 n)
  then show ?case by (subst nat_str.simps) simp
qed

lemma trim_left_dec_val: "dec_val (trim_left_byte CHR ''0'' ds) = dec_val ds"
  unfolding trim_left_byte_def by (induction ds) (auto simp: dec_val_Cons)

lemma trim_left_zero_iff:
  "list_all is_dec ds \<Longrightarrow> trim_left_byte CHR ''0'' ds = [] \<longleftrightarrow> dec_val ds = 0"
  unfolding trim_left_byte_def
proof (induction ds)
  case (Cons c ds)
  have "c \<noteq> CHR ''0'' \<Longrightarrow> 0 < dec_digit c"
    using Cons.prems dec_digit_inj[of c "CHR ''0''"] by auto
  then show ?case using Cons by (cases "c = CHR ''0''") (simp_all add: dec_val_Cons)
qed simp

text \<open>Trimming leading zeros gives the decimal text of the value.\<close>

lemma trim_left_zeros:
  "list_all is_dec ds \<Longrightarrow>
    (let t = trim_left_byte CHR ''0'' ds in if t = [] then ''0'' else t) = nat_str (dec_val ds)"
proof (induction ds rule: rev_induct)
  case Nil
  show ?case by (simp add: trim_left_byte_def nat_str.simps digit_char_0)
next
  case (snoc c ds)
  then have ds: "list_all is_dec ds" and c: "is_dec c" by simp_all
  have snoc_trim: "trim_left_byte CHR ''0'' (ds @ [c]) =
      (if dec_val ds = 0 then trim_left_byte CHR ''0'' [c] else trim_left_byte CHR ''0'' ds @ [c])"
    using trim_left_zero_iff[OF ds] by (auto simp: trim_left_byte_def dropWhile_append)
  show ?case
  proof (cases "dec_val ds = 0")
    case True
    then show ?thesis using snoc_trim c by (subst nat_str.simps) (auto simp: trim_left_byte_def Let_def)
  next
    case False
    then have "trim_left_byte CHR ''0'' ds = nat_str (dec_val ds)"
      using snoc.IH[OF ds] trim_left_zero_iff[OF ds] by (simp add: Let_def)
    then show ?thesis using snoc_trim False c by (subst nat_str.simps) (simp add: Let_def)
  qed
qed

text \<open>Trimming trailing zeros and padding back to the old length gives the string again.\<close>

lemma trim_right_pad:
  "trim_right_byte CHR ''0'' ds @ replicate (length ds - length (trim_right_byte CHR ''0'' ds)) CHR ''0'' = ds"
proof (induction ds rule: rev_induct)
  case (snoc c ds)
  show ?case
  proof (cases "c = CHR ''0''")
    case True
    then have t: "trim_right_byte CHR ''0'' (ds @ [c]) = trim_right_byte CHR ''0'' ds" by (simp add: trim_right_byte_def)
    have "length (trim_right_byte CHR ''0'' ds) \<le> length ds"
      unfolding trim_right_byte_def using length_dropWhile_le[of _ "rev ds"] by simp
    then have "Suc (length ds) - length (trim_right_byte CHR ''0'' ds) = Suc (length ds - length (trim_right_byte CHR ''0'' ds))" by simp
    then show ?thesis using snoc t True by (metis append.assoc length_append_singleton replicate_Suc replicate_append_same)
  next
    case False
    then show ?thesis by (simp add: trim_right_byte_def)
  qed
qed (simp add: trim_right_byte_def)

lemma trim_right_replicate:
  "trim_right_byte CHR ''0'' (ds @ replicate n CHR ''0'') = trim_right_byte CHR ''0'' ds"
  by (simp add: trim_right_byte_def dropWhile_append1 dropWhile_append)

lemma trim_right_length: "length (trim_right_byte c ds) \<le> length ds"
  unfolding trim_right_byte_def using length_dropWhile_le[of _ "rev ds"] by simp

lemma trim_right_set: "set (trim_right_byte c ds) \<subseteq> set ds"
  unfolding trim_right_byte_def by (auto dest: set_dropWhileD)

end
