(* ===== verification/Calendar.thy ===== *)
theory Calendar
  imports Errs Go_Strings "HOL-Library.Monad_Syntax"
begin

section \<open>Civil time\<close>

text \<open>
  What the program uses of Go's \<open>time\<close> package on times of one fixed location (the server works in
  UTC, \<open>infra/clock\<close>): an instant is the number of nanoseconds since 1970-01-01 00:00:00;
  \<open>Date\<close>, \<open>Clock\<close>, \<open>time.Date\<close> with its normalization of months and days out of range,
  \<open>AddDate\<close>, and \<open>Format\<close>/\<open>Parse\<close> for the two layouts of
  \<open>internal/shared/datetime/datetime.go\<close>. The proleptic Gregorian calendar is written out; the
  lemmas show that civil dates and day numbers are inverse.
\<close>

type_synonym instant = int

subsection \<open>Day numbers\<close>

definition leap_year :: "int \<Rightarrow> bool" where
  "leap_year y \<longleftrightarrow> y mod 4 = 0 \<and> (y mod 100 \<noteq> 0 \<or> y mod 400 = 0)"

definition days_before_year :: "int \<Rightarrow> int" where
  "days_before_year y = 365 * (y - 1970) + (y - 1) div 4 - (y - 1) div 100 + (y - 1) div 400 - 477"

definition days_before_month :: "int \<Rightarrow> int \<Rightarrow> int" where
  "days_before_month y m =
     (if m \<le> 1 then 0 else if m = 2 then 31
      else (if leap_year y then 1 else 0) +
        (if m = 3 then 59 else if m = 4 then 90 else if m = 5 then 120 else if m = 6 then 151
         else if m = 7 then 181 else if m = 8 then 212 else if m = 9 then 243 else if m = 10 then 273
         else if m = 11 then 304 else if m = 12 then 334 else 365))"

definition days_of :: "int \<Rightarrow> int \<Rightarrow> int \<Rightarrow> int" where
  "days_of y m d =
     (let y' = y + (m - 1) div 12; m' = (m - 1) mod 12 + 1
      in days_before_year y' + days_before_month y' m' + (d - 1))"

definition year_of_days :: "int \<Rightarrow> int" where
  "year_of_days n =
     (let y = 1970 + (400 * n) div 146097
      in if n < days_before_year y then y - 1 else if days_before_year (y + 1) \<le> n then y + 1 else y)"

definition month_of_days :: "int \<Rightarrow> int \<Rightarrow> int" where
  "month_of_days y k = (case find (\<lambda>m. k < days_before_month y (m + 1)) [1..12] of Some m \<Rightarrow> m | None \<Rightarrow> 12)"

definition civil_of_days :: "int \<Rightarrow> int \<times> int \<times> int" where
  "civil_of_days n =
     (let y = year_of_days n; k = n - days_before_year y; m = month_of_days y k
      in (y, m, k - days_before_month y m + 1))"

definition days_in_month :: "int \<Rightarrow> int \<Rightarrow> int" where
  "days_in_month y m = days_before_month y (m + 1) - days_before_month y m"

definition valid_civil :: "int \<Rightarrow> int \<Rightarrow> int \<Rightarrow> bool" where
  "valid_civil y m d \<longleftrightarrow> 1 \<le> m \<and> m \<le> 12 \<and> 1 \<le> d \<and> d \<le> days_in_month y m"

subsection \<open>Instants\<close>

definition day_ns :: int where
  "day_ns = 86400 * 10 ^ 9"

definition t_days :: "instant \<Rightarrow> int" where
  "t_days t = t div day_ns"

definition t_date :: "instant \<Rightarrow> int \<times> int \<times> int" where
  "t_date t = civil_of_days (t_days t)"

definition t_seconds :: "instant \<Rightarrow> int" where
  "t_seconds t = t mod day_ns div 10 ^ 9"

definition t_clock :: "instant \<Rightarrow> int \<times> int \<times> int" where
  "t_clock t = (let s = t_seconds t in (s div 3600, s mod 3600 div 60, s mod 60))"

definition t_nsec :: "instant \<Rightarrow> int" where
  "t_nsec t = t mod 10 ^ 9"

definition go_date :: "int \<Rightarrow> int \<Rightarrow> int \<Rightarrow> int \<Rightarrow> int \<Rightarrow> int \<Rightarrow> int \<Rightarrow> instant" where
  "go_date y m d hh mi ss ns = days_of y m d * day_ns + ((hh * 60 + mi) * 60 + ss) * 10 ^ 9 + ns"

definition add_date :: "instant \<Rightarrow> int \<Rightarrow> int \<Rightarrow> int \<Rightarrow> instant" where
  "add_date t years months days =
     (let (y, m, d) = t_date t; (hh, mi, ss) = t_clock t
      in go_date (y + years) (m + months) (d + days) hh mi ss (t_nsec t))"

subsection \<open>The calendar is a bijection\<close>

lemma div_pred: "0 < k \<Longrightarrow> (y :: int) div k = (y - 1) div k + (if y mod k = 0 then 1 else 0)"
proof -
  assume k: "0 < k"
  show ?thesis
  proof (cases "y mod k = 0")
    case True
    then have "y = k * (y div k)" by (simp add: dvd_eq_mod_eq_0[symmetric])
    then have "y - 1 = k * (y div k - 1) + (k - 1)" by (simp add: algebra_simps)
    then have "(y - 1) div k = y div k - 1" using k
      by (metis (no_types) div_mult_self4 div_pos_pos_trivial add.commute add_0_left diff_ge_0_iff_ge int_one_le_iff_zero_less less_add_one diff_less_eq less_irrefl)
    then show ?thesis using True by simp
  next
    case False
    then have "0 < y mod k" using k by (simp add: order_less_le)
    moreover have "y - 1 = k * (y div k) + (y mod k - 1)" by simp
    moreover have "y mod k - 1 < k" using pos_mod_bound[OF k, of y] by simp
    ultimately have "(y - 1) div k = y div k"
      by (metis div_pos_pos_trivial int_one_le_iff_zero_less diff_ge_0_iff_ge div_mult_self2 add.commute add_0_left less_irrefl k)
    then show ?thesis using False by simp
  qed
qed

lemma days_before_year_Suc: "days_before_year (y + 1) = days_before_year y + (if leap_year y then 366 else 365)"
proof -
  have "y mod 400 = 0 \<Longrightarrow> y mod 100 = 0" "y mod 100 = 0 \<Longrightarrow> y mod 4 = 0"
    using dvd_trans[of 100 400 y] dvd_trans[of 4 100 y] by (simp_all add: dvd_eq_mod_eq_0)
  then have l: "leap_year y \<longleftrightarrow> y mod 4 = 0 \<and> (y mod 100 = 0 \<longrightarrow> y mod 400 = 0)"
    "y mod 400 = 0 \<longrightarrow> y mod 100 = 0" "y mod 100 = 0 \<longrightarrow> y mod 4 = 0"
    by (auto simp: leap_year_def)
  have gen: "365 * (y + 1 - 1970) + a' - b' + c' - 477 = 365 * (y - 1970) + a - b + c - 477 + (if leap_year y then 366 else 365)"
    if "a' = a + (if y mod 4 = 0 then 1 else 0)" "b' = b + (if y mod 100 = 0 then 1 else 0)"
      "c' = c + (if y mod 400 = 0 then 1 else 0)" for a b c a' b' c' :: int
    using l unfolding that by (cases "y mod 4 = 0"; cases "y mod 100 = 0"; cases "y mod 400 = 0") simp_all
  show ?thesis unfolding days_before_year_def add_diff_cancel_right'
    by (rule gen) (rule div_pred, simp)+
qed

lemma days_before_year_less: "y < z \<Longrightarrow> days_before_year y + 365 \<le> days_before_year z"
proof (induction z rule: int_gr_induct)
  case base
  then show ?case by (simp add: days_before_year_Suc)
next
  case (step z)
  then show ?case using days_before_year_Suc[of z] by (simp split: if_splits)
qed

lemma days_before_year_mono: "y \<le> z \<Longrightarrow> days_before_year y \<le> days_before_year z"
  using days_before_year_less[of y z] by (cases "y = z") auto

lemma year_unique:
  assumes "days_before_year y \<le> n" "n < days_before_year (y + 1)" "days_before_year z \<le> n" "n < days_before_year (z + 1)"
  shows "y = z"
  using assms days_before_year_mono[of "y + 1" z] days_before_year_mono[of "z + 1" y] by linarith

lemma div_bracket: "0 < k \<Longrightarrow> k * ((a :: int) div k) \<le> a \<and> a < k * (a div k) + k"
  using mult_div_mod_eq[of k a] pos_mod_bound[of k a] pos_mod_sign[of k a] by linarith

lemma year_bracket:
  "146097 * (y - 1970) - 800 < 400 * days_before_year y"
  "400 * days_before_year y < 146097 * (y - 1970) + 800"
proof -
  have gen: "146097 * (y - 1970) - 800 < 400 * (365 * (y - 1970) + a - b + c - 477) \<and>
      400 * (365 * (y - 1970) + a - b + c - 477) < 146097 * (y - 1970) + 800"
    if "4 * a \<le> y - 1 \<and> y - 1 < 4 * a + 4" "100 * b \<le> y - 1 \<and> y - 1 < 100 * b + 100"
      "400 * c \<le> y - 1 \<and> y - 1 < 400 * c + 400" for a b c :: int
    using that by (intro conjI) simp_all
  have "146097 * (y - 1970) - 800 < 400 * days_before_year y \<and> 400 * days_before_year y < 146097 * (y - 1970) + 800"
    unfolding days_before_year_def by (rule gen) (rule div_bracket, simp)+
  then show "146097 * (y - 1970) - 800 < 400 * days_before_year y"
    and "400 * days_before_year y < 146097 * (y - 1970) + 800" by auto
qed

lemma year_of_days_spec:
  "days_before_year (year_of_days n) \<le> n" "n < days_before_year (year_of_days n + 1)"
proof -
  define y where "y = 1970 + (400 * n) div 146097"
  have q: "146097 * (y - 1970) \<le> 400 * n" "400 * n < 146097 * (y - 1970) + 146097"
    using div_bracket[of 146097 "400 * n"] unfolding y_def by (simp_all add: algebra_simps)
  have lo: "days_before_year (y - 1) \<le> n"
    using year_bracket(2)[of "y - 1"] q(1) by (simp add: algebra_simps)
  have hi: "n < days_before_year (y + 2)"
    using year_bracket(1)[of "y + 2"] q(2) by (simp add: algebra_simps)
  have "days_before_year (year_of_days n) \<le> n \<and> n < days_before_year (year_of_days n + 1)"
    using lo hi unfolding year_of_days_def y_def[symmetric] Let_def by (auto simp: add.commute)
  then show "days_before_year (year_of_days n) \<le> n" "n < days_before_year (year_of_days n + 1)" by auto
qed

lemma year_of_daysI: "days_before_year y \<le> n \<Longrightarrow> n < days_before_year (y + 1) \<Longrightarrow> year_of_days n = y"
  using year_unique year_of_days_spec by blast

lemma days_before_month_13: "days_before_month y 13 = (if leap_year y then 366 else 365)"
  by (simp add: days_before_month_def)

lemma month_cases:
  assumes "1 \<le> m" "m \<le> (12 :: int)"
  obtains "m = 1" | "m = 2" | "m = 3" | "m = 4" | "m = 5" | "m = 6" | "m = 7" | "m = 8" | "m = 9" | "m = 10" | "m = 11" | "m = 12"
proof -
  have "m = 1 \<or> m = 2 \<or> m = 3 \<or> m = 4 \<or> m = 5 \<or> m = 6 \<or> m = 7 \<or> m = 8 \<or> m = 9 \<or> m = 10 \<or> m = 11 \<or> m = 12"
    using assms by presburger
  then show thesis using that by blast
qed

lemma month_of_days_spec:
  assumes "0 \<le> k" "k < days_before_month y 13"
  shows "1 \<le> month_of_days y k" "month_of_days y k \<le> 12"
    "days_before_month y (month_of_days y k) \<le> k" "k < days_before_month y (month_of_days y k + 1)"
proof -
  let ?P = "\<lambda>m. k < days_before_month y (m + 1)"
  have "?P 12" using assms(2) by simp
  moreover have "12 \<in> set [1..12::int]" by simp
  ultimately have "find ?P [1..12] \<noteq> None" by (auto simp: find_None_iff)
  then obtain m where f: "find ?P [1..12] = Some m" by blast
  then obtain i where i: "i < 12" "?P m" "m = [1..12] ! i" "\<forall>j<i. \<not> ?P ([1..12] ! j)"
    by (auto simp: find_Some_iff)
  then have m: "m = int i + 1" by (simp add: nth_upto)
  have "days_before_month y m \<le> k"
  proof (cases i)
    case 0
    then show ?thesis using m assms(1) by (simp add: days_before_month_def)
  next
    case (Suc j)
    then have "\<not> ?P ([1..12] ! j)" using i(4) by simp
    then show ?thesis using m Suc i(1) by (simp add: nth_upto add.commute)
  qed
  moreover have "month_of_days y k = m" using f by (simp add: month_of_days_def)
  ultimately show "1 \<le> month_of_days y k" "month_of_days y k \<le> 12"
    "days_before_month y (month_of_days y k) \<le> k" "k < days_before_month y (month_of_days y k + 1)"
    using i(1,2) m by simp_all
qed

lemma days_before_month_step: "1 \<le> j \<Longrightarrow> j \<le> 12 \<Longrightarrow> days_before_month y j < days_before_month y (j + 1)"
  by (erule (1) month_cases) (simp_all add: days_before_month_def)

lemma days_before_month_mono:
  assumes "1 \<le> m"
  shows "m < m' \<Longrightarrow> m' \<le> 13 \<Longrightarrow> days_before_month y m < days_before_month y m'"
proof (induction m' rule: int_gr_induct)
  case base
  then show ?case using days_before_month_step[of m y] assms by simp
next
  case (step i)
  then show ?case using days_before_month_step[of i y] assms by simp
qed

lemma month_of_daysI:
  assumes "1 \<le> m" "m \<le> 12" "days_before_month y m \<le> k" "k < days_before_month y (m + 1)"
  shows "month_of_days y k = m"
proof -
  have k: "0 \<le> k" using assms(1-3) days_before_month_mono[of 1 m y] by (cases "m = 1") (auto simp: days_before_month_def)
  have "k < days_before_month y 13" using assms(2,4) days_before_month_mono[of "m + 1" 13 y] assms(1) by (cases "m = 12") auto
  note s = month_of_days_spec[OF k this]
  have "\<not> month_of_days y k < m" using s assms days_before_month_mono[of "month_of_days y k + 1" m y]
    by (cases "month_of_days y k + 1 = m") auto
  moreover have "\<not> m < month_of_days y k" using s assms days_before_month_mono[of "m + 1" "month_of_days y k" y]
    by (cases "m + 1 = month_of_days y k") auto
  ultimately show ?thesis by simp
qed

lemma days_of_valid: "1 \<le> m \<Longrightarrow> m \<le> 12 \<Longrightarrow> days_of y m d = days_before_year y + days_before_month y m + (d - 1)"
  by (simp add: days_of_def)

lemma days_of_carry: "days_of y (m + 12) d = days_of (y + 1) m d"
proof -
  have "y + (m + 12 - 1) div 12 = y + 1 + (m - 1) div 12" by simp
  moreover have "(m + 12 - 1) mod 12 = (m - 1) mod 12"
    by (metis add_diff_eq add.commute mod_add_self2 diff_add_eq)
  ultimately show ?thesis unfolding days_of_def Let_def by (simp only:)
qed

lemma civil_of_days_of:
  assumes "valid_civil y m d"
  shows "civil_of_days (days_of y m d) = (y, m, d)"
proof -
  have m: "1 \<le> m" "m \<le> 12" and d: "1 \<le> d" "d \<le> days_in_month y m" using assms by (auto simp: valid_civil_def)
  let ?k = "days_before_month y m + (d - 1)"
  have k: "days_before_month y m \<le> ?k" "?k < days_before_month y (m + 1)" using d by (auto simp: days_in_month_def)
  have "0 \<le> days_before_month y m" using m days_before_month_mono[of 1 m y] by (cases "m = 1") (auto simp: days_before_month_def)
  moreover have "days_before_month y (m + 1) \<le> days_before_month y 13"
    using m days_before_month_mono[of "m + 1" 13 y] by (cases "m = 12") auto
  ultimately have "0 \<le> ?k" "?k < (if leap_year y then 366 else 365)" using k days_before_month_13[of y] by auto
  then have y: "year_of_days (days_before_year y + ?k) = y"
    by (intro year_of_daysI) (auto simp: days_before_year_Suc)
  show ?thesis using month_of_daysI[OF m k] y m by (simp add: civil_of_days_def days_of_valid Let_def algebra_simps)
qed

lemma civil_of_days_valid:
  assumes "civil_of_days n = (y, m, d)"
  shows "valid_civil y m d" "days_of y m d = n"
proof -
  define k where "k = n - days_before_year y"
  have y: "y = year_of_days n" using assms by (simp add: civil_of_days_def Let_def)
  then have k: "0 \<le> k" "k < days_before_month y 13"
    using year_of_days_spec[of n] days_before_year_Suc[of y] days_before_month_13[of y] by (auto simp: k_def)
  have m: "m = month_of_days y k" "d = k - days_before_month y m + 1"
    using assms y by (auto simp: civil_of_days_def Let_def k_def)
  note s = month_of_days_spec[OF k, folded m(1)]
  show "valid_civil y m d" using s m(2) by (auto simp: valid_civil_def days_in_month_def)
  show "days_of y m d = n" using s m(2) by (simp add: days_of_valid k_def)
qed

subsection \<open>Instants and their parts\<close>

lemma day_ns_pos [simp]: "0 < day_ns"
  by (simp add: day_ns_def)

lemma day_ns_nonzero [simp]: "day_ns \<noteq> 0"
  by (simp add: day_ns_def)

lemma horner_60: "h * 3600 + a = b \<Longrightarrow> m * 60 + s = a \<Longrightarrow> (h * 60 + m) * 60 + s = (b :: int)"
  by simp

lemma seconds_bound: "0 \<le> x \<Longrightarrow> x < 86400 * k \<Longrightarrow> 0 < k \<Longrightarrow> 0 \<le> x div k \<and> x div k < (86400 :: int)"
proof (intro conjI)
  assume a: "0 \<le> x" "x < 86400 * k" "0 < k"
  then show "0 \<le> x div k" by (simp add: pos_imp_zdiv_nonneg_iff)
  show "x div k < 86400"
  proof (rule ccontr)
    assume "\<not> x div k < 86400"
    then have "k * 86400 \<le> k * (x div k)" using a(3) by (intro mult_left_mono) simp_all
    then show False using div_bracket[OF a(3), of x] a(2) by linarith
  qed
qed

lemma clock_parts:
  "t_clock t = (hh, mi, ss) \<Longrightarrow> ((hh * 60 + mi) * 60 + ss) * 10 ^ 9 + t_nsec t = t mod day_ns"
proof -
  assume c: "t_clock t = (hh, mi, ss)"
  define s where "s = t_seconds t"
  have "(hh * 60 + mi) * 60 + ss = s"
  proof -
    have "hh = s div 3600" "mi = s mod 3600 div 60" "ss = s mod 60" using c by (auto simp: t_clock_def s_def Let_def)
    moreover have "s mod 60 = s mod 3600 mod 60" by (rule mod_mod_cancel[symmetric]) simp
    ultimately show ?thesis by (simp only:) (rule horner_60; rule div_mult_mod_eq)
  qed
  moreover have "t mod day_ns mod 10 ^ 9 = t_nsec t"
    unfolding t_nsec_def day_ns_def by (rule mod_mod_cancel) simp
  moreover have "(t mod day_ns) div 10 ^ 9 * 10 ^ 9 + t mod day_ns mod 10 ^ 9 = t mod day_ns" by (rule div_mult_mod_eq)
  ultimately show ?thesis unfolding s_def t_seconds_def by simp
qed

lemma go_date_clock:
  "t_clock t = (hh, mi, ss) \<Longrightarrow> go_date y m d hh mi ss (t_nsec t) = days_of y m d * day_ns + t mod day_ns"
  using clock_parts[of t hh mi ss] by (simp add: go_date_def)

lemma add_date_eq:
  "add_date t a b c = (case t_date t of (y, m, d) \<Rightarrow> days_of (y + a) (m + b) (d + c) * day_ns + t mod day_ns)"
  unfolding add_date_def Let_def by (auto simp: go_date_clock split: prod.split)

lemma t_days_build [simp]: "t_days (n * day_ns + t mod day_ns) = n"
  by (simp add: t_days_def)

lemma t_days_midnight [simp]: "t_days (n * day_ns) = n"
  by (simp add: t_days_def)

lemma t_split: "t = t_days t * day_ns + t mod day_ns"
  by (simp add: t_days_def)

lemma go_date_midnight [simp]: "go_date y m d 0 0 0 0 = days_of y m d * day_ns"
  by (simp add: go_date_def)

lemma t_date_go_date:
  "t_date (go_date y m d 0 0 0 0) = civil_of_days (days_of y m d)"
  by (simp add: t_date_def)

lemma t_clock_go_date:
  assumes "0 \<le> hh" "hh < 24" "0 \<le> mi" "mi < 60" "0 \<le> ss" "ss < 60" "0 \<le> ns" "ns < 10 ^ 9"
  shows "t_days (go_date y m d hh mi ss ns) = days_of y m d"
    and "t_clock (go_date y m d hh mi ss ns) = (hh, mi, ss)"
    and "t_nsec (go_date y m d hh mi ss ns) = ns"
proof -
  define s where "s = (hh * 60 + mi) * 60 + ss"
  have "0 \<le> s" using assms unfolding s_def by simp
  moreover have "s < 86400" using assms unfolding s_def by simp
  ultimately have s: "0 \<le> s" "s < 86400" .
  define r where "r = s * 10 ^ 9 + ns"
  have r: "0 \<le> r" "r < day_ns" using s assms(7,8) unfolding r_def day_ns_def by (auto simp: add_nonneg_nonneg)
  have g: "go_date y m d hh mi ss ns = days_of y m d * day_ns + r" by (simp add: go_date_def r_def s_def)
  have m: "(days_of y m d * day_ns + r) mod day_ns = r" using r by simp
  show "t_days (go_date y m d hh mi ss ns) = days_of y m d" unfolding g t_days_def using r by simp
  have rs: "r div 10 ^ 9 = s" "r mod 10 ^ 9 = ns" unfolding r_def using assms(7,8) by simp_all
  have sec: "t_seconds (go_date y m d hh mi ss ns) = s" unfolding g t_seconds_def m rs ..
  have q: "s div 3600 = hh" "s mod 3600 div 60 = mi" "s mod 60 = ss"
  proof -
    have e: "s = hh * 3600 + (mi * 60 + ss)" by (simp add: s_def)
    have "0 \<le> mi * 60 + ss" using assms by simp
    moreover have "mi * 60 + ss < 3600" using assms by simp
    ultimately have b: "0 \<le> mi * 60 + ss" "mi * 60 + ss < 3600" .
    show "s div 3600 = hh" unfolding e using b by simp
    have "s mod 3600 = mi * 60 + ss" unfolding e using b by simp
    then show "s mod 3600 div 60 = mi" using assms by simp
    have "((hh * 60 + mi) * 60 + ss) mod 60 = ss mod 60" by (rule mod_mult_self3)
    then show "s mod 60 = ss" unfolding s_def using assms by (simp only: mod_pos_pos_trivial)
  qed
  show "t_clock (go_date y m d hh mi ss ns) = (hh, mi, ss)" unfolding t_clock_def sec Let_def q ..
  have "(days_of y m d * day_ns + r) mod 10 ^ 9 = r mod 10 ^ 9"
    unfolding day_ns_def by (metis mod_mult_self4 mult.assoc mult.commute)
  then show "t_nsec (go_date y m d hh mi ss ns) = ns" unfolding g t_nsec_def using rs by simp
qed

lemma t_clock_bounds:
  assumes "t_clock t = (hh, mi, ss)"
  shows "0 \<le> hh" "hh < 24" "0 \<le> mi" "mi < 60" "0 \<le> ss" "ss < 60"
proof -
  define s where "s = t_seconds t"
  have "0 \<le> t mod day_ns" "t mod day_ns < 86400 * 10 ^ 9" using pos_mod_bound[OF day_ns_pos, of t] by (simp_all add: day_ns_def)
  then have s: "0 \<le> s" "s < 86400"
    unfolding s_def t_seconds_def using seconds_bound[of "t mod day_ns" "10 ^ 9"] by simp_all
  have p: "hh = s div 3600" "mi = s mod 3600 div 60" "ss = s mod 60"
    using assms by (auto simp: t_clock_def s_def Let_def)
  show "0 \<le> hh" "hh < 24" unfolding p using s div_bracket[of 3600 s] by (simp_all add: pos_imp_zdiv_nonneg_iff)
  show "0 \<le> mi" "mi < 60" unfolding p using div_bracket[of 60 "s mod 3600"] by (simp_all add: pos_imp_zdiv_nonneg_iff)
  show "0 \<le> ss" "ss < 60" unfolding p by simp_all
qed

lemma t_nsec_bounds: "0 \<le> t_nsec t" "t_nsec t < 10 ^ 9"
  by (simp_all add: t_nsec_def)

lemma instant_from_parts:
  "t_date t = (y, m, d) \<Longrightarrow> t_clock t = (hh, mi, ss) \<Longrightarrow> go_date y m d hh mi ss (t_nsec t) = t"
  using civil_of_days_valid(2)[of "t_days t" y m d] t_split[of t] by (simp add: go_date_clock t_date_def)

subsection \<open>The wire layouts\<close>

text \<open>
  \<open>Format\<close> pads with zeros and truncates the nanoseconds. \<open>Parse\<close> reads month, day, minute and
  second as two digits, the hour as one or two, the year as four, takes any run of spaces for the
  space of the layout, and accepts a fraction after the seconds although the layout has none; the day
  is checked against the month at the end.
\<close>

definition pad_int :: "nat \<Rightarrow> int \<Rightarrow> string" where
  "pad_int w x = (if x < 0 then ''-'' else []) @
     (let ds = nat_str (nat \<bar>x\<bar>) in replicate (w - length ds) CHR ''0'' @ ds)"

definition format_date :: "instant \<Rightarrow> string" where
  "format_date t = (case t_date t of (y, m, d) \<Rightarrow> pad_int 4 y @ ''-'' @ pad_int 2 m @ ''-'' @ pad_int 2 d)"

definition format_layout :: "instant \<Rightarrow> string" where
  "format_layout t = (case t_clock t of (hh, mi, ss) \<Rightarrow>
     format_date t @ '' '' @ pad_int 2 hh @ '':'' @ pad_int 2 mi @ '':'' @ pad_int 2 ss)"

definition format_or_empty :: "instant option \<Rightarrow> string" where
  "format_or_empty t = (case t of None \<Rightarrow> [] | Some t \<Rightarrow> format_layout t)"

definition get_num :: "bool \<Rightarrow> string \<Rightarrow> (int \<times> string) option" where
  "get_num fixed s =
     (case s of
        [] \<Rightarrow> None
      | c # r \<Rightarrow>
          if \<not> is_dec c then None
          else (case r of
              d # r' \<Rightarrow>
                if is_dec d then Some (int (dec_digit c * 10 + dec_digit d), r')
                else if fixed then None else Some (int (dec_digit c), r)
            | [] \<Rightarrow> if fixed then None else Some (int (dec_digit c), r)))"

definition get_year :: "string \<Rightarrow> (int \<times> string) option" where
  "get_year s =
     (if length s < 4 \<or> \<not> list_all is_dec (take 4 s) then None
      else Some (int (dec_val (take 4 s)), drop 4 s))"

definition lit :: "char \<Rightarrow> string \<Rightarrow> string option" where
  "lit c s = (if s \<noteq> [] \<and> hd s = c then Some (tl s) else None)"

definition skip_spaces :: "string \<Rightarrow> string option" where
  "skip_spaces s = (if s \<noteq> [] \<and> hd s \<noteq> CHR '' '' then None else Some (dropWhile (\<lambda>c. c = CHR '' '') s))"

definition in_range :: "int \<Rightarrow> int \<Rightarrow> int \<Rightarrow> unit option" where
  "in_range lo hi x = (if lo \<le> x \<and> x \<le> hi then Some () else None)"

definition get_fraction :: "string \<Rightarrow> int \<times> string" where
  "get_fraction s =
     (if 2 \<le> length s \<and> (hd s = CHR ''.'' \<or> hd s = CHR '','') \<and> is_dec (s ! 1)
      then let ds = takeWhile is_dec (tl s); used = take 9 ds
        in (int (dec_val used * 10 ^ (9 - length used)), drop (length ds) (tl s))
      else (0, s))"

definition parse_ymd :: "string \<Rightarrow> ((int \<times> int \<times> int) \<times> string) option" where
  "parse_ymd s = do {
     (y, s) \<leftarrow> get_year s;
     s \<leftarrow> lit CHR ''-'' s;
     (m, s) \<leftarrow> get_num True s;
     in_range 1 12 m;
     s \<leftarrow> lit CHR ''-'' s;
     (d, s) \<leftarrow> get_num True s;
     Some ((y, m, d), s) }"

definition parse_date :: "string \<Rightarrow> instant option" where
  "parse_date s = do {
     ((y, m, d), s) \<leftarrow> parse_ymd s;
     (if s = [] \<and> valid_civil y m d then Some (go_date y m d 0 0 0 0) else None) }"

definition parse_layout :: "string \<Rightarrow> instant option" where
  "parse_layout s = do {
     ((y, m, d), s) \<leftarrow> parse_ymd s;
     s \<leftarrow> skip_spaces s;
     (hh, s) \<leftarrow> get_num False s;
     in_range 0 23 hh;
     s \<leftarrow> lit CHR '':'' s;
     (mi, s) \<leftarrow> get_num True s;
     in_range 0 59 mi;
     s \<leftarrow> lit CHR '':'' s;
     (ss, s) \<leftarrow> get_num True s;
     in_range 0 59 ss;
     let (ns, s) = get_fraction s in
     (if s = [] \<and> valid_civil y m d then Some (go_date y m d hh mi ss ns) else None) }"

lemma nat_str_length: "n < 10 ^ w \<Longrightarrow> 0 < w \<Longrightarrow> length (nat_str n) \<le> w"
proof (induction n arbitrary: w rule: nat_str.induct)
  case (1 n)
  show ?case
  proof (cases "n < 10")
    case True
    then show ?thesis using "1.prems"(2) by (subst nat_str.simps) simp
  next
    case False
    obtain v where v: "w = Suc v" using "1.prems"(2) by (cases w) auto
    then have "n div 10 < 10 ^ v" using "1.prems"(1) by simp
    moreover from this have "0 < v" using False by (cases v) auto
    ultimately show ?thesis using "1.IH"[OF False, of v] False v by (subst nat_str.simps) simp
  qed
qed

lemma pad_int_length_val:
  assumes "0 \<le> x" "x < 10 ^ w" "0 < w"
  shows "length (pad_int w x) = w" "list_all is_dec (pad_int w x)" "int (dec_val (pad_int w x)) = x"
proof -
  let ?ds = "nat_str (nat x)"
  have "nat x < 10 ^ w" using assms(1,2) by (simp add: nat_less_iff)
  then have "length ?ds \<le> w" using nat_str_length[of "nat x" w] assms(3) by simp
  moreover have "pad_int w x = replicate (w - length ?ds) CHR ''0'' @ ?ds" using assms(1) by (simp add: pad_int_def Let_def)
  moreover have "list_all is_dec (replicate k CHR ''0'')" for k by (simp add: list_all_iff)
  ultimately show "length (pad_int w x) = w" "list_all is_dec (pad_int w x)" "int (dec_val (pad_int w x)) = x"
    using nat_str_digits[of "nat x"] assms(1) by (simp_all add: dec_val_append)
qed

lemma pad_int_2:
  assumes "0 \<le> x" "x < 100"
  obtains a b where "pad_int 2 x = [a, b]" "is_dec a" "is_dec b" "int (dec_digit a * 10 + dec_digit b) = x"
proof -
  note p = pad_int_length_val[of x 2]
  obtain a b where "pad_int 2 x = [a, b]" using p(1) assms by (auto simp: length_Suc_conv numeral_2_eq_2)
  then show thesis using p assms that by (auto simp: dec_val_Cons)
qed

lemma get_num_pad [simp]: "0 \<le> x \<Longrightarrow> x < 100 \<Longrightarrow> get_num fixed (pad_int 2 x @ r) = Some (x, r)"
  by (rule pad_int_2[of x]) (auto simp: get_num_def)

lemma get_year_pad [simp]: "0 \<le> y \<Longrightarrow> y < 10000 \<Longrightarrow> get_year (pad_int 4 y @ r) = Some (y, r)"
  using pad_int_length_val[of y 4] by (simp add: get_year_def)

lemma lit_Cons [simp]: "lit c (c # s) = Some s"
  by (simp add: lit_def)

lemma in_range_Some [simp]: "lo \<le> x \<Longrightarrow> x \<le> hi \<Longrightarrow> in_range lo hi x = Some ()"
  by (simp add: in_range_def)

lemma parse_ymd_format:
  assumes "valid_civil y m d" "0 \<le> y" "y < 10000"
  shows "parse_ymd (pad_int 4 y @ ''-'' @ pad_int 2 m @ ''-'' @ pad_int 2 d @ r) = Some ((y, m, d), r)"
proof -
  have m: "1 \<le> m" "m \<le> 12" and d: "1 \<le> d" "d \<le> days_in_month y m" using assms by (auto simp: valid_civil_def)
  have "days_in_month y m \<le> 31" using m by (cases rule: month_cases) (auto simp: days_in_month_def days_before_month_def)
  then have "0 \<le> d" "d < 100" using d by simp_all
  then show ?thesis using assms(2,3) m by (simp add: parse_ymd_def)
qed

lemma parse_date_format:
  assumes "t_date t = (y, m, d)" "0 \<le> y" "y < 10000"
  shows "parse_date (format_date t) = Some (t_days t * day_ns)"
proof -
  have v: "valid_civil y m d" "days_of y m d = t_days t" using civil_of_days_valid assms(1) by (auto simp: t_date_def)
  then show ?thesis using parse_ymd_format[OF v(1) assms(2,3), of "[]"] assms(1)
    by (simp add: parse_date_def format_date_def)
qed

lemma parse_layout_format:
  assumes "t_date t = (y, m, d)" "0 \<le> y" "y < 10000"
  shows "parse_layout (format_layout t) = Some (t - t_nsec t)"
proof -
  obtain hh mi ss where c: "t_clock t = (hh, mi, ss)" using prod_cases3 by blast
  have v: "valid_civil y m d" using civil_of_days_valid assms(1) by (auto simp: t_date_def)
  note b = t_clock_bounds[OF c]
  have "skip_spaces (CHR '' '' # pad_int 2 hh @ r) = Some (pad_int 2 hh @ r)" for r
    using b by (auto simp: skip_spaces_def intro: pad_int_2[of hh])
      (rule pad_int_2[of hh], auto simp: is_dec_def less_eq_char_def)
  then have "parse_layout (format_layout t) = Some (go_date y m d hh mi ss 0)"
    using parse_ymd_format[OF v assms(2,3)] assms(1) c b v get_num_pad[of ss True "[]"]
    by (simp add: parse_layout_def format_layout_def format_date_def get_fraction_def)
  moreover have "go_date y m d hh mi ss (t_nsec t) = t" by (rule instant_from_parts[OF assms(1) c])
  then have "go_date y m d hh mi ss 0 = t - t_nsec t" by (simp add: go_date_def)
  ultimately show ?thesis by simp
qed

subsection \<open>Properties\<close>

text \<open>C37: for years 0 to 9999 the wire form of a timestamp parses back to it, cut to whole seconds, and the
  date form to its midnight.
\<close>
theorem wire_datetime_roundtrip:
  assumes "t_date t = (y, m, d)" "0 \<le> y" "y < 10000"
  shows "parse_layout (format_or_empty (Some t)) = Some (t - t_nsec t) \<and>
    parse_date (format_date t) = Some (t_days t * day_ns)"
  using parse_layout_format[OF assms] parse_date_format[OF assms] by (simp add: format_or_empty_def)

lemma wire_datetime_roundtrip_witness:
  "format_or_empty (Some (go_date 2024 2 29 23 5 9 7)) = ''2024-02-29 23:05:09'' \<and>
   parse_layout (format_or_empty (Some (go_date 2024 2 29 23 5 9 7))) = Some (go_date 2024 2 29 23 5 9 0)"
proof -
  have d: "t_date (go_date 2024 2 29 23 5 9 7) = (2024, 2, 29)" by code_simp
  have f: "format_or_empty (Some (go_date 2024 2 29 23 5 9 7)) = ''2024-02-29 23:05:09''" by code_simp
  have "t_nsec (go_date 2024 2 29 23 5 9 7) = 7" by code_simp
  then show ?thesis using wire_datetime_roundtrip[OF d] f by (simp add: go_date_def)
qed

end
