(* ===== verification/Runes.thy ===== *)
theory Runes
  imports Go_Strings
begin

section \<open>Runes\<close>

text \<open>
  UTF-8 as Go reads it: a range over a string yields one rune per well-formed sequence and the
  replacement rune 0xFFFD, one byte wide, for every byte that does not start one. \<open>len([]rune(s))\<close> and
  \<open>utf8.RuneCountInString\<close> count these runes. \<open>strings.EqualFold\<close> compares runes up to Unicode
  simple folding and \<open>strings.ToLower\<close> maps them; the Unicode tables are not code of the
  repository, so the folding representative and the lower-case map are arguments.
\<close>

definition in_bytes :: "nat \<Rightarrow> nat \<Rightarrow> char \<Rightarrow> bool" where
  "in_bytes lo hi c \<longleftrightarrow> lo \<le> of_char c \<and> of_char c \<le> hi"

definition rune_error :: nat where
  "rune_error = 65533"

text \<open>The admissible second byte after a first byte, by the length of the sequence.\<close>

definition second_range :: "nat \<Rightarrow> nat \<times> nat" where
  "second_range b =
     (if b = 224 then (160, 191) else if b = 237 then (128, 159)
      else if b = 240 then (144, 191) else if b = 244 then (128, 143) else (128, 191))"

definition decode_rune :: "string \<Rightarrow> nat \<times> nat" where
  "decode_rune s =
     (case s of
        [] \<Rightarrow> (rune_error, 0)
      | c0 # r0 \<Rightarrow>
          let b = of_char c0; (lo, hi) = second_range b in
          if b < 128 then (b, 1)
          else if b < 194 \<or> 244 < b then (rune_error, 1)
          else (case r0 of
              [] \<Rightarrow> (rune_error, 1)
            | c1 # r1 \<Rightarrow>
                if \<not> in_bytes lo hi c1 then (rune_error, 1)
                else if b < 224 then ((b - 192) * 64 + (of_char c1 - 128), 2)
                else (case r1 of
                    [] \<Rightarrow> (rune_error, 1)
                  | c2 # r2 \<Rightarrow>
                      if \<not> in_bytes 128 191 c2 then (rune_error, 1)
                      else if b < 240 then (((b - 224) * 64 + (of_char c1 - 128)) * 64 + (of_char c2 - 128), 3)
                      else (case r2 of
                          [] \<Rightarrow> (rune_error, 1)
                        | c3 # r3 \<Rightarrow>
                            if \<not> in_bytes 128 191 c3 then (rune_error, 1)
                            else ((((b - 240) * 64 + (of_char c1 - 128)) * 64 + (of_char c2 - 128)) * 64
                                  + (of_char c3 - 128), 4)))))"

function runes :: "string \<Rightarrow> nat list" where
  "runes [] = []"
| "runes (c # s) = (let (r, w) = decode_rune (c # s) in r # runes (drop (w - 1) s))"
  by pat_completeness auto
termination
  by (relation "measure length") (auto simp: less_Suc_eq_le)

definition rune_count :: "string \<Rightarrow> nat" where
  "rune_count s = length (runes s)"

definition encode_rune :: "nat \<Rightarrow> string" where
  "encode_rune r =
     (let r = (if 1114111 < r \<or> 55296 \<le> r \<and> r \<le> 57343 then rune_error else r) in
      map char_of
       (if r < 128 then [r]
        else if r < 2048 then [192 + r div 64, 128 + r mod 64]
        else if r < 65536 then [224 + r div 4096, 128 + r div 64 mod 64, 128 + r mod 64]
        else [240 + r div 262144, 128 + r div 4096 mod 64, 128 + r div 64 mod 64, 128 + r mod 64]))"

definition equal_fold :: "(nat \<Rightarrow> nat) \<Rightarrow> string \<Rightarrow> string \<Rightarrow> bool" where
  "equal_fold cf s t \<longleftrightarrow> map cf (runes s) = map cf (runes t)"

definition to_lower :: "(nat \<Rightarrow> nat) \<Rightarrow> string \<Rightarrow> string" where
  "to_lower low s = concat (map (encode_rune \<circ> low) (runes s))"

lemma runes_ascii: "\<forall>c\<in>set s. of_char c < (128 :: nat) \<Longrightarrow> runes s = map of_char s"
  by (induction s) (simp_all add: decode_rune_def Let_def split: prod.split)

lemma equal_fold_refl [simp]: "equal_fold cf s s"
  by (simp add: equal_fold_def)

lemma equal_fold_sym: "equal_fold cf s t \<longleftrightarrow> equal_fold cf t s"
  by (auto simp: equal_fold_def)

lemma equal_fold_trans: "equal_fold cf s t \<Longrightarrow> equal_fold cf t u \<Longrightarrow> equal_fold cf s u"
  by (simp add: equal_fold_def)

end
