(* ===== verification/Decimal.thy ===== *)
theory Decimal
  imports Errs Go_Strings
begin

section \<open>Decimal numbers\<close>

text \<open>
  \<open>internal/shared/vo/decimal.go\<close>: money and rates as normalized decimal strings, with
  arithmetic in integers scaled by \<open>10^8\<close>. \<open>big.Int\<close> is \<open>int\<close>; \<open>Quo\<close>/\<open>QuoRem\<close> truncate
  toward zero. \<open>expandScientific\<close> counts its exponent in a 64-bit \<open>int\<close>, so \<open>wrap64\<close> writes
  the wrap-around out.
\<close>

datatype decimal = DecimalNumber (dvalue: string)

definition decimal_scale :: nat where
  "decimal_scale = 8"

definition decimal_pow8 :: int where
  "decimal_pow8 = 10 ^ decimal_scale"

subsection \<open>Normalization\<close>

text \<open>
  The common text of \<open>normalizeDecimalPlain\<close> and \<open>normalizeDecimal\<close> after trimming: sign,
  integer part without leading zeros, at most eight fraction digits without trailing zeros.
\<close>

definition normalize_int_part :: "string \<Rightarrow> string" where
  "normalize_int_part int_part =
     (if int_part = [] \<or> int_part = ''0'' then ''0''
      else let t = trim_left_byte CHR ''0'' int_part in if t = [] then ''0'' else t)"

definition normalize_unsigned :: "string \<Rightarrow> string" where
  "normalize_unsigned num =
     (let num =
        (if CHR ''.'' \<in> set num then
           (let (int_part, frac_part) = split_at_byte CHR ''.'' num;
                int_part = normalize_int_part int_part;
                frac_part = (if length frac_part > decimal_scale then take decimal_scale frac_part else frac_part);
                frac_part = trim_right_byte CHR ''0'' frac_part
            in if frac_part = [] then int_part else int_part @ ''.'' @ frac_part)
         else (let t = trim_left_byte CHR ''0'' num in if t = [] then ''0'' else t))
      in if has_prefix num ''.'' then ''0'' @ num else num)"

definition normalize_body :: "string \<Rightarrow> string" where
  "normalize_body num =
     (let negative = has_prefix num ''-'';
          num = normalize_unsigned (if negative then tl num else num)
      in if negative \<and> num \<noteq> ''0'' then ''-'' @ num else num)"

definition normalize_decimal_plain :: "string \<Rightarrow> string" where
  "normalize_decimal_plain num =
     (let num = trim_space num in
      if num = [] \<or> num = ''0'' then ''0'' else normalize_body num)"

subsection \<open>The scaled integer of a value\<close>

definition scaled :: "decimal \<Rightarrow> int" where
  "scaled d =
     (let s = dvalue d in
      if s = [] then 0
      else
        let neg = has_prefix s ''-'';
            s = (if neg then tl s else s);
            (int_part, frac_part) = (if CHR ''.'' \<in> set s then split_at_byte CHR ''.'' s else (s, []));
            frac_part = (if length frac_part > decimal_scale then take decimal_scale frac_part else frac_part);
            frac_part = frac_part @ replicate (decimal_scale - length frac_part) CHR ''0''
        in case set_string (int_part @ frac_part) of
             None \<Rightarrow> 0
           | Some n \<Rightarrow> if neg then - n else n)"

text \<open>
  \<open>fromScaled\<close> ends in \<open>NewDecimal(raw)\<close>; \<open>raw\<close> has no exponent, where \<open>NewDecimal\<close> is
  \<open>normalizeDecimalPlain\<close> (\<open>new_decimal_plain\<close> below).
\<close>

definition scaled_text :: "int \<Rightarrow> string" where
  "scaled_text n =
     (let neg = n < 0;
          abs = nat_str (nat \<bar>n\<bar>);
          abs = replicate (Suc decimal_scale - length abs) CHR ''0'' @ abs;
          cut = length abs - decimal_scale;
          raw = take cut abs @ ''.'' @ drop cut abs
      in if neg then ''-'' @ raw else raw)"

definition from_scaled :: "int \<Rightarrow> decimal" where
  "from_scaled n = DecimalNumber (normalize_decimal_plain (scaled_text n))"

definition to_string :: "decimal \<Rightarrow> string" where
  "to_string d = (if dvalue d = [] then ''0'' else dvalue d)"

subsection \<open>Scientific notation and \<open>NewDecimal\<close>\<close>

definition wrap64 :: "int \<Rightarrow> int" where
  "wrap64 x = (x + 2 ^ 63) mod 2 ^ 64 - 2 ^ 63"

fun parse_exponent :: "int \<Rightarrow> string \<Rightarrow> int option" where
  "parse_exponent e [] = Some e"
| "parse_exponent e (c # cs) =
     (if \<not> is_dec c then None
      else parse_exponent (wrap64 (wrap64 (e * 10) + int (dec_digit c))) cs)"

text \<open>\<open>Exp(10, e, nil)\<close> is 1 for \<open>e <= 0\<close>.\<close>

definition big_pow10 :: "int \<Rightarrow> int" where
  "big_pow10 e = (if e \<le> 0 then 1 else 10 ^ nat e)"

definition quo :: "int \<Rightarrow> int \<Rightarrow> int" where
  "quo a b = sgn a * sgn b * (\<bar>a\<bar> div \<bar>b\<bar>)"

definition expand_scientific :: "string \<Rightarrow> nat \<Rightarrow> string" where
  "expand_scientific num i =
     (let base = take i num;
          exp_str = drop (Suc i) num;
          signed = exp_str \<noteq> [] \<and> (hd exp_str = CHR ''+'' \<or> hd exp_str = CHR ''-'');
          exp_neg = signed \<and> hd exp_str = CHR ''-'';
          exp_str = (if signed then tl exp_str else exp_str)
      in case parse_exponent 0 exp_str of
           None \<Rightarrow> ''0''
         | Some e \<Rightarrow>
             (let base_scaled = scaled (DecimalNumber (normalize_decimal_plain (normalize_decimal_plain base)));
                  pow = big_pow10 e;
                  res_scaled = (if exp_neg then quo base_scaled pow else base_scaled * pow)
              in to_string (from_scaled res_scaled)))"

definition is_exp_mark :: "char \<Rightarrow> bool" where
  "is_exp_mark c \<longleftrightarrow> c = CHR ''e'' \<or> c = CHR ''E''"

definition normalize_decimal :: "string \<Rightarrow> string" where
  "normalize_decimal num =
     (let num = trim_space num in
      if num = [] \<or> num = ''0'' then ''0''
      else if \<exists>c\<in>set num. is_exp_mark c
        then expand_scientific num (length (takeWhile (\<lambda>c. \<not> is_exp_mark c) num))
      else normalize_body num)"

definition new_decimal :: "string \<Rightarrow> decimal" where
  "new_decimal raw = DecimalNumber (normalize_decimal raw)"

subsection \<open>Arithmetic and comparison\<close>

definition sub_decimal :: "decimal \<Rightarrow> decimal \<Rightarrow> decimal" where
  "sub_decimal d other = from_scaled (scaled d - scaled other)"

definition is_zero :: "decimal \<Rightarrow> bool" where
  "is_zero d \<longleftrightarrow> scaled d = 0"

definition is_negative :: "decimal \<Rightarrow> bool" where
  "is_negative d \<longleftrightarrow> scaled d < 0"

definition equals :: "decimal \<Rightarrow> decimal \<Rightarrow> bool" where
  "equals d other \<longleftrightarrow> scaled d = scaled other"

definition abs_decimal :: "decimal \<Rightarrow> decimal" where
  "abs_decimal d = from_scaled \<bar>scaled d\<bar>"

definition add_decimal :: "decimal \<Rightarrow> decimal \<Rightarrow> decimal" where
  "add_decimal d other = from_scaled (scaled d + scaled other)"

definition mul_decimal :: "decimal \<Rightarrow> decimal \<Rightarrow> decimal" where
  "mul_decimal d other = from_scaled (quo (scaled d * scaled other) decimal_pow8)"

definition div_decimal :: "decimal \<Rightarrow> decimal \<Rightarrow> decimal result" where
  "div_decimal d other =
     (let den = scaled other in
      if den = 0 then Inl (GoPanic ''vo.DecimalNumber: division by zero'')
      else Inr (from_scaled (quo (scaled d * decimal_pow8) den)))"

definition round_decimal :: "decimal \<Rightarrow> int \<Rightarrow> decimal" where
  "round_decimal d precision =
     (let precision = (if precision < 0 then 0 else precision) in
      if precision \<ge> int decimal_scale then d
      else
        let val = scaled d;
            dv = 10 ^ (decimal_scale - nat precision);
            q = quo val dv;
            r = val - q * dv;
            q = (if 2 * \<bar>r\<bar> \<ge> dv then (if val < 0 then q - 1 else q + 1) else q)
        in from_scaled (q * dv))"

definition is_greater_than :: "decimal \<Rightarrow> decimal \<Rightarrow> bool" where
  "is_greater_than d other \<longleftrightarrow> scaled d > scaled other"

definition is_less_than :: "decimal \<Rightarrow> decimal \<Rightarrow> bool" where
  "is_less_than d other \<longleftrightarrow> scaled d < scaled other"

subsection \<open>The canonical text of a value\<close>

text \<open>
  \<open>canon_text neg m f\<close> is the text with integer part \<open>m\<close> and the eight fraction digits \<open>f\<close>:
  no leading and no trailing zeros, no sign on zero.
\<close>

definition canon_text :: "bool \<Rightarrow> nat \<Rightarrow> string \<Rightarrow> string" where
  "canon_text neg m f =
     (let t = trim_right_byte CHR ''0'' f;
          u = (if t = [] then nat_str m else nat_str m @ ''.'' @ t)
      in if neg \<and> u \<noteq> ''0'' then ''-'' @ u else u)"

lemma hd_nat_str: "is_dec (hd (nat_str m))"
  using nat_str_digits[of m] nat_str_nonempty[of m] by (cases "nat_str m") auto

lemma dec_not_punct: "is_dec c \<Longrightarrow> c \<noteq> CHR ''.'' \<and> c \<noteq> CHR ''-'' \<and> c \<noteq> CHR ''+'' \<and> \<not> is_exp_mark c"
  by (auto simp: is_dec_def is_exp_mark_def)

lemma digits_no_dot [simp]: "list_all is_dec ds \<Longrightarrow> CHR ''.'' \<notin> set ds"
  using dec_not_punct by (auto simp: list_all_iff)

lemma normalize_int_part_digits:
  assumes "list_all is_dec ds"
  shows "normalize_int_part ds = nat_str (dec_val ds)"
proof -
  have "nat_str 0 = ''0''" by (simp add: nat_str.simps digit_char_0)
  moreover have "dec_val ''0'' = 0" by simp
  ultimately show ?thesis
    using trim_left_zeros[OF assms] unfolding normalize_int_part_def by auto
qed

lemma trim_right_take_pad:
  "trim_right_byte CHR ''0'' (if n < length f then take n f else f) =
   trim_right_byte CHR ''0'' (take n f @ replicate (n - length f) CHR ''0'')"
  by (auto simp: trim_right_replicate)

text \<open>The fraction digits at scale 8.\<close>

definition frac8 :: "string \<Rightarrow> string" where
  "frac8 f = take decimal_scale f @ replicate (decimal_scale - length f) CHR ''0''"

lemma length_frac8 [simp]: "length (frac8 f) = decimal_scale"
  by (simp add: frac8_def)

lemma frac8_digits [simp]: "list_all is_dec f \<Longrightarrow> list_all is_dec (frac8 f)"
  by (auto simp: frac8_def list_all_iff dest: in_set_takeD)

lemma normalize_unsigned_point:
  assumes "list_all is_dec i" "list_all is_dec f"
  shows "normalize_unsigned (i @ ''.'' @ f) = canon_text False (dec_val i) (frac8 f)"
  using assms hd_nat_str[of "dec_val i"] nat_str_nonempty[of "dec_val i"]
  by (cases "nat_str (dec_val i)")
    (auto simp: normalize_unsigned_def normalize_int_part_digits canon_text_def Let_def frac8_def has_prefix_def
        trim_right_take_pad dest: dec_not_punct)

lemma trim_right_zeros_only [simp]: "trim_right_byte CHR ''0'' (replicate n CHR ''0'') = []"
  using trim_right_replicate[of "[]" n] by (simp add: trim_right_byte_def)

lemma normalize_unsigned_int:
  assumes "list_all is_dec i"
  shows "normalize_unsigned i = canon_text False (dec_val i) (frac8 [])"
  using trim_left_zeros[OF assms] assms hd_nat_str[of "dec_val i"] nat_str_nonempty[of "dec_val i"]
  by (cases "nat_str (dec_val i)")
    (auto simp: normalize_unsigned_def canon_text_def Let_def frac8_def has_prefix_def dest: dec_not_punct)

text \<open>Plain decimals: an optional sign, integer digits, an optional point and fraction digits.\<close>

definition plain_text :: "bool \<Rightarrow> string \<Rightarrow> string option \<Rightarrow> string" where
  "plain_text neg i fo =
     (if neg then ''-'' else '''') @ i @ (case fo of None \<Rightarrow> '''' | Some f \<Rightarrow> ''.'' @ f)"

definition plain_parts :: "string \<Rightarrow> string option \<Rightarrow> bool" where
  "plain_parts i fo \<longleftrightarrow> list_all is_dec i \<and> (case fo of None \<Rightarrow> i \<noteq> [] | Some f \<Rightarrow> list_all is_dec f)"

definition frac_of :: "string option \<Rightarrow> string" where
  "frac_of fo = (case fo of None \<Rightarrow> [] | Some f \<Rightarrow> f)"

lemma canon_text_neg:
  "canon_text neg m f = (let u = canon_text False m f in if neg \<and> u \<noteq> ''0'' then ''-'' @ u else u)"
  by (simp add: canon_text_def Let_def)

lemma normalize_body_plain:
  assumes "plain_parts i fo"
  shows "normalize_body (plain_text neg i fo) = canon_text neg (dec_val i) (frac8 (frac_of fo))"
proof -
  let ?u = "i @ (case fo of None \<Rightarrow> '''' | Some f \<Rightarrow> ''.'' @ f)"
  have u: "normalize_unsigned ?u = canon_text False (dec_val i) (frac8 (frac_of fo))"
    using assms normalize_unsigned_int normalize_unsigned_point
    by (auto simp: plain_parts_def frac_of_def split: option.splits)
  have "\<not> has_prefix ?u ''-''"
    using assms dec_not_punct by (cases i; cases fo) (auto simp: has_prefix_def plain_parts_def)
  then show ?thesis
    using u by (subst canon_text_neg) (auto simp: normalize_body_def plain_text_def has_prefix_def Let_def)
qed

lemma solid_dec: "is_dec c \<or> c = CHR ''.'' \<or> c = CHR ''-'' \<Longrightarrow> solid c"
  by (auto simp: solid_def white_runes_def is_dec_def)

lemma plain_text_chars:
  "plain_parts i fo \<Longrightarrow> \<forall>c\<in>set (plain_text neg i fo). is_dec c \<or> c = CHR ''.'' \<or> c = CHR ''-''"
  by (auto simp: plain_parts_def plain_text_def list_all_iff split: option.splits if_splits)

lemma trim_space_plain:
  assumes "plain_parts i fo"
  shows "trim_space (plain_text neg i fo) = plain_text neg i fo"
proof (rule trim_space_solid)
  assume "plain_text neg i fo \<noteq> []"
  then show "solid (hd (plain_text neg i fo)) \<and> solid (last (plain_text neg i fo))"
    using plain_text_chars[OF assms, of neg] solid_dec by (meson hd_in_set last_in_set)
qed

lemma normalize_plain_eq:
  assumes "plain_parts i fo"
  shows "normalize_decimal_plain (plain_text neg i fo) = canon_text neg (dec_val i) (frac8 (frac_of fo))"
    and "normalize_decimal (plain_text neg i fo) = canon_text neg (dec_val i) (frac8 (frac_of fo))"
proof -
  have ne: "plain_text neg i fo \<noteq> []" using assms by (auto simp: plain_text_def plain_parts_def split: option.splits)
  have z: "canon_text neg (dec_val i) (frac8 (frac_of fo)) = ''0''" if "plain_text neg i fo = ''0''"
    using normalize_body_plain[OF assms, of neg] that
    by (simp add: normalize_body_def has_prefix_def normalize_unsigned_def trim_left_byte_def Let_def)
  show "normalize_decimal_plain (plain_text neg i fo) = canon_text neg (dec_val i) (frac8 (frac_of fo))"
    using normalize_body_plain[OF assms, of neg] trim_space_plain[OF assms] ne z
    by (auto simp: normalize_decimal_plain_def Let_def)
  have "\<not> (\<exists>c\<in>set (plain_text neg i fo). is_exp_mark c)"
    using plain_text_chars[OF assms, of neg] dec_not_punct by (auto simp: is_exp_mark_def)
  then show "normalize_decimal (plain_text neg i fo) = canon_text neg (dec_val i) (frac8 (frac_of fo))"
    using normalize_body_plain[OF assms, of neg] trim_space_plain[OF assms] ne z
    by (auto simp: normalize_decimal_def Let_def)
qed

text \<open>The value of a canonical text.\<close>

lemma trim_right_frac8:
  "length f = decimal_scale \<Longrightarrow>
   trim_right_byte CHR ''0'' f @ replicate (decimal_scale - length (trim_right_byte CHR ''0'' f)) CHR ''0'' = f"
  using trim_right_pad[of f] by simp

lemma trim_right_digits: "list_all is_dec f \<Longrightarrow> list_all is_dec (trim_right_byte c f)"
  using trim_right_set[of c f] by (auto simp: list_all_iff)

lemma set_string_digits:
  assumes "list_all is_dec ds" "ds \<noteq> []"
  shows "set_string ds = Some (int (dec_val ds))"
  using assms by (cases ds) (auto simp: set_string_def parse_digits_def dest: dec_not_punct)

lemma canon_zero_iff:
  assumes "list_all is_dec f" "length f = decimal_scale"
  shows "canon_text False m f = ''0'' \<longleftrightarrow> m = 0 \<and> dec_val f = 0"
proof -
  let ?t = "trim_right_byte CHR ''0'' f"
  have "nat_str m = ''0'' \<longleftrightarrow> m = 0"
    by (metis dec_val_nat_str dec_val_single dec_zero(1) nat_str.simps zero_less_numeral digit_char_0)
  moreover have "?t = [] \<longleftrightarrow> dec_val f = 0"
  proof
    assume "?t = []"
    then have "f = replicate decimal_scale CHR ''0''" using trim_right_frac8[OF assms(2)] by simp
    then show "dec_val f = 0" by simp
  next
    assume "dec_val f = 0"
    then have "f = replicate decimal_scale CHR ''0''"
      using dec_val_inj[of f "replicate decimal_scale CHR ''0''"] assms by (simp add: list_all_iff)
    then show "?t = []" by simp
  qed
  moreover have "nat_str m @ CHR ''.'' # x \<noteq> ''0''" for x
    by (cases "nat_str m") auto
  ultimately show ?thesis by (auto simp: canon_text_def Let_def)
qed

lemma scaled_canon_unsigned:
  assumes "list_all is_dec f" "length f = decimal_scale"
  shows "scaled (DecimalNumber (canon_text False m f)) = int m * decimal_pow8 + int (dec_val f)"
proof -
  let ?t = "trim_right_byte CHR ''0'' f"
  have nm: "list_all is_dec (nat_str m)" by (rule nat_str_digits)
  have neg: "\<not> has_prefix (canon_text False m f) ''-''"
    using hd_nat_str[of m] nat_str_nonempty[of m] dec_not_punct[of "hd (nat_str m)"]
    by (cases "nat_str m") (auto simp: canon_text_def has_prefix_def Let_def)
  have val: "set_string (nat_str m @ f) = Some (int m * decimal_pow8 + int (dec_val f))"
    using set_string_digits[of "nat_str m @ f"] nm assms
    by (simp add: dec_val_append decimal_pow8_def)
  show ?thesis
  proof (cases "?t = []")
    case True
    then have f: "f = replicate decimal_scale CHR ''0''" using trim_right_frac8[OF assms(2)] by simp
    then show ?thesis using True neg val nm
      by (simp add: scaled_def canon_text_def Let_def)
  next
    case False
    have len: "length ?t \<le> decimal_scale" using trim_right_length[of "CHR ''0''" f] assms(2) by simp
    show ?thesis using False neg val nm len trim_right_frac8[OF assms(2)]
      by (simp add: scaled_def canon_text_def Let_def)
  qed
qed

lemma scaled_canon:
  assumes "list_all is_dec f" "length f = decimal_scale"
  shows "scaled (DecimalNumber (canon_text neg m f)) =
    (if neg then -1 else 1) * (int m * decimal_pow8 + int (dec_val f))"
proof -
  let ?u = "canon_text False m f"
  have ne: "?u \<noteq> []" by (simp add: canon_text_def Let_def)
  have nneg: "\<not> has_prefix ?u ''-''"
    using hd_nat_str[of m] nat_str_nonempty[of m] dec_not_punct[of "hd (nat_str m)"]
    by (cases "nat_str m") (auto simp: canon_text_def has_prefix_def Let_def)
  have minus: "scaled (DecimalNumber (''-'' @ ?u)) = - scaled (DecimalNumber ?u)"
    using ne nneg by (simp add: scaled_def has_prefix_def Let_def split: option.splits prod.splits)
  show ?thesis
  proof (cases "neg \<and> ?u \<noteq> ''0''")
    case True
    then have "canon_text neg m f = ''-'' @ ?u" by (subst canon_text_neg) (simp add: Let_def)
    then show ?thesis using True minus scaled_canon_unsigned[OF assms, of m] by simp
  next
    case False
    then have eq: "canon_text neg m f = ?u" by (subst canon_text_neg) (auto simp: Let_def)
    show ?thesis
      using scaled_canon_unsigned[OF assms, of m] False canon_zero_iff[OF assms, of m] unfolding eq by auto
  qed
qed

subsection \<open>\<open>fromScaled\<close> and the scaled value\<close>

text \<open>The digits of \<open>|n|\<close> padded to at least nine, cut before the last eight.\<close>

lemma padded_digits:
  fixes a :: nat
  defines "p \<equiv> replicate (Suc decimal_scale - length (nat_str a)) CHR ''0'' @ nat_str a"
  defines "ct \<equiv> length p - decimal_scale"
  shows "list_all is_dec (take ct p)" "list_all is_dec (drop ct p)" "length (drop ct p) = decimal_scale"
    "dec_val (take ct p) = a div 10 ^ decimal_scale" "dec_val (drop ct p) = a mod 10 ^ decimal_scale"
    "take ct p \<noteq> []"
proof -
  have len: "Suc decimal_scale \<le> length p" by (simp add: p_def)
  have dig: "list_all is_dec p" using nat_str_digits[of a] by (auto simp: p_def list_all_iff)
  show t: "list_all is_dec (take ct p)" and d: "list_all is_dec (drop ct p)"
    using dig by (auto simp: list_all_iff dest: in_set_takeD in_set_dropD)
  show l: "length (drop ct p) = decimal_scale" using len by (simp add: ct_def)
  show "take ct p \<noteq> []" using len by (auto simp: ct_def)
  have "dec_val p = a" by (simp add: p_def dec_val_append)
  then have "dec_val (take ct p @ drop ct p) = a" by simp
  then have e: "dec_val (take ct p) * 10 ^ decimal_scale + dec_val (drop ct p) = a"
    unfolding dec_val_append l .
  have "q = a div 10 ^ decimal_scale \<and> r = a mod 10 ^ decimal_scale"
    if "q * 10 ^ decimal_scale + r = a" "r < 10 ^ decimal_scale" for q r :: nat
    using that by auto
  note this[OF e]
  moreover have "dec_val (drop ct p) < 10 ^ decimal_scale" using dec_val_bound[OF d] l by simp
  ultimately show "dec_val (take ct p) = a div 10 ^ decimal_scale" "dec_val (drop ct p) = a mod 10 ^ decimal_scale"
    by simp_all
qed

lemma from_scaled_canon:
  obtains i f where "plain_parts i (Some f)" "scaled_text n = plain_text (n < 0) i (Some f)"
    "length f = decimal_scale" "dec_val f = nat \<bar>n\<bar> mod 10 ^ decimal_scale"
    "from_scaled n = DecimalNumber (canon_text (n < 0) (nat \<bar>n\<bar> div 10 ^ decimal_scale) f)"
proof -
  define a where "a = nat \<bar>n\<bar>"
  define p where "p = replicate (Suc decimal_scale - length (nat_str a)) CHR ''0'' @ nat_str a"
  define i where "i = take (length p - decimal_scale) p"
  define f where "f = drop (length p - decimal_scale) p"
  note pd = padded_digits[of a, folded p_def, folded i_def f_def]
  have st: "scaled_text n = plain_text (n < 0) i (Some f)"
    unfolding scaled_text_def Let_def a_def[symmetric] p_def[symmetric]
    unfolding i_def[symmetric] f_def[symmetric] by (simp add: plain_text_def)
  have parts: "plain_parts i (Some f)" using pd by (simp add: plain_parts_def)
  have f8: "frac8 f = f" using pd(3) by (simp add: frac8_def)
  have "from_scaled n = DecimalNumber (canon_text (n < 0) (dec_val i) f)"
    using normalize_plain_eq(1)[OF parts, of "n < 0"] st f8 by (simp add: from_scaled_def frac_of_def)
  then show thesis using that[OF parts st] pd by (simp add: a_def)
qed

text \<open>\<open>fromScaled\<close> is \<open>NewDecimal\<close> of its text, as in the code.\<close>

lemma from_scaled_new_decimal: "from_scaled n = new_decimal (scaled_text n)"
proof (rule from_scaled_canon[of n])
  fix i f
  assume "plain_parts i (Some f)" "scaled_text n = plain_text (n < 0) i (Some f)"
  then show ?thesis using normalize_plain_eq[of i "Some f" "n < 0"] by (simp add: from_scaled_def new_decimal_def)
qed

lemma int_split_scale:
  "int (a div 10 ^ decimal_scale) * decimal_pow8 + int (a mod 10 ^ decimal_scale) = int a"
proof -
  have "(10 :: int) ^ decimal_scale = int (10 ^ decimal_scale)" by simp
  then show ?thesis unfolding decimal_pow8_def by (simp only: of_nat_mult[symmetric] of_nat_add[symmetric] div_mult_mod_eq)
qed

lemma scaled_from_scaled [simp]: "scaled (from_scaled n) = n"
proof (rule from_scaled_canon[of n])
  fix i f
  assume p: "plain_parts i (Some f)" and f: "length f = decimal_scale" "dec_val f = nat \<bar>n\<bar> mod 10 ^ decimal_scale"
    and eq: "from_scaled n = DecimalNumber (canon_text (n < 0) (nat \<bar>n\<bar> div 10 ^ decimal_scale) f)"
  have "list_all is_dec f" using p by (simp add: plain_parts_def)
  then have "scaled (from_scaled n) = (if n < 0 then -1 else 1) *
      (int (nat \<bar>n\<bar> div 10 ^ decimal_scale) * decimal_pow8 + int (nat \<bar>n\<bar> mod 10 ^ decimal_scale))"
    using scaled_canon[OF _ f(1)] f(2) eq by simp
  then show ?thesis unfolding int_split_scale by (simp split: if_splits)
qed

lemma from_scaled_inj [simp]: "from_scaled m = from_scaled n \<longleftrightarrow> m = n"
  by (metis scaled_from_scaled)

text \<open>A plain decimal text normalizes to the canonical text of its value, cut at scale 8.\<close>

definition plain_value :: "bool \<Rightarrow> string \<Rightarrow> string option \<Rightarrow> int" where
  "plain_value neg i fo =
     (if neg then -1 else 1) * (int (dec_val i) * decimal_pow8 + int (dec_val (frac8 (frac_of fo))))"

lemma frac_of_digits: "plain_parts i fo \<Longrightarrow> list_all is_dec (frac_of fo)"
  by (auto simp: plain_parts_def frac_of_def split: option.splits)

lemma canon_text_value:
  assumes "list_all is_dec f" "length f = decimal_scale"
  shows "DecimalNumber (canon_text neg m f) = from_scaled ((if neg then -1 else 1) * (int m * decimal_pow8 + int (dec_val f)))"
proof -
  let ?n = "(if neg then -1 else 1) * (int m * decimal_pow8 + int (dec_val f))"
  have bound: "dec_val f < 10 ^ decimal_scale" using dec_val_bound[OF assms(1)] assms(2) by simp
  let ?x = "int m * decimal_pow8 + int (dec_val f)"
  have "?x = int (m * 10 ^ decimal_scale + dec_val f)" by (simp add: decimal_pow8_def)
  moreover have "0 \<le> ?x" by (simp add: decimal_pow8_def)
  then have "\<bar>?n\<bar> = ?x" by (cases neg) simp_all
  ultimately have a: "nat \<bar>?n\<bar> = m * 10 ^ decimal_scale + dec_val f" by (simp only: nat_int)
  show ?thesis
  proof (rule from_scaled_canon[of ?n])
    fix i g
    assume g: "plain_parts i (Some g)" "length g = decimal_scale" "dec_val g = nat \<bar>?n\<bar> mod 10 ^ decimal_scale"
      and eq: "from_scaled ?n = DecimalNumber (canon_text (?n < 0) (nat \<bar>?n\<bar> div 10 ^ decimal_scale) g)"
    have "list_all is_dec g" using g(1) by (simp add: plain_parts_def)
    moreover have "dec_val g = dec_val f" using g(3) a bound by simp
    ultimately have gf: "g = f" using dec_val_inj[of g f] g(2) assms by simp
    have m: "nat \<bar>?n\<bar> div 10 ^ decimal_scale = m" using a bound by simp
    have "canon_text (?n < 0) m f = canon_text neg m f"
    proof (cases "neg \<and> canon_text False m f \<noteq> ''0''")
      case True
      then have "0 < int m * decimal_pow8 + int (dec_val f)"
        using canon_zero_iff[OF assms, of m] by (auto simp: decimal_pow8_def intro: add_nonneg_pos add_pos_nonneg)
      then show ?thesis using True by simp
    next
      case False
      then have "canon_text b m f = canon_text neg m f" if "b \<longrightarrow> neg" for b
        using that canon_text_neg[of neg m f] canon_text_neg[of b m f] by (auto simp: Let_def)
      moreover have "?n < 0 \<longrightarrow> neg" by (auto simp: decimal_pow8_def not_less)
      ultimately show ?thesis by blast
    qed
    then show ?thesis using eq gf m by simp
  qed
qed

lemma new_decimal_plain:
  assumes "plain_parts i fo"
  shows "new_decimal (plain_text neg i fo) = from_scaled (plain_value neg i fo)"
  using normalize_plain_eq(2)[OF assms, of neg] canon_text_value[of "frac8 (frac_of fo)" neg "dec_val i"]
    frac_of_digits[OF assms] by (simp add: new_decimal_def plain_value_def)

subsection \<open>Arithmetic on scaled values\<close>

lemma quo_spec:
  assumes "b \<noteq> 0"
  shows "\<bar>quo a b\<bar> * \<bar>b\<bar> \<le> \<bar>a\<bar>" "\<bar>a\<bar> < (\<bar>quo a b\<bar> + 1) * \<bar>b\<bar>" "0 \<le> quo a b * (a * b)"
proof -
  let ?q = "\<bar>a\<bar> div \<bar>b\<bar>"
  have q0: "0 \<le> ?q" using assms by (simp add: pos_imp_zdiv_nonneg_iff)
  have aq: "\<bar>quo a b\<bar> = ?q"
    using q0 assms by (cases "a = 0") (simp_all add: quo_def abs_mult sgn_if)
  have dm: "?q * \<bar>b\<bar> + \<bar>a\<bar> mod \<bar>b\<bar> = \<bar>a\<bar>" by simp
  have m: "0 \<le> \<bar>a\<bar> mod \<bar>b\<bar>" "\<bar>a\<bar> mod \<bar>b\<bar> < \<bar>b\<bar>" using assms by simp_all
  show "\<bar>quo a b\<bar> * \<bar>b\<bar> \<le> \<bar>a\<bar>" unfolding aq using dm m(1) by linarith
  have "(?q + 1) * \<bar>b\<bar> = ?q * \<bar>b\<bar> + \<bar>b\<bar>" by (simp add: distrib_right)
  then show "\<bar>a\<bar> < (\<bar>quo a b\<bar> + 1) * \<bar>b\<bar>" unfolding aq using dm m(2) by linarith
  have "quo a b * (a * b) = ?q * (sgn a * a) * (sgn b * b)" by (simp add: quo_def)
  also have "\<dots> = ?q * \<bar>a\<bar> * \<bar>b\<bar>" by (simp add: abs_sgn mult.commute)
  finally show "0 \<le> quo a b * (a * b)" using q0 by simp
qed

lemma quo_exact: "b \<noteq> 0 \<Longrightarrow> quo (q * b) b = q"
proof -
  assume "b \<noteq> 0"
  then have "\<bar>q * b\<bar> div \<bar>b\<bar> = \<bar>q\<bar>" and "sgn b * sgn b = 1" by (simp_all add: abs_mult sgn_if)
  then have "quo (q * b) b = (sgn q * \<bar>q\<bar>) * (sgn b * sgn b)" by (simp add: quo_def sgn_mult)
  then show "quo (q * b) b = q" using \<open>sgn b * sgn b = 1\<close> by (simp add: sgn_mult_abs)
qed

lemma quo_rem:
  assumes "0 < d"
  shows "\<bar>v - quo v d * d\<bar> < d" "0 \<le> (v - quo v d * d) * sgn v"
proof -
  let ?q = "\<bar>v\<bar> div d"
  have q: "quo v d = sgn v * ?q" using assms by (simp add: quo_def)
  have dm: "?q * d + \<bar>v\<bar> mod d = \<bar>v\<bar>" by simp
  have m: "0 \<le> \<bar>v\<bar> mod d" "\<bar>v\<bar> mod d < d" using assms by simp_all
  have r: "v - quo v d * d = sgn v * (\<bar>v\<bar> mod d)"
  proof -
    have "v - quo v d * d = sgn v * (\<bar>v\<bar> - ?q * d)"
      unfolding q by (simp add: right_diff_distrib sgn_mult_abs)
    also have "\<bar>v\<bar> - ?q * d = \<bar>v\<bar> mod d" using dm by linarith
    finally show ?thesis .
  qed
  show "\<bar>v - quo v d * d\<bar> < d" unfolding r using m assms by (simp add: abs_mult sgn_if)
  show "0 \<le> (v - quo v d * d) * sgn v" unfolding r using m by (simp add: sgn_if)
qed

text \<open>Rounding: the remainder is folded away from zero from one half upward.\<close>

definition half_away :: "int \<Rightarrow> int \<Rightarrow> int" where
  "half_away v d = (let q = quo v d; r = v - q * d
     in if 2 * \<bar>r\<bar> \<ge> d then (if v < 0 then q - 1 else q + 1) else q)"

lemma half_away_spec:
  assumes "0 < d"
  shows "2 * \<bar>half_away v d * d - v\<bar> \<le> d"
    and "2 * \<bar>half_away v d * d - v\<bar> = d \<Longrightarrow> \<bar>v\<bar> < \<bar>half_away v d * d\<bar>"
proof -
  define r where "r = v - quo v d * d"
  have r: "\<bar>r\<bar> < d" "0 \<le> r * sgn v" using quo_rem[OF assms, of v] by (simp_all add: r_def)
  have sgn: "v < 0 \<Longrightarrow> r \<le> 0" "0 \<le> v \<Longrightarrow> 0 \<le> r"
    using r(2) by (auto simp: r_def sgn_if quo_def split: if_splits)
  have diff: "half_away v d * d - v = (if 2 * \<bar>r\<bar> \<ge> d then (if v < 0 then - d - r else d - r) else - r)"
    by (simp add: half_away_def r_def Let_def algebra_simps)
  show "2 * \<bar>half_away v d * d - v\<bar> \<le> d" unfolding diff using r(1) sgn by auto
  assume "2 * \<bar>half_away v d * d - v\<bar> = d"
  then show "\<bar>v\<bar> < \<bar>half_away v d * d\<bar>"
    using sgn r(1) assms diff by (cases "v < 0") (auto split: if_splits)
qed

lemma half_away_multiple: "0 < d \<Longrightarrow> half_away (q * d) d = q"
  by (simp add: half_away_def quo_exact)

lemma round_decimal_half_away:
  "0 \<le> p \<Longrightarrow> p < int decimal_scale \<Longrightarrow>
   round_decimal d p = from_scaled (half_away (scaled d) (10 ^ (decimal_scale - nat p)) * 10 ^ (decimal_scale - nat p))"
  by (simp add: round_decimal_def half_away_def Let_def)

subsection \<open>Scientific notation\<close>

lemma wrap64_small: "- (2 ^ 63) \<le> x \<Longrightarrow> x < 2 ^ 63 \<Longrightarrow> wrap64 x = x"
  by (simp add: wrap64_def)

lemma parse_exponent_small:
  "list_all is_dec ds \<Longrightarrow> 0 \<le> e \<Longrightarrow> e * 10 ^ length ds + int (dec_val ds) < 2 ^ 63 \<Longrightarrow>
   parse_exponent e ds = Some (e * 10 ^ length ds + int (dec_val ds))"
proof (induction ds arbitrary: e)
  case (Cons c ds)
  let ?e = "e * 10 + int (dec_digit c)"
  have val: "e * 10 ^ length (c # ds) + int (dec_val (c # ds)) = ?e * 10 ^ length ds + int (dec_val ds)"
    by (simp add: dec_val_Cons algebra_simps)
  have "?e * 1 \<le> ?e * 10 ^ length ds" using Cons.prems(2) by (intro mult_left_mono) simp_all
  also have "\<dots> \<le> ?e * 10 ^ length ds + int (dec_val ds)" by simp
  also have "\<dots> < 2 ^ 63" using Cons.prems(3) unfolding val .
  finally have "?e < 2 ^ 63" by simp
  then have "wrap64 (wrap64 (e * 10) + int (dec_digit c)) = ?e"
    using Cons.prems(2) wrap64_small[of "e * 10"] wrap64_small[of ?e] by simp
  then show ?case using Cons.prems Cons.IH[of ?e] val by simp
qed simp

lemma takeWhile_plain:
  assumes "plain_parts i fo" "is_exp_mark m"
  shows "takeWhile (\<lambda>c. \<not> is_exp_mark c) (plain_text neg i fo @ m # xs) = plain_text neg i fo"
proof -
  have "\<And>c. c \<in> set (plain_text neg i fo) \<Longrightarrow> \<not> is_exp_mark c"
    using plain_text_chars[OF assms(1), of neg] dec_not_punct by (auto simp: is_exp_mark_def)
  then show ?thesis using assms(2) by (simp add: takeWhile_append2)
qed

text \<open>A normalized text normalizes to itself.\<close>

definition canon_parts :: "nat \<Rightarrow> string \<Rightarrow> string \<times> string option" where
  "canon_parts m f =
     (nat_str m, let t = trim_right_byte CHR ''0'' f in if t = [] then None else Some t)"

lemma canon_is_plain:
  assumes "list_all is_dec f" "length f = decimal_scale"
  obtains b i fo where "canon_text neg m f = plain_text b i fo" "plain_parts i fo"
    "plain_value b i fo = (if neg then -1 else 1) * (int m * decimal_pow8 + int (dec_val f))"
proof -
  let ?t = "trim_right_byte CHR ''0'' f"
  let ?fo = "if ?t = [] then None else Some ?t"
  let ?b = "neg \<and> canon_text False m f \<noteq> ''0''"
  have u: "canon_text neg m f = plain_text ?b (nat_str m) ?fo"
    using canon_text_neg[of neg m f] by (auto simp: canon_text_def plain_text_def Let_def)
  have p: "plain_parts (nat_str m) ?fo"
    using nat_str_digits[of m] trim_right_digits[OF assms(1)] by (simp add: plain_parts_def)
  have "frac8 (frac_of ?fo) = f"
    using trim_right_frac8[OF assms(2)] trim_right_length[of "CHR ''0''" f] assms(2)
    by (auto simp: frac8_def frac_of_def)
  then have "plain_value ?b (nat_str m) ?fo = (if ?b then -1 else 1) * (int m * decimal_pow8 + int (dec_val f))"
    by (simp add: plain_value_def)
  also have "\<dots> = (if neg then -1 else 1) * (int m * decimal_pow8 + int (dec_val f))"
    using canon_zero_iff[OF assms, of m] by auto
  finally show thesis using that u p by blast
qed

lemma normalize_from_scaled:
  obtains b i fo where "dvalue (from_scaled n) = plain_text b i fo" "plain_parts i fo" "plain_value b i fo = n"
proof (rule from_scaled_canon[of n])
  fix i f
  assume p: "plain_parts i (Some f)" and f: "length f = decimal_scale"
    and eq: "from_scaled n = DecimalNumber (canon_text (n < 0) (nat \<bar>n\<bar> div 10 ^ decimal_scale) f)"
  have d: "list_all is_dec f" using p by (simp add: plain_parts_def)
  show thesis
  proof (rule canon_is_plain[OF d f, of "n < 0" "nat \<bar>n\<bar> div 10 ^ decimal_scale"])
    fix b i fo
    assume c: "canon_text (n < 0) (nat \<bar>n\<bar> div 10 ^ decimal_scale) f = plain_text b i fo" "plain_parts i fo"
      and v: "plain_value b i fo =
        (if n < 0 then -1 else 1) * (int (nat \<bar>n\<bar> div 10 ^ decimal_scale) * decimal_pow8 + int (dec_val f))"
    then have "from_scaled n = from_scaled (plain_value b i fo)"
      unfolding eq v by (intro canon_text_value d f)
    then have n: "plain_value b i fo = n" by simp
    have "dvalue (from_scaled n) = plain_text b i fo" using eq c(1) by simp
    then show thesis by (rule that[OF _ c(2) n])
  qed
qed


lemma to_string_from_scaled [simp]: "to_string (from_scaled n) = dvalue (from_scaled n)"
proof (rule normalize_from_scaled[of n])
  fix b i fo
  assume "dvalue (from_scaled n) = plain_text b i fo" "plain_parts i fo"
  then show ?thesis by (auto simp: to_string_def plain_text_def plain_parts_def split: option.splits)
qed

lemma solid_marks: "solid CHR ''e''" "solid CHR ''E''" "solid CHR ''+''" "solid CHR ''-''"
  by (simp_all add: solid_def white_runes_def)

lemma new_decimal_scientific:
  assumes "plain_parts i fo" "is_exp_mark m" "list_all is_dec ds" "dec_val ds < 2 ^ 63"
    and "sg \<in> {[], ''+'', ''-''}"
  shows "new_decimal (plain_text neg i fo @ m # sg @ ds) =
    from_scaled (if sg = ''-'' then quo (plain_value neg i fo) (10 ^ dec_val ds)
                 else plain_value neg i fo * 10 ^ dec_val ds)"
proof -
  let ?b = "plain_text neg i fo" and ?s = "plain_text neg i fo @ m # sg @ ds"
  have "\<forall>c\<in>set ?b. solid c" using plain_text_chars[OF assms(1), of neg] solid_dec by blast
  moreover have "solid m" using assms(2) solid_marks by (auto simp: is_exp_mark_def)
  moreover have "\<forall>c\<in>set sg. solid c" using assms(5) solid_marks by auto
  moreover have "\<forall>c\<in>set ds. solid c" using assms(3) solid_dec by (auto simp: list_all_iff)
  ultimately have chars: "\<forall>c\<in>set ?s. solid c" by auto
  have trim: "trim_space ?s = ?s"
  proof (rule trim_space_solid)
    have "last ?s \<in> set ?s" "hd ?s \<in> set ?s" by (rule last_in_set, simp, rule hd_in_set, simp)
    then show "solid (hd ?s) \<and> solid (last ?s)" using chars by blast
  qed
  have mark: "\<exists>c\<in>set ?s. is_exp_mark c" using assms(2) by auto
  have ne: "?s \<noteq> ''0''"
  proof
    assume z: "?s = ''0''"
    have "m \<in> set ?s" by simp
    then have "m = CHR ''0''" unfolding z by simp
    then show False using assms(2) by (simp add: is_exp_mark_def)
  qed
  have parse: "parse_exponent 0 ds = Some (int (dec_val ds))"
    using parse_exponent_small[OF assms(3), of 0] assms(4) by simp
  have pow: "big_pow10 (int (dec_val ds)) = 10 ^ dec_val ds" by (simp add: big_pow10_def)
  obtain b' j go where j: "dvalue (new_decimal ?b) = plain_text b' j go" "plain_parts j go"
    "plain_value b' j go = plain_value neg i fo"
    using normalize_from_scaled[of "plain_value neg i fo"] new_decimal_plain[OF assms(1), of neg] by metis
  have npn: "normalize_decimal_plain ?b = plain_text b' j go"
    using j(1) normalize_plain_eq[OF assms(1), of neg] by (simp add: new_decimal_def)
  have base: "scaled (DecimalNumber (normalize_decimal_plain (normalize_decimal_plain ?b))) = plain_value neg i fo"
    using new_decimal_plain[OF j(2), of b'] normalize_plain_eq[OF j(2), of b'] j(3)
    by (simp add: npn new_decimal_def)
  have tk: "length (takeWhile (\<lambda>c. \<not> is_exp_mark c) ?s) = length ?b"
    using takeWhile_plain[OF assms(1,2), of neg "sg @ ds"] by simp
  have hd: "ds \<noteq> [] \<Longrightarrow> hd ds \<noteq> CHR ''+'' \<and> hd ds \<noteq> CHR ''-''"
    using assms(3) dec_not_punct by (cases ds) auto
  have "expand_scientific ?s (length ?b) = to_string (from_scaled (if sg = ''-'' then quo (plain_value neg i fo) (10 ^ dec_val ds)
                 else plain_value neg i fo * 10 ^ dec_val ds))"
    using assms(5) hd parse pow base by (auto simp: expand_scientific_def Let_def)
  then show ?thesis
    using trim mark ne tk by (simp add: new_decimal_def normalize_decimal_def)
qed


subsection \<open>Properties\<close>

text \<open>C18: the wire form of a plain decimal (optional sign, digits, optional fraction, any zero padding) is
  determined by its value cut at scale 8. Two texts give the same \<open>DecimalNumber\<close> exactly when
  their values agree, so the engine that pads with zeros and the one that strips them emit the same bytes;
  and the value of the normalized text is the value of the raw text.
\<close>
theorem decimal_wire_form:
  assumes "plain_parts i fo" "plain_parts j go"
  shows "(new_decimal (plain_text b i fo) = new_decimal (plain_text c j go) \<longleftrightarrow>
      plain_value b i fo = plain_value c j go) \<and>
    scaled (new_decimal (plain_text b i fo)) = plain_value b i fo"
  using assms by (simp add: new_decimal_plain)

lemma decimal_wire_form_witness:
  "(new_decimal ''-0.92000000'' = new_decimal ''-000.92'') \<and> scaled (new_decimal ''-0.92000000'') = - 92000000"
proof -
  have p: "plain_parts ''0'' (Some ''92000000'')" "plain_parts ''000'' (Some ''92'')" by code_simp+
  have t: "plain_text True ''0'' (Some ''92000000'') = ''-0.92000000''" "plain_text True ''000'' (Some ''92'') = ''-000.92''"
    by code_simp+
  have v: "plain_value True ''0'' (Some ''92000000'') = - 92000000" "plain_value True ''000'' (Some ''92'') = - 92000000"
    by code_simp+
  show ?thesis using decimal_wire_form[OF p, of True True] unfolding t v by blast
qed

text \<open>C33: \<open>fromScaled\<close> and \<open>scaled\<close> are inverse, normalizing the wire form of a computed value changes
  nothing, and \<open>Equals\<close> on computed values is equality of the wire strings.
\<close>
theorem decimal_scaled_roundtrip:
  "scaled (from_scaled n) = n \<and> new_decimal (to_string (from_scaled n)) = from_scaled n \<and>
   (equals (from_scaled n) (from_scaled m) \<longleftrightarrow> to_string (from_scaled n) = to_string (from_scaled m))"
proof (rule normalize_from_scaled[of n])
  fix b i fo
  assume "dvalue (from_scaled n) = plain_text b i fo" "plain_parts i fo" "plain_value b i fo = n"
  then show ?thesis
    using new_decimal_plain[of i fo b] decimal.expand[of "from_scaled n" "from_scaled m"]
    by (auto simp: equals_def)
qed

text \<open>C34: \<open>Add\<close>, \<open>Sub\<close> and \<open>Abs\<close> are exact at scale 8 and the comparisons are those of the values;
  addition is commutative and associative up to the wire string, so sums do not depend on their order.
\<close>
theorem decimal_add_sub_exact:
  "scaled (add_decimal a b) = scaled a + scaled b \<and> scaled (sub_decimal a b) = scaled a - scaled b \<and>
   scaled (abs_decimal a) = \<bar>scaled a\<bar> \<and> add_decimal a b = add_decimal b a \<and>
   add_decimal (add_decimal a b) c = add_decimal a (add_decimal b c) \<and>
   (is_less_than a b \<longleftrightarrow> is_negative (sub_decimal a b)) \<and> (equals a b \<longleftrightarrow> is_zero (sub_decimal a b))"
  by (auto simp: add_decimal_def sub_decimal_def abs_decimal_def is_less_than_def is_negative_def
      equals_def is_zero_def algebra_simps)

text \<open>C35: \<open>Mul\<close> and \<open>Div\<close> truncate toward zero at scale 8: the result never exceeds the exact value in
  magnitude, is less than one unit in the eighth place from it, and has its sign; \<open>Div\<close> panics
  exactly on a zero divisor.
\<close>
theorem decimal_mul_div_truncate:
  "\<bar>scaled (mul_decimal a b)\<bar> * decimal_pow8 \<le> \<bar>scaled a * scaled b\<bar> \<and>
   \<bar>scaled a * scaled b\<bar> < (\<bar>scaled (mul_decimal a b)\<bar> + 1) * decimal_pow8 \<and>
   0 \<le> scaled (mul_decimal a b) * (scaled a * scaled b * decimal_pow8) \<and>
   (case div_decimal a b of
      Inl e \<Rightarrow> scaled b = 0 \<and> e = GoPanic ''vo.DecimalNumber: division by zero''
    | Inr q \<Rightarrow> scaled b \<noteq> 0 \<and> \<bar>scaled q\<bar> * \<bar>scaled b\<bar> \<le> \<bar>scaled a * decimal_pow8\<bar> \<and>
        \<bar>scaled a * decimal_pow8\<bar> < (\<bar>scaled q\<bar> + 1) * \<bar>scaled b\<bar> \<and>
        0 \<le> scaled q * (scaled a * decimal_pow8 * scaled b))"
  using quo_spec[of decimal_pow8 "scaled a * scaled b"] quo_spec[of "scaled b" "scaled a * decimal_pow8"]
  by (simp add: mul_decimal_def div_decimal_def Let_def decimal_pow8_def)

text \<open>C28: \<open>Round(p)\<close> gives a multiple of \<open>10^-p\<close> nearest to the value, ties go away from zero, and
  rounding twice changes nothing.
\<close>
theorem decimal_round_half_away:
  assumes "0 \<le> p" "p < int decimal_scale"
  defines "u \<equiv> 10 ^ (decimal_scale - nat p)"
  shows "u dvd scaled (round_decimal d p) \<and> 2 * \<bar>scaled (round_decimal d p) - scaled d\<bar> \<le> u \<and>
    (2 * \<bar>scaled (round_decimal d p) - scaled d\<bar> = u \<longrightarrow> \<bar>scaled d\<bar> < \<bar>scaled (round_decimal d p)\<bar>) \<and>
    round_decimal (round_decimal d p) p = round_decimal d p"
proof -
  have u: "0 < u" by (simp add: u_def)
  have r: "round_decimal x p = from_scaled (half_away (scaled x) u * u)" for x
    unfolding u_def by (rule round_decimal_half_away[OF assms(1,2)])
  show ?thesis unfolding r using half_away_spec[OF u] half_away_multiple[OF u] by simp
qed

lemma decimal_round_half_away_witness:
  "2 * \<bar>scaled (round_decimal (new_decimal ''-1.005'') 2) - scaled (new_decimal ''-1.005'')\<bar> \<le> 1000000 \<and>
   round_decimal (new_decimal ''-1.005'') 2 = new_decimal ''-1.01''"
proof -
  have "round_decimal (new_decimal ''-1.005'') 2 = new_decimal ''-1.01''" by code_simp
  then show ?thesis
    using decimal_round_half_away[of 2 "new_decimal ''-1.005''"] by (simp add: decimal_scale_def)
qed

text \<open>The number written in a plain text: its digits as an integer, over ten to the number of its fraction digits.\<close>

definition digits_written :: "bool \<Rightarrow> string \<Rightarrow> string option \<Rightarrow> int" where
  "digits_written neg i fo = (if neg then -1 else 1) * int (dec_val (i @ frac_of fo))"

lemma quo_quo: "0 < a \<Longrightarrow> 0 < b \<Longrightarrow> quo (quo w a) b = quo w (a * b)"
proof -
  assume ab: "0 < a" "0 < b"
  have q: "0 \<le> \<bar>w\<bar> div a" using ab by (simp add: pos_imp_zdiv_nonneg_iff)
  have "\<bar>quo w a\<bar> = \<bar>w\<bar> div a" using ab q by (cases "w = 0") (simp_all add: quo_def abs_mult sgn_if)
  then have "\<bar>quo w a\<bar> div b = \<bar>w\<bar> div (a * b)" using ab by (simp add: zdiv_zmult2_eq)
  moreover have "sgn (quo w a) * (\<bar>w\<bar> div (a * b)) = sgn w * (\<bar>w\<bar> div (a * b))"
  proof (cases "\<bar>w\<bar> div a = 0")
    case True
    then have "\<bar>w\<bar> div (a * b) = 0" using ab by (simp add: zdiv_zmult2_eq)
    then show ?thesis by simp
  next
    case False
    then show ?thesis using q ab by (simp add: quo_def sgn_mult)
  qed
  ultimately show ?thesis using ab by (simp add: quo_def[of "quo w a"] quo_def[of w "a * b"])
qed

lemma dec_val_frac8:
  assumes "list_all is_dec f"
  shows "dec_val (frac8 f) = dec_val f * 10 ^ decimal_scale div 10 ^ length f"
proof (cases "length f \<le> decimal_scale")
  case True
  then have "(10::nat) ^ decimal_scale = 10 ^ (decimal_scale - length f) * 10 ^ length f" by (simp add: power_add[symmetric])
  moreover have "dec_val (replicate n CHR ''0'') = 0" for n by (induction n) (simp_all add: dec_val_Cons)
  ultimately show ?thesis using True by (simp add: frac8_def dec_val_append mult.assoc[symmetric])
next
  case False
  let ?g = "drop decimal_scale f"
  have "dec_val f = dec_val (take decimal_scale f) * 10 ^ length ?g + dec_val ?g" 
    using dec_val_append[of "take decimal_scale f" ?g] by simp
  moreover have "dec_val ?g < 10 ^ length ?g" using dec_val_bound[of ?g] assms by (auto simp: list_all_iff dest: in_set_dropD)
  moreover have "(10::nat) ^ length f = 10 ^ length ?g * 10 ^ decimal_scale" using False by (simp add: power_add[symmetric])
  then have "dec_val f * 10 ^ decimal_scale div 10 ^ length f = dec_val f div 10 ^ length ?g" by (simp only: div_mult_mult2)  simp
  ultimately show ?thesis using False by (simp add: frac8_def)
qed

lemma plain_value_digits:
  assumes "plain_parts i fo"
  shows "plain_value neg i fo = quo (digits_written neg i fo * decimal_pow8) (10 ^ length (frac_of fo))"
proof -
  let ?f = "frac_of fo"
  have "(a * l + b) * q = b * q + a * q * l" for a b l q :: nat by (simp add: algebra_simps)
  then have "dec_val (i @ ?f) * 10 ^ decimal_scale = dec_val ?f * 10 ^ decimal_scale + dec_val i * 10 ^ decimal_scale * 10 ^ length ?f"
    unfolding dec_val_append .
  then have "dec_val (i @ ?f) * 10 ^ decimal_scale div 10 ^ length ?f = dec_val i * 10 ^ decimal_scale + dec_val (frac8 ?f)"
    using div_mult_self1[of "10 ^ length ?f"] dec_val_frac8[OF frac_of_digits[OF assms]] by (simp only:) simp
  from arg_cong[OF this, of int] have m: "int (dec_val (i @ ?f)) * decimal_pow8 div 10 ^ length ?f = int (dec_val i) * decimal_pow8 + int (dec_val (frac8 ?f))"
    by (simp only: of_nat_add of_nat_mult of_nat_power of_nat_numeral zdiv_int decimal_pow8_def)
  show ?thesis
  proof (cases "dec_val (i @ ?f) = 0")
    case True
    with m show ?thesis by (simp add: plain_value_def digits_written_def quo_def)
  next
    case False
    have "(0::int) < decimal_pow8" by (simp add: decimal_pow8_def)
    then show ?thesis using m False by (simp add: plain_value_def digits_written_def quo_def sgn_mult abs_mult)
  qed
qed

text \<open>C36: a number in scientific notation (a plain decimal, \<open>e\<close> or \<open>E\<close>, an optionally signed exponent below
  \<open>2^63\<close>), against the number written, which is the integer of its digits over a power of ten. With a negative exponent the
  value is the number written times the power of ten, truncated once toward zero at scale 8. Otherwise the base is cut at
  scale 8 first and multiplied then: the value is exact when the base has at most eight fraction digits, and with more of
  them it is short of the number written, toward zero, by less than the power of ten in units of scale 8
  (\<open>1.123456789e1\<close> is \<open>11.2345678\<close>).
\<close>
theorem decimal_scientific_value:
  assumes "plain_parts i fo" "m = CHR ''e'' \<or> m = CHR ''E''" "list_all is_dec ds" "dec_val ds < 2 ^ 63"
    and "sg \<in> {[], ''+'', ''-''}"
  shows "let v = scaled (new_decimal (plain_text neg i fo @ m # sg @ ds)); w = digits_written neg i fo * decimal_pow8;
      P = 10 ^ length (frac_of fo); E = 10 ^ dec_val ds
    in if sg = ''-'' then v = quo w (P * E)
       else v = quo w P * E \<and> (length (frac_of fo) \<le> decimal_scale \<longrightarrow> v * P = w * E) \<and>
         \<bar>w * E - v * P\<bar> < E * P \<and> 0 \<le> (w * E - v * P) * sgn w"
proof -
  let ?w = "digits_written neg i fo * decimal_pow8" and ?P = "10 ^ length (frac_of fo) :: int" and ?E = "10 ^ dec_val ds :: int"
  let ?v = "scaled (new_decimal (plain_text neg i fo @ m # sg @ ds))"
  have v: "?v = (if sg = ''-'' then quo (quo ?w ?P) ?E else quo ?w ?P * ?E)"
    using new_decimal_scientific[of i fo m ds sg neg] assms by (simp add: is_exp_mark_def plain_value_digits)
  show ?thesis
  proof (cases "sg = ''-''")
    case True
    then show ?thesis unfolding Let_def v using quo_quo[of ?P ?E ?w] by simp
  next
    case False
    let ?d = "?w - quo ?w ?P * ?P"
    have diff: "?w * ?E - quo ?w ?P * ?E * ?P = ?d * ?E" by (simp add: algebra_simps)
    have "quo ?w ?P * ?E * ?P = ?w * ?E" if "length (frac_of fo) \<le> decimal_scale"
    proof -
      have "decimal_pow8 = 10 ^ (decimal_scale - length (frac_of fo)) * ?P" using that by (simp add: decimal_pow8_def power_add[symmetric])
      then have "?w = digits_written neg i fo * 10 ^ (decimal_scale - length (frac_of fo)) * ?P" by (simp only: mult.assoc)
      then have "quo ?w ?P * ?P = ?w" using quo_exact[of ?P] by (metis power_not_zero zero_neq_numeral)
      then show ?thesis by (simp only: mult.assoc mult.commute[of ?E]) (simp only: mult.assoc[symmetric])
    qed
    moreover have "\<bar>?d * ?E\<bar> < ?E * ?P" using quo_rem(1)[of ?P ?w] by (simp only: abs_mult) simp
    moreover have "0 \<le> ?d * ?E * sgn ?w" using quo_rem(2)[of ?P ?w] by (simp only: mult.commute[of _ ?E] mult.assoc) simp
    ultimately show ?thesis unfolding Let_def v diff[symmetric] using False by (simp only: if_False diff) simp
  qed
qed

lemma decimal_scientific_value_witness:
  "scaled (new_decimal ''2.586E-05'') = 2586 \<and> scaled (new_decimal ''1.123456789e1'') = 1123456780"
proof -
  have p: "plain_parts ''2'' (Some ''586'')" "list_all is_dec ''05''" "plain_parts ''1'' (Some ''123456789'')" "list_all is_dec ''1''" by code_simp+
  have t: "plain_text False ''2'' (Some ''586'') @ CHR ''E'' # ''-'' @ ''05'' = ''2.586E-05''"
    "plain_text False ''1'' (Some ''123456789'') @ CHR ''e'' # [] @ ''1'' = ''1.123456789e1''" by code_simp+
  have v: "dec_val ''05'' < 2 ^ 63" "dec_val ''1'' < 2 ^ 63"
    "quo (digits_written False ''2'' (Some ''586'') * decimal_pow8) (10 ^ length (frac_of (Some ''586'')) * 10 ^ dec_val ''05'') = 2586"
    "quo (digits_written False ''1'' (Some ''123456789'') * decimal_pow8) (10 ^ length (frac_of (Some ''123456789''))) * 10 ^ dec_val ''1'' = 1123456780"
    by code_simp+
  show ?thesis
    using decimal_scientific_value[OF p(1) _ p(2) v(1), of "CHR ''E''" "''-''" False]
      decimal_scientific_value[OF p(3) _ p(4) v(2), of "CHR ''e''" "[]" False]
    unfolding t Let_def v(3) v(4) by simp
qed

text \<open>The comment of \<open>NewDecimal\<close> says that non-numeric input normalizes to zero; the code keeps its text
  (its value is zero).\<close>

lemma new_decimal_non_numeric:
  "new_decimal ''abc'' = DecimalNumber ''abc'' \<and> scaled (new_decimal ''abc'') = 0"
  by code_simp

end
