(* ===== verification/Budget_Model.thy ===== *)
theory Budget_Model
  imports Calendar Runes Decimal Sort_Key
begin

section \<open>Budget entities\<close>

text \<open>
  \<open>internal/model/budget.go\<close> and \<open>internal/model/budget_valueobject.go\<close>: the budget aggregate and its
  entities, their mutators (which set \<open>UpdatedAt\<close> only on a real change), the budget periods and
  the value objects. Ids are their canonical strings; an optional id is an \<open>option\<close>. The lemmas show
  that periods tile time, what \<open>EndAt\<close> admits, and what the comment and name checks accept.
\<close>

subsection \<open>Periods\<close>

definition first_of_month :: "instant \<Rightarrow> instant" where
  "first_of_month t = (case t_date t of (y, m, _) \<Rightarrow> go_date y m 1 0 0 0 0)"

definition min_period_start_day :: int where
  "min_period_start_day = 1"

definition max_period_start_day :: int where
  "max_period_start_day = 28"

definition valid_period_start_day :: "int \<Rightarrow> bool" where
  "valid_period_start_day d \<longleftrightarrow> d \<ge> min_period_start_day \<and> d \<le> max_period_start_day"

definition clamp_period_start_day :: "int \<Rightarrow> int" where
  "clamp_period_start_day d = (if \<not> valid_period_start_day d then min_period_start_day else d)"

definition period_window :: "instant \<Rightarrow> int \<Rightarrow> instant \<times> instant" where
  "period_window key start_day =
     (let start_day = clamp_period_start_day start_day;
          start = add_date (first_of_month key) 0 0 (start_day - 1)
      in (start, add_date start 0 1 0))"

definition period_of :: "instant \<Rightarrow> int \<Rightarrow> instant" where
  "period_of t start_day =
     (let start_day = clamp_period_start_day start_day
      in first_of_month (add_date t 0 0 (- (start_day - 1))))"

definition parse_failed :: "string \<Rightarrow> go_error" where
  "parse_failed value = OtherError (''parsing time '' @ value)"

definition period_key_of_day :: "string \<Rightarrow> int \<Rightarrow> string result" where
  "period_key_of_day day start_day =
     (case parse_date day of
        None \<Rightarrow> Inl (parse_failed day)
      | Some t \<Rightarrow> Inr (format_date (period_of t start_day)))"

subsection \<open>The budget\<close>

record budget =
  bu_id :: ident
  bu_user :: ident
  bu_name :: string
  bu_currency :: ident
  bu_started :: instant
  bu_ended :: "instant option"
  bu_archived :: bool
  bu_period_start_day :: int
  bu_created :: instant
  bu_updated :: instant

definition new_budget :: "ident \<Rightarrow> ident \<Rightarrow> string \<Rightarrow> ident \<Rightarrow> instant \<Rightarrow> instant \<Rightarrow> budget" where
  "new_budget i user_id name currency_id start_date now =
     \<lparr>bu_id = i, bu_user = user_id, bu_name = name, bu_currency = currency_id,
      bu_started = first_of_month start_date, bu_ended = None, bu_archived = False,
      bu_period_start_day = min_period_start_day, bu_created = now, bu_updated = now\<rparr>"

definition invalid_period_start_day_error :: go_error where
  "invalid_period_start_day_error =
     field_validation ''periodStartDay'' ''Choose a day from 1 to 28'' ''budget.invalid_period_start_day''"

definition set_period_start_day :: "int \<Rightarrow> instant \<Rightarrow> budget \<Rightarrow> budget result" where
  "set_period_start_day d now b =
     (if \<not> valid_period_start_day d then Inl invalid_period_start_day_error
      else Inr (if bu_period_start_day b \<noteq> d then b\<lparr>bu_period_start_day := d, bu_updated := now\<rparr> else b))"

definition first_period :: "budget \<Rightarrow> instant" where
  "first_period b = first_of_month (bu_started b)"

definition budget_update_name :: "string \<Rightarrow> instant \<Rightarrow> budget \<Rightarrow> budget" where
  "budget_update_name name now b =
     (if bu_name b \<noteq> name then b\<lparr>bu_name := name, bu_updated := now\<rparr> else b)"

definition budget_update_currency :: "ident \<Rightarrow> instant \<Rightarrow> budget \<Rightarrow> budget" where
  "budget_update_currency currency_id now b =
     (if bu_currency b \<noteq> currency_id then b\<lparr>bu_currency := currency_id, bu_updated := now\<rparr> else b)"

definition start_from :: "instant \<Rightarrow> instant \<Rightarrow> budget \<Rightarrow> budget" where
  "start_from started_at now b = b\<lparr>bu_started := first_of_month started_at, bu_updated := now\<rparr>"

definition err_budget_end_before_start :: go_error where
  "err_budget_end_before_start = OtherError ''budget end month is before its start''"

definition end_at :: "instant option \<Rightarrow> instant \<Rightarrow> budget \<Rightarrow> budget result" where
  "end_at month now b =
     (case month of
        None \<Rightarrow> Inr (if bu_ended b \<noteq> None then b\<lparr>bu_ended := None, bu_updated := now\<rparr> else b)
      | Some month \<Rightarrow>
          (let m = first_of_month month in
           if m < first_period b then Inl err_budget_end_before_start
           else Inr (if bu_ended b \<noteq> Some m then b\<lparr>bu_ended := Some m, bu_updated := now\<rparr> else b)))"

definition budget_archive :: "instant \<Rightarrow> budget \<Rightarrow> budget" where
  "budget_archive now b = (if \<not> bu_archived b then b\<lparr>bu_archived := True, bu_updated := now\<rparr> else b)"

definition budget_unarchive :: "instant \<Rightarrow> budget \<Rightarrow> budget" where
  "budget_unarchive now b = (if bu_archived b then b\<lparr>bu_archived := False, bu_updated := now\<rparr> else b)"

subsection \<open>Value objects\<close>

text \<open>The element types and roles are small integers with named values, as they are stored.\<close>

type_synonym element_type = int

definition ElementEnvelope :: element_type where "ElementEnvelope = 0"
definition ElementCategory :: element_type where "ElementCategory = 1"
definition ElementTag :: element_type where "ElementTag = 2"
definition ElementIncomeCategory :: element_type where "ElementIncomeCategory = 3"
definition ElementIncomeEnvelope :: element_type where "ElementIncomeEnvelope = 4"
definition ElementSavings :: element_type where "ElementSavings = 5"

lemmas element_type_defs = ElementEnvelope_def ElementCategory_def ElementTag_def
  ElementIncomeCategory_def ElementIncomeEnvelope_def ElementSavings_def

definition element_aliases :: "string list" where
  "element_aliases = [''envelope'', ''category'', ''tag'', ''income_category'', ''income_envelope'', ''savings'']"

definition element_type_from_alias :: "string \<Rightarrow> element_type result" where
  "element_type_from_alias alias =
     (case find (\<lambda>(v, a). a = alias \<and> int v \<le> ElementTag) (enumerate 0 element_aliases) of
        Some (v, a) \<Rightarrow> Inr (int v)
      | None \<Rightarrow> Inl (field_validation ''type'' (''BudgetElementType with alias '' @ alias @ '' not exists'')
          ''budget.invalid_element_type_alias''))"

definition element_alias :: "element_type \<Rightarrow> string" where
  "element_alias t = (if t < 0 \<or> t \<ge> int (length element_aliases) then [] else element_aliases ! nat t)"

definition is_income_side :: "element_type \<Rightarrow> bool" where
  "is_income_side t \<longleftrightarrow> t = ElementIncomeCategory \<or> t = ElementIncomeEnvelope"

definition is_category :: "element_type \<Rightarrow> bool" where
  "is_category t \<longleftrightarrow> t = ElementCategory \<or> t = ElementIncomeCategory"

definition invalid_side :: go_error where
  "invalid_side = field_validation ''side'' ''The value you selected is not a valid choice.'' ''common.invalid_choice''"

definition envelope_type_from_side :: "string \<Rightarrow> element_type result" where
  "envelope_type_from_side side =
     (if side = [] \<or> side = ''expense'' then Inr ElementEnvelope
      else if side = ''income'' then Inr ElementIncomeEnvelope
      else Inl invalid_side)"

type_synonym folder_side = string

definition FolderSideExpense :: folder_side where "FolderSideExpense = ''expense''"
definition FolderSideIncome :: folder_side where "FolderSideIncome = ''income''"

definition folder_side_from_alias :: "string \<Rightarrow> folder_side result" where
  "folder_side_from_alias side =
     (if side = FolderSideExpense then Inr FolderSideExpense
      else if side = FolderSideIncome then Inr FolderSideIncome
      else Inl invalid_side)"

definition element_side :: "element_type \<Rightarrow> folder_side" where
  "element_side t = (if is_income_side t then FolderSideIncome else FolderSideExpense)"

type_synonym budget_role = int

definition BudgetRoleOwner :: budget_role where "BudgetRoleOwner = -1"
definition BudgetRoleAdmin :: budget_role where "BudgetRoleAdmin = 0"
definition BudgetRoleUser :: budget_role where "BudgetRoleUser = 1"
definition BudgetRoleGuest :: budget_role where "BudgetRoleGuest = 2"

lemmas budget_role_defs = BudgetRoleOwner_def BudgetRoleAdmin_def BudgetRoleUser_def BudgetRoleGuest_def

definition role_alias_by_value :: "(budget_role \<times> string) list" where
  "role_alias_by_value =
     [(BudgetRoleOwner, ''owner''), (BudgetRoleAdmin, ''admin''), (BudgetRoleUser, ''user''), (BudgetRoleGuest, ''guest'')]"

text \<open>The Go map is ranged over in an unspecified order; its aliases are distinct, so the order is irrelevant.\<close>

definition budget_role_from_alias :: "string \<Rightarrow> budget_role result" where
  "budget_role_from_alias alias =
     (case find (\<lambda>(v, a). v \<noteq> BudgetRoleOwner \<and> a = alias) role_alias_by_value of
        Some (v, a) \<Rightarrow> Inr v
      | None \<Rightarrow> Inl (field_validation ''role'' (''BudgetUserRole with alias '' @ alias @ '' not exists'')
          ''budget.invalid_role_alias''))"

definition role_alias :: "budget_role \<Rightarrow> string" where
  "role_alias r = (case map_of role_alias_by_value r of Some a \<Rightarrow> a | None \<Rightarrow> [])"

definition name_length_code :: "string \<Rightarrow> string" where
  "name_length_code label =
     (if label = ''Budget'' then ''budget.name_length''
      else if label = ''Envelope'' then ''budget.envelope_name_length''
      else ''common.folder_name_length'')"

definition validate_name :: "string \<Rightarrow> string \<Rightarrow> unit result" where
  "validate_name label name =
     (let n = rune_count name in
      if n < 3 \<or> n > 64
      then Inl (field_validation ''name'' (label @ '' name must be 3-64 characters'') (name_length_code label))
      else Inr ())"

subsection \<open>Access grants, folders, envelopes\<close>

record budget_access =
  ba_id :: ident
  ba_budget :: ident
  ba_user :: ident
  ba_role :: budget_role
  ba_accepted :: bool
  ba_created :: instant
  ba_updated :: instant

definition new_budget_access :: "ident \<Rightarrow> ident \<Rightarrow> ident \<Rightarrow> budget_role \<Rightarrow> instant \<Rightarrow> budget_access" where
  "new_budget_access i budget_id user_id role now =
     \<lparr>ba_id = i, ba_budget = budget_id, ba_user = user_id, ba_role = role, ba_accepted = False,
      ba_created = now, ba_updated = now\<rparr>"

definition update_role :: "budget_role \<Rightarrow> instant \<Rightarrow> budget_access \<Rightarrow> budget_access" where
  "update_role role now a = (if ba_role a \<noteq> role then a\<lparr>ba_role := role, ba_updated := now\<rparr> else a)"

definition access_accept :: "instant \<Rightarrow> budget_access \<Rightarrow> budget_access" where
  "access_accept now a = (if \<not> ba_accepted a then a\<lparr>ba_accepted := True, ba_updated := now\<rparr> else a)"

record budget_account =
  bac_account :: ident
  bac_savings :: bool
  bac_created :: instant

record budget_folder =
  bf_id :: ident
  bf_budget :: ident
  bf_name :: string
  bf_side :: folder_side
  bf_key :: key
  bf_created :: instant
  bf_updated :: instant

definition new_budget_folder :: "ident \<Rightarrow> ident \<Rightarrow> string \<Rightarrow> folder_side \<Rightarrow> instant \<Rightarrow> budget_folder" where
  "new_budget_folder i budget_id name side now =
     (let side = (if side = [] then FolderSideExpense else side)
      in \<lparr>bf_id = i, bf_budget = budget_id, bf_name = name, bf_side = side, bf_key = [],
          bf_created = now, bf_updated = now\<rparr>)"

definition folder_update_side :: "folder_side \<Rightarrow> instant \<Rightarrow> budget_folder \<Rightarrow> budget_folder" where
  "folder_update_side side now f = (if bf_side f \<noteq> side then f\<lparr>bf_side := side, bf_updated := now\<rparr> else f)"

definition folder_update_name :: "string \<Rightarrow> instant \<Rightarrow> budget_folder \<Rightarrow> budget_folder" where
  "folder_update_name name now f = (if bf_name f \<noteq> name then f\<lparr>bf_name := name, bf_updated := now\<rparr> else f)"

definition folder_set_sort_key :: "key \<Rightarrow> budget_folder \<Rightarrow> budget_folder" where
  "folder_set_sort_key k f = f\<lparr>bf_key := k\<rparr>"

definition folder_update_sort_key :: "key \<Rightarrow> instant \<Rightarrow> budget_folder \<Rightarrow> budget_folder" where
  "folder_update_sort_key k now f = (if bf_key f \<noteq> k then f\<lparr>bf_key := k, bf_updated := now\<rparr> else f)"

record budget_envelope =
  be_id :: ident
  be_budget :: ident
  be_name :: string
  be_icon :: string
  be_archived :: bool
  be_created :: instant
  be_updated :: instant

definition new_budget_envelope :: "ident \<Rightarrow> ident \<Rightarrow> string \<Rightarrow> string \<Rightarrow> instant \<Rightarrow> budget_envelope" where
  "new_budget_envelope i budget_id name icon now =
     \<lparr>be_id = i, be_budget = budget_id, be_name = name, be_icon = icon, be_archived = False,
      be_created = now, be_updated = now\<rparr>"

definition envelope_update_name :: "string \<Rightarrow> instant \<Rightarrow> budget_envelope \<Rightarrow> budget_envelope" where
  "envelope_update_name name now e = (if be_name e \<noteq> name then e\<lparr>be_name := name, be_updated := now\<rparr> else e)"

definition envelope_update_icon :: "string \<Rightarrow> instant \<Rightarrow> budget_envelope \<Rightarrow> budget_envelope" where
  "envelope_update_icon icon now e = (if be_icon e \<noteq> icon then e\<lparr>be_icon := icon, be_updated := now\<rparr> else e)"

definition envelope_set_archived :: "bool \<Rightarrow> instant \<Rightarrow> budget_envelope \<Rightarrow> budget_envelope" where
  "envelope_set_archived v now e = (if be_archived e \<noteq> v then e\<lparr>be_archived := v, be_updated := now\<rparr> else e)"

subsection \<open>Elements, limits, comments\<close>

record budget_element =
  el_id :: ident
  el_budget :: ident
  el_external :: ident
  el_type :: element_type
  el_currency :: "ident option"
  el_folder :: "ident option"
  el_key :: key
  el_created :: instant
  el_updated :: instant

definition new_budget_element ::
  "ident \<Rightarrow> ident \<Rightarrow> ident \<Rightarrow> element_type \<Rightarrow> ident option \<Rightarrow> ident option \<Rightarrow> instant \<Rightarrow> budget_element" where
  "new_budget_element i budget_id external_id typ currency_id folder_id now =
     \<lparr>el_id = i, el_budget = budget_id, el_external = external_id, el_type = typ, el_currency = currency_id,
      el_folder = folder_id, el_key = [], el_created = now, el_updated = now\<rparr>"

definition is_sort_key_unset :: "budget_element \<Rightarrow> bool" where
  "is_sort_key_unset e \<longleftrightarrow> el_key e = []"

definition element_update_currency :: "ident option \<Rightarrow> instant \<Rightarrow> budget_element \<Rightarrow> budget_element" where
  "element_update_currency currency_id now e =
     (if el_currency e \<noteq> currency_id then e\<lparr>el_currency := currency_id, el_updated := now\<rparr> else e)"

definition element_update_folder :: "ident option \<Rightarrow> instant \<Rightarrow> budget_element \<Rightarrow> budget_element" where
  "element_update_folder folder_id now e =
     (if el_folder e \<noteq> folder_id then e\<lparr>el_folder := folder_id, el_updated := now\<rparr> else e)"

definition element_update_type :: "element_type \<Rightarrow> instant \<Rightarrow> budget_element \<Rightarrow> budget_element" where
  "element_update_type typ now e = (if el_type e \<noteq> typ then e\<lparr>el_type := typ, el_updated := now\<rparr> else e)"

definition element_set_sort_key :: "key \<Rightarrow> budget_element \<Rightarrow> budget_element" where
  "element_set_sort_key k e = e\<lparr>el_key := k\<rparr>"

definition element_update_sort_key :: "key \<Rightarrow> instant \<Rightarrow> budget_element \<Rightarrow> budget_element" where
  "element_update_sort_key k now e = (if el_key e \<noteq> k then e\<lparr>el_key := k, el_updated := now\<rparr> else e)"

record budget_limit =
  bl_id :: ident
  bl_element :: ident
  bl_amount :: decimal
  bl_period :: instant
  bl_created :: instant
  bl_updated :: instant

definition new_budget_element_limit :: "ident \<Rightarrow> ident \<Rightarrow> decimal \<Rightarrow> instant \<Rightarrow> instant \<Rightarrow> budget_limit" where
  "new_budget_element_limit i element_id amount period now =
     \<lparr>bl_id = i, bl_element = element_id, bl_amount = amount, bl_period = first_of_month period,
      bl_created = now, bl_updated = now\<rparr>"

definition limit_update_amount :: "decimal \<Rightarrow> instant \<Rightarrow> budget_limit \<Rightarrow> budget_limit" where
  "limit_update_amount amount now l =
     (if \<not> equals (bl_amount l) amount then l\<lparr>bl_amount := amount, bl_updated := now\<rparr> else l)"

definition comment_max_runes :: nat where
  "comment_max_runes = 500"

record budget_comment =
  bc_id :: ident
  bc_element :: ident
  bc_period :: instant
  bc_user :: ident
  bc_comment :: string
  bc_created :: instant
  bc_updated :: instant

definition validate_comment_text :: "string \<Rightarrow> string result" where
  "validate_comment_text raw =
     (let body = trim_space raw in
      if body = [] then Inl (field_validation ''comment'' ''This value should not be blank.'' ''common.is_blank'')
      else if rune_count body > comment_max_runes
        then Inl (field_validation ''comment'' ''This value is too long.'' ''common.too_long'')
      else Inr body)"

definition new_budget_element_comment ::
  "ident \<Rightarrow> ident \<Rightarrow> ident \<Rightarrow> string \<Rightarrow> instant \<Rightarrow> instant \<Rightarrow> budget_comment result" where
  "new_budget_element_comment i element_id user_id comment period now =
     rbind (validate_comment_text comment) (\<lambda>body.
       Inr \<lparr>bc_id = i, bc_element = element_id, bc_period = first_of_month period, bc_user = user_id,
            bc_comment = body, bc_created = now, bc_updated = now\<rparr>)"

definition comment_edit :: "string \<Rightarrow> instant \<Rightarrow> budget_comment \<Rightarrow> budget_comment result" where
  "comment_edit comment now c =
     rbind (validate_comment_text comment) (\<lambda>body.
       Inr (if body \<noteq> bc_comment c then c\<lparr>bc_comment := body, bc_updated := now\<rparr> else c))"

subsection \<open>Periods tile time\<close>

lemma days_of_add_days: "days_of y m (d + k) = days_of y m d + k"
  by (simp add: days_of_def Let_def)

lemma add_days: "add_date t 0 0 k = t + k * day_ns"
proof -
  obtain y m d where t: "t_date t = (y, m, d)" using prod_cases3 by blast
  then have "days_of y m d = t_days t" using civil_of_days_valid(2) by (simp add: t_date_def)
  then show ?thesis using t t_split[of t] by (simp add: add_date_eq days_of_add_days distrib_right)
qed

lemma t_days_add_days [simp]: "t_days (t + k * day_ns) = t_days t + k"
  by (simp add: t_days_def)

lemma sub_days: "add_date t 0 0 (- k) = t - k * day_ns"
  using add_days[of t "- k"] by simp

lemma t_days_sub_days [simp]: "t_days (t - k * day_ns) = t_days t - k"
  using t_days_add_days[of t "- k"] by simp

lemma valid_first: "civil_of_days n = (y, m, d) \<Longrightarrow> valid_civil y m 1"
  using civil_of_days_valid(1)[of n y m d] by (auto simp: valid_civil_def)

lemma first_of_month_eq: "t_date t = (y, m, d) \<Longrightarrow> first_of_month t = days_of y m 1 * day_ns"
  by (simp add: first_of_month_def)

lemma days_of_next_month:
  assumes "1 \<le> m" "m \<le> 12"
  shows "days_of y (m + 1) 1 = days_of y m 1 + days_in_month y m"
proof (cases "m = 12")
  case True
  have "days_of y (1 + 12) 1 = days_of (y + 1) 1 1" by (rule days_of_carry)
  also have "\<dots> = days_before_year (y + 1)" by (simp add: days_of_valid days_before_month_def)
  finally have e: "days_of y (12 + 1) 1 = days_before_year (y + 1)" by simp
  show ?thesis unfolding True e using days_before_year_Suc[of y] days_before_month_13[of y]
    by (simp add: days_of_valid days_in_month_def)
next
  case False
  then show ?thesis using assms by (simp add: days_of_valid days_in_month_def)
qed

lemma month_contains:
  assumes "1 \<le> m" "m \<le> 12"
  shows "(\<exists>d. civil_of_days n = (y, m, d)) \<longleftrightarrow> days_of y m 1 \<le> n \<and> n < days_of y m 1 + days_in_month y m"
proof
  assume "\<exists>d. civil_of_days n = (y, m, d)"
  then obtain d where d: "civil_of_days n = (y, m, d)" by blast
  have "days_of y m (1 + (d - 1)) = days_of y m 1 + (d - 1)" by (rule days_of_add_days)
  then show "days_of y m 1 \<le> n \<and> n < days_of y m 1 + days_in_month y m"
    using civil_of_days_valid[OF d] by (auto simp: valid_civil_def)
next
  assume n: "days_of y m 1 \<le> n \<and> n < days_of y m 1 + days_in_month y m"
  define k where "k = n - days_of y m 1"
  have k: "0 \<le> k" "k < days_in_month y m" using n by (simp_all add: k_def)
  have "days_of y m (1 + k) = n" unfolding days_of_add_days by (simp add: k_def)
  moreover have "valid_civil y m (1 + k)" using k assms by (simp add: valid_civil_def)
  ultimately show "\<exists>d. civil_of_days n = (y, m, d)" using civil_of_days_of[of y m "1 + k"] by auto
qed

lemma month_start_unique:
  assumes "civil_of_days n = (y, m, d)" "civil_of_days k = (y', m', d')" "days_of y m 1 = days_of y' m' 1"
  shows "y = y' \<and> m = m'"
proof -
  have "civil_of_days (days_of y m 1) = (y, m, 1)" "civil_of_days (days_of y' m' 1) = (y', m', 1)"
    using civil_of_days_of valid_first[OF assms(1)] valid_first[OF assms(2)] by blast+
  then show ?thesis using assms(3) by (metis Pair_inject)
qed

lemma t_days_le: "n * day_ns \<le> t \<longleftrightarrow> n \<le> t_days t"
proof -
  have "n * day_ns \<le> t_days t * day_ns + t mod day_ns \<longleftrightarrow> n \<le> t_days t"
  proof
    assume "n * day_ns \<le> t_days t * day_ns + t mod day_ns"
    then have "n * day_ns < (t_days t + 1) * day_ns" using pos_mod_bound[OF day_ns_pos, of t] unfolding distrib_right by linarith
    then show "n \<le> t_days t" by (simp only: mult_less_cancel_right_pos[OF day_ns_pos] zless_add1_eq order_le_less)
  next
    assume "n \<le> t_days t"
    then have "n * day_ns \<le> t_days t * day_ns" by simp
    then show "n * day_ns \<le> t_days t * day_ns + t mod day_ns" using pos_mod_sign[OF day_ns_pos, of t] by linarith
  qed
  then show ?thesis using t_split[of t] by simp
qed

lemma t_days_less: "t < n * day_ns \<longleftrightarrow> t_days t < n"
  using t_days_le[of n t] by linarith

lemma days_in_month_ge_28: "1 \<le> m \<Longrightarrow> m \<le> 12 \<Longrightarrow> 28 \<le> days_in_month y m"
  by (erule (1) month_cases) (auto simp: days_in_month_def days_before_month_def)

lemma days_in_month_le_31: "1 \<le> m \<Longrightarrow> m \<le> 12 \<Longrightarrow> days_in_month y m \<le> 31"
  by (erule (1) month_cases) (auto simp: days_in_month_def days_before_month_def)

lemma clamp_bounds: "1 \<le> clamp_period_start_day s" "clamp_period_start_day s \<le> 28"
  by (auto simp: clamp_period_start_day_def valid_period_start_day_def min_period_start_day_def max_period_start_day_def)

lemma period_window_days:
  assumes "t_date key = (y, m, d)"
  shows "period_window key s =
    ((days_of y m 1 + (clamp_period_start_day s - 1)) * day_ns,
     (days_of y (m + 1) 1 + (clamp_period_start_day s - 1)) * day_ns)"
proof -
  let ?s = "clamp_period_start_day s"
  have m: "1 \<le> m" "m \<le> 12" using civil_of_days_valid(1) assms by (auto simp: t_date_def valid_civil_def)
  have st: "add_date (first_of_month key) 0 0 (?s - 1) = (days_of y m 1 + (?s - 1)) * day_ns"
    by (simp add: add_days first_of_month_eq[OF assms] distrib_right)
  have "valid_civil y m ?s" using m clamp_bounds[of s] days_in_month_ge_28[OF m, of y] by (simp add: valid_civil_def)
  moreover have "days_of y m ?s = days_of y m 1 + (?s - 1)" using days_of_add_days[of y m 1 "?s - 1"] by simp
  ultimately have "t_date ((days_of y m 1 + (?s - 1)) * day_ns) = (y, m, ?s)"
    using civil_of_days_of[of y m ?s] by (simp only: t_date_def t_days_midnight)
  then have "add_date ((days_of y m 1 + (?s - 1)) * day_ns) 0 1 0 = days_of y (m + 1) ?s * day_ns"
    by (simp add: add_date_eq)
  moreover have "days_of y (m + 1) ?s = days_of y (m + 1) 1 + (?s - 1)" using days_of_add_days[of y "m + 1" 1 "?s - 1"] by simp
  ultimately show ?thesis unfolding period_window_def Let_def st by simp
qed

lemma period_of_days:
  "t_date (t - (clamp_period_start_day s - 1) * day_ns) = (y, m, d) \<Longrightarrow> period_of t s = days_of y m 1 * day_ns"
  unfolding period_of_def Let_def sub_days by (rule first_of_month_eq)

lemma first_of_month_fixed:
  assumes "first_of_month key = key" "t_date key = (y, m, d)"
  shows "key = days_of y m 1 * day_ns" "1 \<le> m" "m \<le> 12"
  using assms civil_of_days_valid(1)[of "t_days key" y m d] first_of_month_eq[OF assms(2)]
  by (auto simp: t_date_def valid_civil_def)

lemma period_window_iff:
  assumes key: "first_of_month key = key"
  shows "(case period_window key s of (a, b) \<Rightarrow> a \<le> t \<and> t < b) \<longleftrightarrow> period_of t s = key"
proof -
  obtain y m d where k: "t_date key = (y, m, d)" using prod_cases3 by blast
  let ?s = "clamp_period_start_day s - 1"
  let ?t = "t - ?s * day_ns"
  obtain y' m' d' where t': "t_date ?t = (y', m', d')" using prod_cases3 by blast
  note fk = first_of_month_fixed[OF key k]
  have nt: "t_days ?t = t_days t - ?s" by (rule t_days_sub_days)
  have win: "(case period_window key s of (a, b) \<Rightarrow> a \<le> t \<and> t < b) \<longleftrightarrow>
      days_of y m 1 \<le> t_days ?t \<and> t_days ?t < days_of y m 1 + days_in_month y m"
    unfolding period_window_days[OF k] days_of_next_month[OF fk(2,3)] nt prod.case t_days_le t_days_less
    by (simp only: le_diff_eq diff_less_eq)
  also have "\<dots> \<longleftrightarrow> (\<exists>d. civil_of_days (t_days ?t) = (y, m, d))" using month_contains[OF fk(2,3)] by blast
  also have "\<dots> \<longleftrightarrow> y' = y \<and> m' = m" using t' by (auto simp: t_date_def)
  also have "\<dots> \<longleftrightarrow> days_of y' m' 1 = days_of y m 1"
    using month_start_unique[of _ y' m' d' _ y m d] t' k by (auto simp: t_date_def)
  also have "\<dots> \<longleftrightarrow> period_of t s = key" unfolding period_of_days[OF t'] fk(1) by simp
  finally show ?thesis .
qed

lemma first_of_month_idem [simp]: "first_of_month (first_of_month t) = first_of_month t"
proof -
  obtain y m d where t: "t_date t = (y, m, d)" using prod_cases3 by blast
  have "valid_civil y m 1" using valid_first t by (simp add: t_date_def)
  then show ?thesis using first_of_month_eq[OF t] civil_of_days_of first_of_month_eq[of "days_of y m 1 * day_ns" y m 1]
    by (simp add: t_date_def)
qed

lemma period_of_first: "first_of_month (period_of t s) = period_of t s"
  by (simp add: period_of_def Let_def)

subsection \<open>Properties\<close>

text \<open>C19: budget periods tile time. For a period key (the first of a month) and any start day, an instant lies
  in the half-open window \<open>PeriodWindow\<close> of the key exactly when \<open>PeriodOf\<close> names that key; so every instant is in
  exactly one window, whatever the start day.
\<close>
theorem period_windows_tile:
  assumes "first_of_month key = key"
  shows "(case period_window key s of (start, finish) \<Rightarrow> start \<le> t \<and> t < finish) \<longleftrightarrow> period_of t s = key"
  by (rule period_window_iff[OF assms])

lemma period_windows_tile_witness:
  "first_of_month (go_date 2024 2 1 0 0 0 0) = go_date 2024 2 1 0 0 0 0 \<and>
   period_of (go_date 2024 3 9 23 59 59 0) 10 = go_date 2024 2 1 0 0 0 0"
proof -
  have k: "first_of_month (go_date 2024 2 1 0 0 0 0) = go_date 2024 2 1 0 0 0 0" by code_simp
  moreover have "case period_window (go_date 2024 2 1 0 0 0 0) 10 of (a, b) \<Rightarrow>
      a \<le> go_date 2024 3 9 23 59 59 0 \<and> go_date 2024 3 9 23 59 59 0 < b" by code_simp
  ultimately show ?thesis using period_windows_tile[OF k, of "go_date 2024 3 9 23 59 59 0" 10] by simp
qed

text \<open>The window of the next month starts where the window of a month ends.\<close>

lemma period_windows_adjacent:
  assumes "first_of_month key = key"
  shows "snd (period_window key s) = fst (period_window (add_date key 0 1 0) s)"
proof -
  obtain y m d where k: "t_date key = (y, m, d)" using prod_cases3 by blast
  note fk = first_of_month_fixed[OF assms k]
  have "valid_civil y m 1" using valid_first k by (simp add: t_date_def)
  then have d1: "d = 1" using civil_of_days_of[of y m 1] k fk(1) by (simp add: t_date_def)
  have nx: "add_date key 0 1 0 = days_of y (m + 1) 1 * day_ns" using k d1 fk(1) by (simp add: add_date_eq)
  have "\<exists>y' m'. civil_of_days (days_of y (m + 1) 1) = (y', m', 1) \<and> days_of y' m' 1 = days_of y (m + 1) 1"
  proof (cases "m = 12")
    case True
    have "days_of y (1 + 12) 1 = days_of (y + 1) 1 1" by (rule days_of_carry)
    moreover have "valid_civil (y + 1) 1 1" by (simp add: valid_civil_def days_in_month_def days_before_month_def)
    ultimately show ?thesis using True civil_of_days_of[of "y + 1" 1 1] by auto
  next
    case False
    then have "valid_civil y (m + 1) 1" using fk(2,3) days_in_month_ge_28[of "m + 1" y] by (simp add: valid_civil_def)
    then show ?thesis using civil_of_days_of[of y "m + 1" 1] by blast
  qed
  then obtain y' m' where "t_date (days_of y (m + 1) 1 * day_ns) = (y', m', 1)" "days_of y' m' 1 = days_of y (m + 1) 1"
    by (auto simp: t_date_def)
  then show ?thesis unfolding nx using period_window_days[OF k] period_window_days[of "days_of y (m + 1) 1 * day_ns" y' m' 1] by simp
qed

text \<open>\<open>EndAt\<close> with a month fails exactly when the month precedes the budget's first period, and then
  nothing is changed; otherwise, and when the end is cleared, the stored end is empty or the first of a month not before
  the first period, and \<open>UpdatedAt\<close> moves only when the end does.
\<close>
theorem end_at_keeps_order:
  "case end_at month now b of
     Inl e \<Rightarrow> e = err_budget_end_before_start \<and> (\<exists>m. month = Some m \<and> first_of_month m < first_period b)
   | Inr b' \<Rightarrow> bu_ended b' = map_option first_of_month month \<and>
       (case bu_ended b' of None \<Rightarrow> True | Some m \<Rightarrow> first_period b' \<le> m \<and> first_of_month m = m) \<and>
       (if bu_ended b' = bu_ended b then b' = b else b' = b\<lparr>bu_ended := bu_ended b', bu_updated := now\<rparr>)"
  by (cases month) (auto simp: end_at_def Let_def first_period_def)

text \<open>
  \<open>StartFrom\<close>, which \<open>ResetBudget\<close> calls, has no such check: a reset to a month after the end leaves a budget
  that ends before it starts, the state \<open>EndAt\<close> refuses.
\<close>

lemma start_from_passes_end:
  assumes "bu_ended b = Some e" "e < first_of_month s"
  shows "bu_ended (start_from s now b) = Some e \<and> e < first_period (start_from s now b)"
  using assms by (simp add: start_from_def first_period_def)

text \<open>Parsing a role alias accepts exactly the aliases of the three stored roles and gives the role back;
  parsing an element type alias accepts exactly the three wire types. The synthetic owner role and the income and savings
  types never come in from the wire.
\<close>
theorem wire_alias_roundtrip:
  "(case budget_role_from_alias a of
      Inr r \<Rightarrow> role_alias r = a \<and> r \<in> {BudgetRoleAdmin, BudgetRoleUser, BudgetRoleGuest}
    | Inl e \<Rightarrow> a \<notin> role_alias ` {BudgetRoleAdmin, BudgetRoleUser, BudgetRoleGuest}) \<and>
   (case element_type_from_alias a of
      Inr t \<Rightarrow> element_alias t = a \<and> t \<in> {ElementEnvelope, ElementCategory, ElementTag}
    | Inl e \<Rightarrow> a \<notin> element_alias ` {ElementEnvelope, ElementCategory, ElementTag})"
proof
  show "case budget_role_from_alias a of
      Inr r \<Rightarrow> role_alias r = a \<and> r \<in> {BudgetRoleAdmin, BudgetRoleUser, BudgetRoleGuest}
    | Inl e \<Rightarrow> a \<notin> role_alias ` {BudgetRoleAdmin, BudgetRoleUser, BudgetRoleGuest}"
    by (auto simp: budget_role_from_alias_def role_alias_def role_alias_by_value_def budget_role_defs)
  show "case element_type_from_alias a of
      Inr t \<Rightarrow> element_alias t = a \<and> t \<in> {ElementEnvelope, ElementCategory, ElementTag}
    | Inl e \<Rightarrow> a \<notin> element_alias ` {ElementEnvelope, ElementCategory, ElementTag}"
    by (auto simp: element_type_from_alias_def element_alias_def element_aliases_def element_type_defs)
qed

text \<open>The mutators of a budget and of its grants, folders, envelopes, elements and limits touch an entity only
  on a real change: each either leaves it as it is or stamps \<open>UpdatedAt\<close> with the current time, and
  repeating the call changes nothing.
\<close>
theorem mutators_touch_on_change:
  "list_all (\<lambda>f. (f b = b \<or> bu_updated (f b) = now) \<and> f (f b) = f b)
     [budget_update_name n now, budget_update_currency c now, budget_archive now, budget_unarchive now] \<and>
   list_all (\<lambda>f. (f a = a \<or> ba_updated (f a) = now) \<and> f (f a) = f a) [update_role r now, access_accept now] \<and>
   list_all (\<lambda>f. (f fo = fo \<or> bf_updated (f fo) = now) \<and> f (f fo) = f fo)
     [folder_update_side sd now, folder_update_name n now, folder_update_sort_key k now] \<and>
   list_all (\<lambda>f. (f en = en \<or> be_updated (f en) = now) \<and> f (f en) = f en)
     [envelope_update_name n now, envelope_update_icon i now, envelope_set_archived v now] \<and>
   list_all (\<lambda>f. (f el = el \<or> el_updated (f el) = now) \<and> f (f el) = f el)
     [element_update_currency oc now, element_update_folder oi now, element_update_type ty now,
      element_update_sort_key k now] \<and>
   (limit_update_amount am now l = l \<or> bl_updated (limit_update_amount am now l) = now) \<and>
   limit_update_amount am now (limit_update_amount am now l) = limit_update_amount am now l"
proof (intro conjI)
  show "list_all (\<lambda>f. (f b = b \<or> bu_updated (f b) = now) \<and> f (f b) = f b)
     [budget_update_name n now, budget_update_currency c now, budget_archive now, budget_unarchive now]"
    by (simp add: budget_update_name_def budget_update_currency_def budget_archive_def budget_unarchive_def)
  show "list_all (\<lambda>f. (f a = a \<or> ba_updated (f a) = now) \<and> f (f a) = f a) [update_role r now, access_accept now]"
    by (simp add: update_role_def access_accept_def)
  show "list_all (\<lambda>f. (f fo = fo \<or> bf_updated (f fo) = now) \<and> f (f fo) = f fo)
     [folder_update_side sd now, folder_update_name n now, folder_update_sort_key k now]"
    by (simp add: folder_update_side_def folder_update_name_def folder_update_sort_key_def)
  show "list_all (\<lambda>f. (f en = en \<or> be_updated (f en) = now) \<and> f (f en) = f en)
     [envelope_update_name n now, envelope_update_icon i now, envelope_set_archived v now]"
    by (simp add: envelope_update_name_def envelope_update_icon_def envelope_set_archived_def)
  show "list_all (\<lambda>f. (f el = el \<or> el_updated (f el) = now) \<and> f (f el) = f el)
     [element_update_currency oc now, element_update_folder oi now, element_update_type ty now,
      element_update_sort_key k now]"
    by (simp add: element_update_currency_def element_update_folder_def element_update_type_def element_update_sort_key_def)
  show "limit_update_amount am now l = l \<or> bl_updated (limit_update_amount am now l) = now"
    and "limit_update_amount am now (limit_update_amount am now l) = limit_update_amount am now l"
    by (simp_all add: limit_update_amount_def equals_def)
qed

end
