(* ===== verification/Classification_Model.thy ===== *)
theory Classification_Model
  imports Budget_Model
begin

section \<open>Categories, tags, payees and labels\<close>

text \<open>
  \<open>internal/model/category.go\<close>, \<open>tag.go\<close>, \<open>payee.go\<close>, \<open>label.go\<close>: the four kinds of classification
  a transaction can carry. Each entity belongs to a user and has a fractional-index key for its slot in the owner's
  list. The mutators stamp the time of the change only when something changes.
\<close>

subsection \<open>The type of a category\<close>

type_synonym category_type = int

definition TypeExpense :: category_type where "TypeExpense = 0"
definition TypeIncome :: category_type where "TypeIncome = 1"

definition default_icon :: string where
  "default_icon = ''local_offer''"

definition category_alias :: "category_type \<Rightarrow> string" where
  "category_alias t = (if t = TypeIncome then ''income'' else ''expense'')"

definition type_from_alias :: "(nat \<Rightarrow> nat) \<Rightarrow> string \<Rightarrow> category_type option" where
  "type_from_alias low alias =
     (let a = to_lower low (trim_space alias) in
      if a = ''expense'' then Some TypeExpense else if a = ''income'' then Some TypeIncome else None)"

subsection \<open>Category\<close>

record category =
  category_id :: ident
  category_user :: ident
  category_name :: string
  category_sort_key :: key
  category_type :: category_type
  category_icon :: string
  category_archived :: bool
  category_created :: instant
  category_updated :: instant

definition new_category :: "ident \<Rightarrow> ident \<Rightarrow> string \<Rightarrow> category_type \<Rightarrow> string \<Rightarrow> instant \<Rightarrow> category" where
  "new_category i user_id name typ icon now =
    \<lparr>category_id = i, category_user = user_id, category_name = name, category_sort_key = [], category_type = typ, category_icon = icon,
     category_archived = False, category_created = now, category_updated = now\<rparr>"

definition category_update_name :: "string \<Rightarrow> instant \<Rightarrow> category \<Rightarrow> category" where
  "category_update_name nm now r = (if category_name r \<noteq> nm then r\<lparr>category_name := nm, category_updated := now\<rparr> else r)"

definition category_update_icon :: "string \<Rightarrow> instant \<Rightarrow> category \<Rightarrow> category" where
  "category_update_icon ic now r = (if category_icon r \<noteq> ic then r\<lparr>category_icon := ic, category_updated := now\<rparr> else r)"

definition category_archive :: "instant \<Rightarrow> category \<Rightarrow> category" where
  "category_archive now r = (if \<not> category_archived r then r\<lparr>category_archived := True, category_updated := now\<rparr> else r)"

definition category_unarchive :: "instant \<Rightarrow> category \<Rightarrow> category" where
  "category_unarchive now r = (if category_archived r then r\<lparr>category_archived := False, category_updated := now\<rparr> else r)"

definition category_set_sort_key :: "key \<Rightarrow> category \<Rightarrow> category" where
  "category_set_sort_key k r = r\<lparr>category_sort_key := k\<rparr>"

definition category_update_sort_key :: "key \<Rightarrow> instant \<Rightarrow> category \<Rightarrow> category" where
  "category_update_sort_key k now r = (if category_sort_key r \<noteq> k then r\<lparr>category_sort_key := k, category_updated := now\<rparr> else r)"

subsection \<open>Tag\<close>

record tag =
  tag_id :: ident
  tag_user :: ident
  tag_name :: string
  tag_icon :: string
  tag_sort_key :: key
  tag_archived :: bool
  tag_created :: instant
  tag_updated :: instant

definition default_tag_icon :: string where
  "default_tag_icon = ''tag''"

definition new_tag :: "ident \<Rightarrow> ident \<Rightarrow> string \<Rightarrow> instant \<Rightarrow> tag" where
  "new_tag i user_id name now =
    \<lparr>tag_id = i, tag_user = user_id, tag_name = name, tag_icon = default_tag_icon, tag_sort_key = [],
     tag_archived = False, tag_created = now, tag_updated = now\<rparr>"

definition tag_update_name :: "string \<Rightarrow> instant \<Rightarrow> tag \<Rightarrow> tag" where
  "tag_update_name nm now r = (if tag_name r \<noteq> nm then r\<lparr>tag_name := nm, tag_updated := now\<rparr> else r)"

definition tag_archive :: "instant \<Rightarrow> tag \<Rightarrow> tag" where
  "tag_archive now r = (if \<not> tag_archived r then r\<lparr>tag_archived := True, tag_updated := now\<rparr> else r)"

definition tag_unarchive :: "instant \<Rightarrow> tag \<Rightarrow> tag" where
  "tag_unarchive now r = (if tag_archived r then r\<lparr>tag_archived := False, tag_updated := now\<rparr> else r)"

definition tag_set_sort_key :: "key \<Rightarrow> tag \<Rightarrow> tag" where
  "tag_set_sort_key k r = r\<lparr>tag_sort_key := k\<rparr>"

definition tag_update_sort_key :: "key \<Rightarrow> instant \<Rightarrow> tag \<Rightarrow> tag" where
  "tag_update_sort_key k now r = (if tag_sort_key r \<noteq> k then r\<lparr>tag_sort_key := k, tag_updated := now\<rparr> else r)"

subsection \<open>Payee\<close>

record payee =
  payee_id :: ident
  payee_user :: ident
  payee_name :: string
  payee_sort_key :: key
  payee_archived :: bool
  payee_created :: instant
  payee_updated :: instant

definition new_payee :: "ident \<Rightarrow> ident \<Rightarrow> string \<Rightarrow> instant \<Rightarrow> payee" where
  "new_payee i user_id name now =
    \<lparr>payee_id = i, payee_user = user_id, payee_name = name, payee_sort_key = [],
     payee_archived = False, payee_created = now, payee_updated = now\<rparr>"

definition payee_update_name :: "string \<Rightarrow> instant \<Rightarrow> payee \<Rightarrow> payee" where
  "payee_update_name nm now r = (if payee_name r \<noteq> nm then r\<lparr>payee_name := nm, payee_updated := now\<rparr> else r)"

definition payee_archive :: "instant \<Rightarrow> payee \<Rightarrow> payee" where
  "payee_archive now r = (if \<not> payee_archived r then r\<lparr>payee_archived := True, payee_updated := now\<rparr> else r)"

definition payee_unarchive :: "instant \<Rightarrow> payee \<Rightarrow> payee" where
  "payee_unarchive now r = (if payee_archived r then r\<lparr>payee_archived := False, payee_updated := now\<rparr> else r)"

definition payee_set_sort_key :: "key \<Rightarrow> payee \<Rightarrow> payee" where
  "payee_set_sort_key k r = r\<lparr>payee_sort_key := k\<rparr>"

definition payee_update_sort_key :: "key \<Rightarrow> instant \<Rightarrow> payee \<Rightarrow> payee" where
  "payee_update_sort_key k now r = (if payee_sort_key r \<noteq> k then r\<lparr>payee_sort_key := k, payee_updated := now\<rparr> else r)"

subsection \<open>Label\<close>

record label =
  label_id :: ident
  label_user :: ident
  label_name :: string
  label_icon :: string
  label_sort_key :: key
  label_archived :: bool
  label_created :: instant
  label_updated :: instant

definition default_label_icon :: string where
  "default_label_icon = ''label''"

definition new_label :: "ident \<Rightarrow> ident \<Rightarrow> string \<Rightarrow> instant \<Rightarrow> label" where
  "new_label i user_id name now =
    \<lparr>label_id = i, label_user = user_id, label_name = name, label_icon = default_label_icon, label_sort_key = [],
     label_archived = False, label_created = now, label_updated = now\<rparr>"

definition label_update_name :: "string \<Rightarrow> instant \<Rightarrow> label \<Rightarrow> label" where
  "label_update_name nm now r = (if label_name r \<noteq> nm then r\<lparr>label_name := nm, label_updated := now\<rparr> else r)"

definition label_archive :: "instant \<Rightarrow> label \<Rightarrow> label" where
  "label_archive now r = (if \<not> label_archived r then r\<lparr>label_archived := True, label_updated := now\<rparr> else r)"

definition label_unarchive :: "instant \<Rightarrow> label \<Rightarrow> label" where
  "label_unarchive now r = (if label_archived r then r\<lparr>label_archived := False, label_updated := now\<rparr> else r)"

definition label_set_sort_key :: "key \<Rightarrow> label \<Rightarrow> label" where
  "label_set_sort_key k r = r\<lparr>label_sort_key := k\<rparr>"

definition label_update_sort_key :: "key \<Rightarrow> instant \<Rightarrow> label \<Rightarrow> label" where
  "label_update_sort_key k now r = (if label_sort_key r \<noteq> k then r\<lparr>label_sort_key := k, label_updated := now\<rparr> else r)"

end
