(* ===== verification/Classification_Requests.thy ===== *)
theory Classification_Requests
  imports Classification_Model
begin

section \<open>Requests of the classification modules\<close>

text \<open>
  \<open>internal/model/category_dto.go\<close>, \<open>tag_dto.go\<close>, \<open>payee_dto.go\<close>, \<open>label_dto.go\<close>: the request and
  result records and their \<open>Validate\<close> methods, which the HTTP edge runs before the use case. A request with one
  field is that field. \<open>parse_id\<close> is \<open>vo.ParseId\<close>; the UUID parser is a third-party package, an argument
  that gives the canonical form or nothing.
\<close>

definition parse_id :: "(string \<Rightarrow> ident option) \<Rightarrow> string \<Rightarrow> ident result" where
  "parse_id uuid s =
     (case uuid s of Some i \<Rightarrow> Inr i | None \<Rightarrow> Inl (ValidationError ''invalid id'' ''common.invalid_id'' []))"

definition blank_field :: "string \<Rightarrow> field_error" where
  "blank_field key = \<lparr>fe_key = key, fe_message = ''This value should not be blank.'', fe_code = ''common.is_blank''\<rparr>"

text \<open>The tier-1 check of a list of required fields: all blank ones are reported, in order.\<close>

definition check_not_blank :: "(string \<times> string) list \<Rightarrow> unit result" where
  "check_not_blank required =
     (let bad = filter (\<lambda>(key, v). trim_space v = []) required in
      if bad = [] then Inr () else Inl (ValidationError ''Validation failed'' [] (map (blank_field \<circ> fst) bad)))"

definition check_id_list :: "(string \<Rightarrow> ident option) \<Rightarrow> string list \<Rightarrow> unit result" where
  "check_id_list uuid ids =
     (if ids = [] then Inl (ValidationError ''Ids list is empty'' ''common.is_blank'' [])
      else rfold (\<lambda>_ i. rbind (parse_id uuid i) (\<lambda>_. Inr ())) () ids)"

subsection \<open>Category requests\<close>

record create_category_request =
  create_category_id :: string
  create_category_name :: string
  create_category_type :: string
  create_category_account :: "string option"
  create_category_icon :: "string option"

record update_category_request =
  update_category_id :: string
  update_category_new_name :: string
  update_category_new_icon :: string

record move_category_request =
  move_category_id :: string
  move_category_after :: "string option"

record merge_category_request =
  merge_category_source :: string
  merge_category_target :: string

record delete_category_request =
  delete_category_id :: string
  delete_category_mode :: string

record category_result =
  category_res_id :: string
  category_res_owner :: string
  category_res_name :: string
  category_res_position :: nat
  category_res_type :: string
  category_res_icon :: string
  category_res_archived :: nat
  category_res_created :: string
  category_res_updated :: string

definition validate_create_category :: "create_category_request \<Rightarrow> unit result" where
  "validate_create_category r = check_not_blank [(''id'', create_category_id r), (''name'', create_category_name r), (''type'', create_category_type r)]"

definition validate_update_category :: "update_category_request \<Rightarrow> unit result" where
  "validate_update_category r = check_not_blank [(''id'', update_category_id r), (''name'', update_category_new_name r), (''icon'', update_category_new_icon r)]"

definition validate_archive_category :: "string \<Rightarrow> unit result" where
  "validate_archive_category i = check_not_blank [(''id'', i)]"

definition validate_unarchive_category :: "string \<Rightarrow> unit result" where
  "validate_unarchive_category i = check_not_blank [(''id'', i)]"

definition validate_delete_category :: "delete_category_request \<Rightarrow> unit result" where
  "validate_delete_category r =
     (let bad = (if trim_space (delete_category_id r) = [] then [blank_field ''id''] else []) @
            (if delete_category_mode r = ''delete'' then []
             else if delete_category_mode r = [] then [blank_field ''mode'']
             else [\<lparr>fe_key = ''mode'', fe_message = ''The value you selected is not a valid choice.'',
                     fe_code = ''common.invalid_choice''\<rparr>])
      in if bad = [] then Inr () else Inl (ValidationError ''Validation failed'' [] bad))"

definition validate_move_category :: "(string \<Rightarrow> ident option) \<Rightarrow> move_category_request \<Rightarrow> unit result" where
  "validate_move_category uuid r =
     rbind (parse_id uuid (move_category_id r)) (\<lambda>_.
       (case move_category_after r of
          None \<Rightarrow> Inr ()
        | Some after \<Rightarrow> rbind (parse_id uuid after) (\<lambda>_. Inr ())))"

definition validate_sort_category :: "(string \<Rightarrow> ident option) \<Rightarrow> string list \<Rightarrow> unit result" where
  "validate_sort_category uuid ids = check_id_list uuid ids"

definition validate_merge_category :: "merge_category_request \<Rightarrow> unit result" where
  "validate_merge_category r =
     check_not_blank [(''sourceId'', merge_category_source r), (''targetId'', merge_category_target r)]"

subsection \<open>Tag requests\<close>

record create_tag_request =
  create_tag_id :: string
  create_tag_name :: string
  create_tag_account :: "string option"

record update_tag_request =
  update_tag_id :: string
  update_tag_new_name :: string

record move_tag_request =
  move_tag_id :: string
  move_tag_after :: "string option"

record merge_tag_request =
  merge_tag_source :: string
  merge_tag_target :: string

record tag_result =
  tag_res_id :: string
  tag_res_owner :: string
  tag_res_name :: string
  tag_res_icon :: string
  tag_res_position :: nat
  tag_res_archived :: nat
  tag_res_created :: string
  tag_res_updated :: string

definition validate_create_tag :: "create_tag_request \<Rightarrow> unit result" where
  "validate_create_tag r = check_not_blank [(''id'', create_tag_id r), (''name'', create_tag_name r)]"

definition validate_update_tag :: "update_tag_request \<Rightarrow> unit result" where
  "validate_update_tag r = check_not_blank [(''id'', update_tag_id r), (''name'', update_tag_new_name r)]"

definition validate_archive_tag :: "string \<Rightarrow> unit result" where
  "validate_archive_tag i = check_not_blank [(''id'', i)]"

definition validate_unarchive_tag :: "string \<Rightarrow> unit result" where
  "validate_unarchive_tag i = check_not_blank [(''id'', i)]"

definition validate_delete_tag :: "string \<Rightarrow> unit result" where
  "validate_delete_tag i = check_not_blank [(''id'', i)]"

definition validate_move_tag :: "(string \<Rightarrow> ident option) \<Rightarrow> move_tag_request \<Rightarrow> unit result" where
  "validate_move_tag uuid r =
     rbind (parse_id uuid (move_tag_id r)) (\<lambda>_.
       (case move_tag_after r of
          None \<Rightarrow> Inr ()
        | Some after \<Rightarrow> rbind (parse_id uuid after) (\<lambda>_. Inr ())))"

definition validate_sort_tag :: "(string \<Rightarrow> ident option) \<Rightarrow> string list \<Rightarrow> unit result" where
  "validate_sort_tag uuid ids = check_id_list uuid ids"

definition validate_merge_tag :: "merge_tag_request \<Rightarrow> unit result" where
  "validate_merge_tag r =
     check_not_blank [(''sourceId'', merge_tag_source r), (''targetId'', merge_tag_target r)]"

subsection \<open>Payee requests\<close>

record create_payee_request =
  create_payee_id :: string
  create_payee_name :: string
  create_payee_account :: "string option"

record update_payee_request =
  update_payee_id :: string
  update_payee_new_name :: string

record move_payee_request =
  move_payee_id :: string
  move_payee_after :: "string option"

record merge_payee_request =
  merge_payee_source :: string
  merge_payee_target :: string

record payee_result =
  payee_res_id :: string
  payee_res_owner :: string
  payee_res_name :: string
  payee_res_position :: nat
  payee_res_archived :: nat
  payee_res_created :: string
  payee_res_updated :: string

definition validate_create_payee :: "create_payee_request \<Rightarrow> unit result" where
  "validate_create_payee r = check_not_blank [(''id'', create_payee_id r), (''name'', create_payee_name r)]"

definition validate_update_payee :: "update_payee_request \<Rightarrow> unit result" where
  "validate_update_payee r = check_not_blank [(''id'', update_payee_id r), (''name'', update_payee_new_name r)]"

definition validate_archive_payee :: "string \<Rightarrow> unit result" where
  "validate_archive_payee i = check_not_blank [(''id'', i)]"

definition validate_unarchive_payee :: "string \<Rightarrow> unit result" where
  "validate_unarchive_payee i = check_not_blank [(''id'', i)]"

definition validate_delete_payee :: "string \<Rightarrow> unit result" where
  "validate_delete_payee i = check_not_blank [(''id'', i)]"

definition validate_move_payee :: "(string \<Rightarrow> ident option) \<Rightarrow> move_payee_request \<Rightarrow> unit result" where
  "validate_move_payee uuid r =
     rbind (parse_id uuid (move_payee_id r)) (\<lambda>_.
       (case move_payee_after r of
          None \<Rightarrow> Inr ()
        | Some after \<Rightarrow> rbind (parse_id uuid after) (\<lambda>_. Inr ())))"

definition validate_sort_payee :: "(string \<Rightarrow> ident option) \<Rightarrow> string list \<Rightarrow> unit result" where
  "validate_sort_payee uuid ids = check_id_list uuid ids"

definition validate_merge_payee :: "merge_payee_request \<Rightarrow> unit result" where
  "validate_merge_payee r =
     check_not_blank [(''sourceId'', merge_payee_source r), (''targetId'', merge_payee_target r)]"

subsection \<open>Label requests\<close>

record create_label_request =
  create_label_id :: string
  create_label_name :: string
  create_label_account :: "string option"

record update_label_request =
  update_label_id :: string
  update_label_new_name :: string

record move_label_request =
  move_label_id :: string
  move_label_after :: "string option"

record merge_label_request =
  merge_label_source :: string
  merge_label_target :: string

record label_result =
  label_res_id :: string
  label_res_owner :: string
  label_res_name :: string
  label_res_icon :: string
  label_res_position :: nat
  label_res_archived :: nat
  label_res_created :: string
  label_res_updated :: string

definition validate_create_label :: "create_label_request \<Rightarrow> unit result" where
  "validate_create_label r = check_not_blank [(''id'', create_label_id r), (''name'', create_label_name r)]"

definition validate_update_label :: "update_label_request \<Rightarrow> unit result" where
  "validate_update_label r = check_not_blank [(''id'', update_label_id r), (''name'', update_label_new_name r)]"

definition validate_archive_label :: "string \<Rightarrow> unit result" where
  "validate_archive_label i = check_not_blank [(''id'', i)]"

definition validate_unarchive_label :: "string \<Rightarrow> unit result" where
  "validate_unarchive_label i = check_not_blank [(''id'', i)]"

definition validate_delete_label :: "string \<Rightarrow> unit result" where
  "validate_delete_label i = check_not_blank [(''id'', i)]"

definition validate_move_label :: "(string \<Rightarrow> ident option) \<Rightarrow> move_label_request \<Rightarrow> unit result" where
  "validate_move_label uuid r =
     rbind (parse_id uuid (move_label_id r)) (\<lambda>_.
       (case move_label_after r of
          None \<Rightarrow> Inr ()
        | Some after \<Rightarrow> rbind (parse_id uuid after) (\<lambda>_. Inr ())))"

definition validate_sort_label :: "(string \<Rightarrow> ident option) \<Rightarrow> string list \<Rightarrow> unit result" where
  "validate_sort_label uuid ids = check_id_list uuid ids"

definition validate_merge_label :: "merge_label_request \<Rightarrow> unit result" where
  "validate_merge_label r =
     check_not_blank [(''sourceId'', merge_label_source r), (''targetId'', merge_label_target r)]"

end
