(* ===== verification/Account_Model.thy ===== *)
theory Account_Model
  imports Calendar
begin

section \<open>Accounts and account grants\<close>

text \<open>
  \<open>internal/model/account.go\<close> and \<open>internal/model/connection.go\<close>: the account entity, the roles a connected
  user can hold on a shared account and the grant that carries one. A grant confers nothing until it is accepted. Then
  the folders a user groups accounts in, the place of an account in a user's list and the columns of a currency that
  decide whether an account may be kept in it.
\<close>

type_synonym account_type = int

definition TypeCash :: account_type where "TypeCash = 1"
definition TypeCreditCard :: account_type where "TypeCreditCard = 2"

definition account_type_valid :: "account_type \<Rightarrow> bool" where
  "account_type_valid t \<longleftrightarrow> t = TypeCash \<or> t = TypeCreditCard"

record account =
  acc_id :: ident
  acc_user :: ident
  acc_currency :: ident
  acc_name :: string
  acc_type :: account_type
  acc_icon :: string
  acc_deleted :: bool
  acc_created :: instant
  acc_updated :: instant
  acc_revision :: int

definition new_account :: "ident \<Rightarrow> ident \<Rightarrow> ident \<Rightarrow> string \<Rightarrow> string \<Rightarrow> instant \<Rightarrow> account" where
  "new_account i user_id currency_id name icon now =
    \<lparr>acc_id = i, acc_user = user_id, acc_currency = currency_id, acc_name = name, acc_type = TypeCreditCard,
     acc_icon = icon, acc_deleted = False, acc_created = now, acc_updated = now, acc_revision = 0\<rparr>"

definition account_update_name :: "string \<Rightarrow> instant \<Rightarrow> account \<Rightarrow> account" where
  "account_update_name nm now a = (if acc_name a \<noteq> nm then a\<lparr>acc_name := nm, acc_updated := now\<rparr> else a)"

definition account_update_icon :: "string \<Rightarrow> instant \<Rightarrow> account \<Rightarrow> account" where
  "account_update_icon ic now a = (if acc_icon a \<noteq> ic then a\<lparr>acc_icon := ic, acc_updated := now\<rparr> else a)"

definition account_update_currency :: "ident \<Rightarrow> instant \<Rightarrow> account \<Rightarrow> account" where
  "account_update_currency c now a =
     (if acc_currency a \<noteq> c then a\<lparr>acc_currency := c, acc_updated := now\<rparr> else a)"

definition account_delete :: "instant \<Rightarrow> account \<Rightarrow> account" where
  "account_delete now a = (if \<not> acc_deleted a then a\<lparr>acc_deleted := True, acc_updated := now\<rparr> else a)"

subsection \<open>Roles and grants\<close>

type_synonym role = int

definition RoleAdmin :: role where "RoleAdmin = 0"
definition RoleUser :: role where "RoleUser = 1"
definition RoleGuest :: role where "RoleGuest = 2"

definition role_aliases :: "string list" where
  "role_aliases = [''admin'', ''user'', ''guest'']"

definition role_from_alias :: "string \<Rightarrow> role result" where
  "role_from_alias alias =
     (case find (\<lambda>v. role_aliases ! v = alias) [0..<length role_aliases] of
        Some v \<Rightarrow> Inr (int v)
      | None \<Rightarrow> Inl (field_validation ''role'' (''AccountRole with alias '' @ alias @ '' not exists'')
                    ''connection.invalid_role_alias''))"

definition account_role_alias :: "role \<Rightarrow> string" where
  "account_role_alias r =
     (if r < 0 \<or> int (length role_aliases) \<le> r then [] else role_aliases ! nat r)"

record account_access =
  aa_account :: ident
  aa_user :: ident
  aa_role :: role
  aa_accepted :: bool
  aa_created :: instant
  aa_updated :: instant

definition new_account_access :: "ident \<Rightarrow> ident \<Rightarrow> role \<Rightarrow> instant \<Rightarrow> account_access" where
  "new_account_access account_id user_id role now =
    \<lparr>aa_account = account_id, aa_user = user_id, aa_role = role, aa_accepted = False,
     aa_created = now, aa_updated = now\<rparr>"

definition account_access_update_role :: "role \<Rightarrow> instant \<Rightarrow> account_access \<Rightarrow> account_access" where
  "account_access_update_role r now a = (if aa_role a \<noteq> r then a\<lparr>aa_role := r, aa_updated := now\<rparr> else a)"

definition account_access_accept :: "instant \<Rightarrow> account_access \<Rightarrow> account_access" where
  "account_access_accept now a = (if \<not> aa_accepted a then a\<lparr>aa_accepted := True, aa_updated := now\<rparr> else a)"

subsection \<open>Folders of accounts\<close>

text \<open>\<open>internal/model/account_folder.go\<close>.\<close>

record account_folder =
  fd_id :: ident
  fd_user :: ident
  fd_name :: string
  fd_sort_key :: string
  fd_visible :: bool
  fd_created :: instant
  fd_updated :: instant

definition new_account_folder :: "ident \<Rightarrow> ident \<Rightarrow> string \<Rightarrow> instant \<Rightarrow> account_folder" where
  "new_account_folder i user_id name now =
    \<lparr>fd_id = i, fd_user = user_id, fd_name = name, fd_sort_key = [], fd_visible = True, fd_created = now, fd_updated = now\<rparr>"

definition account_folder_update_name :: "string \<Rightarrow> instant \<Rightarrow> account_folder \<Rightarrow> account_folder" where
  "account_folder_update_name nm now f = (if fd_name f \<noteq> nm then f\<lparr>fd_name := nm, fd_updated := now\<rparr> else f)"

definition make_visible :: "instant \<Rightarrow> account_folder \<Rightarrow> account_folder" where
  "make_visible now f = (if \<not> fd_visible f then f\<lparr>fd_visible := True, fd_updated := now\<rparr> else f)"

definition make_invisible :: "instant \<Rightarrow> account_folder \<Rightarrow> account_folder" where
  "make_invisible now f = (if fd_visible f then f\<lparr>fd_visible := False, fd_updated := now\<rparr> else f)"

definition account_folder_set_sort_key :: "string \<Rightarrow> account_folder \<Rightarrow> account_folder" where
  "account_folder_set_sort_key k f = f\<lparr>fd_sort_key := k\<rparr>"

definition account_folder_update_sort_key :: "string \<Rightarrow> instant \<Rightarrow> account_folder \<Rightarrow> account_folder" where
  "account_folder_update_sort_key k now f = (if fd_sort_key f \<noteq> k then f\<lparr>fd_sort_key := k, fd_updated := now\<rparr> else f)"

text \<open>A row of \<open>accounts_options\<close>: where a user has put an account in the user's own list.\<close>

record account_option =
  ao_account :: ident
  ao_user :: ident
  ao_key :: string
  ao_created :: instant
  ao_updated :: instant

text \<open>What the account module reads of a currency: the owner of a custom one and its deletion mark.\<close>

record currency_row =
  cur_id :: ident
  cur_user :: "ident option"
  cur_deleted :: bool

end
