(* ===== verification/Transaction_Model.thy ===== *)
theory Transaction_Model
  imports Calendar
begin

section \<open>Transactions\<close>

text \<open>
  \<open>internal/model/transaction.go\<close>: the transaction aggregate, its constructors and its \<open>Update\<close>
  mutator, which applies the type-dependent field rules and drops the sort keys of the lists the row leaves.
  A transaction type is the small integer of the database.
\<close>

type_synonym transaction_type = int

definition TransactionTypeExpense :: transaction_type where "TransactionTypeExpense = 0"
definition TransactionTypeIncome :: transaction_type where "TransactionTypeIncome = 1"
definition TransactionTypeTransfer :: transaction_type where "TransactionTypeTransfer = 2"

lemmas transaction_type_defs = TransactionTypeExpense_def TransactionTypeIncome_def TransactionTypeTransfer_def

definition transaction_alias :: "transaction_type \<Rightarrow> string" where
  "transaction_alias t =
     (if t = TransactionTypeIncome then ''income''
      else if t = TransactionTypeTransfer then ''transfer''
      else ''expense'')"

definition is_income :: "transaction_type \<Rightarrow> bool" where
  "is_income t \<longleftrightarrow> t = TransactionTypeIncome"

definition is_expense :: "transaction_type \<Rightarrow> bool" where
  "is_expense t \<longleftrightarrow> t = TransactionTypeExpense"

definition is_transfer :: "transaction_type \<Rightarrow> bool" where
  "is_transfer t \<longleftrightarrow> t = TransactionTypeTransfer"

record transaction =
  tx_id :: ident
  tx_user :: ident
  tx_type :: transaction_type
  tx_account :: ident
  tx_recipient :: "ident option"
  tx_amount :: string
  tx_amount_recipient :: "string option"
  tx_category :: "ident option"
  tx_payee :: "ident option"
  tx_tag :: "ident option"
  tx_labels :: "ident list"
  tx_description :: string
  tx_spent_at :: instant
  tx_created :: instant
  tx_updated :: instant
  tx_recurring :: "ident option"
  tx_sort_key :: string
  tx_recipient_sort_key :: "string option"

text \<open>\<open>NewState\<close> has the same fields.\<close>

type_synonym new_state = transaction

definition new_transaction :: "new_state \<Rightarrow> transaction" where
  "new_transaction s = s\<lparr>tx_updated := tx_created s\<rparr>"

definition transaction_from_state :: "new_state \<Rightarrow> transaction" where
  "transaction_from_state s = s"

definition same_date :: "instant \<Rightarrow> instant \<Rightarrow> bool" where
  "same_date a b \<longleftrightarrow>
     (case (t_date a, t_date b) of ((ay, am, ad), (by', bm, bd)) \<Rightarrow> ay = by' \<and> am = bm \<and> ad = bd)"

definition same_opt_id :: "ident option \<Rightarrow> ident option \<Rightarrow> bool" where
  "same_opt_id a b \<longleftrightarrow>
     (case (a, b) of (Some x, Some y) \<Rightarrow> x = y | _ \<Rightarrow> a = None \<and> b = None)"

definition update_transaction :: "new_state \<Rightarrow> instant \<Rightarrow> transaction \<Rightarrow> transaction" where
  "update_transaction s now t =
     (let same_day = same_date (tx_spent_at t) (tx_spent_at s);
          t = (if \<not> same_day \<or> tx_account t \<noteq> tx_account s then t\<lparr>tx_sort_key := []\<rparr> else t);
          t = (if \<not> same_day \<or> \<not> is_transfer (tx_type s) \<or> \<not> same_opt_id (tx_recipient t) (tx_recipient s)
               then t\<lparr>tx_recipient_sort_key := None\<rparr> else t);
          t = t\<lparr>tx_type := tx_type s, tx_account := tx_account s, tx_amount := tx_amount s,
                tx_description := tx_description s, tx_spent_at := tx_spent_at s\<rparr>;
          t = (if is_transfer (tx_type s)
               then t\<lparr>tx_category := None, tx_payee := None, tx_tag := None, tx_labels := [],
                      tx_recipient := tx_recipient s, tx_amount_recipient := tx_amount_recipient s\<rparr>
               else t\<lparr>tx_recipient := None, tx_amount_recipient := None, tx_category := tx_category s,
                      tx_payee := tx_payee s, tx_tag := tx_tag s, tx_labels := tx_labels s\<rparr>)
      in t\<lparr>tx_updated := now\<rparr>)"

subsection \<open>The shape of a transaction\<close>

text \<open>Transfers carry no classification; other transactions no recipient, no recipient amount, no recipient slot.\<close>

definition transaction_shape :: "transaction \<Rightarrow> bool" where
  "transaction_shape t =
     (if is_transfer (tx_type t)
      then tx_category t = None \<and> tx_payee t = None \<and> tx_tag t = None \<and> tx_labels t = []
      else tx_recipient t = None \<and> tx_amount_recipient t = None \<and> tx_recipient_sort_key t = None)"

lemma same_date_iff: "same_date a b \<longleftrightarrow> t_days a = t_days b"
proof
  assume "same_date a b"
  then have "civil_of_days (t_days a) = civil_of_days (t_days b)"
    by (auto simp: same_date_def t_date_def split: prod.splits)
  then show "t_days a = t_days b" using civil_of_days_valid(2) by (metis prod_cases3)
qed (simp add: same_date_def t_date_def split: prod.splits)

lemma same_opt_id_iff: "same_opt_id a b \<longleftrightarrow> a = b"
  by (auto simp: same_opt_id_def split: option.splits)

text \<open>C38: \<open>Update\<close> gives a transaction the shape its type demands whatever its old shape, keeps its identity,
  owner, creation time and recurring origin, stamps \<open>UpdatedAt\<close>, and keeps its place in a list exactly when it stays
  in that list: the same day and account, and for the recipient side the same day, a transfer and the same recipient.
\<close>
theorem update_transaction_shape:
  "transaction_shape (update_transaction s now t) \<and> tx_updated (update_transaction s now t) = now \<and>
   tx_id (update_transaction s now t) = tx_id t \<and> tx_user (update_transaction s now t) = tx_user t \<and>
   tx_created (update_transaction s now t) = tx_created t \<and> tx_recurring (update_transaction s now t) = tx_recurring t \<and>
   tx_sort_key (update_transaction s now t) =
     (if t_days (tx_spent_at t) = t_days (tx_spent_at s) \<and> tx_account t = tx_account s then tx_sort_key t else []) \<and>
   tx_recipient_sort_key (update_transaction s now t) =
     (if t_days (tx_spent_at t) = t_days (tx_spent_at s) \<and> is_transfer (tx_type s) \<and> tx_recipient t = tx_recipient s
      then tx_recipient_sort_key t else None)"
  by (simp add: update_transaction_def transaction_shape_def Let_def same_date_iff same_opt_id_iff)

end
