(* ===== verification/Recurring_Model.thy ===== *)
theory Recurring_Model
  imports Transaction_Model Budget_Model
begin

section \<open>Recurring transactions\<close>

text \<open>
  \<open>internal/model/recurring.go\<close> and \<open>internal/model/recurring_projection.go\<close>: the schedule arithmetic, the
  template aggregate and the projection of a template into occurrences. A schedule is its wire string, as in the code; a
  schedule that is none of the five behaves as monthly. The lemmas show where the next occurrence falls, that schedules
  do not drift, and what the projection lists.
\<close>

type_synonym schedule = string

definition RecurringScheduleWeekly :: schedule where "RecurringScheduleWeekly = ''weekly''"
definition RecurringScheduleBiweekly :: schedule where "RecurringScheduleBiweekly = ''biweekly''"
definition RecurringScheduleMonthly :: schedule where "RecurringScheduleMonthly = ''monthly''"
definition RecurringScheduleQuarterly :: schedule where "RecurringScheduleQuarterly = ''quarterly''"
definition RecurringScheduleYearly :: schedule where "RecurringScheduleYearly = ''yearly''"

lemmas schedule_defs = RecurringScheduleWeekly_def RecurringScheduleBiweekly_def RecurringScheduleMonthly_def
  RecurringScheduleQuarterly_def RecurringScheduleYearly_def

definition parse_recurring_schedule :: "string \<Rightarrow> schedule option" where
  "parse_recurring_schedule s =
     (if s \<in> {RecurringScheduleWeekly, RecurringScheduleBiweekly, RecurringScheduleMonthly,
              RecurringScheduleQuarterly, RecurringScheduleYearly}
      then Some s else None)"

definition days_in_month_of :: "int \<Rightarrow> int \<Rightarrow> int" where
  "days_in_month_of year month = (case t_date (go_date year (month + 1) 0 0 0 0 0) of (_, _, d) \<Rightarrow> d)"

definition schedule_months :: "schedule \<Rightarrow> int" where
  "schedule_months s =
     (if s = RecurringScheduleQuarterly then 3 else if s = RecurringScheduleYearly then 12 else 1)"

definition next_occurrence :: "instant \<Rightarrow> schedule \<Rightarrow> int \<Rightarrow> instant" where
  "next_occurrence current schedule scheduled_day =
     (if schedule = RecurringScheduleWeekly then add_date current 0 0 7
      else if schedule = RecurringScheduleBiweekly then add_date current 0 0 14
      else
        let months = schedule_months schedule;
            (y, m, _) = t_date current;
            (hh, mi, ss) = t_clock current;
            first = go_date y (m + months) 1 hh mi ss 0;
            (fy, fm, _) = t_date first;
            day = scheduled_day;
            last = days_in_month_of fy fm;
            day = (if day > last then last else day)
        in go_date fy fm day hh mi ss 0)"

subsection \<open>The template\<close>

record recurring =
  rt_id :: ident
  rt_user :: ident
  rt_type :: transaction_type
  rt_account :: ident
  rt_recipient :: "ident option"
  rt_amount :: string
  rt_category :: "ident option"
  rt_payee :: "ident option"
  rt_tag :: "ident option"
  rt_labels :: "ident list"
  rt_description :: string
  rt_schedule :: schedule
  rt_next_payment :: instant
  rt_scheduled_day :: int
  rt_created :: instant
  rt_updated :: instant

text \<open>\<open>RecurringNewState\<close> has the same fields. The scheduled day is an \<open>int16\<close>; days of a month fit it.\<close>

type_synonym recurring_new_state = recurring

definition normalize_recurring :: "recurring \<Rightarrow> recurring" where
  "normalize_recurring rt =
     (if is_transfer (rt_type rt)
      then rt\<lparr>rt_category := None, rt_payee := None, rt_tag := None, rt_labels := []\<rparr>
      else rt\<lparr>rt_recipient := None\<rparr>)"

definition recurring_from :: "recurring_new_state \<Rightarrow> recurring" where
  "recurring_from s = normalize_recurring s"

definition t_day :: "instant \<Rightarrow> int" where
  "t_day t = (case t_date t of (_, _, d) \<Rightarrow> d)"

definition new_recurring_transaction :: "recurring_new_state \<Rightarrow> recurring" where
  "new_recurring_transaction s =
     (let rt = recurring_from s
      in rt\<lparr>rt_scheduled_day := t_day (rt_next_payment s), rt_updated := rt_created s\<rparr>)"

definition recurring_from_state :: "recurring_new_state \<Rightarrow> recurring" where
  "recurring_from_state s = recurring_from s"

definition recurring_update :: "recurring_new_state \<Rightarrow> instant \<Rightarrow> recurring \<Rightarrow> recurring" where
  "recurring_update s now rt =
     (let rt = rt\<lparr>rt_type := rt_type s, rt_account := rt_account s, rt_recipient := rt_recipient s,
                  rt_amount := rt_amount s, rt_category := rt_category s, rt_payee := rt_payee s,
                  rt_tag := rt_tag s, rt_labels := rt_labels s, rt_description := rt_description s,
                  rt_schedule := rt_schedule s\<rparr>;
          rt = (if rt_next_payment s \<noteq> rt_next_payment rt
                then rt\<lparr>rt_scheduled_day := t_day (rt_next_payment s)\<rparr> else rt);
          rt = rt\<lparr>rt_next_payment := rt_next_payment s\<rparr>;
          rt = normalize_recurring rt
      in rt\<lparr>rt_updated := now\<rparr>)"

definition advance :: "instant \<Rightarrow> recurring \<Rightarrow> recurring" where
  "advance now rt =
     rt\<lparr>rt_next_payment := next_occurrence (rt_next_payment rt) (rt_schedule rt) (rt_scheduled_day rt),
        rt_updated := now\<rparr>"

subsection \<open>The projection\<close>

record occurrence =
  oc_template :: recurring
  oc_due :: instant
  oc_filed :: instant
  oc_is_next :: bool
  oc_is_overdue :: bool

definition max_projected_occurrences :: nat where
  "max_projected_occurrences = 1000"

text \<open>\<open>project_loop n i cur\<close> is the loop with \<open>n\<close> iterations left and the counter at \<open>i\<close>.\<close>

fun project_loop :: "recurring \<Rightarrow> instant \<Rightarrow> instant \<Rightarrow> nat \<Rightarrow> nat \<Rightarrow> instant \<Rightarrow> occurrence list" where
  "project_loop rt today until 0 i cur = []"
| "project_loop rt today until (Suc n) i cur =
     (let overdue = cur < today;
          filed = (if overdue then today else cur)
      in if \<not> filed < until then []
         else (if i = 0 \<or> \<not> overdue
               then [\<lparr>oc_template = rt, oc_due = cur, oc_filed = filed, oc_is_next = (i = 0), oc_is_overdue = overdue\<rparr>]
               else []) @
           project_loop rt today until n (Suc i) (next_occurrence cur (rt_schedule rt) (rt_scheduled_day rt)))"

definition project_occurrences :: "recurring \<Rightarrow> instant \<Rightarrow> instant \<Rightarrow> occurrence list" where
  "project_occurrences rt today until =
     project_loop rt today until max_projected_occurrences 0 (rt_next_payment rt)"

subsection \<open>Where the next occurrence falls\<close>

text \<open>Months counted from year zero.\<close>

definition month_index :: "instant \<Rightarrow> int" where
  "month_index t = (case t_date t of (y, m, _) \<Rightarrow> 12 * y + (m - 1))"

definition month_start :: "int \<Rightarrow> int" where
  "month_start i = days_of (i div 12) (i mod 12 + 1) 1"

definition month_length :: "int \<Rightarrow> int" where
  "month_length i = days_in_month (i div 12) (i mod 12 + 1)"

lemma month_start_index: "days_of y m d = month_start (12 * y + (m - 1)) + (d - 1)"
proof -
  have "(12 * y + (m - 1)) div 12 = y + (m - 1) div 12" "(12 * y + (m - 1)) mod 12 = (m - 1) mod 12" by simp_all
  moreover have "days_of y m d = days_of (y + (m - 1) div 12) ((m - 1) mod 12 + 1) d"
    by (simp add: days_of_def Let_def)
  moreover have "days_of y' m' d = days_of y' m' 1 + (d - 1)" for y' m'
    using days_of_add_days[of y' m' 1 "d - 1"] by simp
  ultimately show ?thesis by (simp only: month_start_def)
qed

lemma month_of_index: "1 \<le> i mod 12 + (1 :: int)" "i mod 12 + 1 \<le> (12 :: int)"
  using pos_mod_bound[of 12 i] by simp_all

lemma month_start_Suc: "month_start (i + 1) = month_start i + month_length i"
proof -
  have e: "12 * (i div 12) + (i mod 12 + 1 + 1 - 1) = i + 1" by simp
  have "month_start (i + 1) = days_of (i div 12) (i mod 12 + 1 + 1) 1"
    using month_start_index[of "i div 12" "i mod 12 + 1 + 1" 1] unfolding e by simp
  then show ?thesis using days_of_next_month[OF month_of_index] by (simp add: month_start_def month_length_def)
qed

lemma month_length_bounds: "28 \<le> month_length i" "month_length i \<le> 31"
  using days_in_month_ge_28[OF month_of_index] days_in_month_le_31[OF month_of_index] by (simp_all add: month_length_def)

lemma month_start_less: "i < j \<Longrightarrow> month_start i < month_start j"
proof (induction j rule: int_gr_induct)
  case base
  then show ?case using month_start_Suc[of i] month_length_bounds[of i] by simp
next
  case (step j)
  then show ?case using month_start_Suc[of j] month_length_bounds[of j] by simp
qed

lemma civil_in_month:
  assumes "0 \<le> k" "k < month_length i"
  shows "civil_of_days (month_start i + k) = (i div 12, i mod 12 + 1, k + 1)"
proof -
  have "valid_civil (i div 12) (i mod 12 + 1) (k + 1)"
    using assms month_of_index[of i] by (simp add: valid_civil_def month_length_def)
  moreover have "days_of (i div 12) (i mod 12 + 1) (k + 1) = month_start i + k"
    using days_of_add_days[of "i div 12" "i mod 12 + 1" 1 k] by (simp add: month_start_def add.commute)
  ultimately show ?thesis using civil_of_days_of by metis
qed

lemma month_index_days:
  assumes "0 \<le> k" "k < month_length i" "t_days t = month_start i + k"
  shows "month_index t = i" "t_day t = k + 1"
  using civil_in_month[OF assms(1,2)] assms(3) by (simp_all add: month_index_def t_date_def t_day_def)

lemma t_days_month:
  "t_days t = month_start (month_index t) + (t_day t - 1)" "1 \<le> t_day t" "t_day t \<le> month_length (month_index t)"
proof -
  obtain y m d where t: "t_date t = (y, m, d)" using prod_cases3 by blast
  then have c: "civil_of_days (t_days t) = (y, m, d)" by (simp add: t_date_def)
  have v: "valid_civil y m d" "days_of y m d = t_days t" using civil_of_days_valid[OF c] by auto
  show "t_days t = month_start (month_index t) + (t_day t - 1)"
    using v(2) month_start_index[of y m d] t by (simp add: month_index_def t_day_def)
  have "(12 * y + (m - 1)) div 12 = y" "(12 * y + (m - 1)) mod 12 = m - 1" using v(1) by (auto simp: valid_civil_def)
  then show "1 \<le> t_day t" "t_day t \<le> month_length (month_index t)"
    using v(1) t by (simp_all add: month_index_def t_day_def valid_civil_def month_length_def)
qed

lemma days_in_month_of_eq: "days_in_month_of (i div 12) (i mod 12 + 1) = month_length i"
proof -
  have e: "12 * (i div 12) + (i mod 12 + 1 + 1 - 1) = i + 1" by simp
  have "days_of (i div 12) (i mod 12 + 1 + 1) 0 = month_start (i + 1) - 1"
    using month_start_index[of "i div 12" "i mod 12 + 1 + 1" 0] unfolding e by simp
  also have "\<dots> = month_start i + (month_length i - 1)" by (simp add: month_start_Suc)
  finally have d: "days_of (i div 12) (i mod 12 + 1 + 1) 0 = month_start i + (month_length i - 1)" .
  have "civil_of_days (month_start i + (month_length i - 1)) = (i div 12, i mod 12 + 1, month_length i - 1 + 1)"
    by (rule civil_in_month) (use month_length_bounds[of i] in simp_all)
  then show ?thesis unfolding days_in_month_of_def t_date_go_date d by simp
qed

definition by_month :: "schedule \<Rightarrow> bool" where
  "by_month s \<longleftrightarrow> s \<noteq> RecurringScheduleWeekly \<and> s \<noteq> RecurringScheduleBiweekly"

lemma schedule_months_pos: "1 \<le> schedule_months s"
  by (simp add: schedule_months_def)

lemma next_occurrence_month:
  fixes t :: instant
  assumes "by_month s" "1 \<le> sd"
  defines "i \<equiv> month_index t + schedule_months s"
  shows "t_days (next_occurrence t s sd) = month_start i + (min sd (month_length i) - 1)"
    and "t_seconds (next_occurrence t s sd) = t_seconds t"
proof -
  obtain y m d where t: "t_date t = (y, m, d)" using prod_cases3 by blast
  obtain hh mi ss where c: "t_clock t = (hh, mi, ss)" using prod_cases3 by blast
  note cb = t_clock_bounds[OF c]
  have i: "i = 12 * y + (m + schedule_months s - 1)" using t by (simp add: i_def month_index_def)
  let ?first = "go_date y (m + schedule_months s) 1 hh mi ss 0"
  have fd: "t_days ?first = month_start i"
    using t_clock_go_date(1)[OF cb, of 0] month_start_index[of y "m + schedule_months s" 1] i by simp
  have f: "t_date ?first = (i div 12, i mod 12 + 1, 1)"
    using civil_in_month[of 0 i] month_length_bounds[of i] fd by (simp add: t_date_def)
  let ?day = "if sd > month_length i then month_length i else sd"
  have n: "next_occurrence t s sd = go_date (i div 12) (i mod 12 + 1) ?day hh mi ss 0"
    using assms(1) t c f by (simp add: next_occurrence_def by_month_def Let_def days_in_month_of_eq)
  have e: "12 * (i div 12) + (i mod 12 + 1 - 1) = i" by simp
  have "t_days (next_occurrence t s sd) = days_of (i div 12) (i mod 12 + 1) ?day"
    unfolding n using t_clock_go_date(1)[OF cb, of 0] by simp
  then show "t_days (next_occurrence t s sd) = month_start i + (min sd (month_length i) - 1)"
    using month_start_index[of "i div 12" "i mod 12 + 1" ?day] unfolding e by (simp add: min_def)
  have cc: "t_clock (next_occurrence t s sd) = t_clock t" unfolding n c using t_clock_go_date(2)[OF cb, of 0] by simp
  have "t_seconds u = ((fst (t_clock u)) * 60 + fst (snd (t_clock u))) * 60 + snd (snd (t_clock u))" for u
  proof -
    have "t_seconds u mod 60 = t_seconds u mod 3600 mod 60" by (rule mod_mod_cancel[symmetric]) simp
    then show ?thesis unfolding t_clock_def Let_def fst_conv snd_conv
      by (simp only:) (rule horner_60[symmetric]; rule div_mult_mod_eq)
  qed
  then show "t_seconds (next_occurrence t s sd) = t_seconds t" using cc by simp
qed

lemma next_occurrence_index:
  assumes "by_month s" "1 \<le> sd"
  shows "month_index (next_occurrence t s sd) = month_index t + schedule_months s"
    and "t_day (next_occurrence t s sd) = min sd (month_length (month_index t + schedule_months s))"
  using month_index_days[OF _ _ next_occurrence_month(1)[OF assms]] assms(2)
    month_length_bounds[of "month_index t + schedule_months s"] by (simp_all add: min_def)

lemma next_occurrence_later:
  assumes "1 \<le> sd"
  shows "t < next_occurrence t s sd"
proof (cases "by_month s")
  case True
  let ?i = "month_index t + schedule_months s"
  have "t_days t < month_start (month_index t + 1)"
    using t_days_month[of t] by (simp add: month_start_Suc)
  also have "\<dots> \<le> month_start ?i"
    using schedule_months_pos[of s] month_start_less[of "month_index t + 1" ?i] by (cases "schedule_months s = 1") auto
  also have "\<dots> \<le> t_days (next_occurrence t s sd)"
    using next_occurrence_month(1)[OF True assms, of t] assms month_length_bounds[of ?i] by (simp add: min_def)
  finally have "t_days t < t_days (next_occurrence t s sd)" .
  then have "t < t_days (next_occurrence t s sd) * day_ns" by (simp add: t_days_less)
  also have "\<dots> \<le> next_occurrence t s sd" by (simp add: t_days_le)
  finally show ?thesis .
next
  case False
  then show ?thesis
    by (auto simp: by_month_def next_occurrence_def add_days schedule_defs)
qed

subsection \<open>Iterating the schedule\<close>

fun nth_occurrence :: "instant \<Rightarrow> schedule \<Rightarrow> int \<Rightarrow> nat \<Rightarrow> instant" where
  "nth_occurrence t s sd 0 = t"
| "nth_occurrence t s sd (Suc k) = next_occurrence (nth_occurrence t s sd k) s sd"

lemma nth_occurrence_shift: "nth_occurrence (next_occurrence t s sd) s sd k = nth_occurrence t s sd (Suc k)"
  by (induction k) simp_all

lemma nth_occurrence_mono:
  assumes "1 \<le> sd" "i \<le> j"
  shows "nth_occurrence t s sd i \<le> nth_occurrence t s sd j"
  using assms(2)
proof (induction j rule: dec_induct)
  case (step n)
  then show ?case using next_occurrence_later[OF assms(1), of "nth_occurrence t s sd n" s] by simp
qed simp

lemma nth_occurrence_month:
  assumes "by_month s" "1 \<le> sd"
  shows "month_index (nth_occurrence t s sd k) = month_index t + int k * schedule_months s \<and>
    t_seconds (nth_occurrence t s sd k) = t_seconds t \<and>
    (k = 0 \<or> t_day (nth_occurrence t s sd k) = min sd (month_length (month_index t + int k * schedule_months s)))"
proof (induction k)
  case (Suc k)
  then have "month_index (nth_occurrence t s sd (Suc k)) = month_index t + int (Suc k) * schedule_months s"
    using next_occurrence_index(1)[OF assms] by (simp add: distrib_right)
  moreover have "t_day (nth_occurrence t s sd (Suc k)) =
      min sd (month_length (month_index (nth_occurrence t s sd k) + schedule_months s))"
    using next_occurrence_index(2)[OF assms] by simp
  ultimately show ?case using Suc next_occurrence_month(2)[OF assms] by (simp add: distrib_right add.assoc add.commute[of "schedule_months s"])
qed simp

subsection \<open>The projection lists the schedule\<close>

definition occurrence_at :: "recurring \<Rightarrow> instant \<Rightarrow> nat \<Rightarrow> occurrence" where
  "occurrence_at rt today k =
     (let due = nth_occurrence (rt_next_payment rt) (rt_schedule rt) (rt_scheduled_day rt) k
      in \<lparr>oc_template = rt, oc_due = due, oc_filed = max due today, oc_is_next = (k = 0), oc_is_overdue = due < today\<rparr>)"

definition projected :: "recurring \<Rightarrow> instant \<Rightarrow> instant \<Rightarrow> nat \<Rightarrow> bool" where
  "projected rt today until k \<longleftrightarrow>
     oc_filed (occurrence_at rt today k) < until \<and> (k = 0 \<or> \<not> oc_is_overdue (occurrence_at rt today k))"

lemma project_loop_spec:
  assumes "1 \<le> rt_scheduled_day rt"
  shows "project_loop rt today until n i (nth_occurrence (rt_next_payment rt) (rt_schedule rt) (rt_scheduled_day rt) i) =
    map (occurrence_at rt today) (filter (projected rt today until) [i..<i + n])"
proof (induction n arbitrary: i)
  case 0
  then show ?case by simp
next
  case (Suc n)
  let ?occ = "nth_occurrence (rt_next_payment rt) (rt_schedule rt) (rt_scheduled_day rt)"
  have upt: "[i..<i + Suc n] = i # [Suc i..<Suc i + n]" by (simp add: upt_conv_Cons)
  show ?case
  proof (cases "max (?occ i) today < until")
    case True
    then show ?thesis
      using Suc[of "Suc i"] unfolding upt
      by (auto simp: projected_def occurrence_at_def Let_def max_def not_less)
  next
    case False
    have "\<not> projected rt today until k" if "i \<le> k" for k
      using nth_occurrence_mono[OF assms that, of "rt_next_payment rt" "rt_schedule rt"] False
      by (auto simp: projected_def occurrence_at_def Let_def max_def split: if_splits)
    then have "filter (projected rt today until) [i..<i + Suc n] = []" by (simp add: filter_empty_conv)
    then show ?thesis using False by (auto simp: Let_def max_def not_less split: if_splits)
  qed
qed

subsection \<open>Properties\<close>

text \<open>C20: a schedule does not drift. The k-th occurrence after a payment is k weeks or k fortnights later to the
  nanosecond, or lies k steps of months ahead on the scheduled day cut to the length of that month, at the same time
  of day; so the 31st falls on Feb 28 and is back on Mar 31.
\<close>
theorem schedule_does_not_drift:
  assumes "1 \<le> sd"
  shows "if s = RecurringScheduleWeekly then nth_occurrence t s sd k = t + int k * (7 * day_ns)
    else if s = RecurringScheduleBiweekly then nth_occurrence t s sd k = t + int k * (14 * day_ns)
    else month_index (nth_occurrence t s sd k) = month_index t + int k * schedule_months s \<and>
      t_seconds (nth_occurrence t s sd k) = t_seconds t \<and>
      (k = 0 \<or> t_day (nth_occurrence t s sd k) = min sd (month_length (month_index t + int k * schedule_months s)))"
proof -
  have "nth_occurrence t RecurringScheduleWeekly sd k = t + int k * (7 * day_ns)"
    by (induction k) (simp_all add: next_occurrence_def add_days distrib_right)
  moreover have "nth_occurrence t RecurringScheduleBiweekly sd k = t + int k * (14 * day_ns)"
    by (induction k) (simp_all add: next_occurrence_def add_days distrib_right schedule_defs)
  ultimately show ?thesis using nth_occurrence_month[OF _ assms, of s t k] by (auto simp: by_month_def)
qed

lemma next_occurrence_eval:
  assumes "t_date t = (y, m, d)" "t_clock t = (hh, mi, ss)" "t_date (go_date y (m + schedule_months s) 1 hh mi ss 0) = (fy, fm, fd)"
    and "day = (if sd > days_in_month_of fy fm then days_in_month_of fy fm else sd)" "by_month s"
  shows "next_occurrence t s sd = go_date fy fm day hh mi ss 0"
  using assms by (simp add: next_occurrence_def by_month_def Let_def)

lemma schedule_does_not_drift_witness:
  "month_index (nth_occurrence (go_date 2023 1 31 9 0 0 0) RecurringScheduleMonthly 31 2) = 12 * 2023 + 2 \<and>
   nth_occurrence (go_date 2023 1 31 9 0 0 0) RecurringScheduleMonthly 31 1 = go_date 2023 2 28 9 0 0 0 \<and>
   nth_occurrence (go_date 2023 1 31 9 0 0 0) RecurringScheduleMonthly 31 2 = go_date 2023 3 31 9 0 0 0"
proof -
  have "month_index (go_date 2023 1 31 9 0 0 0) = 12 * 2023" by code_simp
  moreover have "schedule_months RecurringScheduleMonthly = 1" by code_simp
  moreover have one: "next_occurrence (go_date 2023 1 31 9 0 0 0) RecurringScheduleMonthly 31 = go_date 2023 2 28 9 0 0 0"
    by (rule next_occurrence_eval[of _ 2023 1 31 9 0 0 _ 2023 2 1 28]; code_simp)
  moreover have "next_occurrence (go_date 2023 2 28 9 0 0 0) RecurringScheduleMonthly 31 = go_date 2023 3 31 9 0 0 0"
    by (rule next_occurrence_eval[of _ 2023 2 28 9 0 0 _ 2023 3 1 31]; code_simp)
  then have "nth_occurrence (go_date 2023 1 31 9 0 0 0) RecurringScheduleMonthly 31 2 = go_date 2023 3 31 9 0 0 0"
    using one by (simp add: numeral_2_eq_2)
  moreover have "nth_occurrence (go_date 2023 1 31 9 0 0 0) RecurringScheduleMonthly 31 1 = go_date 2023 2 28 9 0 0 0"
    using one by simp
  moreover have "RecurringScheduleMonthly \<noteq> RecurringScheduleWeekly" "RecurringScheduleMonthly \<noteq> RecurringScheduleBiweekly"
    by (simp_all add: schedule_defs)
  then have "month_index (nth_occurrence (go_date 2023 1 31 9 0 0 0) RecurringScheduleMonthly 31 2) =
      month_index (go_date 2023 1 31 9 0 0 0) + int 2 * schedule_months RecurringScheduleMonthly"
    using schedule_does_not_drift[where sd = 31 and s = RecurringScheduleMonthly and t = "go_date 2023 1 31 9 0 0 0" and k = 2]
    by (simp only: if_False one_le_numeral simp_thms)
  ultimately show ?thesis by (metis mult.right_neutral of_nat_numeral)
qed

text \<open>C27: \<open>ProjectOccurrences\<close> is the reference listing: of the first 1000 occurrences of the schedule, those whose
  filing date (the due date, or today when overdue) is before the end, the first one even when overdue and the later
  ones only when not; in particular breaking off at the first one filed too late loses nothing.
\<close>
theorem projection_is_reference:
  assumes "1 \<le> rt_scheduled_day rt"
  shows "project_occurrences rt today until =
    map (occurrence_at rt today) (filter (projected rt today until) [0..<max_projected_occurrences])"
  using project_loop_spec[OF assms, of today until max_projected_occurrences 0]
  by (simp add: project_occurrences_def)

definition sample_recurring :: recurring where
  "sample_recurring =
     \<lparr>rt_id = ''r1'', rt_user = ''u1'', rt_type = TransactionTypeExpense, rt_account = ''a1'', rt_recipient = None,
      rt_amount = ''10'', rt_category = Some ''c1'', rt_payee = None, rt_tag = None, rt_labels = [],
      rt_description = [], rt_schedule = RecurringScheduleMonthly, rt_next_payment = go_date 2023 1 31 9 0 0 0,
      rt_scheduled_day = 31, rt_created = 0, rt_updated = 0\<rparr>"

lemma projection_is_reference_witness:
  "project_occurrences sample_recurring (go_date 2023 3 1 0 0 0 0) (go_date 2023 5 1 0 0 0 0) =
    map (occurrence_at sample_recurring (go_date 2023 3 1 0 0 0 0))
      (filter (projected sample_recurring (go_date 2023 3 1 0 0 0 0) (go_date 2023 5 1 0 0 0 0)) [0..<max_projected_occurrences])"
  by (rule projection_is_reference) (simp add: sample_recurring_def)

text \<open>An update keeps the scheduled day while the payment date stays, also when it changes the schedule: a weekly template
  first due on the 31st, skipped to 7 February and then made monthly, falls due next on 31 March, not on 7 March.\<close>

definition weekly_gym :: recurring where
  "weekly_gym = \<lparr>rt_id = ''r1'', rt_user = ''ann'', rt_type = TransactionTypeExpense, rt_account = ''acc'', rt_recipient = None,
     rt_amount = ''20'', rt_category = None, rt_payee = None, rt_tag = None, rt_labels = [], rt_description = [],
     rt_schedule = RecurringScheduleWeekly, rt_next_payment = go_date 2024 1 31 9 0 0 0, rt_scheduled_day = 31,
     rt_created = 0, rt_updated = 0\<rparr>"

lemma schedule_change_keeps_first_day:
  "rt_next_payment (advance 0 weekly_gym) = go_date 2024 2 7 9 0 0 0"
  "rt_next_payment (advance 0 (recurring_update ((advance 0 weekly_gym)\<lparr>rt_schedule := RecurringScheduleMonthly\<rparr>) 0 (advance 0 weekly_gym)))
     = go_date 2024 3 31 9 0 0 0"
proof -
  have n: "next_occurrence (go_date 2024 1 31 9 0 0 0) RecurringScheduleWeekly 31 = go_date 2024 2 7 9 0 0 0"
    by code_simp
  have m: "next_occurrence (go_date 2024 2 7 9 0 0 0) RecurringScheduleMonthly 31 = go_date 2024 3 31 9 0 0 0"
    by (rule next_occurrence_eval[of _ 2024 2 7 9 0 0 _ 2024 3 1 31]; code_simp)
  show 1: "rt_next_payment (advance 0 weekly_gym) = go_date 2024 2 7 9 0 0 0"
    by (simp only: advance_def weekly_gym_def recurring.simps n)
  have "rt_scheduled_day (advance 0 weekly_gym) = 31" by (simp add: advance_def weekly_gym_def)
  moreover have "rt_next_payment (advance now u) = next_occurrence (rt_next_payment u) (rt_schedule u) (rt_scheduled_day u)" for now u
    by (simp add: advance_def)
  ultimately show "rt_next_payment (advance 0 (recurring_update ((advance 0 weekly_gym)\<lparr>rt_schedule := RecurringScheduleMonthly\<rparr>) 0 (advance 0 weekly_gym)))
     = go_date 2024 3 31 9 0 0 0"
    using 1 m by (simp add: Let_def recurring_update_def normalize_recurring_def)
qed

end
