(* ===== verification/Store.thy ===== *)
theory Store
  imports Placement Classification_Requests Account_Model Recurring_Model "HOL-Library.Product_Lexorder" "HOL-Library.Multiset"
begin

section \<open>The database and its transactions\<close>

text \<open>
  The tables the modelled services read and write, one list of rows per table. A use case is a function from the
  database to a result and the database after it; \<open>sbind\<close> is the sequencing of Go statements with the early
  return on an error. \<open>with_tx\<close> is \<open>TxManager.WithTx\<close> (\<open>internal/infra/storage/backend/tx.go\<close>) outermost:
  the work either commits as a whole, the pending revision bumps of \<open>internal/infra/txrevision\<close> flushed just
  before the commit, or the database is as before. Queries themselves do not fail here: a driver failure is an error
  at one of the same points and rolls back alike.

  The repositories (\<open>internal/*/repo\<close>) with their queries (\<open>internal/infra/storage/sqlc/query\<close>) are
  functions over the tables: a row is found by its id, an upsert replaces the row of that id or adds one, lists come
  ordered by sort key and id, and a deletion performs the foreign-key actions of the schema. Import rules, which
  also refer to classifications, are not modelled. The tables of the account module (folders, their members, places,
  currencies, connections) are used by \<open>Account_Repos\<close>; a transaction inside a transaction is \<open>nested\<close> of \<open>Ledger_Service\<close>.
\<close>

named_theorems store_defs "definitions of the repositories"

record operation =
  op_id :: ident
  op_handled :: bool
  op_created :: instant
  op_updated :: instant

record store =
  st_categories :: "category list"
  st_tags :: "tag list"
  st_payees :: "payee list"
  st_labels :: "label list"
  st_transactions :: "transaction list"
  st_recurring :: "recurring list"
  st_accounts :: "account list"
  st_access :: "account_access list"
  st_operations :: "operation list"
  st_elements :: "budget_element list"
  st_limits :: "budget_limit list"
  st_comments :: "budget_comment list"
  st_envelope_categories :: "(ident \<times> ident) list"
  st_folders :: "account_folder list"
  st_memberships :: "(ident \<times> ident) list"
  st_options :: "account_option list"
  st_currencies :: "currency_row list"
  st_connections :: "(ident \<times> ident) list"
  st_pending :: "ident list"

type_synonym 'a act = "store \<Rightarrow> 'a result \<times> store"

definition ret :: "'a \<Rightarrow> 'a act" where
  "ret x s = (Inr x, s)"

definition fail :: "go_error \<Rightarrow> 'a act" where
  "fail e s = (Inl e, s)"

definition sbind :: "'a act \<Rightarrow> ('a \<Rightarrow> 'b act) \<Rightarrow> 'b act" where
  "sbind m f s = (case m s of (Inl e, s') \<Rightarrow> (Inl e, s') | (Inr x, s') \<Rightarrow> f x s')"

definition lift :: "'a result \<Rightarrow> 'a act" where
  "lift r s = (r, s)"

definition gets :: "(store \<Rightarrow> 'a) \<Rightarrow> 'a act" where
  "gets f s = (Inr (f s), s)"

definition update_store :: "(store \<Rightarrow> store) \<Rightarrow> unit act" where
  "update_store f s = (Inr (), f s)"

fun for_each :: "'x list \<Rightarrow> ('x \<Rightarrow> unit act) \<Rightarrow> unit act" where
  "for_each [] f = ret ()"
| "for_each (x # xs) f = sbind (f x) (\<lambda>_. for_each xs f)"

record platform =
  pf_uuid :: "string \<Rightarrow> ident option"
  pf_fold :: "nat \<Rightarrow> nat"
  pf_lower :: "nat \<Rightarrow> nat"

text \<open>One bump per account whatever the number of writes: the pending ids are a set.\<close>

definition flush :: "store \<Rightarrow> store" where
  "flush s = s\<lparr>st_accounts := map (\<lambda>a. if acc_id a \<in> set (st_pending s)
                                     then a\<lparr>acc_revision := acc_revision a + 1\<rparr> else a) (st_accounts s),
              st_pending := []\<rparr>"

definition with_tx :: "'a act \<Rightarrow> 'a act" where
  "with_tx body s =
     (case body (s\<lparr>st_pending := []\<rparr>) of
        (Inl e, _) \<Rightarrow> (Inl e, s)
      | (Inr x, s') \<Rightarrow> (Inr x, flush s'))"

definition bump :: "ident list \<Rightarrow> unit act" where
  "bump ids = update_store (\<lambda>s. s\<lparr>st_pending := st_pending s @ filter (\<lambda>i. i \<noteq> []) ids\<rparr>)"

text \<open>The accounts of the transactions that satisfy a condition, recipients included.\<close>

definition bump_where :: "(transaction \<Rightarrow> bool) \<Rightarrow> unit act" where
  "bump_where cond =
     sbind (gets st_transactions) (\<lambda>txs.
       bump (remdups (map tx_account (filter cond txs) @ List.map_filter tx_recipient (filter cond txs))))"

subsection \<open>Rows\<close>

definition find_row :: "('r \<Rightarrow> ident) \<Rightarrow> ident \<Rightarrow> 'r list \<Rightarrow> 'r option" where
  "find_row rid i rows = find (\<lambda>r. rid r = i) rows"

definition upsert_row :: "('r \<Rightarrow> ident) \<Rightarrow> 'r \<Rightarrow> 'r list \<Rightarrow> 'r list" where
  "upsert_row rid r rows =
     (if rid r \<in> rid ` set rows then map (\<lambda>x. if rid x = rid r then r else x) rows else rows @ [r])"

definition delete_row :: "('r \<Rightarrow> ident) \<Rightarrow> ident \<Rightarrow> 'r list \<Rightarrow> 'r list" where
  "delete_row rid i rows = filter (\<lambda>r. rid r \<noteq> i) rows"

text \<open>\<open>ORDER BY sort_key, id\<close>.\<close>

definition ordered :: "('r \<Rightarrow> key) \<Rightarrow> ('r \<Rightarrow> ident) \<Rightarrow> 'r list \<Rightarrow> 'r list" where
  "ordered key rid rows = List.sort_key (\<lambda>r. (key r, rid r)) rows"

definition row_or_not_found :: "string \<Rightarrow> 'r option \<Rightarrow> 'r result" where
  "row_or_not_found msg r = (case r of None \<Rightarrow> Inl (NotFoundError msg) | Some x \<Rightarrow> Inr x)"

subsection \<open>Operation ids\<close>

text \<open>\<open>internal/infra/operation/guard.go\<close>.\<close>

definition claim :: "ident \<Rightarrow> instant \<Rightarrow> bool act" where
  "claim i now =
     sbind (gets (find_row op_id i \<circ> st_operations)) (\<lambda>row.
       (case row of
          Some _ \<Rightarrow> ret True
        | None \<Rightarrow> sbind (update_store (\<lambda>s. s\<lparr>st_operations := st_operations s @
                    [\<lparr>op_id = i, op_handled = False, op_created = now, op_updated = now\<rparr>]\<rparr>)) (\<lambda>_. ret False)))"

definition mark_handled :: "ident \<Rightarrow> instant \<Rightarrow> unit act" where
  "mark_handled i now =
     update_store (\<lambda>s. s\<lparr>st_operations := map (\<lambda>o'. if op_id o' = i
                           then o'\<lparr>op_handled := True, op_updated := now\<rparr> else o') (st_operations s)\<rparr>)"

definition operation_locked :: go_error where
  "operation_locked = ValidationError ''Operation is locked'' ''common.operation_locked'' []"

subsection \<open>Account access\<close>

text \<open>\<open>AccountAccessResolver\<close> of \<open>internal/connection/repo/adapters.go\<close> over the grants.\<close>

definition account_owner :: "ident \<Rightarrow> ident act" where
  "account_owner account_id =
     sbind (gets (find_row acc_id account_id \<circ> st_accounts)) (\<lambda>a.
       lift (rbind (row_or_not_found ''Account not found'' a) (\<lambda>a. Inr (acc_user a))))"

definition get_grant :: "ident \<Rightarrow> ident \<Rightarrow> account_access act" where
  "get_grant account_id user_id =
     sbind (gets (\<lambda>s. find (\<lambda>g. aa_account g = account_id \<and> aa_user g = user_id) (st_access s))) (\<lambda>g.
       lift (row_or_not_found ''AccountAccess not found'' g))"

definition granted :: "(account_access \<Rightarrow> bool) \<Rightarrow> ident \<Rightarrow> ident \<Rightarrow> bool act" where
  "granted ok account_id user_id s =
     (case get_grant account_id user_id s of
        (Inr g, s') \<Rightarrow> (Inr (ok g), s')
      | (Inl e, s') \<Rightarrow> if as_not_found e = None then (Inl e, s') else (Inr False, s'))"

definition has_write_grant :: "ident \<Rightarrow> ident \<Rightarrow> bool act" where
  "has_write_grant account_id user_id =
     granted (\<lambda>g. aa_accepted g \<and> (aa_role g = RoleAdmin \<or> aa_role g = RoleUser)) account_id user_id"

definition has_admin_grant :: "ident \<Rightarrow> ident \<Rightarrow> bool act" where
  "has_admin_grant account_id user_id =
     granted (\<lambda>g. aa_accepted g \<and> aa_role g = RoleAdmin) account_id user_id"

text \<open>The users whose rows a user sees in lists: the user and the owners of accounts shared with the user and
  accepted (the \<open>WHERE\<close> clause of the list views).\<close>

definition visible_owner :: "store \<Rightarrow> ident \<Rightarrow> ident \<Rightarrow> bool" where
  "visible_owner s user owner \<longleftrightarrow>
     owner = user \<or>
     (\<exists>g\<in>set (st_access s). aa_user g = user \<and> aa_accepted g \<and>
        (\<exists>a\<in>set (st_accounts s). acc_id a = aa_account g \<and> acc_user a = owner))"

subsection \<open>Reasoning about actions\<close>

named_theorems act_iff "when an action returns a given outcome"
named_theorems atomic_intro "an action that fails leaves the database as it was"

lemma ret_iff [act_iff]: "ret x s = (r, s') \<longleftrightarrow> r = Inr x \<and> s' = s"
  by (auto simp: ret_def)

lemma fail_iff [act_iff]: "fail e s = (r, s') \<longleftrightarrow> r = Inl e \<and> s' = s"
  by (auto simp: fail_def)

lemma lift_iff [act_iff]: "lift r0 s = (r, s') \<longleftrightarrow> r0 = r \<and> s' = s"
  by (auto simp: lift_def)

lemma gets_iff [act_iff]: "gets f s = (r, s') \<longleftrightarrow> r = Inr (f s) \<and> s' = s"
  by (auto simp: gets_def)

lemma update_store_iff [act_iff]: "update_store f s = (r, s') \<longleftrightarrow> r = Inr () \<and> s' = f s"
  by (auto simp: update_store_def)

lemma sbind_Inr_iff [act_iff]:
  "sbind m f s = (Inr y, s') \<longleftrightarrow> (\<exists>x s1. m s = (Inr x, s1) \<and> f x s1 = (Inr y, s'))"
  by (auto simp: sbind_def split: prod.split sum.split)

lemma sbind_Inl_iff:
  "sbind m f s = (Inl e, s') \<longleftrightarrow>
     m s = (Inl e, s') \<or> (\<exists>x s1. m s = (Inr x, s1) \<and> f x s1 = (Inl e, s'))"
  by (auto simp: sbind_def split: prod.split sum.split)

lemma guard_Inr_iff [act_iff]:
  "(if b then fail e else m) s = (Inr x, s') \<longleftrightarrow> \<not> b \<and> m s = (Inr x, s')"
  by (simp add: fail_def)

lemma sbind_assoc: "sbind (sbind m f) g = sbind m (\<lambda>x. sbind (f x) g)"
  by (simp add: fun_eq_iff sbind_def split: prod.split sum.split)

lemma with_tx_Inr_iff [act_iff]:
  "with_tx body s = (Inr x, s') \<longleftrightarrow> (\<exists>s1. body (s\<lparr>st_pending := []\<rparr>) = (Inr x, s1) \<and> s' = flush s1)"
  by (auto simp: with_tx_def split: prod.splits sum.splits)

lemma with_tx_Inl_iff:
  "with_tx body s = (Inl e, s') \<longleftrightarrow> (\<exists>s1. body (s\<lparr>st_pending := []\<rparr>) = (Inl e, s1)) \<and> s' = s"
  by (auto simp: with_tx_def split: prod.splits sum.splits)

text \<open>Reading: an action that never changes the database; total: an action that never fails.\<close>

definition read_only :: "'a act \<Rightarrow> bool" where
  "read_only m \<longleftrightarrow> (\<forall>s. snd (m s) = s)"

definition total :: "'a act \<Rightarrow> bool" where
  "total m \<longleftrightarrow> (\<forall>s. \<exists>x s'. m s = (Inr x, s'))"

definition atomic :: "'a act \<Rightarrow> bool" where
  "atomic m \<longleftrightarrow> (\<forall>s e s'. m s = (Inl e, s') \<longrightarrow> s' = s)"

lemma read_only_basic [atomic_intro, simp]:
  "read_only (ret x)" "read_only (fail e)" "read_only (lift r)" "read_only (gets f)"
  by (simp_all add: read_only_def ret_def fail_def lift_def gets_def)

lemma read_only_sbind [atomic_intro]: "\<lbrakk>read_only m; \<And>x. read_only (f x)\<rbrakk> \<Longrightarrow> read_only (sbind m f)"
  unfolding read_only_def sbind_def by (auto split: prod.split sum.split) (metis snd_conv)+

lemma read_only_outcome: "\<lbrakk>read_only m; m s = (r, s')\<rbrakk> \<Longrightarrow> s' = s"
  by (metis read_only_def snd_conv)

lemma total_basic [atomic_intro, simp]: "total (ret x)" "total (gets f)" "total (update_store g)"
  by (simp_all add: total_def ret_def gets_def update_store_def)

lemma total_sbind [atomic_intro]: "\<lbrakk>total m; \<And>x. total (f x)\<rbrakk> \<Longrightarrow> total (sbind m f)"
  unfolding total_def sbind_def by (metis (mono_tags, lifting) case_prod_conv old.sum.simps(6))

lemma atomic_read_only [atomic_intro]: "read_only m \<Longrightarrow> atomic m"
  by (auto simp: atomic_def dest: read_only_outcome)

lemma atomic_with_tx [atomic_intro]: "atomic (with_tx m)"
  by (auto simp: atomic_def with_tx_Inl_iff)

lemma atomic_sbind_read [atomic_intro]:
  "\<lbrakk>read_only m; \<And>x. atomic (f x)\<rbrakk> \<Longrightarrow> atomic (sbind m f)"
  by (auto simp: atomic_def sbind_Inl_iff dest: read_only_outcome)

text \<open>A transaction followed by building the response.\<close>

lemma with_tx_respond_Inr:
  "\<lbrakk>\<And>x. read_only (f x); with_tx (sbind m f) s = (Inr y, s')\<rbrakk> \<Longrightarrow>
     \<exists>x s1. m (s\<lparr>st_pending := []\<rparr>) = (Inr x, s1) \<and> s' = flush s1"
  by (auto simp: act_iff) (metis read_only_outcome)

lemma atomic_sbind_total: "\<lbrakk>atomic m; \<And>x. total (f x)\<rbrakk> \<Longrightarrow> atomic (sbind m f)"
  unfolding atomic_def total_def sbind_Inl_iff by (metis Inl_Inr_False prod.inject)

lemma atomic_outcome: "\<lbrakk>atomic m; m s = (Inl e, s')\<rbrakk> \<Longrightarrow> s' = s"
  by (simp add: atomic_def)

lemma read_only_if_let [atomic_intro]:
  "\<lbrakk>b \<Longrightarrow> read_only m; \<not> b \<Longrightarrow> read_only n\<rbrakk> \<Longrightarrow> read_only (if b then m else n)" by simp

lemma read_only_grants [atomic_intro, simp]:
  "read_only (account_owner a)" "read_only (get_grant a u)"
  "read_only (has_admin_grant a u)" "read_only (has_write_grant a u)"
proof -
  show "read_only (account_owner a)" unfolding account_owner_def by (intro atomic_intro)
  show g: "read_only (get_grant a u)" unfolding get_grant_def by (intro atomic_intro)
  have "read_only (granted ok a u)" for ok
    using g unfolding read_only_def granted_def by (auto split: prod.split sum.split) (metis snd_conv)+
  then show "read_only (has_admin_grant a u)" "read_only (has_write_grant a u)"
    by (simp_all add: has_admin_grant_def has_write_grant_def)
qed

text \<open>What an action leaves alone.\<close>

named_theorems keeps_intro "parts of the database an action does not change"

definition keeps :: "(store \<Rightarrow> 'b) \<Rightarrow> 'a act \<Rightarrow> bool" where
  "keeps f m \<longleftrightarrow> (\<forall>s. f (snd (m s)) = f s)"

lemma keeps_outcome: "\<lbrakk>keeps f m; m s = (r, s')\<rbrakk> \<Longrightarrow> f s' = f s"
  by (metis keeps_def snd_conv)

lemma keeps_basic [keeps_intro]:
  "keeps f (ret x)" "keeps f (fail e)" "keeps f (lift r)" "keeps f (gets g)"
  by (simp_all add: keeps_def ret_def fail_def lift_def gets_def)

lemma keeps_update_store [keeps_intro]: "(\<And>s. f (g s) = f s) \<Longrightarrow> keeps f (update_store g)"
  by (simp add: keeps_def update_store_def)

lemma keeps_sbind [keeps_intro]: "\<lbrakk>keeps f m; \<And>x. keeps f (g x)\<rbrakk> \<Longrightarrow> keeps f (sbind m g)"
  unfolding keeps_def sbind_def by (auto split: prod.split sum.split) (metis snd_conv)+

lemma keeps_for_each [keeps_intro]: "(\<And>x. keeps f (g x)) \<Longrightarrow> keeps f (for_each xs g)"
  by (induction xs) (auto intro!: keeps_intro)

subsection \<open>Rows\<close>

lemma find_row_Some: "find_row rid i xs = Some r \<Longrightarrow> r \<in> set xs \<and> rid r = i"
  by (auto simp: find_row_def find_Some_iff in_set_conv_nth)

lemma find_row_None: "find_row rid i xs = None \<longleftrightarrow> i \<notin> rid ` set xs"
  by (auto simp: find_row_def find_None_iff)

lemma find_row_unique: "\<lbrakk>distinct (map rid xs); r \<in> set xs; rid r = i\<rbrakk> \<Longrightarrow> find_row rid i xs = Some r"
  by (induction xs) (auto simp: find_row_def)

lemma row_or_not_found_Inr [simp]: "row_or_not_found msg x = Inr r \<longleftrightarrow> x = Some r"
  by (cases x) (auto simp: row_or_not_found_def)

lemma upsert_row_new: "rid r \<notin> rid ` set xs \<Longrightarrow> upsert_row rid r xs = xs @ [r]"
  by (simp add: upsert_row_def)

lemma upsert_row_known:
  "rid r \<in> rid ` set xs \<Longrightarrow> upsert_row rid r xs = map (\<lambda>x. if rid x = rid r then r else x) xs"
  by (simp add: upsert_row_def)

lemma map_id_upsert_known: "rid r \<in> rid ` set xs \<Longrightarrow> map rid (upsert_row rid r xs) = map rid xs"
  by (simp add: upsert_row_known comp_def if_distrib cong: if_cong)

lemma set_ordered [simp]: "set (ordered key rid xs) = set xs"
  by (simp add: ordered_def)

lemma mset_ordered [simp]: "mset (ordered key rid xs) = mset xs"
  by (simp add: ordered_def)

lemma ordered_sorted: "sorted (map (\<lambda>r. (key r, rid r)) (ordered key rid xs))"
  by (simp add: ordered_def)

lemma ordered_keys_sorted: "sorted (map key (ordered key rid xs))"
proof -
  have "sorted_wrt (\<lambda>x y. (key x, rid x) \<le> (key y, rid y)) (ordered key rid xs)"
    using ordered_sorted[of key rid xs] by (simp add: sorted_map)
  then have "sorted_wrt (\<lambda>x y. key x \<le> key y) (ordered key rid xs)"
    by (rule sorted_wrt_mono_rel[rotated]) (auto simp: less_eq_prod_def)
  then show ?thesis by (simp add: sorted_map)
qed

lemma distinct_ids_ordered: "distinct (map rid xs) \<Longrightarrow> distinct (map rid (ordered key rid xs))"
  by (metis distinct_map distinct_sort ordered_def set_ordered)

text \<open>A list that is sorted and holds the same rows is the ordered list.\<close>

lemma ordered_unique:
  assumes "mset xs = mset ys" "distinct (map rid xs)" "sorted (map (\<lambda>r. (key r, rid r)) ys)"
  shows "ordered key rid xs = ys"
  unfolding ordered_def
proof (rule sort_key_inj_key_eq[OF assms(1) _ assms(3)])
  show "inj_on (\<lambda>r. (key r, rid r)) (set xs)"
    using assms(2) by (auto simp: inj_on_def distinct_map)
qed

subsection \<open>Who may create in an account\<close>

definition admin_grant :: "store \<Rightarrow> ident \<Rightarrow> ident \<Rightarrow> bool" where
  "admin_grant s account_id user_id \<longleftrightarrow>
     (case find (\<lambda>g. aa_account g = account_id \<and> aa_user g = user_id) (st_access s) of
        Some g \<Rightarrow> aa_accepted g \<and> aa_role g = RoleAdmin | None \<Rightarrow> False)"

definition may_create_in :: "store \<Rightarrow> ident \<Rightarrow> ident \<Rightarrow> ident \<Rightarrow> bool" where
  "may_create_in s user account_id owner \<longleftrightarrow>
     (\<exists>a. find_row acc_id account_id (st_accounts s) = Some a \<and> acc_user a = owner \<and>
        (owner = user \<or> admin_grant s account_id user))"

text \<open>The owner of a row created with an optional account: the caller, or the owner of the account.\<close>

definition creates_for :: "platform \<Rightarrow> store \<Rightarrow> ident \<Rightarrow> string option \<Rightarrow> ident \<Rightarrow> bool" where
  "creates_for pf s user account owner \<longleftrightarrow>
     (if account = None \<or> account = Some [] then owner = user
      else \<exists>i. pf_uuid pf (the account) = Some i \<and> may_create_in s user i owner)"

lemma has_admin_grant_iff [act_iff]: "has_admin_grant a u s = (r, s') \<longleftrightarrow> r = Inr (admin_grant s a u) \<and> s' = s"
proof -
  have "has_admin_grant a u s = (Inr (admin_grant s a u), s)"
    by (cases "find (\<lambda>g. aa_account g = a \<and> aa_user g = u) (st_access s)")
      (simp_all add: has_admin_grant_def granted_def get_grant_def admin_grant_def sbind_def gets_def lift_def
        row_or_not_found_def as_not_found_def)
  then show ?thesis by auto
qed

lemma account_owner_Inr [act_iff]:
  "account_owner a s = (Inr o', s') \<longleftrightarrow> s' = s \<and> (\<exists>x. find_row acc_id a (st_accounts s) = Some x \<and> acc_user x = o')"
  by (cases "find_row acc_id a (st_accounts s)")
    (auto simp: account_owner_def sbind_def gets_def lift_def row_or_not_found_def)

lemma resolve_Inr:
  "sbind (account_owner a) (\<lambda>owner.
     if owner = u then ret owner
     else sbind (has_admin_grant a u) (\<lambda>ok. if ok then ret owner else fail e)) s = (Inr o', s') \<longleftrightarrow>
   s' = s \<and> may_create_in s u a o'"
  by (auto simp: act_iff may_create_in_def split: if_splits)

definition owner_act :: "platform \<Rightarrow> ident \<Rightarrow> string option \<Rightarrow> (ident \<Rightarrow> ident act) \<Rightarrow> ident act" where
  "owner_act pf user account resolve =
     (case account of
        None \<Rightarrow> ret user
      | Some a \<Rightarrow> if a = [] then ret user
          else sbind (lift (parse_id (pf_uuid pf) a)) (\<lambda>account_id. resolve account_id))"

lemma parse_id_Inr [simp]: "parse_id uuid q = Inr i \<longleftrightarrow> uuid q = Some i"
  by (auto simp: parse_id_def split: option.splits)

lemma owner_act_Inr:
  assumes "\<And>i s o' s'. resolve i s = (Inr o', s') \<longleftrightarrow> s' = s \<and> may_create_in s u i o'"
  shows "owner_act pf u account resolve s = (Inr o', s') \<longleftrightarrow> s' = s \<and> creates_for pf s u account o'"
  by (cases account) (auto simp: owner_act_def creates_for_def act_iff assms)

lemma read_only_owner_act: "(\<And>i. read_only (resolve i)) \<Longrightarrow> read_only (owner_act pf u account resolve)"
  by (auto simp: owner_act_def intro!: atomic_intro split: option.split)

subsection \<open>Claims and bumps\<close>

lemma claim_False: "claim i now s = (Inr False, s') \<longleftrightarrow> i \<notin> op_id ` set (st_operations s) \<and>
   s' = s\<lparr>st_operations := st_operations s @ [\<lparr>op_id = i, op_handled = False, op_created = now, op_updated = now\<rparr>]\<rparr>"
  using find_row_None[of op_id i "st_operations s"]
  by (cases "find_row op_id i (st_operations s)") (auto simp: claim_def act_iff)

lemma claim_True: "claim i now s = (Inr True, s') \<longleftrightarrow> i \<in> op_id ` set (st_operations s) \<and> s' = s"
  using find_row_None[of op_id i "st_operations s"]
  by (cases "find_row op_id i (st_operations s)") (auto simp: claim_def act_iff)

lemma mark_unclaimed:
  "i \<notin> op_id ` set ops \<Longrightarrow> map (\<lambda>o'. if op_id o' = i then o'\<lparr>op_handled := True, op_updated := now\<rparr> else o') ops = ops"
  by (auto intro!: map_idI)

definition touched :: "(transaction \<Rightarrow> bool) \<Rightarrow> transaction list \<Rightarrow> ident list" where
  "touched cond txs = filter (\<lambda>i. i \<noteq> [])
     (remdups (map tx_account (filter cond txs) @ List.map_filter tx_recipient (filter cond txs)))"

lemma bump_where_iff [act_iff]:
  "bump_where cond s = (r, s') \<longleftrightarrow> r = Inr () \<and> s' = s\<lparr>st_pending := st_pending s @ touched cond (st_transactions s)\<rparr>"
  by (auto simp: bump_where_def bump_def touched_def sbind_def gets_def update_store_def)

lemma flush_tables [simp]:
  "st_categories (flush s) = st_categories s" "st_tags (flush s) = st_tags s" "st_payees (flush s) = st_payees s"
  "st_labels (flush s) = st_labels s" "st_transactions (flush s) = st_transactions s"
  "st_recurring (flush s) = st_recurring s" "st_operations (flush s) = st_operations s"
  "st_access (flush s) = st_access s" "st_elements (flush s) = st_elements s" "st_limits (flush s) = st_limits s"
  "st_comments (flush s) = st_comments s" "st_envelope_categories (flush s) = st_envelope_categories s"
  "st_folders (flush s) = st_folders s" "st_memberships (flush s) = st_memberships s" "st_options (flush s) = st_options s"
  "st_currencies (flush s) = st_currencies s" "st_connections (flush s) = st_connections s"
  by (simp_all add: flush_def)

lemma flush_no_pending [simp]: "st_pending s = [] \<Longrightarrow> flush s = s"
  by (simp add: flush_def)

definition bump_account :: "ident set \<Rightarrow> account \<Rightarrow> account" where
  "bump_account ids a = (if acc_id a \<in> ids then a\<lparr>acc_revision := acc_revision a + 1\<rparr> else a)"

text \<open>The accounts a transaction of the given kind is booked on.\<close>

definition accounts_of :: "(transaction \<Rightarrow> bool) \<Rightarrow> transaction list \<Rightarrow> ident set" where
  "accounts_of cond txs = {i. i \<noteq> [] \<and> (\<exists>t\<in>set txs. cond t \<and> (tx_account t = i \<or> tx_recipient t = Some i))}"

lemma flush_accounts: "st_accounts (flush s) = map (bump_account (set (st_pending s))) (st_accounts s)"
  by (simp add: flush_def bump_account_def)

lemma bump_account_sel [simp]:
  "acc_id (bump_account ids a) = acc_id a" "acc_user (bump_account ids a) = acc_user a"
  by (simp_all add: bump_account_def)

lemma set_touched [simp]: "set (touched cond txs) = accounts_of cond txs"
  by (auto simp: touched_def accounts_of_def List.map_filter_def image_iff)

lemma accounts_of_map:
  "\<lbrakk>\<And>t. tx_account (f t) = tx_account t; \<And>t. tx_recipient (f t) = tx_recipient t\<rbrakk>
   \<Longrightarrow> accounts_of cond (map f txs) = accounts_of (cond \<circ> f) txs"
  by (auto simp: accounts_of_def)

lemma accounts_of_mono: "(\<And>t. P t \<Longrightarrow> Q t) \<Longrightarrow> accounts_of P txs \<union> accounts_of Q txs = accounts_of Q txs"
  by (auto simp: accounts_of_def)

lemma accounts_of_none [simp]: "accounts_of (\<lambda>_. False) txs = {}"
  by (simp add: accounts_of_def)

lemma ret_sbind [simp]: "sbind (ret x) f = f x"
  by (simp add: fun_eq_iff sbind_def ret_def)

text \<open>The owners a user may create rows for: the user and the owners of accounts the user administers.\<close>

definition acts_for :: "store \<Rightarrow> ident \<Rightarrow> ident \<Rightarrow> bool" where
  "acts_for s user owner \<longleftrightarrow>
     owner = user \<or> (\<exists>a\<in>set (st_accounts s). acc_user a = owner \<and> admin_grant s (acc_id a) user)"

lemma acts_for_self [simp]: "acts_for s u u"
  by (simp add: acts_for_def)

lemma creates_for_acts: "creates_for pf s user account owner \<Longrightarrow> acts_for s user owner"
  by (auto simp: creates_for_def may_create_in_def acts_for_def dest!: find_row_Some split: if_splits)

lemma atomic_sbind_lift: "(\<And>x. atomic (f x)) \<Longrightarrow> atomic (sbind (lift r) f)"
  by (intro atomic_sbind_read) simp_all

lemma atomic_sbind_owner: "\<lbrakk>\<And>i. read_only (resolve i); \<And>x. atomic (f x)\<rbrakk> \<Longrightarrow> atomic (sbind (owner_act pf u account resolve) f)"
  by (intro atomic_sbind_read read_only_owner_act)

lemma atomic_done: "atomic m \<Longrightarrow> atomic (sbind m (\<lambda>_. ret x))"
  by (intro atomic_sbind_total) simp_all

lemma upsert_ids: "rid ` set (upsert_row rid r xs) = insert (rid r) (rid ` set xs)"
proof (cases "rid r \<in> rid ` set xs")
  case True
  then have "rid ` set (upsert_row rid r xs) = rid ` set xs" by (metis map_id_upsert_known set_map)
  then show ?thesis using True by auto
qed (simp add: upsert_row_new)

lemma delete_ids: "rid ` set (delete_row rid i xs) = rid ` set xs - {i}"
  by (auto simp: delete_row_def)

text \<open>The operation ids a call claims when it succeeds.\<close>

definition claimed_by :: "platform \<Rightarrow> string option \<Rightarrow> ident set" where
  "claimed_by pf op = (case op of None \<Rightarrow> {} | Some q \<Rightarrow> (case pf_uuid pf q of None \<Rightarrow> {} | Some i \<Rightarrow> {i}))"

text \<open>The database with no rows.\<close>

definition empty_store :: store where
  "empty_store = \<lparr>st_categories = [], st_tags = [], st_payees = [], st_labels = [], st_transactions = [], st_recurring = [],
     st_accounts = [], st_access = [], st_operations = [], st_elements = [], st_limits = [], st_comments = [],
     st_envelope_categories = [], st_folders = [], st_memberships = [], st_options = [], st_currencies = [],
     st_connections = [], st_pending = []\<rparr>"

text \<open>The platform of the concrete histories: every nonempty text is an id.\<close>

definition sample_platform :: platform where
  "sample_platform = \<lparr>pf_uuid = (\<lambda>q. if q = [] then None else Some q), pf_fold = id, pf_lower = id\<rparr>"

end
