(* ===== verification/Owned_Table.thy ===== *)
theory Owned_Table
  imports Store
begin

section \<open>Tables of rows that belong to users\<close>

text \<open>
  What the four classification modules share, as an interface: a table of the database whose rows have an id, an
  owner and a sort key. The operations of the modules are instances of the generic bodies below, which are
  compositions of the same repository calls; the lemmas say what each does to the table.
\<close>

subsection \<open>Keys given by placing and resequencing\<close>

lemma place_valid:
  assumes "sorted_items sibs" "valid_items sibs" "place sibs after g = Inr k"
  shows "valid_key k"
proof (cases "sibs = []")
  case True
  then show ?thesis using assms(3) validate_seed[of g] by (auto simp: place_def)
next
  case ne: False
  consider "after = []" | "after \<noteq> []" "after \<notin> item_id ` set sibs" | "after \<noteq> []" "\<exists>n. index_of after sibs = Some n"
    using index_of_None[of after sibs] by (cases "index_of after sibs") auto
  then show ?thesis
  proof cases
    case 1
    then show ?thesis using place_front[OF assms(1,2) ne, of g] assms(3) by (auto split: if_splits)
  next
    case 2
    then show ?thesis using place_absent[OF assms(1,2) 2(2,1) ne, of g] assms(3) by auto
  next
    case 3
    then show ?thesis using place_after[OF assms(1,2) _ 3(1), of _ g] assms(3) by auto
  qed
qed

lemma append_valid:
  assumes "\<forall>r\<in>set rs. valid_key (item_key (f r))" "append_key rs f g = Inr k"
  shows "valid_key k"
proof (cases "rs = []")
  case True
  then show ?thesis using assms(2) validate_seed[of g] by (auto simp: append_key_def)
next
  case False
  then have "valid_key (item_key (f (last rs)))" using assms(1) by simp
  from ks.btw_above[OF this] show ?thesis using False assms(2) by (auto simp: append_key_def)
qed

lemma append_above:
  assumes "\<forall>r\<in>set rs. valid_key (item_key (f r))" "sorted (map (\<lambda>r. item_key (f r)) rs)"
    "append_key rs f g = Inr k" "r \<in> set rs"
  shows "item_key (f r) < k"
proof -
  have ne: "rs \<noteq> []" using assms(4) by auto
  then have "valid_key (item_key (f (last rs)))" using assms(1) by simp
  from ks.btw_above[OF this] have "item_key (f (last rs)) < k" using ne assms(3) by (auto simp: append_key_def)
  moreover have "item_key (f r) \<le> item_key (f (last rs))"
    using assms(2,4) by (induction rs) auto
  ultimately show ?thesis by simp
qed

lemma append_succeeds:
  "\<forall>r\<in>set rs. valid_key (item_key (f r)) \<Longrightarrow> \<exists>k. append_key rs f g = Inr k"
  using ks.btw_above[of "item_key (f (last rs))"] by (cases "rs = []") (auto simp: append_key_def)

lemma resequence_keys:
  assumes "\<forall>r\<in>set rs. valid_key (item_key (f r))" "resequence rs ids f g = Inr changed" "changed i = Some k"
  shows "valid_key k \<and> i \<in> (item_id \<circ> f) ` set rs"
proof -
  let ?P = "\<lambda>(changed, prev). (prev = [] \<or> valid_key prev) \<and>
    (\<forall>i k. changed i = Some k \<longrightarrow> valid_key k \<and> by_id rs f i \<noteq> None)"
  have byid: "\<forall>i e. by_id rs f i = Some e \<longrightarrow> item_key e = [] \<or> valid_key (item_key e)"
    using assms(1) by (intro by_id_valid) blast
  obtain prev where r: "rfold (reseq_step (by_id rs f) g) (Map.empty, []) ids = Inr (changed, prev)"
    using assms(2) by (auto simp: resequence_def)
  have "?P (changed, prev)"
  proof (rule rfold_invariant[OF r])
    fix st x st'
    assume P: "?P st" and step: "reseq_step (by_id rs f) g st x = Inr st'"
    obtain ch p where st: "st = (ch, p)" by (cases st)
    from P st have "p = [] \<or> valid_key p" by simp
    from reseq_step_spec[OF this byid, of g ch x] step st P show "?P st'" by (auto split: if_splits)
  qed simp
  then have "valid_key k" "by_id rs f i \<noteq> None" using assms(3) by auto
  then show ?thesis by (auto simp: by_id_def map_of_eq_None_iff image_iff)
qed

subsection \<open>The interface\<close>

locale owned_table =
  fixes rows :: "store \<Rightarrow> 'r list" and set_rows :: "'r list \<Rightarrow> store \<Rightarrow> store"
    and rid :: "'r \<Rightarrow> ident" and owner :: "'r \<Rightarrow> ident" and key :: "'r \<Rightarrow> key"
    and rekey :: "key \<Rightarrow> instant \<Rightarrow> 'r \<Rightarrow> 'r"
  assumes rows_set: "rows (set_rows xs s) = xs"
    and set_rows_twice: "set_rows ys (set_rows xs s) = set_rows ys s"
    and set_rows_same: "set_rows (rows s) s = s"
    and rid_rekey: "rid (rekey k now r) = rid r"
    and owner_rekey: "owner (rekey k now r) = owner r"
    and key_rekey: "key (rekey k now r) = k"
    and rows_operations: "rows (s\<lparr>st_operations := ops\<rparr>) = rows s"
    and set_rows_operations: "set_rows xs (s\<lparr>st_operations := ops\<rparr>) = (set_rows xs s)\<lparr>st_operations := ops\<rparr>"
    and operations_set_rows: "st_operations (set_rows xs s) = st_operations s"
begin

definition as_item :: "'r \<Rightarrow> item" where
  "as_item r = \<lparr>item_id = rid r, item_key = key r\<rparr>"

definition own :: "'r list \<Rightarrow> ident \<Rightarrow> 'r list" where
  "own xs u = ordered key rid (filter (\<lambda>r. owner r = u) xs)"

definition get :: "string \<Rightarrow> ident \<Rightarrow> 'r act" where
  "get msg i = sbind (gets (find_row rid i \<circ> rows)) (\<lambda>r. lift (row_or_not_found msg r))"

definition list_of :: "ident \<Rightarrow> 'r list act" where
  "list_of u = gets (\<lambda>s. own (rows s) u)"

definition save :: "'r \<Rightarrow> unit act" where
  "save r = update_store (\<lambda>s. set_rows (upsert_row rid r (rows s)) s)"

definition move_rows :: "instant \<Rightarrow> ident \<Rightarrow> ident \<Rightarrow> string \<Rightarrow> unit act" where
  "move_rows now u i after =
     sbind (list_of u) (\<lambda>rs.
     sbind (lift (move_within rs i after as_item GrowsUp)) (\<lambda>moved.
     case moved of None \<Rightarrow> ret () | Some (r, k) \<Rightarrow> save (rekey k now r)))"

text \<open>Creation: the operation id is claimed, the new row is checked and appended, the claim is settled.\<close>

definition insert_row :: "unit act \<Rightarrow> ident \<Rightarrow> instant \<Rightarrow> instant \<Rightarrow> ident \<Rightarrow> (key \<Rightarrow> 'r) \<Rightarrow> 'r act" where
  "insert_row check oid claim_now now u mk =
     sbind (claim oid claim_now) (\<lambda>already. if already then fail operation_locked
       else sbind check (\<lambda>_.
         sbind (list_of u) (\<lambda>rs.
         sbind (lift (append_key rs as_item GrowsUp)) (\<lambda>k.
         let r = mk k in
         sbind (save r) (\<lambda>_.
         sbind (mark_handled oid now) (\<lambda>_. ret r))))))"

definition save_changed :: "instant \<Rightarrow> (ident \<rightharpoonup> key) \<Rightarrow> 'r \<Rightarrow> unit act" where
  "save_changed now changed row =
     (case changed (rid row) of None \<Rightarrow> ret () | Some k \<Rightarrow> save (rekey k now row))"

definition sort_rows :: "instant \<Rightarrow> ident \<Rightarrow> string list \<Rightarrow> unit act" where
  "sort_rows now u ids =
     sbind (list_of u) (\<lambda>rs.
     sbind (lift (resequence rs ids as_item GrowsUp)) (\<lambda>changed.
     for_each rs (save_changed now changed)))"

definition wf :: "'r list \<Rightarrow> bool" where
  "wf xs \<longleftrightarrow> distinct (map rid xs) \<and> (\<forall>r\<in>set xs. valid_key (key r))"

lemma insert_row_effect:
  assumes "insert_row check oid claim_now now u mk s = (Inr r, s')" and "read_only check"
  shows "\<exists>k s1. oid \<notin> op_id ` set (st_operations s) \<and>
    s1 = s\<lparr>st_operations := st_operations s @ [\<lparr>op_id = oid, op_handled = False, op_created = claim_now, op_updated = claim_now\<rparr>]\<rparr> \<and>
    check s1 = (Inr (), s1) \<and> append_key (own (rows s) u) as_item GrowsUp = Inr k \<and> r = mk k \<and>
    s' = set_rows (upsert_row rid r (rows s))
      (s\<lparr>st_operations := st_operations s @ [\<lparr>op_id = oid, op_handled = True, op_created = claim_now, op_updated = now\<rparr>]\<rparr>)"
proof -
  obtain s1 s2 k where c: "claim oid claim_now s = (Inr False, s1)" and ch: "check s1 = (Inr (), s2)"
    and k: "append_key (own (rows s2) u) as_item GrowsUp = Inr k" "r = mk k"
    and s': "s' = (set_rows (upsert_row rid (mk k) (rows s2)) s2)\<lparr>st_operations :=
       map (\<lambda>o'. if op_id o' = oid then o'\<lparr>op_handled := True, op_updated := now\<rparr> else o') (st_operations s2)\<rparr>"
    using assms(1)
    by (auto simp: insert_row_def list_of_def save_def mark_handled_def act_iff Let_def operations_set_rows split: if_splits)
  have s2: "s2 = s1" using read_only_outcome[OF assms(2) ch] .
  from c have s1: "oid \<notin> op_id ` set (st_operations s)"
    "s1 = s\<lparr>st_operations := st_operations s @ [\<lparr>op_id = oid, op_handled = False, op_created = claim_now, op_updated = claim_now\<rparr>]\<rparr>"
    by (simp_all add: claim_False)
  show ?thesis using s1 ch k s' unfolding s2
    by (intro exI[of _ k] exI[of _ s1]) (simp add: rows_operations set_rows_operations mark_unclaimed)
qed

lemma as_item_sel [simp]: "item_id (as_item r) = rid r" "item_key (as_item r) = key r"
  by (simp_all add: as_item_def)

lemma set_own [simp]: "set (own xs u) = {r \<in> set xs. owner r = u}"
  by (simp add: own_def)

lemma own_sorted: "sorted (map (\<lambda>r. (key r, rid r)) (own xs u))"
  unfolding own_def by (rule ordered_sorted)

lemma own_keys_sorted: "sorted (map key (own xs u))"
  unfolding own_def by (rule ordered_keys_sorted)

lemma own_distinct: "wf xs \<Longrightarrow> distinct (map rid (own xs u))"
  unfolding own_def wf_def by (intro distinct_ids_ordered) (simp add: distinct_map_filter)

lemma own_items: "wf xs \<Longrightarrow> sorted_items (map as_item (own xs u)) \<and> valid_items (map as_item (own xs u))"
  using own_keys_sorted[of xs u] by (auto simp: wf_def comp_def)

lemma own_unique:
  "\<lbrakk>wf xs; mset (filter (\<lambda>r. owner r = u) xs) = mset ys; sorted (map (\<lambda>r. (key r, rid r)) ys)\<rbrakk> \<Longrightarrow> own xs u = ys"
  unfolding own_def wf_def by (intro ordered_unique) (simp_all add: distinct_map_filter)

lemma rid_inj: "\<lbrakk>wf xs; r \<in> set xs; r' \<in> set xs; rid r = rid r'\<rbrakk> \<Longrightarrow> r = r'"
  by (auto simp: wf_def distinct_map inj_on_def)

subsection \<open>One row replaced\<close>

definition replace :: "ident \<Rightarrow> 'r \<Rightarrow> 'r list \<Rightarrow> 'r list" where
  "replace i r' xs = map (\<lambda>x. if rid x = i then r' else x) xs"

lemma save_known:
  "\<lbrakk>r \<in> set (rows s); rid r' = rid r\<rbrakk> \<Longrightarrow> save r' s = (Inr (), set_rows (replace (rid r) r' (rows s)) s)"
  by (auto simp: save_def update_store_def upsert_row_def replace_def image_iff)

lemma replace_ids [simp]: "rid r' = i \<Longrightarrow> map rid (replace i r' xs) = map rid xs"
  by (simp add: replace_def comp_def if_distrib cong: if_cong)

lemma replace_set: "\<lbrakk>r \<in> set xs; rid r = i\<rbrakk> \<Longrightarrow> set (replace i r' xs) = insert r' {x \<in> set xs. rid x \<noteq> i}"
  by (auto simp: replace_def)

lemma wf_replace:
  "\<lbrakk>wf xs; r \<in> set xs; rid r = i; rid r' = i; valid_key (key r')\<rbrakk> \<Longrightarrow> wf (replace i r' xs)"
  by (auto simp: wf_def replace_set)

lemma replace_other_owner:
  assumes "wf xs" "r \<in> set xs" "rid r = i" "owner r = owner r'" "u \<noteq> owner r"
  shows "filter (\<lambda>x. owner x = u) (replace i r' xs) = filter (\<lambda>x. owner x = u) xs"
proof -
  have "x = r" if "x \<in> set xs" "rid x = i" for x using rid_inj[OF assms(1) that(1) assms(2)] that(2) assms(3) by simp
  then show ?thesis using assms(4,5) unfolding replace_def
  proof (induction xs)
    case (Cons x xs)
    then show ?case by (cases "rid x = i") auto
  qed simp
qed

text \<open>The rows of the owner after one of them got a new sort key: the other rows keep their order.\<close>

lemma mset_replace:
  assumes "wf xs" "r \<in> set xs" "rid r = i" "owner r = u" "owner r' = u"
  shows "mset (filter (\<lambda>x. owner x = u) (replace i r' xs)) =
    add_mset r' (mset (filter (\<lambda>x. owner x = u \<and> rid x \<noteq> i) xs))"
  using assms(1-3) unfolding wf_def
proof (induction xs)
  case (Cons x xs)
  show ?case
  proof (cases "rid x = i")
    case True
    then have n: "i \<notin> rid ` set xs" using Cons.prems(1) by auto
    have "replace i r' xs = xs" unfolding replace_def using n by (auto intro!: map_idI)
    moreover have "filter (\<lambda>x. owner x = u \<and> rid x \<noteq> i) xs = filter (\<lambda>x. owner x = u) xs"
      using n by (intro filter_cong) auto
    ultimately show ?thesis using True assms(5) by (simp add: replace_def)
  next
    case False
    then have "r \<in> set xs" using Cons.prems by auto
    then show ?thesis using Cons False by (simp add: replace_def)
  qed
qed simp

end

context owned_table
begin

subsection \<open>Moving\<close>

lemma take_out_own:
  assumes "wf xs" "take_out as_item i (own xs u) = (Some r, sibs)"
  shows "r \<in> set xs \<and> owner r = u \<and> rid r = i \<and> sibs = map as_item (filter (\<lambda>x. rid x \<noteq> i) (own xs u))"
proof -
  obtain pre post where split: "own xs u = pre @ r # post" "sibs = map as_item (pre @ post)" "rid r = i"
    using take_out_Some[OF assms(2)] by auto
  have "r \<in> set (own xs u)" using split by simp
  then have "r \<in> set xs \<and> owner r = u" by simp
  moreover have "rid r \<notin> rid ` set (pre @ post)" using own_distinct[OF assms(1), of u] split(1) by auto
  then have "\<forall>x\<in>set (pre @ post). rid x \<noteq> i" using split(3) by (metis imageI)
  then have "filter (\<lambda>x. rid x \<noteq> i) (pre @ post) = pre @ post" by (rule filter_True)
  then have "filter (\<lambda>x. rid x \<noteq> i) (own xs u) = pre @ post" using split by simp
  ultimately show ?thesis using split by simp
qed

lemma move_rows_effect:
  assumes "wf (rows s)" "move_rows now u i after s = (Inr (), s')"
  shows "i \<notin> rid ` set (own (rows s) u) \<and> s' = s \<or>
    (\<exists>r k. r \<in> set (rows s) \<and> rid r = i \<and> owner r = u \<and> valid_key k \<and>
       move_within (own (rows s) u) i after as_item GrowsUp = Inr (Some (r, k)) \<and>
       s' = set_rows (replace i (rekey k now r) (rows s)) s)"
proof (cases "take_out as_item i (own (rows s) u)")
  case (Pair m sibs)
  show ?thesis
  proof (cases m)
    case None
    then show ?thesis using take_out_None[of as_item i "own (rows s) u"] Pair assms(2)
      by (auto simp: move_rows_def list_of_def move_within_def act_iff)
  next
    case (Some r)
    then have t: "take_out as_item i (own (rows s) u) = (Some r, sibs)" using Pair by simp
    note r = take_out_own[OF assms(1) t]
    obtain k where k: "place sibs after GrowsUp = Inr k" and s': "save (rekey k now r) s = (Inr (), s')"
      using assms(2) t by (cases "place sibs after GrowsUp") (auto simp: move_rows_def list_of_def move_within_def act_iff)
    have "sorted_items sibs" "valid_items sibs"
      using r own_items[OF assms(1), of u] own_keys_sorted[of "rows s" u]
      by (auto simp: comp_def intro: sorted_filter)
    from place_valid[OF this k] have "valid_key k" .
    moreover have "s' = set_rows (replace i (rekey k now r) (rows s)) s"
      using save_known[of r s "rekey k now r"] s' r by (simp add: rid_rekey)
    moreover have "move_within (own (rows s) u) i after as_item GrowsUp = Inr (Some (r, k))"
      using t k by (simp add: move_within_def)
    ultimately show ?thesis using r by blast
  qed
qed

text \<open>The other rows keep their order; the moved row comes after the anchor and the rows with the anchor's key, before
  every row with a greater key.\<close>

lemma moved_after_anchor:
  assumes wf: "wf xs" and r: "r \<in> set xs" "rid r = i" "owner r = u"
    and a: "a \<in> set xs" "owner a = u" "rid a \<noteq> i" "rid a \<noteq> []"
    and m: "move_within (own xs u) i (rid a) as_item GrowsUp = Inr (Some (r, k))"
  shows "own (replace i (rekey k now r) xs) u =
    (let others = filter (\<lambda>x. rid x \<noteq> i) (own xs u)
     in filter (\<lambda>x. key x \<le> key a) others @ rekey k now r # filter (\<lambda>x. key a < key x) others)"
proof -
  let ?others = "filter (\<lambda>x. rid x \<noteq> i) (own xs u)" and ?r = "rekey k now r"
  obtain sibs where t: "take_out as_item i (own xs u) = (Some r, sibs)"
    and p: "place sibs (rid a) GrowsUp = Inr k"
    using m by (auto simp: move_within_def split: prod.splits option.splits)
  have sibs: "sibs = map as_item ?others" using take_out_own[OF wf t] by simp
  have items: "sorted_items sibs" "valid_items sibs"
    using own_items[OF wf, of u] own_keys_sorted[of xs u] sibs by (auto simp: comp_def intro: sorted_filter)
  have ao: "a \<in> set ?others" using a by simp
  then have "rid a \<in> item_id ` set sibs" using sibs by (metis as_item_sel(1) image_eqI set_map)
  then obtain n where n: "index_of (rid a) sibs = Some n"
    using index_of_None[of "rid a" sibs] by (cases "index_of (rid a) sibs") auto
  have "sibs ! n = as_item a"
  proof -
    have n': "n < length ?others" "rid (?others ! n) = rid a" using index_of_Some[OF n] sibs by auto
    then have "?others ! n \<in> set xs" using nth_mem[OF n'(1)] by auto
    then have "?others ! n = a" using rid_inj[OF wf _ a(1) n'(2)] by blast
    then show ?thesis using n' sibs by simp
  qed
  then have above: "key a < k" and below: "\<And>x. x \<in> set ?others \<Longrightarrow> key a < key x \<Longrightarrow> k < key x"
    using place_after[OF items n a(4), of GrowsUp] p sibs by auto
  have vk: "valid_key k" using place_valid[OF items p] .
  have wf': "wf (replace i ?r xs)" using wf_replace[OF wf r(1,2), of ?r] vk r by (simp add: rid_rekey key_rekey)
  have so: "sorted (map (\<lambda>x. (key x, rid x)) ?others)" using own_sorted[of xs u] by (rule sorted_filter)
  have 1: "sorted (map (\<lambda>x. (key x, rid x)) (filter P ?others))" for P
    using so by (rule sorted_filter)
  let ?l = "filter (\<lambda>x. key x \<le> key a) ?others @ ?r # filter (\<lambda>x. key a < key x) ?others"
  have "sorted (map (\<lambda>x. (key x, rid x)) ?l)"
    using 1[of "\<lambda>x. key x \<le> key a"] 1[of "\<lambda>x. key a < key x"] above below
    by (auto simp: sorted_append key_rekey less_eq_prod_def intro: le_less_trans less_trans)
  moreover have "mset (filter (\<lambda>x. owner x = u) (replace i ?r xs)) = mset ?l"
  proof -
    have "filter_mset (\<lambda>x. key x \<le> key a) (mset ?others) + filter_mset (\<lambda>x. key a < key x) (mset ?others) = mset ?others"
      by (rule union_filter_mset_complement) auto
    then have "mset ?l = add_mset ?r (mset ?others)"
      by (simp only: mset_append mset_filter[of _ "filter _ _"] mset.simps union_mset_add_mset_right)
    moreover have "mset ?others = mset (filter (\<lambda>x. owner x = u \<and> rid x \<noteq> i) xs)"
      by (simp add: own_def flip: filter_filter)
    ultimately show ?thesis using mset_replace[OF wf r, of ?r] r by (simp add: owner_rekey)
  qed
  ultimately show ?thesis unfolding Let_def by (intro own_unique[OF wf'])
qed

subsection \<open>Sorting\<close>

definition rekeyed :: "instant \<Rightarrow> (ident \<rightharpoonup> key) \<Rightarrow> 'r \<Rightarrow> 'r" where
  "rekeyed now changed r = (case changed (rid r) of Some k \<Rightarrow> rekey k now r | None \<Rightarrow> r)"

lemma rekeyed_sel [simp]: "rid (rekeyed now changed r) = rid r" "owner (rekeyed now changed r) = owner r"
  by (auto simp: rekeyed_def rid_rekey owner_rekey split: option.split)

lemma key_rekeyed: "key (rekeyed now changed r) = (case changed (rid r) of Some k \<Rightarrow> k | None \<Rightarrow> key r)"
  by (auto simp: rekeyed_def key_rekey split: option.split)

lemma save_changed_loop:
  "\<lbrakk>distinct (map rid (rows s)); distinct (map rid rs); set rs \<subseteq> set (rows s)\<rbrakk> \<Longrightarrow>
   for_each rs (save_changed now changed) s =
     (Inr (), set_rows (map (\<lambda>x. if rid x \<in> rid ` set rs then rekeyed now changed x else x) (rows s)) s)"
proof (induction rs arbitrary: s)
  case Nil
  then show ?case by (simp add: ret_def set_rows_same)
next
  case (Cons r rs)
  let ?s1 = "set_rows (map (\<lambda>x. if rid x = rid r then rekeyed now changed r else x) (rows s)) s"
  have "r \<in> set (rows s)" using Cons.prems by simp
  then have step: "save_changed now changed r s = (Inr (), ?s1)"
  proof (cases "changed (rid r)")
    case None
    have "map (\<lambda>x. if rid x = rid r then rekeyed now changed r else x) (rows s) = rows s"
      using None Cons.prems(1) \<open>r \<in> set (rows s)\<close>
      by (auto intro!: map_idI simp: rekeyed_def distinct_map inj_on_def)
    then show ?thesis using None by (simp add: save_changed_def ret_def set_rows_same)
  next
    case (Some k)
    then show ?thesis using save_known[OF \<open>r \<in> set (rows s)\<close>, of "rekey k now r"]
      by (simp add: save_changed_def rekeyed_def rid_rekey replace_def cong: if_cong)
  qed
  have ids: "map rid (rows ?s1) = map rid (rows s)"
    by (simp add: rows_set comp_def if_distrib cong: if_cong)
  have "set rs \<subseteq> set (rows ?s1)" using Cons.prems by (fastforce simp: rows_set image_iff)
  then have IH: "for_each rs (save_changed now changed) ?s1 =
     (Inr (), set_rows (map (\<lambda>x. if rid x \<in> rid ` set rs then rekeyed now changed x else x) (rows ?s1)) ?s1)"
    using Cons.IH[of ?s1] Cons.prems ids by simp
  have "map (\<lambda>x. if rid x \<in> rid ` set rs then rekeyed now changed x else x) (rows ?s1) =
      map (\<lambda>x. if rid x \<in> rid ` set (r # rs) then rekeyed now changed x else x) (rows s)"
  proof -
    have "(if rid y \<in> rid ` set rs then rekeyed now changed y else y) =
        (if rid x \<in> rid ` set (r # rs) then rekeyed now changed x else x)"
      if x: "x \<in> set (rows s)" and y: "y = (if rid x = rid r then rekeyed now changed r else x)" for x y
    proof (cases "rid x = rid r")
      case True
      then have "x = r" using Cons.prems(1) x \<open>r \<in> set (rows s)\<close> by (auto simp: distinct_map inj_on_def)
      moreover have "rid r \<notin> rid ` set rs" using Cons.prems(2) by auto
      ultimately show ?thesis using y by auto
    qed (use y in auto)
    then show ?thesis by (simp add: rows_set)
  qed
  then show ?case using step IH by (simp add: sbind_def set_rows_twice)
qed

lemma sort_rows_effect:
  assumes "wf (rows s)"
  shows "sort_rows now u ids s = (r, s') \<longleftrightarrow>
    (case resequence (own (rows s) u) ids as_item GrowsUp of
       Inl e \<Rightarrow> r = Inl e \<and> s' = s
     | Inr changed \<Rightarrow> r = Inr () \<and>
         s' = set_rows (map (\<lambda>x. if owner x = u then rekeyed now changed x else x) (rows s)) s)"
proof -
  have d: "distinct (map rid (rows s))" using assms by (simp add: wf_def)
  have "rid x \<in> rid ` set (own (rows s) u) \<longleftrightarrow> owner x = u" if "x \<in> set (rows s)" for x
    using that rid_inj[OF assms that] by auto
  then have "for_each (own (rows s) u) (save_changed now changed) s =
     (Inr (), set_rows (map (\<lambda>x. if owner x = u then rekeyed now changed x else x) (rows s)) s)" for changed
    using save_changed_loop[OF d own_distinct[OF assms], of u now changed]
    by (simp cong: map_cong)
  then show ?thesis
    by (auto simp: sort_rows_def list_of_def sbind_def gets_def lift_def split: sum.split)
qed

lemma sorted_wf:
  assumes "wf xs" "resequence (own xs u) ids as_item GrowsUp = Inr changed"
  shows "wf (map (\<lambda>x. if owner x = u then rekeyed now changed x else x) xs)"
proof -
  have "\<forall>r\<in>set (own xs u). valid_key (item_key (as_item r))" using assms(1) by (auto simp: wf_def)
  from resequence_keys[OF this assms(2)] have "changed i = Some k \<Longrightarrow> valid_key k" for i k by blast
  moreover have "map rid (map (\<lambda>x. if owner x = u then rekeyed now changed x else x) xs) = map rid xs"
    by (simp add: comp_def if_distrib cong: if_cong)
  ultimately show ?thesis using assms(1) unfolding wf_def by (auto simp: key_rekeyed simp del: map_map split: option.split)
qed

text \<open>Read back in order, the requested rows come in the requested order.\<close>

lemma sorted_order:
  assumes wf: "wf xs" and d: "distinct ids"
    and rs: "resequence (own xs u) ids as_item GrowsUp = Inr changed"
  shows "filter (\<lambda>i. i \<in> set ids) (map rid (own (map (\<lambda>x. if owner x = u then rekeyed now changed x else x) xs) u)) =
    filter (\<lambda>i. i \<in> rid ` {r \<in> set xs. owner r = u}) ids"
proof -
  define ys where "ys = map (\<lambda>x. if owner x = u then rekeyed now changed x else x) xs"
  have wf': "wf ys" unfolding ys_def by (rule sorted_wf[OF wf rs])
  have v: "\<forall>it\<in>set (own xs u). item_key (as_item it) = [] \<or> valid_key (item_key (as_item it))"
    using wf by (auto simp: wf_def)
  let ?byid = "by_id (own xs u) as_item"
  have srt: "sorted_wrt (<) (order_keys ?byid changed ids)"
    using resequence_spec[OF d v, of GrowsUp] rs by auto
  define K where "K i = the (final_key ?byid changed i)" for i
  let ?ids = "filter (\<lambda>i. i \<in> rid ` {r \<in> set xs. owner r = u}) ids"
  have byid: "?byid i = (if i \<in> rid ` {r \<in> set xs. owner r = u}
      then Some (as_item (THE r. r \<in> set xs \<and> rid r = i)) else None)" for i
  proof (cases "i \<in> rid ` {r \<in> set xs. owner r = u}")
    case True
    then obtain r where r: "r \<in> set xs" "owner r = u" "rid r = i" by auto
    then have "(THE r. r \<in> set xs \<and> rid r = i) = r" using rid_inj[OF wf] by blast
    moreover have "?byid i = Some (as_item r)"
      unfolding by_id_def using r own_distinct[OF wf, of u]
      by (intro map_of_is_SomeI) (auto simp: rev_map[symmetric] comp_def)
    ultimately show ?thesis using True by simp
  next
    case False
    then show ?thesis unfolding by_id_def by (auto simp: map_of_eq_None_iff)
  qed
  have K: "order_keys ?byid changed ids = map K ?ids"
    unfolding order_keys_def K_def
    by (induction ids) (auto simp: List.map_filter_simps final_key_def byid split: option.split)
  have keyK: "key r' = K (rid r')" if "r' \<in> set ys" "owner r' = u" for r'
  proof -
    have "r' \<in> (\<lambda>x. if owner x = u then rekeyed now changed x else x) ` set xs" using that(1) by (simp add: ys_def)
    then obtain r where "r \<in> set xs" "r' = (if owner r = u then rekeyed now changed r else r)" by (rule imageE)
    then have r: "r \<in> set xs" "owner r = u" "r' = rekeyed now changed r" using that(2) by (auto split: if_splits)
    then have "(THE x. x \<in> set xs \<and> rid x = rid r') = r" using rid_inj[OF wf] by auto
    moreover have "rid r' \<in> rid ` {r \<in> set xs. owner r = u}" using r by auto
    ultimately show ?thesis using r(3) byid[of "rid r'"] by (simp add: K_def final_key_def key_rekeyed split: option.split)
  qed
  define f where "f x = (if owner x = u then rekeyed now changed x else x)" for x
  have f: "rid (f x) = rid x" "owner (f x) = owner x" for x by (simp_all add: f_def)
  have "set ys = f ` set xs" by (simp add: ys_def f_def)
  then have own_ids: "rid ` {r \<in> set ys. owner r = u} = rid ` {r \<in> set xs. owner r = u}"
    using f by (auto simp: image_iff) metis
  let ?l = "filter (\<lambda>i. i \<in> set ids) (map rid (own ys u))"
  have sK: "sorted (map K ?ids)" "distinct (map K ?ids)" using srt unfolding K by (simp_all only: strict_sorted_iff)
  have "sorted (map K (map rid (own ys u)))"
  proof -
    have "map K (map rid (own ys u)) = map key (own ys u)" using keyK by auto
    then show ?thesis using own_keys_sorted[of ys u] by (simp only:)
  qed
  then have sl: "sorted (map K ?l)" by (rule sorted_filter)
  have inj: "inj_on K (set ?ids)"
    using sK(2) unfolding distinct_map by blast
  have set: "set ?l = set ?ids" using own_ids by auto
  have "distinct ?l" using own_distinct[OF wf', of u] by simp
  moreover have "distinct ?ids" using d by simp
  ultimately have "mset ?l = mset ?ids" using set_eq_iff_mset_eq_distinct[of ?l ?ids] set by blast
  then have "sort_key K ?l = ?ids" "sort_key K ?l = ?l"
    using sort_key_inj_key_eq[of ?l ?ids K] sort_key_inj_key_eq[of ?l ?l K] sl sK(1) inj unfolding set by blast+
  then have "?l = ?ids" by (simp only:)
  then show ?thesis unfolding ys_def .
qed

end

context owned_table
begin

lemma insert_row_succeeds:
  assumes "oid \<notin> op_id ` set (st_operations s)" "wf (rows s)"
    "\<And>ops. check (s\<lparr>st_operations := ops\<rparr>) = (Inr (), s\<lparr>st_operations := ops\<rparr>)"
  shows "\<exists>r s'. insert_row check oid claim_now now u mk s = (Inr r, s')"
proof -
  define s1 where "s1 = s\<lparr>st_operations := st_operations s @
    [\<lparr>op_id = oid, op_handled = False, op_created = claim_now, op_updated = claim_now\<rparr>]\<rparr>"
  have c: "claim oid claim_now s = (Inr False, s1)" using assms(1) by (simp add: claim_False s1_def)
  have ch: "check s1 = (Inr (), s1)" unfolding s1_def by (rule assms(3))
  obtain k where "append_key (own (rows s1) u) as_item GrowsUp = Inr k"
    using append_succeeds[of "own (rows s1) u" as_item] assms(2) by (auto simp: s1_def rows_operations wf_def)
  then have "\<exists>r s'. insert_row check oid claim_now now u mk s = (Inr r, s')"
    by (simp add: insert_row_def sbind_def c ch list_of_def gets_def lift_def save_def update_store_def mark_handled_def ret_def Let_def)
  then show ?thesis .
qed

text \<open>The appended row comes last in the list of its owner.\<close>

lemma own_append:
  assumes "wf xs" "owner r = u" "append_key (own xs u) as_item GrowsUp = Inr (key r)"
  shows "own (xs @ [r]) u = own xs u @ [r]"
proof -
  have v: "\<forall>x\<in>set (own xs u). valid_key (item_key (as_item x))" using assms(1) by (auto simp: wf_def)
  have above: "key x < key r" if "x \<in> set (own xs u)" for x
    using append_above[OF v _ assms(3) that] own_keys_sorted[of xs u] by (simp add: comp_def)
  have "sorted (map (\<lambda>x. (key x, rid x)) (own xs u @ [r]))"
    using own_sorted[of xs u] above by (auto simp: sorted_append less_eq_prod_def)
  moreover have "inj_on (\<lambda>x. (key x, rid x)) (set (own xs u @ [r]))"
  proof (rule inj_onI)
    fix x y assume xy: "x \<in> set (own xs u @ [r])" "y \<in> set (own xs u @ [r])" "(key x, rid x) = (key y, rid y)"
    show "x = y"
    proof (cases "x = r \<or> y = r")
      case True
      then show ?thesis using xy above by fastforce
    next
      case False
      then show ?thesis using xy rid_inj[OF assms(1), of x y] by simp
    qed
  qed
  moreover have "mset (filter (\<lambda>x. owner x = u) (xs @ [r])) = mset (own xs u @ [r])"
    using assms(2) by (simp add: own_def)
  then have "set (filter (\<lambda>x. owner x = u) (xs @ [r])) = set (own xs u @ [r])" by (rule mset_eq_setD)
  ultimately show ?thesis unfolding own_def
    using sort_key_inj_key_eq[of "filter (\<lambda>x. owner x = u) (xs @ [r])" "own xs u @ [r]" "\<lambda>x. (key x, rid x)"]
      \<open>mset (filter (\<lambda>x. owner x = u) (xs @ [r])) = mset (own xs u @ [r])\<close>
    by (simp add: ordered_def own_def)
qed

end

context owned_table
begin

lemma move_rows_succeeds:
  assumes "wf (rows s)" "after \<noteq> []"
  shows "\<exists>s'. move_rows now u i after s = (Inr (), s')"
proof -
  obtain m sibs where t: "take_out as_item i (own (rows s) u) = (m, sibs)" by (cases "take_out as_item i (own (rows s) u)")
  show ?thesis
  proof (cases m)
    case None
    then show ?thesis using t by (simp add: move_rows_def list_of_def move_within_def sbind_def gets_def lift_def ret_def)
  next
    case (Some r)
    have "sibs = map as_item (filter (\<lambda>x. rid x \<noteq> i) (own (rows s) u))"
      using take_out_own[OF assms(1)] t Some by simp
    then have items: "sorted_items sibs" "valid_items sibs"
      using own_items[OF assms(1), of u] own_keys_sorted[of "rows s" u] by (auto simp: comp_def intro: sorted_filter)
    have "\<exists>k. place sibs after GrowsUp = Inr k"
    proof (cases "sibs = []")
      case True
      then show ?thesis by (simp add: place_def)
    next
      case ne: False
      show ?thesis
      proof (cases "index_of after sibs")
        case None
        then show ?thesis using place_absent[OF items _ assms(2) ne, of GrowsUp] by (auto simp: index_of_None)
      next
        case (Some n)
        then show ?thesis using place_after[OF items Some assms(2), of GrowsUp] by blast
      qed
    qed
    then show ?thesis using t Some
      by (auto simp: move_rows_def list_of_def move_within_def sbind_def gets_def lift_def save_def update_store_def)
  qed
qed

lemma sort_rows_succeeds:
  assumes "wf (rows s)" "distinct ids"
  shows "\<exists>s'. sort_rows now u ids s = (Inr (), s')"
proof -
  have "\<forall>it\<in>set (own (rows s) u). item_key (as_item it) = [] \<or> valid_key (item_key (as_item it))"
    using assms(1) by (auto simp: wf_def)
  from resequence_spec[OF assms(2) this, of GrowsUp] show ?thesis
    unfolding sort_rows_effect[OF assms(1)] by auto
qed

end

end
