(* ===== verification/Classification_Repos.thy ===== *)
theory Classification_Repos
  imports Owned_Table
begin

section \<open>Repositories and list views of the classifications\<close>

text \<open>
  \<open>internal/{category,tag,payee,label}/repo\<close>: the persistence ports of the four modules over the tables of
  \<open>Store\<close>, and the names an owner's tags and labels already take, which the two modules show each other
  (\<open>NamesByOwner\<close>). A deletion performs the foreign-key actions of the schema: a transaction or template loses
  its category, tag or payee, a label leaves the join tables, a category leaves its envelopes. Re-pointing labels adds
  the target where the source is and never twice; the source's rows go when the label is deleted.
\<close>

definition set_none :: "ident \<Rightarrow> ident option \<Rightarrow> ident option" where
  "set_none i x = (if x = Some i then None else x)"

definition point_at :: "ident \<Rightarrow> ident \<Rightarrow> ident option \<Rightarrow> ident option" where
  "point_at old new x = (if x = Some old then Some new else x)"

definition add_label :: "ident \<Rightarrow> ident \<Rightarrow> ident list \<Rightarrow> ident list" where
  "add_label old new ls = (if old \<in> set ls \<and> new \<notin> set ls then ls @ [new] else ls)"

definition drop_label :: "ident \<Rightarrow> ident list \<Rightarrow> ident list" where
  "drop_label i ls = filter (\<lambda>l. l \<noteq> i) ls"

subsection \<open>Category rows\<close>

definition repo_get_category :: "ident \<Rightarrow> category act" where
  "repo_get_category i =
     sbind (gets (find_row category_id i \<circ> st_categories)) (\<lambda>r. lift (row_or_not_found ''Category not found'' r))"

definition repo_list_categories :: "ident \<Rightarrow> category list act" where
  "repo_list_categories user =
     gets (\<lambda>s. ordered category_sort_key category_id (filter (\<lambda>r. category_user r = user) (st_categories s)))"

definition repo_save_category :: "category \<Rightarrow> unit act" where
  "repo_save_category r = update_store (\<lambda>s. s\<lparr>st_categories := upsert_row category_id r (st_categories s)\<rparr>)"

definition repo_delete_category :: "ident \<Rightarrow> unit act" where
  "repo_delete_category i =
     sbind (bump_where (\<lambda>t. tx_category t = Some i)) (\<lambda>_. update_store (\<lambda>s. s\<lparr>st_categories := delete_row category_id i (st_categories s),
       st_transactions := map (\<lambda>t. t\<lparr>tx_category := set_none i (tx_category t)\<rparr>) (st_transactions s),
       st_recurring := map (\<lambda>t. t\<lparr>rt_category := set_none i (rt_category t)\<rparr>) (st_recurring s),
       st_envelope_categories := filter (\<lambda>(_, c). c \<noteq> i) (st_envelope_categories s)\<rparr>))"

definition repo_reassign_category_transactions :: "ident \<Rightarrow> ident \<Rightarrow> unit act" where
  "repo_reassign_category_transactions old new =
     sbind (bump_where (\<lambda>t. tx_category t = Some old)) (\<lambda>_. update_store (\<lambda>s. s\<lparr>
       st_transactions := map (\<lambda>t. t\<lparr>tx_category := point_at old new (tx_category t)\<rparr>) (st_transactions s)\<rparr>))"

definition repo_reassign_category_recurring :: "ident \<Rightarrow> ident \<Rightarrow> unit act" where
  "repo_reassign_category_recurring old new = update_store (\<lambda>s. s\<lparr>
       st_recurring := map (\<lambda>t. t\<lparr>rt_category := point_at old new (rt_category t)\<rparr>) (st_recurring s)\<rparr>)"

definition category_list_view :: "ident \<Rightarrow> category list act" where
  "category_list_view user =
     gets (\<lambda>s. ordered category_sort_key category_id (filter (\<lambda>r. visible_owner s user (category_user r)) (st_categories s)))"

subsection \<open>Tag rows\<close>

definition repo_get_tag :: "ident \<Rightarrow> tag act" where
  "repo_get_tag i =
     sbind (gets (find_row tag_id i \<circ> st_tags)) (\<lambda>r. lift (row_or_not_found ''Tag not found'' r))"

definition repo_list_tags :: "ident \<Rightarrow> tag list act" where
  "repo_list_tags user =
     gets (\<lambda>s. ordered tag_sort_key tag_id (filter (\<lambda>r. tag_user r = user) (st_tags s)))"

definition repo_save_tag :: "tag \<Rightarrow> unit act" where
  "repo_save_tag r = update_store (\<lambda>s. s\<lparr>st_tags := upsert_row tag_id r (st_tags s)\<rparr>)"

definition repo_delete_tag :: "ident \<Rightarrow> unit act" where
  "repo_delete_tag i =
     sbind (bump_where (\<lambda>t. tx_tag t = Some i)) (\<lambda>_. update_store (\<lambda>s. s\<lparr>st_tags := delete_row tag_id i (st_tags s),
       st_transactions := map (\<lambda>t. t\<lparr>tx_tag := set_none i (tx_tag t)\<rparr>) (st_transactions s),
       st_recurring := map (\<lambda>t. t\<lparr>rt_tag := set_none i (rt_tag t)\<rparr>) (st_recurring s)\<rparr>))"

definition repo_reassign_tag_transactions :: "ident \<Rightarrow> ident \<Rightarrow> unit act" where
  "repo_reassign_tag_transactions old new =
     sbind (bump_where (\<lambda>t. tx_tag t = Some old)) (\<lambda>_. update_store (\<lambda>s. s\<lparr>
       st_transactions := map (\<lambda>t. t\<lparr>tx_tag := point_at old new (tx_tag t)\<rparr>) (st_transactions s)\<rparr>))"

definition repo_reassign_tag_recurring :: "ident \<Rightarrow> ident \<Rightarrow> unit act" where
  "repo_reassign_tag_recurring old new = update_store (\<lambda>s. s\<lparr>
       st_recurring := map (\<lambda>t. t\<lparr>rt_tag := point_at old new (rt_tag t)\<rparr>) (st_recurring s)\<rparr>)"

definition tag_list_view :: "ident \<Rightarrow> tag list act" where
  "tag_list_view user =
     gets (\<lambda>s. ordered tag_sort_key tag_id (filter (\<lambda>r. visible_owner s user (tag_user r)) (st_tags s)))"

subsection \<open>Payee rows\<close>

definition repo_get_payee :: "ident \<Rightarrow> payee act" where
  "repo_get_payee i =
     sbind (gets (find_row payee_id i \<circ> st_payees)) (\<lambda>r. lift (row_or_not_found ''Payee not found'' r))"

definition repo_list_payees :: "ident \<Rightarrow> payee list act" where
  "repo_list_payees user =
     gets (\<lambda>s. ordered payee_sort_key payee_id (filter (\<lambda>r. payee_user r = user) (st_payees s)))"

definition repo_save_payee :: "payee \<Rightarrow> unit act" where
  "repo_save_payee r = update_store (\<lambda>s. s\<lparr>st_payees := upsert_row payee_id r (st_payees s)\<rparr>)"

definition repo_delete_payee :: "ident \<Rightarrow> unit act" where
  "repo_delete_payee i =
     sbind (bump_where (\<lambda>t. tx_payee t = Some i)) (\<lambda>_. update_store (\<lambda>s. s\<lparr>st_payees := delete_row payee_id i (st_payees s),
       st_transactions := map (\<lambda>t. t\<lparr>tx_payee := set_none i (tx_payee t)\<rparr>) (st_transactions s),
       st_recurring := map (\<lambda>t. t\<lparr>rt_payee := set_none i (rt_payee t)\<rparr>) (st_recurring s)\<rparr>))"

definition repo_reassign_payee_transactions :: "ident \<Rightarrow> ident \<Rightarrow> unit act" where
  "repo_reassign_payee_transactions old new =
     sbind (bump_where (\<lambda>t. tx_payee t = Some old)) (\<lambda>_. update_store (\<lambda>s. s\<lparr>
       st_transactions := map (\<lambda>t. t\<lparr>tx_payee := point_at old new (tx_payee t)\<rparr>) (st_transactions s)\<rparr>))"

definition repo_reassign_payee_recurring :: "ident \<Rightarrow> ident \<Rightarrow> unit act" where
  "repo_reassign_payee_recurring old new = update_store (\<lambda>s. s\<lparr>
       st_recurring := map (\<lambda>t. t\<lparr>rt_payee := point_at old new (rt_payee t)\<rparr>) (st_recurring s)\<rparr>)"

definition payee_list_view :: "ident \<Rightarrow> payee list act" where
  "payee_list_view user =
     gets (\<lambda>s. ordered payee_sort_key payee_id (filter (\<lambda>r. visible_owner s user (payee_user r)) (st_payees s)))"

subsection \<open>Label rows\<close>

definition repo_get_label :: "ident \<Rightarrow> label act" where
  "repo_get_label i =
     sbind (gets (find_row label_id i \<circ> st_labels)) (\<lambda>r. lift (row_or_not_found ''Label not found'' r))"

definition repo_list_labels :: "ident \<Rightarrow> label list act" where
  "repo_list_labels user =
     gets (\<lambda>s. ordered label_sort_key label_id (filter (\<lambda>r. label_user r = user) (st_labels s)))"

definition repo_save_label :: "label \<Rightarrow> unit act" where
  "repo_save_label r = update_store (\<lambda>s. s\<lparr>st_labels := upsert_row label_id r (st_labels s)\<rparr>)"

definition repo_delete_label :: "ident \<Rightarrow> unit act" where
  "repo_delete_label i =
     sbind (bump_where (\<lambda>t. i \<in> set (tx_labels t))) (\<lambda>_. update_store (\<lambda>s. s\<lparr>st_labels := delete_row label_id i (st_labels s),
       st_transactions := map (\<lambda>t. t\<lparr>tx_labels := drop_label i (tx_labels t)\<rparr>) (st_transactions s),
       st_recurring := map (\<lambda>t. t\<lparr>rt_labels := drop_label i (rt_labels t)\<rparr>) (st_recurring s)\<rparr>))"

definition repo_reassign_label_transactions :: "ident \<Rightarrow> ident \<Rightarrow> unit act" where
  "repo_reassign_label_transactions old new =
     sbind (bump_where (\<lambda>t. old \<in> set (tx_labels t))) (\<lambda>_. update_store (\<lambda>s. s\<lparr>
       st_transactions := map (\<lambda>t. t\<lparr>tx_labels := add_label old new (tx_labels t)\<rparr>) (st_transactions s)\<rparr>))"

definition repo_reassign_label_recurring :: "ident \<Rightarrow> ident \<Rightarrow> unit act" where
  "repo_reassign_label_recurring old new = update_store (\<lambda>s. s\<lparr>
       st_recurring := map (\<lambda>t. t\<lparr>rt_labels := add_label old new (rt_labels t)\<rparr>) (st_recurring s)\<rparr>)"

definition label_list_view :: "ident \<Rightarrow> label list act" where
  "label_list_view user =
     gets (\<lambda>s. ordered label_sort_key label_id (filter (\<lambda>r. visible_owner s user (label_user r)) (st_labels s)))"

subsection \<open>The shared namespace of tags and labels\<close>

definition tag_names_by_owner :: "ident \<Rightarrow> string list act" where
  "tag_names_by_owner user = sbind (repo_list_tags user) (\<lambda>tags. ret (map tag_name tags))"

definition label_names_by_owner :: "ident \<Rightarrow> string list act" where
  "label_names_by_owner user = sbind (repo_list_labels user) (\<lambda>labels. ret (map label_name labels))"

lemma set_none_point_at: "i \<noteq> j \<Longrightarrow> set_none i (point_at i j x) = point_at i j x"
  by (auto simp: set_none_def point_at_def)

lemma drop_added_label: "i \<noteq> j \<Longrightarrow> drop_label i (add_label i j ls) =
    (let rest = filter (\<lambda>l. l \<noteq> i) ls in if i \<in> set ls \<and> j \<notin> set ls then rest @ [j] else rest)"
  by (auto simp: drop_label_def add_label_def Let_def)

lemma label_names_Inr:
  "label_names_by_owner u s = (Inr names, s') \<longleftrightarrow>
     names = map label_name (ordered label_sort_key label_id (filter (\<lambda>r. label_user r = u) (st_labels s))) \<and> s' = s"
  by (auto simp: label_names_by_owner_def repo_list_labels_def act_iff)

lemma tag_names_Inr:
  "tag_names_by_owner u s = (Inr names, s') \<longleftrightarrow>
     names = map tag_name (ordered tag_sort_key tag_id (filter (\<lambda>r. tag_user r = u) (st_tags s))) \<and> s' = s"
  by (auto simp: tag_names_by_owner_def repo_list_tags_def act_iff)

lemma point_at_source [simp]: "i \<noteq> j \<Longrightarrow> point_at i j x \<noteq> Some i"
  by (auto simp: point_at_def)

lemma add_label_source [simp]: "i \<noteq> j \<Longrightarrow> i \<in> set (add_label i j ls) \<longleftrightarrow> i \<in> set ls"
  by (auto simp: add_label_def)

subsection \<open>References to classifications\<close>

definition category_refs :: "store \<Rightarrow> ident set" where
  "category_refs s = {i. (\<exists>t\<in>set (st_transactions s). tx_category t = Some i) \<or>
     (\<exists>t\<in>set (st_recurring s). rt_category t = Some i) \<or> i \<in> snd ` set (st_envelope_categories s)}"

definition tag_refs :: "store \<Rightarrow> ident set" where
  "tag_refs s = {i. (\<exists>t\<in>set (st_transactions s). tx_tag t = Some i) \<or> (\<exists>t\<in>set (st_recurring s). rt_tag t = Some i)}"

definition payee_refs :: "store \<Rightarrow> ident set" where
  "payee_refs s = {i. (\<exists>t\<in>set (st_transactions s). tx_payee t = Some i) \<or> (\<exists>t\<in>set (st_recurring s). rt_payee t = Some i)}"

definition label_refs :: "store \<Rightarrow> ident set" where
  "label_refs s = {i. (\<exists>t\<in>set (st_transactions s). i \<in> set (tx_labels t)) \<or> (\<exists>t\<in>set (st_recurring s). i \<in> set (rt_labels t))}"

lemmas refs_defs = category_refs_def tag_refs_def payee_refs_def label_refs_def

lemma set_none_Some [simp]: "set_none i x = Some j \<longleftrightarrow> x = Some j \<and> j \<noteq> i"
  by (auto simp: set_none_def)

lemma point_at_Some: "point_at i j x = Some n \<longleftrightarrow> (x = Some i \<and> n = j) \<or> (x \<noteq> Some i \<and> x = Some n)"
  by (auto simp: point_at_def)

lemma set_drop_label [simp]: "set (drop_label i ls) = set ls - {i}"
  by (auto simp: drop_label_def)

lemma set_add_label [simp]: "set (add_label i j ls) = set ls \<union> (if i \<in> set ls then {j} else {})"
  by (auto simp: add_label_def)

lemma set_delete_row [simp]: "set (delete_row rid i rows) = {r \<in> set rows. rid r \<noteq> i}"
  by (auto simp: delete_row_def)

end
