(* ===== verification/Classified_Table.thy ===== *)
theory Classified_Table
  imports Classification_Repos
begin

section \<open>Calls on an owned table as abstract steps\<close>

text \<open>
  The interface of \<open>Owned_Table\<close> for rows with a name. \<open>change\<close> is the abstract specification of the four
  classification services on their own table: what any call may do to it on behalf of one owner. The lemmas say that
  such a step keeps ids distinct and keys well-formed, leaves the rows of other owners alone and keeps names unique,
  and that the compositions of repository calls the services are made of are such steps.
\<close>

locale classified_table = owned_table +
  fixes name :: "'a \<Rightarrow> string"
  assumes name_rekey: "name (rekey k now r) = name r"
    and rows_pending: "rows (s\<lparr>st_pending := p\<rparr>) = rows s"
    and set_rows_pending: "set_rows xs (s\<lparr>st_pending := p\<rparr>) = (set_rows xs s)\<lparr>st_pending := p\<rparr>"
    and pending_set_rows: "st_pending (set_rows xs s) = st_pending s"
begin

text \<open>The load, check ownership, change, save cycle of \<open>mutate\<close> and \<open>mutateChecked\<close>.\<close>

definition change_row :: "string \<Rightarrow> ident \<Rightarrow> ident \<Rightarrow> unit act \<Rightarrow> ('a \<Rightarrow> 'a) \<Rightarrow> 'a act" where
  "change_row msg i u check fn =
     with_tx (sbind (get msg i) (\<lambda>r.
       if owner r \<noteq> u then fail (NotFoundError msg)
       else sbind check (\<lambda>_. sbind (save (fn r)) (\<lambda>_. ret (fn r)))))"

lemma change_row_effect:
  assumes "change_row msg i u check fn s = (Inr r', s')" "read_only check" "\<And>r. rid (fn r) = rid r"
  shows "\<exists>r\<in>set (rows s). rid r = i \<and> owner r = u \<and> r' = fn r \<and>
    check (s\<lparr>st_pending := []\<rparr>) = (Inr (), s\<lparr>st_pending := []\<rparr>) \<and>
    s' = (set_rows (replace i r' (rows s)) s)\<lparr>st_pending := []\<rparr>"
proof -
  let ?s = "s\<lparr>st_pending := []\<rparr>"
  obtain r s0 s1 where r: "find_row rid i (rows s) = Some r" "owner r = u" "r' = fn r"
    and c: "check ?s = (Inr (), s0)" and s1: "save r' s0 = (Inr (), s1)" "s' = flush s1"
    using assms(1) by (auto simp: change_row_def get_def act_iff rows_pending split: if_splits)
  have s0: "s0 = ?s" using read_only_outcome[OF assms(2) c] .
  from find_row_Some[OF r(1)] have in_rows: "r \<in> set (rows ?s)" "rid r = i" by (simp_all add: rows_pending)
  have "s' = (set_rows (replace i r' (rows s)) s)\<lparr>st_pending := []\<rparr>"
    using s1 save_known[OF in_rows(1), of r'] in_rows(2) assms(3) r(3) s0
    by (simp add: rows_pending set_rows_pending)
  then show ?thesis using r c s0 in_rows by (intro bexI[of _ r]) (simp_all add: rows_pending)
qed

text \<open>What a call does to the table, as one abstract step on behalf of an owner: nothing, a row added, one row
  replaced, one row dropped, or sort keys of the owner's rows changed. A name enters only when it is free.\<close>

inductive change :: "(ident \<Rightarrow> string \<Rightarrow> ident \<Rightarrow> bool) \<Rightarrow> ident \<Rightarrow> 'a list \<Rightarrow> 'a list \<Rightarrow> bool" for free u where
  same: "change free u xs xs"
| add: "\<lbrakk>rid r \<notin> rid ` set xs; rid r \<noteq> []; owner r = u; valid_key (key r); free u (name r) []\<rbrakk>
    \<Longrightarrow> change free u xs (xs @ [r])"
| put: "\<lbrakk>r \<in> set xs; owner r = u; rid r' = rid r; owner r' = u; valid_key (key r');
      name r' = name r \<or> free u (name r') (rid r)\<rbrakk> \<Longrightarrow> change free u xs (replace (rid r) r' xs)"
| drop: "\<lbrakk>r \<in> set xs; owner r = u\<rbrakk> \<Longrightarrow> change free u xs (delete_row rid (rid r) xs)"
| rekey: "resequence (own xs u) ids as_item GrowsUp = Inr changed
    \<Longrightarrow> change free u xs (map (\<lambda>x. if owner x = u then rekeyed now changed x else x) xs)"

lemma change_wf:
  assumes "change free u xs ys" "wf xs"
  shows "wf ys"
  using assms
proof induction
  case (put r xs r')
  then show ?case by (intro wf_replace[of xs r]) simp_all
next
  case (rekey xs ids changed now)
  then show ?case by (intro sorted_wf)
qed (auto simp: wf_def delete_row_def distinct_map_filter)

lemma change_ids_nonempty:
  assumes "change free u xs ys" "[] \<notin> rid ` set xs"
  shows "[] \<notin> rid ` set ys"
  using assms
proof cases
  case (put r r')
  then show ?thesis using assms(2) by (auto simp: replace_def)
next
  case (rekey ids changed now)
  then show ?thesis using assms(2) by (auto simp: image_iff)
qed (auto simp: delete_row_def)

lemma change_frame:
  assumes "change free u xs ys" "wf xs" "v \<noteq> u"
  shows "filter (\<lambda>x. owner x = v) ys = filter (\<lambda>x. owner x = v) xs"
  using assms
proof induction
  case (put r xs r')
  then show ?case by (intro replace_other_owner[of xs r]) simp_all
next
  case (drop r xs)
  have "rid x \<noteq> rid r" if "x \<in> set xs" "owner x = v" for x
    using that drop rid_inj[of xs x r] by auto
  then show ?case by (auto simp: delete_row_def intro: filter_cong)
next
  case (rekey xs ids changed now)
  have "filter (\<lambda>x. owner x = v) (map (\<lambda>x. if owner x = u then rekeyed now changed x else x) xs) =
      filter (\<lambda>x. owner x = v) xs"
    using \<open>v \<noteq> u\<close> by (induction xs) auto
  then show ?case .
qed auto

lemma change_names:
  assumes "change free u xs ys" "r \<in> set ys"
  shows "(\<exists>r0\<in>set xs. rid r0 = rid r \<and> owner r0 = owner r \<and> name r0 = name r) \<or>
    (\<exists>ex. (ex = [] \<or> ex = rid r) \<and> free (owner r) (name r) ex)"
  using assms
proof cases
  case (put r1 r')
  then show ?thesis using assms(2) by (auto simp: replace_def split: if_splits)
next
  case (rekey ids changed now)
  have "name (rekeyed now changed x) = name x" for x by (auto simp: rekeyed_def name_rekey split: option.split)
  then show ?thesis using assms(2) rekey by auto
qed (use assms(2) in \<open>auto simp: delete_row_def\<close>)

definition names_unique :: "(string \<Rightarrow> string \<Rightarrow> bool) \<Rightarrow> 'a list \<Rightarrow> bool" where
  "names_unique eq xs \<longleftrightarrow>
     (\<forall>r\<in>set xs. \<forall>r'\<in>set xs. owner r = owner r' \<and> rid r \<noteq> rid r' \<longrightarrow> \<not> eq (name r) (name r'))"

lemma change_unique:
  assumes "change free u xs ys" "wf xs" "[] \<notin> rid ` set xs" "names_unique eq xs" and sym: "\<And>a b. eq a b \<Longrightarrow> eq b a"
    and free: "\<And>v n ex r. \<lbrakk>free v n ex; r \<in> set xs; owner r = v; rid r \<noteq> ex\<rbrakk> \<Longrightarrow> \<not> eq (name r) n"
  shows "names_unique eq ys"
  using assms(1)
proof cases
  case same
  then show ?thesis using assms(4) by simp
next
  case (add r)
  have "\<not> eq (name x) (name r)" if "x \<in> set xs" "owner x = owner r" for x
    using that free[OF add(6)] assms(3) add(4) by (metis image_eqI)
  then have new: "\<not> eq (name x) (name r) \<and> \<not> eq (name r) (name x)" if "x \<in> set xs" "owner x = owner r" for x
    using that sym by blast
  show ?thesis unfolding names_unique_def add(1) set_append
    using assms(4)[unfolded names_unique_def] new by (simp add: ball_Un)
next
  case (put r r')
  have set_ys: "set ys = insert r' {x \<in> set xs. rid x \<noteq> rid r}" unfolding put(1) using put(2) by (rule replace_set) simp
  have "\<not> eq (name x) (name r')" if "x \<in> set xs" "owner x = u" "rid x \<noteq> rid r" for x
    using that free[of u "name r'" "rid r" x] put assms(4) unfolding names_unique_def by metis
  then have new: "\<not> eq (name x) (name r') \<and> \<not> eq (name r') (name x)" if "x \<in> set xs" "owner x = u" "rid x \<noteq> rid r" for x
    using that sym by blast
  show ?thesis unfolding names_unique_def set_ys
    using assms(4)[unfolded names_unique_def] new put(4,5) by simp
next
  case (drop r)
  then show ?thesis using assms(4) unfolding names_unique_def delete_row_def by auto
next
  case (rekey ids changed now)
  have n: "name (rekeyed now changed x) = name x" for x by (auto simp: rekeyed_def name_rekey split: option.split)
  show ?thesis using assms(4) unfolding rekey(1) names_unique_def by (auto simp: n)
qed

lemma replace_id_set: "rid r' = i \<Longrightarrow> rid ` set (replace i r' xs) = rid ` set xs"
  using replace_ids[of r' i xs] by (metis list.set_map)

text \<open>Each composition of repository calls is such a step.\<close>

lemma move_rows_change:
  assumes "wf (rows s)" "move_rows now u i after s = (Inr (), s')"
  shows "\<exists>ys. change free u (rows s) ys \<and> rid ` set ys = rid ` set (rows s) \<and> s' = set_rows ys s"
  using move_rows_effect[OF assms]
proof (elim disjE exE conjE)
  assume "s' = s"
  then show ?thesis using change.same by (intro exI[of _ "rows s"]) (simp add: set_rows_same)
next
  fix r k assume "r \<in> set (rows s)" "rid r = i" "owner r = u" "valid_key k" "s' = set_rows (replace i (rekey k now r) (rows s)) s"
  moreover from this have "change free u (rows s) (replace (rid r) (rekey k now r) (rows s))"
    by (intro change.put) (simp_all add: rid_rekey owner_rekey key_rekey name_rekey)
  ultimately show ?thesis using replace_id_set[of "rekey k now r" "rid r"]
    by (intro exI[of _ "replace (rid r) (rekey k now r) (rows s)"]) (simp add: rid_rekey)
qed

lemma sort_rows_change:
  assumes "wf (rows s)" "sort_rows now u ids s = (Inr (), s')"
  shows "\<exists>ys. change free u (rows s) ys \<and> rid ` set ys = rid ` set (rows s) \<and> s' = set_rows ys s"
proof -
  obtain changed where r: "resequence (own (rows s) u) ids as_item GrowsUp = Inr changed"
    and s': "s' = set_rows (map (\<lambda>x. if owner x = u then rekeyed now changed x else x) (rows s)) s"
    using assms(2) unfolding sort_rows_effect[OF assms(1)] by (auto split: sum.splits)
  have "rid ` set (map (\<lambda>x. if owner x = u then rekeyed now changed x else x) (rows s)) = rid ` set (rows s)"
    unfolding set_map image_image by (rule image_cong) simp_all
  then show ?thesis using change.rekey[OF r] s' by blast
qed

lemma add_change:
  assumes "wf xs" "rid r \<notin> rid ` set xs" "rid r \<noteq> []" "owner r = u"
    "append_key (own xs u) as_item GrowsUp = Inr (key r)" "free u (name r) []"
  shows "change free u xs (upsert_row rid r xs)"
proof -
  have "valid_key (key r)" by (rule append_valid[OF _ assms(5)]) (use assms(1) in \<open>auto simp: wf_def\<close>)
  then show ?thesis unfolding upsert_row_new[OF assms(2)] using assms by (intro change.add)
qed

lemma put_change:
  assumes "wf xs" "r \<in> set xs" "rid r' = rid r" "owner r' = owner r" "key r' = key r"
    "name r' = name r \<or> free (owner r) (name r') (rid r)"
  shows "change free (owner r) xs (replace (rid r) r' xs)"
  using assms by (intro change.put) (auto simp: wf_def)

end

end
