(* ===== verification/Budget_Merge.thy ===== *)
theory Budget_Merge
  imports Store
begin

section \<open>Folding one classification's budget presence into another's\<close>

text \<open>
  \<open>internal/budget/merge.go\<close> over the element, limit and comment tables (\<open>internal/budget/repo\<close>). It runs
  inside the transaction of the caller. A new limit row needs an id: \<open>new_id l\<close> is the one generated when the limit
  \<open>l\<close> of the source is copied, which happens at most once per limit. Deleting an element takes its limits and
  comments with it.
\<close>

definition get_element_by_external :: "ident \<Rightarrow> ident \<Rightarrow> budget_element act" where
  "get_element_by_external budget_id external_id =
     sbind (gets (\<lambda>s. find (\<lambda>e. el_budget e = budget_id \<and> el_external e = external_id) (st_elements s)))
       (\<lambda>e. lift (row_or_not_found ''BudgetElement not found'' e))"

definition list_elements_by_external :: "ident \<Rightarrow> budget_element list act" where
  "list_elements_by_external external_id =
     gets (\<lambda>s. filter (\<lambda>e. el_external e = external_id) (st_elements s))"

definition repoint_element :: "ident \<Rightarrow> ident \<Rightarrow> instant \<Rightarrow> unit act" where
  "repoint_element i external_id now =
     update_store (\<lambda>s. s\<lparr>st_elements := map (\<lambda>e. if el_id e = i
        then e\<lparr>el_external := external_id, el_updated := now\<rparr> else e) (st_elements s)\<rparr>)"

definition repo_delete_element :: "ident \<Rightarrow> unit act" where
  "repo_delete_element i =
     update_store (\<lambda>s. s\<lparr>st_elements := delete_row el_id i (st_elements s),
       st_limits := filter (\<lambda>l. bl_element l \<noteq> i) (st_limits s),
       st_comments := filter (\<lambda>c. bc_element c \<noteq> i) (st_comments s)\<rparr>)"

definition list_limits_by_element :: "ident \<Rightarrow> budget_limit list act" where
  "list_limits_by_element i = gets (\<lambda>s. filter (\<lambda>l. bl_element l = i) (st_limits s))"

definition get_limit :: "ident \<Rightarrow> instant \<Rightarrow> budget_limit act" where
  "get_limit i period =
     sbind (gets (\<lambda>s. find (\<lambda>l. bl_element l = i \<and> bl_period l = period) (st_limits s)))
       (\<lambda>l. lift (row_or_not_found ''BudgetElementLimit not found'' l))"

definition save_limit :: "budget_limit \<Rightarrow> unit act" where
  "save_limit l = update_store (\<lambda>s. s\<lparr>st_limits := upsert_row bl_id l (st_limits s)\<rparr>)"

definition repoint_comments :: "ident \<Rightarrow> ident \<Rightarrow> unit act" where
  "repoint_comments src dst =
     update_store (\<lambda>s. s\<lparr>st_comments := map (\<lambda>c. if bc_element c = src then c\<lparr>bc_element := dst\<rparr> else c)
       (st_comments s)\<rparr>)"

text \<open>Branching on a missing row: any other error ends the caller.\<close>

definition if_found :: "'a act \<Rightarrow> ('a \<Rightarrow> 'b act) \<Rightarrow> 'b act \<Rightarrow> 'b act" where
  "if_found m found missing s =
     (case m s of
        (Inr x, s') \<Rightarrow> found x s'
      | (Inl e, s') \<Rightarrow> if as_not_found e = None then (Inl e, s') else missing s')"

definition merge_element_limits ::
  "instant \<Rightarrow> (ident \<Rightarrow> ident) \<Rightarrow> budget_element \<Rightarrow> budget_element \<Rightarrow> unit act" where
  "merge_element_limits now new_id src dst =
     sbind (list_limits_by_element (el_id src)) (\<lambda>limits.
     for_each limits (\<lambda>l.
       if_found (get_limit (el_id dst) (bl_period l))
         (\<lambda>existing. save_limit (existing\<lparr>bl_amount := add_decimal (bl_amount existing) (bl_amount l),
                                          bl_updated := now\<rparr>))
         (save_limit \<lparr>bl_id = new_id (bl_id l), bl_element = el_id dst, bl_amount = bl_amount l,
                      bl_period = bl_period l, bl_created = now, bl_updated = now\<rparr>)))"

definition merge_elements :: "instant \<Rightarrow> (ident \<Rightarrow> ident) \<Rightarrow> ident \<Rightarrow> ident \<Rightarrow> unit act" where
  "merge_elements now new_id old_external new_external =
     sbind (list_elements_by_external old_external) (\<lambda>sources.
     for_each sources (\<lambda>src.
       if_found (get_element_by_external (el_budget src) new_external)
         (\<lambda>target.
            sbind (merge_element_limits now new_id src target) (\<lambda>_.
            sbind (repoint_comments (el_id src) (el_id target)) (\<lambda>_.
            repo_delete_element (el_id src))))
         (repoint_element (el_id src) new_external now)))"

subsection \<open>What merging leaves alone\<close>

lemma keeps_if_found [keeps_intro]:
  "\<lbrakk>keeps f m; \<And>x. keeps f (g x); keeps f h\<rbrakk> \<Longrightarrow> keeps f (if_found m g h)"
  unfolding keeps_def if_found_def by (auto split: prod.split sum.split) (metis snd_conv)+

lemma merge_elements_keeps:
  assumes "\<And>s e l c. f (s\<lparr>st_elements := e\<rparr>) = f s" "\<And>s l. f (s\<lparr>st_limits := l\<rparr>) = f s"
    "\<And>s c. f (s\<lparr>st_comments := c\<rparr>) = f s"
  shows "keeps f (merge_elements now new_id old new)"
  unfolding merge_elements_def merge_element_limits_def list_elements_by_external_def get_element_by_external_def
    list_limits_by_element_def get_limit_def save_limit_def repoint_comments_def repo_delete_element_def repoint_element_def
  by (intro keeps_intro) (simp_all add: assms)

lemma merge_elements_tables:
  assumes "merge_elements now new_id old new s = (r, s')"
  shows "st_categories s' = st_categories s \<and> st_tags s' = st_tags s \<and> st_payees s' = st_payees s \<and>
    st_labels s' = st_labels s \<and> st_transactions s' = st_transactions s \<and> st_recurring s' = st_recurring s \<and>
    st_accounts s' = st_accounts s \<and> st_access s' = st_access s \<and> st_operations s' = st_operations s \<and>
    st_envelope_categories s' = st_envelope_categories s \<and> st_pending s' = st_pending s"
  by (intro conjI; rule keeps_outcome[OF merge_elements_keeps assms]) simp_all

end
