(* ===== verification/Category_Service.thy ===== *)
theory Category_Service
  imports Classified_Table Budget_Merge
begin

section \<open>The category service\<close>

text \<open>
  \<open>internal/category\<close>: the category service. Names are not unique; the type is fixed at creation. A foreign
  category is masked as a missing one, by the same error in \<open>mutate\<close> and by a validation error in delete and merge.
  The id of a new row is an argument (\<open>vo.NewId\<close>), as are the readings of the clock; a request has been through
  its \<open>Validate\<close>.
\<close>

definition category_to_result :: "category \<Rightarrow> category_result" where
  "category_to_result r =
     \<lparr>category_res_id = category_id r, category_res_owner = category_user r, category_res_name = category_name r,
      category_res_position = 0, category_res_type = category_alias (category_type r), category_res_icon = category_icon r,
      category_res_archived = (if category_archived r then 1 else 0),
      category_res_created = format_layout (category_created r), category_res_updated = format_layout (category_updated r)\<rparr>"

definition category_to_view_result :: "category \<Rightarrow> category_result" where
  "category_to_view_result r =
     \<lparr>category_res_id = category_id r, category_res_owner = category_user r, category_res_name = category_name r,
      category_res_position = 0, category_res_type = category_alias (category_type r), category_res_icon = category_icon r,
      category_res_archived = (if category_archived r then 1 else 0),
      category_res_created = format_layout (category_created r), category_res_updated = format_layout (category_updated r)\<rparr>"

definition category_assign_positions :: "category_result list \<Rightarrow> category_result list" where
  "category_assign_positions items = map (\<lambda>(i, it). it\<lparr>category_res_position := i\<rparr>) (enumerate 0 items)"

definition category_list_results :: "ident \<Rightarrow> category_result list act" where
  "category_list_results user =
     sbind (category_list_view user) (\<lambda>rows. ret (category_assign_positions (map category_to_view_result rows)))"

definition category_item_result :: "ident \<Rightarrow> category \<Rightarrow> category_result act" where
  "category_item_result user r =
     sbind (category_list_results user) (\<lambda>items.
       ret (case map_of (map (\<lambda>(i, it). (category_res_id it, i)) (enumerate 0 items)) (category_id r) of
              Some i \<Rightarrow> (category_to_result r)\<lparr>category_res_position := i\<rparr>
            | None \<Rightarrow> category_to_result r))"

definition get_category_list :: "ident \<Rightarrow> category_result list act" where
  "get_category_list user =
     sbind (category_list_view user) (\<lambda>rows. ret (category_assign_positions (map category_to_view_result rows)))"

definition category_resolve_account_owner :: "ident \<Rightarrow> ident \<Rightarrow> ident act" where
  "category_resolve_account_owner user account_id =
     sbind (account_owner account_id) (\<lambda>owner.
       if owner = user then ret owner
       else sbind (has_admin_grant account_id user) (\<lambda>is_admin.
         if is_admin then ret owner else fail (AccessDeniedError ''Access is not allowed'' [] 0)))"

definition new_category_name :: "string \<Rightarrow> string result" where
  "new_category_name v =
     (let n = rune_count v in
      if n < 3 \<or> 64 < n
      then Inl (ValidationError ''Category name must be 3-64 characters'' []
             [\<lparr>fe_key = ''name'', fe_message = ''Category name must be 3-64 characters'', fe_code = ''category.name_length''\<rparr>])
      else Inr v)"

definition new_icon :: "string \<Rightarrow> string result" where
  "new_icon v =
     (if v = [] then Inl (ValidationError ''Icon value must not be empty'' []
           [\<lparr>fe_key = ''icon'', fe_message = ''Icon value must not be empty'', fe_code = ''common.icon_required''\<rparr>])
      else Inr v)"

definition new_category_type :: "(nat \<Rightarrow> nat) \<Rightarrow> string \<Rightarrow> category_type result" where
  "new_category_type low alias =
     (case type_from_alias low alias of
        Some t \<Rightarrow> Inr t
      | None \<Rightarrow> Inl (ValidationError ''CategoryType not exists'' []
           [\<lparr>fe_key = ''type'', fe_message = ''CategoryType not exists'', fe_code = ''category.type_invalid''\<rparr>]))"

definition category_mutate :: "instant \<Rightarrow> ident \<Rightarrow> ident \<Rightarrow> (instant \<Rightarrow> category \<Rightarrow> category) \<Rightarrow> category act" where
  "category_mutate now i user fn =
     with_tx (sbind (repo_get_category i) (\<lambda>r.
       if category_user r \<noteq> user then fail (NotFoundError ''Category not found'')
       else sbind (repo_save_category (fn now r)) (\<lambda>_. ret (fn now r))))"

definition category_item :: "category \<Rightarrow> item" where
  "category_item r = \<lparr>item_id = category_id r, item_key = category_sort_key r\<rparr>"

subsection \<open>Create\<close>

definition create_category ::
  "platform \<Rightarrow> instant \<Rightarrow> instant \<Rightarrow> ident \<Rightarrow> ident \<Rightarrow> create_category_request \<Rightarrow> category_result act" where
  "create_category pf claim_now now fresh user req =
     sbind (lift (parse_id (pf_uuid pf) (create_category_id req))) (\<lambda>oid.
     sbind (lift (new_category_name (create_category_name req))) (\<lambda>name.
     sbind (lift (new_category_type (pf_lower pf) (create_category_type req))) (\<lambda>typ.
     sbind (lift (new_icon (case create_category_icon req of
         Some v \<Rightarrow> if v \<noteq> [] then v else default_icon | None \<Rightarrow> default_icon))) (\<lambda>icon.
     sbind (case create_category_account req of
              None \<Rightarrow> ret user
            | Some a \<Rightarrow> if a = [] then ret user
                else sbind (lift (parse_id (pf_uuid pf) a)) (\<lambda>account_id.
                  category_resolve_account_owner user account_id)) (\<lambda>owner.
     sbind (with_tx (
         sbind (claim oid claim_now) (\<lambda>already. if already then fail operation_locked else 
         sbind (repo_list_categories owner) (\<lambda>rows.
         sbind (lift (append_key rows category_item GrowsUp)) (\<lambda>k.
         let r = category_set_sort_key k (new_category fresh owner name typ icon now) in
         sbind (repo_save_category r) (\<lambda>_.
         sbind (mark_handled oid now) (\<lambda>_. ret r))))))) (\<lambda>created.
     category_item_result owner created))))))"

subsection \<open>Update, archive, unarchive\<close>

definition update_category :: "platform \<Rightarrow> instant \<Rightarrow> ident \<Rightarrow> update_category_request \<Rightarrow> unit act" where
  "update_category pf now user req =
     sbind (lift (parse_id (pf_uuid pf) (update_category_id req))) (\<lambda>i.
     sbind (lift (new_category_name (update_category_new_name req))) (\<lambda>name.
     sbind (lift (new_icon (update_category_new_icon req))) (\<lambda>icon.
     sbind (category_mutate now i user (\<lambda>now c. category_update_icon icon now (category_update_name name now c)))
       (\<lambda>_. ret ()))))"

definition archive_category :: "platform \<Rightarrow> instant \<Rightarrow> ident \<Rightarrow> string \<Rightarrow> unit act" where
  "archive_category pf now user req_id =
     sbind (lift (parse_id (pf_uuid pf) req_id)) (\<lambda>i.
     sbind (category_mutate now i user category_archive) (\<lambda>_. ret ()))"

definition unarchive_category :: "platform \<Rightarrow> instant \<Rightarrow> ident \<Rightarrow> string \<Rightarrow> unit act" where
  "unarchive_category pf now user req_id =
     sbind (lift (parse_id (pf_uuid pf) req_id)) (\<lambda>i.
     sbind (category_mutate now i user category_unarchive) (\<lambda>_. ret ()))"

subsection \<open>Delete and merge\<close>

definition delete_category :: "platform \<Rightarrow> ident \<Rightarrow> delete_category_request \<Rightarrow> unit act" where
  "delete_category pf user req =
     sbind (lift (parse_id (pf_uuid pf) (delete_category_id req))) (\<lambda>i.
     with_tx (sbind (repo_get_category i) (\<lambda>r.
       if category_user r \<noteq> user then fail (ValidationError ''Category not found'' ''category.not_found'' []) else repo_delete_category i)))"

definition category_cannot_merge :: go_error where
  "category_cannot_merge = ValidationError ''The selected categories cannot be merged'' ''category.cannot_be_merged'' []"

definition merge_category :: "platform \<Rightarrow> instant \<Rightarrow> (ident \<Rightarrow> ident) \<Rightarrow> ident \<Rightarrow> merge_category_request \<Rightarrow> unit act" where
  "merge_category pf now new_id user req =
     sbind (lift (parse_id (pf_uuid pf) (merge_category_source req))) (\<lambda>source_id.
     sbind (lift (parse_id (pf_uuid pf) (merge_category_target req))) (\<lambda>target_id.
     with_tx (sbind (repo_get_category source_id) (\<lambda>source.
       if category_user source \<noteq> user then fail (ValidationError ''Category not found'' ''category.not_found'' [])
       else if source_id = target_id then fail category_cannot_merge
       else sbind (repo_get_category target_id) (\<lambda>target.
       if category_user target \<noteq> user then fail category_cannot_merge
       else if category_type target \<noteq> category_type source then fail category_cannot_merge
       else sbind (repo_reassign_category_transactions source_id target_id) (\<lambda>_.
            sbind (repo_reassign_category_recurring source_id target_id) (\<lambda>_.
            sbind (merge_elements now new_id source_id target_id) (\<lambda>_.
            repo_delete_category source_id))))))))"

subsection \<open>Move and sort\<close>

definition move_category :: "platform \<Rightarrow> instant \<Rightarrow> ident \<Rightarrow> move_category_request \<Rightarrow> category_result list act" where
  "move_category pf now user req =
     sbind (lift (parse_id (pf_uuid pf) (move_category_id req))) (\<lambda>i.
     let after_id = (case move_category_after req of None \<Rightarrow> [] | Some a \<Rightarrow> a) in
     with_tx (sbind (repo_list_categories user) (\<lambda>rows.
       sbind (lift (move_within rows i after_id category_item GrowsUp)) (\<lambda>moved.
       sbind (case moved of
                None \<Rightarrow> ret ()
              | Some (r, k) \<Rightarrow> repo_save_category (category_update_sort_key k now r)) (\<lambda>_.
       category_list_results user)))))"

definition sort_category_list :: "instant \<Rightarrow> ident \<Rightarrow> string list \<Rightarrow> category_result list act" where
  "sort_category_list now user ids =
     with_tx (sbind (repo_list_categories user) (\<lambda>rows.
       sbind (lift (resequence rows ids category_item GrowsUp)) (\<lambda>changed.
       sbind (for_each rows (\<lambda>row.
                case changed (category_id row) of
                  None \<Rightarrow> ret ()
                | Some k \<Rightarrow> repo_save_category (category_update_sort_key k now row))) (\<lambda>_.
       category_list_results user))))"

subsection \<open>The table of categories\<close>

lemma category_mutators [simp]:
  "category_id (category_archive now r) = category_id r" "category_user (category_archive now r) = category_user r"
  "category_name (category_archive now r) = category_name r" "category_sort_key (category_archive now r) = category_sort_key r"
  "category_id (category_unarchive now r) = category_id r" "category_user (category_unarchive now r) = category_user r"
  "category_name (category_unarchive now r) = category_name r" "category_sort_key (category_unarchive now r) = category_sort_key r"
  "category_id (category_update_name nm now r) = category_id r" "category_user (category_update_name nm now r) = category_user r"
  "category_name (category_update_name nm now r) = nm" "category_sort_key (category_update_name nm now r) = category_sort_key r"
  "category_id (category_update_icon ic now r) = category_id r" "category_user (category_update_icon ic now r) = category_user r"
  "category_name (category_update_icon ic now r) = category_name r"
  "category_sort_key (category_update_icon ic now r) = category_sort_key r"
  by (simp_all add: category_archive_def category_unarchive_def category_update_name_def category_update_icon_def)

interpretation categories: classified_table st_categories "\<lambda>xs s. s\<lparr>st_categories := xs\<rparr>" category_id category_user category_sort_key
    category_update_sort_key category_name
  by unfold_locales (auto simp: category_update_sort_key_def)

lemma category_repo:
  "repo_get_category = categories.get ''Category not found''" "repo_list_categories = categories.list_of" "repo_save_category = categories.save"
  "category_item = categories.as_item"
  by (simp_all add: fun_eq_iff repo_get_category_def categories.get_def repo_list_categories_def categories.list_of_def categories.own_def
      repo_save_category_def categories.save_def category_item_def categories.as_item_def)

lemma category_results_total [atomic_intro]:
  "read_only (category_list_results u)" "total (category_list_results u)"
  "read_only (category_item_result u r)" "total (category_item_result u r)" "read_only (get_category_list u)" "total (get_category_list u)"
  unfolding category_list_results_def category_item_result_def get_category_list_def category_list_view_def by (intro atomic_intro)+

lemma new_category_name_Inr: "new_category_name v = Inr n \<longleftrightarrow> n = v \<and> 3 \<le> rune_count v \<and> rune_count v \<le> 64"
  by (auto simp: new_category_name_def Let_def)


lemma category_checks_read_only [atomic_intro]:
  "read_only (category_resolve_account_owner u i)"
  unfolding category_resolve_account_owner_def 
  by (intro atomic_intro)+

lemma category_resolve_Inr:
  "category_resolve_account_owner u a s = (Inr owner, s') \<longleftrightarrow> s' = s \<and> may_create_in s u a owner"
  unfolding category_resolve_account_owner_def by (rule resolve_Inr)

lemma category_mutate_row: "category_mutate now i u fn = categories.change_row ''Category not found'' i u (ret ()) (fn now)"
  unfolding category_mutate_def categories.change_row_def category_repo ret_sbind ..


lemma archive_category_effect:
  "archive_category pf now u q s = (Inr x, s') \<Longrightarrow>
   \<exists>r\<in>set (st_categories s). pf_uuid pf q = Some (category_id r) \<and> category_user r = u \<and>
     s' = s\<lparr>st_categories := categories.replace (category_id r) (category_archive now r) (st_categories s), st_pending := []\<rparr>"
  using categories.change_row_effect[of "''Category not found''" _ u "ret ()" "category_archive now" s _ s']
  by (fastforce simp: archive_category_def category_mutate_row act_iff)


lemma unarchive_category_effect:
  "unarchive_category pf now u q s = (Inr x, s') \<Longrightarrow>
   \<exists>r\<in>set (st_categories s). pf_uuid pf q = Some (category_id r) \<and> category_user r = u \<and>
     s' = s\<lparr>st_categories := categories.replace (category_id r) (category_unarchive now r) (st_categories s), st_pending := []\<rparr>"
  using categories.change_row_effect[of "''Category not found''" _ u "ret ()" "category_unarchive now" s _ s']
  by (fastforce simp: unarchive_category_def category_mutate_row act_iff)


lemma new_icon_Inr: "new_icon v = Inr n \<longleftrightarrow> n = v \<and> v \<noteq> []"
  by (auto simp: new_icon_def)

lemma update_category_effect:
  "update_category pf now u req s = (Inr x, s') \<Longrightarrow>
   \<exists>r\<in>set (st_categories s). pf_uuid pf (update_category_id req) = Some (category_id r) \<and> category_user r = u \<and>
     s' = s\<lparr>st_categories := categories.replace (category_id r)
       (category_update_icon (update_category_new_icon req) now (category_update_name (update_category_new_name req) now r))
       (st_categories s), st_pending := []\<rparr>"
  using categories.change_row_effect[of "''Category not found''" _ u "ret ()"
     "\<lambda>c. category_update_icon (update_category_new_icon req) now (category_update_name (update_category_new_name req) now c)" s _ s']
  by (fastforce simp: update_category_def category_mutate_row act_iff new_category_name_Inr new_icon_Inr)


lemma move_category_rows:
  "move_category pf now u req = sbind (lift (parse_id (pf_uuid pf) (move_category_id req))) (\<lambda>i.
     with_tx (sbind (categories.move_rows now u i (case move_category_after req of None \<Rightarrow> [] | Some a \<Rightarrow> a)) (\<lambda>_. category_list_results u)))"
  unfolding move_category_def categories.move_rows_def category_repo sbind_assoc Let_def ..

lemma sort_category_rows:
  "sort_category_list now u ids = with_tx (sbind (categories.sort_rows now u ids) (\<lambda>_. category_list_results u))"
  unfolding sort_category_list_def categories.sort_rows_def categories.save_changed_def [abs_def] category_repo sbind_assoc ..

lemma move_category_effect:
  assumes "move_category pf now u req s = (Inr res, s')"
  shows "\<exists>i s1. pf_uuid pf (move_category_id req) = Some i \<and>
     categories.move_rows now u i (case move_category_after req of None \<Rightarrow> [] | Some a \<Rightarrow> a) (s\<lparr>st_pending := []\<rparr>) = (Inr (), s1) \<and>
     s' = flush s1"
proof -
  obtain i where i: "pf_uuid pf (move_category_id req) = Some i"
    "with_tx (sbind (categories.move_rows now u i (case move_category_after req of None \<Rightarrow> [] | Some a \<Rightarrow> a)) (\<lambda>_. category_list_results u)) s
       = (Inr res, s')"
    using assms unfolding move_category_rows by (auto simp: act_iff(1-7))
  from with_tx_respond_Inr[OF category_results_total(1) i(2)] i(1) show ?thesis by auto
qed

lemma sort_category_list_effect:
  assumes "sort_category_list now u ids s = (Inr res, s')"
  shows "\<exists>s1. categories.sort_rows now u ids (s\<lparr>st_pending := []\<rparr>) = (Inr (), s1) \<and> s' = flush s1"
  using with_tx_respond_Inr[OF category_results_total(1) assms[unfolded sort_category_rows]] by auto


lemma insert_unchecked:
  "categories.insert_row (ret ()) oid cn now u mk =
     sbind (claim oid cn) (\<lambda>already. if already then fail operation_locked else
       sbind (categories.list_of u) (\<lambda>rows.
       sbind (lift (append_key rows categories.as_item GrowsUp)) (\<lambda>k.
       let r = mk k in sbind (categories.save r) (\<lambda>_. sbind (mark_handled oid now) (\<lambda>_. ret r)))))"
  unfolding categories.insert_row_def ret_sbind ..

definition category_icon_of :: "create_category_request \<Rightarrow> string" where
  "category_icon_of req = (case create_category_icon req of
         Some v \<Rightarrow> if v \<noteq> [] then v else default_icon | None \<Rightarrow> default_icon)"

lemma create_category_rows:
  "create_category pf claim_now now fresh u req =
     sbind (lift (parse_id (pf_uuid pf) (create_category_id req))) (\<lambda>oid.
     sbind (lift (new_category_name (create_category_name req))) (\<lambda>name.
     sbind (lift (new_category_type (pf_lower pf) (create_category_type req))) (\<lambda>typ.
     sbind (lift (new_icon (category_icon_of req))) (\<lambda>icon.
     sbind (owner_act pf u (create_category_account req) (category_resolve_account_owner u)) (\<lambda>owner.
     sbind (with_tx (categories.insert_row (ret ()) oid claim_now now owner
              (\<lambda>k. category_set_sort_key k (new_category fresh owner name typ icon now)))) (\<lambda>created.
     category_item_result owner created))))))"
  unfolding create_category_def insert_unchecked owner_act_def category_repo category_icon_of_def ..


lemma new_category_type_Inr: "new_category_type low v = Inr t \<longleftrightarrow> type_from_alias low v = Some t"
  by (auto simp: new_category_type_def split: option.split)


lemma create_category_effect:
  assumes "create_category pf claim_now now fresh u req s = (Inr res, s')"
  shows "\<exists>oid owner ty k. pf_uuid pf (create_category_id req) = Some oid \<and> oid \<notin> op_id ` set (st_operations s) \<and>
     3 \<le> rune_count (create_category_name req) \<and> rune_count (create_category_name req) \<le> 64 \<and> type_from_alias (pf_lower pf) (create_category_type req) = Some ty \<and> 
     creates_for pf s u (create_category_account req) owner \<and> 
     append_key (categories.own (st_categories s) owner) categories.as_item GrowsUp = Inr k \<and>
     s' = s\<lparr>st_categories := upsert_row category_id (category_set_sort_key k (new_category fresh owner (create_category_name req) ty (category_icon_of req) now)) (st_categories s),
            st_operations := st_operations s @ [\<lparr>op_id = oid, op_handled = True, op_created = claim_now, op_updated = now\<rparr>],
            st_pending := []\<rparr>"
proof -
  let ?n = "create_category_name req"
  obtain oid owner ty r s0 where pre: "pf_uuid pf (create_category_id req) = Some oid" "3 \<le> rune_count ?n" "rune_count ?n \<le> 64"
      "creates_for pf s u (create_category_account req) owner" "type_from_alias (pf_lower pf) (create_category_type req) = Some ty"
    and tx: "with_tx (categories.insert_row (ret ()) oid claim_now now owner
              (\<lambda>k. category_set_sort_key k (new_category fresh owner ?n ty (category_icon_of req) now))) s = (Inr r, s0)"
    and res: "category_item_result owner r s0 = (Inr res, s')"
    using assms unfolding create_category_rows
    by (auto simp: act_iff(1-7) owner_act_Inr[OF category_resolve_Inr] new_category_name_Inr new_icon_Inr new_category_type_Inr)
  have "s' = s0" using read_only_outcome[OF category_results_total(3) res] .
  moreover from tx obtain s1 where s1: "categories.insert_row (ret ()) oid claim_now now owner
              (\<lambda>k. category_set_sort_key k (new_category fresh owner ?n ty (category_icon_of req) now)) (s\<lparr>st_pending := []\<rparr>) = (Inr r, s1)" "s0 = flush s1"
    by (auto simp: act_iff)
  ultimately show ?thesis using categories.insert_row_effect[OF s1(1) read_only_basic(1)] pre
    by (auto simp: act_iff)
qed


text \<open>The database after a deletion and after the two re-pointing statements of a merge.\<close>

definition category_deleted :: "ident \<Rightarrow> store \<Rightarrow> store" where
  "category_deleted i s = s\<lparr>st_categories := delete_row category_id i (st_categories s),
     st_transactions := map (\<lambda>t. t\<lparr>tx_category := set_none i (tx_category t)\<rparr>) (st_transactions s),
     st_recurring := map (\<lambda>t. t\<lparr>rt_category := set_none i (rt_category t)\<rparr>) (st_recurring s),
     st_envelope_categories := filter (\<lambda>(_, c). c \<noteq> i) (st_envelope_categories s),
     st_pending := st_pending s @ touched (\<lambda>t. tx_category t = Some i) (st_transactions s)\<rparr>"

definition category_repointed :: "ident \<Rightarrow> ident \<Rightarrow> store \<Rightarrow> store" where
  "category_repointed i j s = s\<lparr>st_pending := st_pending s @ touched (\<lambda>t. tx_category t = Some i) (st_transactions s),
     st_transactions := map (\<lambda>t. t\<lparr>tx_category := point_at i j (tx_category t)\<rparr>) (st_transactions s),
     st_recurring := map (\<lambda>t. t\<lparr>rt_category := point_at i j (rt_category t)\<rparr>) (st_recurring s)\<rparr>"

lemma repo_delete_category_iff [act_iff]: "repo_delete_category i s = (r, s') \<longleftrightarrow> r = Inr () \<and> s' = category_deleted i s"
  by (auto simp: repo_delete_category_def category_deleted_def sbind_def bump_where_def bump_def touched_def gets_def update_store_def)

lemma repo_reassign_category:
  "sbind (repo_reassign_category_transactions i j) (\<lambda>_. sbind (repo_reassign_category_recurring i j) (\<lambda>_. m)) s = m (category_repointed i j s)"
  by (simp add: repo_reassign_category_transactions_def repo_reassign_category_recurring_def category_repointed_def sbind_def bump_where_def
      bump_def touched_def gets_def update_store_def)

lemma delete_category_effect:
  "delete_category pf u q s = (Inr x, s') \<Longrightarrow>
   \<exists>r\<in>set (st_categories s). pf_uuid pf (delete_category_id q) = Some (category_id r) \<and> category_user r = u \<and>
     s' = flush (category_deleted (category_id r) (s\<lparr>st_pending := []\<rparr>))"
  by (auto simp: delete_category_def category_repo categories.get_def act_iff dest!: find_row_Some)


lemma merge_category_effect:
  "merge_category pf now new_id u req s = (Inr x, s') \<Longrightarrow>
   \<exists>src\<in>set (st_categories s). \<exists>dst\<in>set (st_categories s). \<exists>s2.
     pf_uuid pf (merge_category_source req) = Some (category_id src) \<and> pf_uuid pf (merge_category_target req) = Some (category_id dst) \<and>
     category_id src \<noteq> category_id dst \<and> category_user src = u \<and> category_user dst = u \<and> category_type dst = category_type src \<and>
     merge_elements now new_id (category_id src) (category_id dst) (category_repointed (category_id src) (category_id dst) (s\<lparr>st_pending := []\<rparr>)) = (Inr (), s2) \<and>
     s' = flush (category_deleted (category_id src) s2)"
  by (auto simp: merge_category_def category_repo categories.get_def repo_reassign_category act_iff dest!: find_row_Some)


lemma merge_category_tables:
  assumes "merge_category pf now new_id u req s = (Inr x, s')"
  shows "\<exists>src\<in>set (st_categories s). \<exists>dst\<in>set (st_categories s).
     pf_uuid pf (merge_category_source req) = Some (category_id src) \<and> pf_uuid pf (merge_category_target req) = Some (category_id dst) \<and>
     category_id src \<noteq> category_id dst \<and> category_user src = u \<and> category_user dst = u \<and> category_type dst = category_type src \<and>
     st_categories s' = delete_row category_id (category_id src) (st_categories s) \<and>
     st_transactions s' = map (\<lambda>t. t\<lparr>tx_category := point_at (category_id src) (category_id dst) (tx_category t)\<rparr>) (st_transactions s) \<and>
     st_recurring s' = map (\<lambda>t. t\<lparr>rt_category := point_at (category_id src) (category_id dst) (rt_category t)\<rparr>) (st_recurring s) \<and>
     st_accounts s' = map (bump_account (accounts_of (\<lambda>t. tx_category t = Some (category_id src)) (st_transactions s))) (st_accounts s) \<and>
     st_envelope_categories s' = filter (\<lambda>(_, c). c \<noteq> category_id src) (st_envelope_categories s) \<and>
     st_tags s' = st_tags s \<and> st_payees s' = st_payees s \<and> st_labels s' = st_labels s \<and> st_access s' = st_access s \<and> st_operations s' = st_operations s"
proof -
  obtain src dst s2 where m: "src \<in> set (st_categories s)" "dst \<in> set (st_categories s)"
     "pf_uuid pf (merge_category_source req) = Some (category_id src)" "pf_uuid pf (merge_category_target req) = Some (category_id dst)"
     "category_id src \<noteq> category_id dst" "category_user src = u" "category_user dst = u" "category_type dst = category_type src"
     and el: "merge_elements now new_id (category_id src) (category_id dst) (category_repointed (category_id src) (category_id dst) (s\<lparr>st_pending := []\<rparr>)) = (Inr (), s2)"
     and s': "s' = flush (category_deleted (category_id src) s2)"
    using merge_category_effect[OF assms] by blast
  have "st_categories s' = delete_row category_id (category_id src) (st_categories s) \<and>
     st_transactions s' = map (\<lambda>t. t\<lparr>tx_category := point_at (category_id src) (category_id dst) (tx_category t)\<rparr>) (st_transactions s) \<and>
     st_recurring s' = map (\<lambda>t. t\<lparr>rt_category := point_at (category_id src) (category_id dst) (rt_category t)\<rparr>) (st_recurring s) \<and>
     st_accounts s' = map (bump_account (accounts_of (\<lambda>t. tx_category t = Some (category_id src)) (st_transactions s))) (st_accounts s) \<and>
     st_envelope_categories s' = filter (\<lambda>(_, c). c \<noteq> category_id src) (st_envelope_categories s) \<and>
     st_tags s' = st_tags s \<and> st_payees s' = st_payees s \<and> st_labels s' = st_labels s \<and> st_access s' = st_access s \<and> st_operations s' = st_operations s"
    unfolding s' using m(5) merge_elements_tables[OF el]
    by (simp add: category_deleted_def category_repointed_def set_none_point_at comp_def flush_accounts accounts_of_map)
  with m show ?thesis by blast
qed

subsection \<open>The calls of the service\<close>

datatype category_call =
    CreateCategory ident create_category_request
  | UpdateCategory update_category_request
  | ArchiveCategory string
  | UnarchiveCategory string
  | DeleteCategory delete_category_request
  | MergeCategory merge_category_request
  | MoveCategory move_category_request
  | SortCategoryList "string list"
  | GetCategoryList

text \<open>A call with its result left out; \<open>CreateCategory\<close> carries the id that \<open>vo.NewId\<close> gives.\<close>

fun category_perform :: "platform \<Rightarrow> instant \<Rightarrow> instant \<Rightarrow> (ident \<Rightarrow> ident) \<Rightarrow> ident \<Rightarrow> category_call \<Rightarrow> unit act" where
  "category_perform pf claim_now now new_id u (CreateCategory fresh q) = sbind (create_category pf claim_now now fresh u q) (\<lambda>_. ret ())"
| "category_perform pf claim_now now new_id u (UpdateCategory q) = update_category pf now u q"
| "category_perform pf claim_now now new_id u (ArchiveCategory q) = archive_category pf now u q"
| "category_perform pf claim_now now new_id u (UnarchiveCategory q) = unarchive_category pf now u q"
| "category_perform pf claim_now now new_id u (DeleteCategory q) = delete_category pf u q"
| "category_perform pf claim_now now new_id u (MergeCategory q) = merge_category pf now new_id u q"
| "category_perform pf claim_now now new_id u (MoveCategory q) = sbind (move_category pf now u q) (\<lambda>_. ret ())"
| "category_perform pf claim_now now new_id u (SortCategoryList q) = sbind (sort_category_list now u q) (\<lambda>_. ret ())"
| "category_perform pf claim_now now new_id u GetCategoryList = sbind (get_category_list u) (\<lambda>_. ret ())"

fun category_fresh :: "store \<Rightarrow> category_call \<Rightarrow> bool" where
  "category_fresh s (CreateCategory fresh q) = (fresh \<noteq> [] \<and> fresh \<notin> category_id ` set (st_categories s))"
| "category_fresh s _ = True"

text \<open>A call on the own table is one abstract step for the caller or, creating in a shared account, for its owner.\<close>

lemma category_created_change:
  assumes "create_category pf claim_now now fresh u q s = (Inr x, s')" "categories.wf (st_categories s)"
    "fresh \<noteq> []" "fresh \<notin> category_id ` set (st_categories s)"
  shows "\<exists>v. acts_for s u v \<and> categories.change (\<lambda>_ _ _. True) v (st_categories s) (st_categories s')"
  using create_category_effect[OF assms(1)] assms(2-4)
  by (fastforce dest: creates_for_acts intro!: categories.add_change simp: category_set_sort_key_def new_category_def)

lemma category_moved_change:
  assumes "move_category pf now u q s = (Inr x, s')" "categories.wf (st_categories s)"
  shows "categories.change free u (st_categories s) (st_categories s') \<and> s' = s\<lparr>st_categories := st_categories s', st_pending := []\<rparr> \<and>
    category_id ` set (st_categories s') = category_id ` set (st_categories s)"
  using move_category_effect[OF assms(1)] assms(2)
    categories.move_rows_change[of "s\<lparr>st_pending := []\<rparr>" now u _ _ _ free] by fastforce

lemma category_sorted_change:
  assumes "sort_category_list now u q s = (Inr x, s')" "categories.wf (st_categories s)"
  shows "categories.change free u (st_categories s) (st_categories s') \<and> s' = s\<lparr>st_categories := st_categories s', st_pending := []\<rparr> \<and>
    category_id ` set (st_categories s') = category_id ` set (st_categories s)"
  using sort_category_list_effect[OF assms(1)] assms(2)
    categories.sort_rows_change[of "s\<lparr>st_pending := []\<rparr>" now u q _ free] by fastforce

lemma category_perform_atomic: "atomic (category_perform pf claim_now now new_id u c)"
proof -
  have "atomic (create_category pf claim_now now fresh u q)" for fresh q
    unfolding create_category_rows
    by ((rule atomic_sbind_lift)+, rule atomic_sbind_owner, rule category_checks_read_only, rule atomic_sbind_total, rule atomic_with_tx, rule category_results_total)
  moreover have "atomic (update_category pf now u q)" for q
    unfolding update_category_def category_mutate_row categories.change_row_def by ((rule atomic_sbind_lift)+, rule atomic_done, rule atomic_with_tx)
  moreover have "atomic (archive_category pf now u q)" "atomic (unarchive_category pf now u q)" for q
    unfolding archive_category_def unarchive_category_def category_mutate_row categories.change_row_def
    by (rule atomic_sbind_lift, rule atomic_done, rule atomic_with_tx)+
  ultimately show ?thesis
    by (cases c) (auto simp: delete_category_def merge_category_def move_category_rows sort_category_rows
      intro: atomic_done atomic_sbind_lift atomic_with_tx atomic_read_only category_results_total)
qed

lemma category_perform_change:
  assumes "category_perform pf claim_now now new_id u c s = (Inr x, s')" "categories.wf (st_categories s)" "category_fresh s c"
  shows "\<exists>v. acts_for s u v \<and> categories.change (\<lambda>_ _ _. True) v (st_categories s) (st_categories s')"
proof (cases c)
  case (CreateCategory fresh q)
  then show ?thesis using assms category_created_change[OF _ assms(2)] by (auto simp: act_iff)
next
  case (UpdateCategory q)
  then obtain r where "r \<in> set (st_categories s)" "category_user r = u"
    "st_categories s' = categories.replace (category_id r) (category_update_icon (update_category_new_icon q) now (category_update_name (update_category_new_name q) now r)) (st_categories s)"
    using assms(1) by (auto simp: dest!: update_category_effect)
  then show ?thesis using assms(2) categories.put_change[of "st_categories s" r "category_update_icon (update_category_new_icon q) now (category_update_name (update_category_new_name q) now r)" "\<lambda>_ _ _. True"]
    by (intro exI[of _ u]) simp
next
  case (ArchiveCategory q)
  then obtain r where "r \<in> set (st_categories s)" "category_user r = u"
    "st_categories s' = categories.replace (category_id r) (category_archive now r) (st_categories s)"
    using assms(1) by (auto dest!: archive_category_effect)
  then show ?thesis using assms(2) categories.put_change[of "st_categories s" r "category_archive now r" "\<lambda>_ _ _. True"]
    by (intro exI[of _ u]) simp
next
  case (UnarchiveCategory q)
  then obtain r where "r \<in> set (st_categories s)" "category_user r = u"
    "st_categories s' = categories.replace (category_id r) (category_unarchive now r) (st_categories s)"
    using assms(1) by (auto dest!: unarchive_category_effect)
  then show ?thesis using assms(2) categories.put_change[of "st_categories s" r "category_unarchive now r" "\<lambda>_ _ _. True"]
    by (intro exI[of _ u]) simp
next
  case (DeleteCategory q)
  then obtain r where "r \<in> set (st_categories s)" "category_user r = u" "st_categories s' = delete_row category_id (category_id r) (st_categories s)"
    using assms(1) by (auto simp: category_deleted_def dest!: delete_category_effect)
  then show ?thesis using categories.change.drop[of r "st_categories s" u] by (intro exI[of _ u]) simp
next
  case (MergeCategory q)
  then have "merge_category pf now new_id u q s = (Inr x, s')" using assms(1) by simp
  from merge_category_tables[OF this] obtain r where
    "r \<in> set (st_categories s)" "category_user r = u" "st_categories s' = delete_row category_id (category_id r) (st_categories s)" by blast
  then show ?thesis using categories.change.drop[of r "st_categories s" u] by (intro exI[of _ u]) simp
next
  case (MoveCategory q)
  then obtain y where "move_category pf now u q s = (Inr y, s')" using assms(1) by (auto simp: sbind_Inr_iff ret_iff)
  from category_moved_change[OF this assms(2)] show ?thesis by (intro exI[of _ u]) simp
next
  case (SortCategoryList q)
  then obtain y where "sort_category_list now u q s = (Inr y, s')" using assms(1) by (auto simp: sbind_Inr_iff ret_iff)
  from category_sorted_change[OF this assms(2)] show ?thesis by (intro exI[of _ u]) simp
next
  case GetCategoryList
  then have "s' = s" using assms(1) read_only_outcome[OF category_results_total(5)] by (auto simp: act_iff)
  then show ?thesis using categories.change.same by (intro exI[of _ u]) simp
qed

lemma category_perform_rest:
  assumes "category_perform pf claim_now now new_id u c s = (Inr x, s')" "categories.wf (st_categories s)"
  shows "(st_tags s' = st_tags s \<and> st_payees s' = st_payees s \<and> st_labels s' = st_labels s \<and> st_access s' = st_access s) \<and>
    (tag_refs s' = tag_refs s \<and> payee_refs s' = payee_refs s \<and> label_refs s' = label_refs s) \<and>
    (category_refs s \<subseteq> category_id ` set (st_categories s) \<longrightarrow> category_refs s' \<subseteq> category_id ` set (st_categories s'))"
proof (cases c)
  case (CreateCategory fresh q)
  then obtain y where "create_category pf claim_now now fresh u q s = (Inr y, s')" using assms(1) by (auto simp: sbind_Inr_iff ret_iff)
  from create_category_effect[OF this] obtain r ops where
    "s' = s\<lparr>st_categories := upsert_row category_id r (st_categories s), st_operations := ops, st_pending := []\<rparr>" by metis
  then show ?thesis using upsert_ids[of category_id r "st_categories s"] by (auto simp: refs_defs)
next
  case (UpdateCategory q)
  then have "update_category pf now u q s = (Inr x, s')" using assms(1) by simp
  from update_category_effect[OF this] obtain i r where
    "s' = s\<lparr>st_categories := categories.replace i r (st_categories s), st_pending := []\<rparr>" "category_id r = i" by fastforce
  then show ?thesis using categories.replace_id_set[of r i "st_categories s"] by (simp add: refs_defs)
next
  case (ArchiveCategory q)
  then have "archive_category pf now u q s = (Inr x, s')" using assms(1) by simp
  from archive_category_effect[OF this] obtain i r where
    "s' = s\<lparr>st_categories := categories.replace i r (st_categories s), st_pending := []\<rparr>" "category_id r = i" by fastforce
  then show ?thesis using categories.replace_id_set[of r i "st_categories s"] by (simp add: refs_defs)
next
  case (UnarchiveCategory q)
  then have "unarchive_category pf now u q s = (Inr x, s')" using assms(1) by simp
  from unarchive_category_effect[OF this] obtain i r where
    "s' = s\<lparr>st_categories := categories.replace i r (st_categories s), st_pending := []\<rparr>" "category_id r = i" by fastforce
  then show ?thesis using categories.replace_id_set[of r i "st_categories s"] by (simp add: refs_defs)
next
  case (DeleteCategory q)
  then have "delete_category pf u q s = (Inr x, s')" using assms(1) by simp
  from delete_category_effect[OF this] obtain i where s': "s' = flush (category_deleted i (s\<lparr>st_pending := []\<rparr>))" by blast
  have "category_refs s' \<subseteq> category_refs s - {i}" "category_id ` set (st_categories s') = category_id ` set (st_categories s) - {i}"
    unfolding s' by (auto simp: category_deleted_def refs_defs delete_ids)
  moreover have "st_tags s' = st_tags s \<and> st_payees s' = st_payees s \<and> st_labels s' = st_labels s \<and> st_access s' = st_access s" "tag_refs s' = tag_refs s \<and> payee_refs s' = payee_refs s \<and> label_refs s' = label_refs s"
    unfolding s' by (simp_all add: category_deleted_def refs_defs)
  ultimately show ?thesis by auto
next
  case (MergeCategory q)
  then have "merge_category pf now new_id u q s = (Inr x, s')" using assms(1) by simp
  from merge_category_tables[OF this] show ?thesis
  proof (elim bexE conjE)
    fix src dst assume m: "dst \<in> set (st_categories s)" "category_id src \<noteq> category_id dst" "st_categories s' = delete_row category_id (category_id src) (st_categories s)"
    "st_transactions s' = map (\<lambda>t. t\<lparr>tx_category := point_at (category_id src) (category_id dst) (tx_category t)\<rparr>) (st_transactions s)"
    "st_recurring s' = map (\<lambda>t. t\<lparr>rt_category := point_at (category_id src) (category_id dst) (rt_category t)\<rparr>) (st_recurring s)"
    "st_envelope_categories s' = filter (\<lambda>(_, c). c \<noteq> category_id src) (st_envelope_categories s)" "st_access s' = st_access s" "st_tags s' = st_tags s" "st_payees s' = st_payees s" "st_labels s' = st_labels s"
    have "category_refs s' \<subseteq> insert (category_id dst) (category_refs s - {category_id src})"
      using m by (auto simp: refs_defs point_at_Some)
    moreover have "category_id ` set (st_categories s') = category_id ` set (st_categories s) - {category_id src}"
      unfolding m(3) by (rule delete_ids)
    moreover have "st_tags s' = st_tags s \<and> st_payees s' = st_payees s \<and> st_labels s' = st_labels s \<and> st_access s' = st_access s" "tag_refs s' = tag_refs s \<and> payee_refs s' = payee_refs s \<and> label_refs s' = label_refs s"
      using m by (simp_all add: refs_defs)
    ultimately show ?thesis using m(1,2) by auto
  qed
next
  case (MoveCategory q)
  then obtain y where "move_category pf now u q s = (Inr y, s')" using assms(1) by (auto simp: sbind_Inr_iff ret_iff)
  from category_moved_change[OF this assms(2)] obtain ys where
    "s' = s\<lparr>st_categories := ys, st_pending := []\<rparr>" "category_id ` set (st_categories s') = category_id ` set (st_categories s)" by blast
  then show ?thesis by (simp add: refs_defs)
next
  case (SortCategoryList q)
  then obtain y where "sort_category_list now u q s = (Inr y, s')" using assms(1) by (auto simp: sbind_Inr_iff ret_iff)
  from category_sorted_change[OF this assms(2)] obtain ys where
    "s' = s\<lparr>st_categories := ys, st_pending := []\<rparr>" "category_id ` set (st_categories s') = category_id ` set (st_categories s)" by blast
  then show ?thesis by (simp add: refs_defs)
next
  case GetCategoryList
  then have "s' = s" using assms(1) read_only_outcome[OF category_results_total(5)] by (auto simp: act_iff)
  then show ?thesis by simp
qed

text \<open>The operation id a call would claim.\<close>

fun category_operation :: "category_call \<Rightarrow> string option" where
  "category_operation (CreateCategory fresh q) = Some (create_category_id q)"
| "category_operation _ = None"

lemma category_perform_operations:
  assumes "category_perform pf claim_now now new_id u c s = (Inr x, s')" "categories.wf (st_categories s)"
  shows "op_id ` set (st_operations s') = op_id ` set (st_operations s) \<union> claimed_by pf (category_operation c) \<and>
    op_id ` set (st_operations s) \<inter> claimed_by pf (category_operation c) = {}"
proof (cases c)
  case (CreateCategory fresh q)
  then obtain y where "create_category pf claim_now now fresh u q s = (Inr y, s')" using assms(1) by (auto simp: sbind_Inr_iff ret_iff)
  from create_category_effect[OF this] show ?thesis using CreateCategory by (elim exE conjE) (simp add: claimed_by_def)
next
  case (UpdateCategory q)
  then have "update_category pf now u q s = (Inr x, s')" using assms(1) by simp
  from update_category_effect[OF this] show ?thesis using UpdateCategory by (elim bexE conjE) (simp add: claimed_by_def)
next
  case (ArchiveCategory q)
  then have "archive_category pf now u q s = (Inr x, s')" using assms(1) by simp
  from archive_category_effect[OF this] show ?thesis using ArchiveCategory by (elim bexE conjE) (simp add: claimed_by_def)
next
  case (UnarchiveCategory q)
  then have "unarchive_category pf now u q s = (Inr x, s')" using assms(1) by simp
  from unarchive_category_effect[OF this] show ?thesis using UnarchiveCategory by (elim bexE conjE) (simp add: claimed_by_def)
next
  case (DeleteCategory q)
  then have "delete_category pf u q s = (Inr x, s')" using assms(1) by simp
  from delete_category_effect[OF this] show ?thesis using DeleteCategory
    by (elim bexE conjE) (simp add: claimed_by_def category_deleted_def)
next
  case (MergeCategory q)
  then have "merge_category pf now new_id u q s = (Inr x, s')" using assms(1) by simp
  from merge_category_tables[OF this] show ?thesis using MergeCategory by (elim bexE conjE) (simp add: claimed_by_def)
next
  case (MoveCategory q)
  then obtain y where "move_category pf now u q s = (Inr y, s')" using assms(1) by (auto simp: sbind_Inr_iff ret_iff)
  from category_moved_change[OF this assms(2)] obtain ys where "s' = s\<lparr>st_categories := ys, st_pending := []\<rparr>" by blast
  then show ?thesis using MoveCategory by (simp add: claimed_by_def)
next
  case (SortCategoryList q)
  then obtain y where "sort_category_list now u q s = (Inr y, s')" using assms(1) by (auto simp: sbind_Inr_iff ret_iff)
  from category_sorted_change[OF this assms(2)] obtain ys where "s' = s\<lparr>st_categories := ys, st_pending := []\<rparr>" by blast
  then show ?thesis using SortCategoryList by (simp add: claimed_by_def)
next
  case GetCategoryList
  then have "s' = s" using assms(1) read_only_outcome[OF category_results_total(5)] by (auto simp: act_iff)
  then show ?thesis using GetCategoryList by (simp add: claimed_by_def)
qed

end
