(* ===== verification/Tag_Service.thy ===== *)
theory Tag_Service
  imports Classified_Table Budget_Merge
begin

section \<open>The tag service\<close>

text \<open>
  \<open>internal/tag\<close>: the tag service. Tag names are unique per owner up to case, together with the owner's labels; the
  peer service is always installed (\<open>SetLabelNames\<close> at composition time).
  The id of a new row is an argument (\<open>vo.NewId\<close>), as are the readings of the clock; a request has been through
  its \<open>Validate\<close>.
\<close>

definition tag_to_result :: "tag \<Rightarrow> tag_result" where
  "tag_to_result r =
     \<lparr>tag_res_id = tag_id r, tag_res_owner = tag_user r, tag_res_name = tag_name r,
      tag_res_icon = tag_icon r, tag_res_position = 0,
      tag_res_archived = (if tag_archived r then 1 else 0),
      tag_res_created = format_layout (tag_created r), tag_res_updated = format_layout (tag_updated r)\<rparr>"

definition tag_to_view_result :: "tag \<Rightarrow> tag_result" where
  "tag_to_view_result r =
     \<lparr>tag_res_id = tag_id r, tag_res_owner = tag_user r, tag_res_name = tag_name r,
      tag_res_icon = tag_icon r, tag_res_position = 0,
      tag_res_archived = (if tag_archived r then 1 else 0),
      tag_res_created = format_layout (tag_created r), tag_res_updated = format_layout (tag_updated r)\<rparr>"

definition tag_assign_positions :: "tag_result list \<Rightarrow> tag_result list" where
  "tag_assign_positions items = map (\<lambda>(i, it). it\<lparr>tag_res_position := i\<rparr>) (enumerate 0 items)"

definition tag_list_results :: "ident \<Rightarrow> tag_result list act" where
  "tag_list_results user =
     sbind (tag_list_view user) (\<lambda>rows. ret (tag_assign_positions (map tag_to_view_result rows)))"

definition tag_item_result :: "ident \<Rightarrow> tag \<Rightarrow> tag_result act" where
  "tag_item_result user r =
     sbind (tag_list_results user) (\<lambda>items.
       ret (case map_of (map (\<lambda>(i, it). (tag_res_id it, i)) (enumerate 0 items)) (tag_id r) of
              Some i \<Rightarrow> (tag_to_result r)\<lparr>tag_res_position := i\<rparr>
            | None \<Rightarrow> tag_to_result r))"

definition get_tag_list :: "ident \<Rightarrow> tag_result list act" where
  "get_tag_list user =
     sbind (tag_list_view user) (\<lambda>rows. ret (tag_assign_positions (map tag_to_view_result rows)))"

definition tag_resolve_account_owner :: "ident \<Rightarrow> ident \<Rightarrow> ident act" where
  "tag_resolve_account_owner user account_id =
     sbind (account_owner account_id) (\<lambda>owner.
       if owner = user then ret owner
       else sbind (has_admin_grant account_id user) (\<lambda>is_admin.
         if is_admin then ret owner else fail (AccessDeniedError ''Access is not allowed'' [] 0)))"

definition new_tag_name :: "string \<Rightarrow> string result" where
  "new_tag_name v =
     (let n = rune_count v in
      if n < 3 \<or> 64 < n
      then Inl (ValidationError ''Tag name must be 3-64 characters'' []
             [\<lparr>fe_key = ''name'', fe_message = ''Tag name must be 3-64 characters'', fe_code = ''tag.name_length''\<rparr>])
      else Inr v)"

definition tag_name_taken :: go_error where
  "tag_name_taken = ValidationError ''Tag already exists.'' ''tag.already_exists'' []"

definition tag_ensure_name_unique :: "platform \<Rightarrow> ident \<Rightarrow> string \<Rightarrow> ident \<Rightarrow> unit act" where
  "tag_ensure_name_unique pf user name except_id =
     sbind (repo_list_tags user) (\<lambda>rows.
       if \<exists>r\<in>set rows. equal_fold (pf_fold pf) (tag_name r) name \<and> tag_id r \<noteq> except_id then fail tag_name_taken
       else sbind (label_names_by_owner user) (\<lambda>names.
         if \<exists>n\<in>set names. equal_fold (pf_fold pf) n name then fail tag_name_taken else ret ()))"

definition tag_mutate :: "instant \<Rightarrow> ident \<Rightarrow> ident \<Rightarrow> (instant \<Rightarrow> tag \<Rightarrow> tag) \<Rightarrow> tag act" where
  "tag_mutate now i user fn =
     with_tx (sbind (repo_get_tag i) (\<lambda>r.
       if tag_user r \<noteq> user then fail (NotFoundError ''Tag not found'')
       else sbind (repo_save_tag (fn now r)) (\<lambda>_. ret (fn now r))))"

definition tag_mutate_checked ::
  "instant \<Rightarrow> ident \<Rightarrow> ident \<Rightarrow> (instant \<Rightarrow> tag \<Rightarrow> tag act) \<Rightarrow> tag act" where
  "tag_mutate_checked now i user fn =
     with_tx (sbind (repo_get_tag i) (\<lambda>r.
       if tag_user r \<noteq> user then fail (NotFoundError ''Tag not found'')
       else sbind (fn now r) (\<lambda>r'. sbind (repo_save_tag r') (\<lambda>_. ret r'))))"

definition tag_item :: "tag \<Rightarrow> item" where
  "tag_item r = \<lparr>item_id = tag_id r, item_key = tag_sort_key r\<rparr>"

subsection \<open>Create\<close>

definition create_tag ::
  "platform \<Rightarrow> instant \<Rightarrow> instant \<Rightarrow> ident \<Rightarrow> ident \<Rightarrow> create_tag_request \<Rightarrow> tag_result act" where
  "create_tag pf claim_now now fresh user req =
     sbind (lift (parse_id (pf_uuid pf) (create_tag_id req))) (\<lambda>oid.
     sbind (lift (new_tag_name (create_tag_name req))) (\<lambda>name.
     sbind (case create_tag_account req of
              None \<Rightarrow> ret user
            | Some a \<Rightarrow> if a = [] then ret user
                else sbind (lift (parse_id (pf_uuid pf) a)) (\<lambda>account_id.
                  tag_resolve_account_owner user account_id)) (\<lambda>owner.
     sbind (with_tx (
         sbind (claim oid claim_now) (\<lambda>already. if already then fail operation_locked else 
         sbind (tag_ensure_name_unique pf owner name []) (\<lambda>_.
         sbind (repo_list_tags owner) (\<lambda>rows.
         sbind (lift (append_key rows tag_item GrowsUp)) (\<lambda>k.
         let r = tag_set_sort_key k (new_tag fresh owner name now) in
         sbind (repo_save_tag r) (\<lambda>_.
         sbind (mark_handled oid now) (\<lambda>_. ret r)))))))) (\<lambda>created.
     tag_item_result owner created))))"

subsection \<open>Update, archive, unarchive\<close>

definition tag_mutate_with_unique :: "platform \<Rightarrow> instant \<Rightarrow> ident \<Rightarrow> ident \<Rightarrow> string \<Rightarrow> tag act" where
  "tag_mutate_with_unique pf now i user name =
     tag_mutate_checked now i user (\<lambda>now r.
       sbind (tag_ensure_name_unique pf user name i) (\<lambda>_. ret (tag_update_name name now r)))"

definition update_tag :: "platform \<Rightarrow> instant \<Rightarrow> ident \<Rightarrow> update_tag_request \<Rightarrow> tag_result act" where
  "update_tag pf now user req =
     sbind (lift (parse_id (pf_uuid pf) (update_tag_id req))) (\<lambda>i.
     sbind (lift (new_tag_name (update_tag_new_name req))) (\<lambda>name.
     sbind (tag_mutate_with_unique pf now i user name) (\<lambda>r.
     tag_item_result user r)))"

definition archive_tag :: "platform \<Rightarrow> instant \<Rightarrow> ident \<Rightarrow> string \<Rightarrow> unit act" where
  "archive_tag pf now user req_id =
     sbind (lift (parse_id (pf_uuid pf) req_id)) (\<lambda>i.
     sbind (tag_mutate now i user tag_archive) (\<lambda>_. ret ()))"

definition unarchive_tag :: "platform \<Rightarrow> instant \<Rightarrow> ident \<Rightarrow> string \<Rightarrow> unit act" where
  "unarchive_tag pf now user req_id =
     sbind (lift (parse_id (pf_uuid pf) req_id)) (\<lambda>i.
     sbind (tag_mutate now i user tag_unarchive) (\<lambda>_. ret ()))"

subsection \<open>Delete and merge\<close>

definition delete_tag :: "platform \<Rightarrow> ident \<Rightarrow> string \<Rightarrow> unit act" where
  "delete_tag pf user req_id =
     sbind (lift (parse_id (pf_uuid pf) req_id)) (\<lambda>i.
     with_tx (sbind (repo_get_tag i) (\<lambda>r.
       if tag_user r \<noteq> user then fail (NotFoundError ''Tag not found'') else repo_delete_tag i)))"

definition tag_cannot_merge :: go_error where
  "tag_cannot_merge = ValidationError ''The selected tags cannot be merged'' ''tag.cannot_be_merged'' []"

definition merge_tag :: "platform \<Rightarrow> instant \<Rightarrow> (ident \<Rightarrow> ident) \<Rightarrow> ident \<Rightarrow> merge_tag_request \<Rightarrow> unit act" where
  "merge_tag pf now new_id user req =
     sbind (lift (parse_id (pf_uuid pf) (merge_tag_source req))) (\<lambda>source_id.
     sbind (lift (parse_id (pf_uuid pf) (merge_tag_target req))) (\<lambda>target_id.
     with_tx (sbind (repo_get_tag source_id) (\<lambda>source.
       if tag_user source \<noteq> user then fail (NotFoundError ''Tag not found'')
       else if source_id = target_id then fail tag_cannot_merge
       else sbind (repo_get_tag target_id) (\<lambda>target.
       if tag_user target \<noteq> user then fail tag_cannot_merge
       else sbind (repo_reassign_tag_transactions source_id target_id) (\<lambda>_.
            sbind (repo_reassign_tag_recurring source_id target_id) (\<lambda>_.
            sbind (merge_elements now new_id source_id target_id) (\<lambda>_.
            repo_delete_tag source_id))))))))"

subsection \<open>Move and sort\<close>

definition move_tag :: "platform \<Rightarrow> instant \<Rightarrow> ident \<Rightarrow> move_tag_request \<Rightarrow> tag_result list act" where
  "move_tag pf now user req =
     sbind (lift (parse_id (pf_uuid pf) (move_tag_id req))) (\<lambda>i.
     let after_id = (case move_tag_after req of None \<Rightarrow> [] | Some a \<Rightarrow> a) in
     with_tx (sbind (repo_list_tags user) (\<lambda>rows.
       sbind (lift (move_within rows i after_id tag_item GrowsUp)) (\<lambda>moved.
       sbind (case moved of
                None \<Rightarrow> ret ()
              | Some (r, k) \<Rightarrow> repo_save_tag (tag_update_sort_key k now r)) (\<lambda>_.
       tag_list_results user)))))"

definition sort_tag_list :: "instant \<Rightarrow> ident \<Rightarrow> string list \<Rightarrow> tag_result list act" where
  "sort_tag_list now user ids =
     with_tx (sbind (repo_list_tags user) (\<lambda>rows.
       sbind (lift (resequence rows ids tag_item GrowsUp)) (\<lambda>changed.
       sbind (for_each rows (\<lambda>row.
                case changed (tag_id row) of
                  None \<Rightarrow> ret ()
                | Some k \<Rightarrow> repo_save_tag (tag_update_sort_key k now row))) (\<lambda>_.
       tag_list_results user))))"

subsection \<open>The table of tags\<close>

lemma tag_mutators [simp]:
  "tag_id (tag_archive now r) = tag_id r" "tag_user (tag_archive now r) = tag_user r"
  "tag_name (tag_archive now r) = tag_name r" "tag_sort_key (tag_archive now r) = tag_sort_key r"
  "tag_id (tag_unarchive now r) = tag_id r" "tag_user (tag_unarchive now r) = tag_user r"
  "tag_name (tag_unarchive now r) = tag_name r" "tag_sort_key (tag_unarchive now r) = tag_sort_key r"
  "tag_id (tag_update_name nm now r) = tag_id r" "tag_user (tag_update_name nm now r) = tag_user r"
  "tag_name (tag_update_name nm now r) = nm" "tag_sort_key (tag_update_name nm now r) = tag_sort_key r"
  by (simp_all add: tag_archive_def tag_unarchive_def tag_update_name_def)

interpretation tags: classified_table st_tags "\<lambda>xs s. s\<lparr>st_tags := xs\<rparr>" tag_id tag_user tag_sort_key
    tag_update_sort_key tag_name
  by unfold_locales (auto simp: tag_update_sort_key_def)

lemma tag_repo:
  "repo_get_tag = tags.get ''Tag not found''" "repo_list_tags = tags.list_of" "repo_save_tag = tags.save"
  "tag_item = tags.as_item"
  by (simp_all add: fun_eq_iff repo_get_tag_def tags.get_def repo_list_tags_def tags.list_of_def tags.own_def
      repo_save_tag_def tags.save_def tag_item_def tags.as_item_def)

lemma tag_results_total [atomic_intro]:
  "read_only (tag_list_results u)" "total (tag_list_results u)"
  "read_only (tag_item_result u r)" "total (tag_item_result u r)" "read_only (get_tag_list u)" "total (get_tag_list u)"
  unfolding tag_list_results_def tag_item_result_def get_tag_list_def tag_list_view_def by (intro atomic_intro)+

lemma new_tag_name_Inr: "new_tag_name v = Inr n \<longleftrightarrow> n = v \<and> 3 \<le> rune_count v \<and> rune_count v \<le> 64"
  by (auto simp: new_tag_name_def Let_def)


text \<open>No other tag of the owner and no label has the name, up to case.\<close>

definition tag_name_free :: "platform \<Rightarrow> store \<Rightarrow> ident \<Rightarrow> string \<Rightarrow> ident \<Rightarrow> bool" where
  "tag_name_free pf s u name except \<longleftrightarrow>
     (\<forall>r\<in>set (st_tags s). tag_user r = u \<and> tag_id r \<noteq> except \<longrightarrow> \<not> equal_fold (pf_fold pf) (tag_name r) name) \<and>
     (\<forall>r\<in>set (st_labels s). label_user r = u \<longrightarrow> \<not> equal_fold (pf_fold pf) (label_name r) name)"

lemma tag_ensure_name_unique_Inr:
  "tag_ensure_name_unique pf u name except s = (Inr (), s') \<longleftrightarrow> s' = s \<and> tag_name_free pf s u name except"
  by (auto simp: tag_ensure_name_unique_def tag_name_free_def tag_repo tags.list_of_def label_names_Inr act_iff
      split: if_splits)

lemma tag_name_free_frame [simp]:
  "tag_name_free pf (s\<lparr>st_pending := p\<rparr>) = tag_name_free pf s"
  "tag_name_free pf (s\<lparr>st_operations := ops\<rparr>) = tag_name_free pf s"
  by (simp_all add: tag_name_free_def fun_eq_iff)


lemma tag_checks_read_only [atomic_intro]:
  "read_only (tag_resolve_account_owner u i)" "read_only (tag_ensure_name_unique pf u name ex)"
  unfolding tag_resolve_account_owner_def tag_ensure_name_unique_def tag_repo tags.list_of_def label_names_by_owner_def repo_list_labels_def
  by (intro atomic_intro)+

lemma tag_resolve_Inr:
  "tag_resolve_account_owner u a s = (Inr owner, s') \<longleftrightarrow> s' = s \<and> may_create_in s u a owner"
  unfolding tag_resolve_account_owner_def by (rule resolve_Inr)

lemma tag_mutate_row: "tag_mutate now i u fn = tags.change_row ''Tag not found'' i u (ret ()) (fn now)"
  unfolding tag_mutate_def tags.change_row_def tag_repo ret_sbind ..


lemma archive_tag_effect:
  "archive_tag pf now u q s = (Inr x, s') \<Longrightarrow>
   \<exists>r\<in>set (st_tags s). pf_uuid pf q = Some (tag_id r) \<and> tag_user r = u \<and>
     s' = s\<lparr>st_tags := tags.replace (tag_id r) (tag_archive now r) (st_tags s), st_pending := []\<rparr>"
  using tags.change_row_effect[of "''Tag not found''" _ u "ret ()" "tag_archive now" s _ s']
  by (fastforce simp: archive_tag_def tag_mutate_row act_iff)


lemma unarchive_tag_effect:
  "unarchive_tag pf now u q s = (Inr x, s') \<Longrightarrow>
   \<exists>r\<in>set (st_tags s). pf_uuid pf q = Some (tag_id r) \<and> tag_user r = u \<and>
     s' = s\<lparr>st_tags := tags.replace (tag_id r) (tag_unarchive now r) (st_tags s), st_pending := []\<rparr>"
  using tags.change_row_effect[of "''Tag not found''" _ u "ret ()" "tag_unarchive now" s _ s']
  by (fastforce simp: unarchive_tag_def tag_mutate_row act_iff)


lemma tag_mutate_with_unique_row:
  "tag_mutate_with_unique pf now i u name =
     tags.change_row ''Tag not found'' i u (tag_ensure_name_unique pf u name i) (tag_update_name name now)"
  unfolding tag_mutate_with_unique_def tag_mutate_checked_def tags.change_row_def tag_repo sbind_assoc ret_sbind ..

lemma update_tag_effect:
  assumes "update_tag pf now u req s = (Inr res, s')"
  shows "\<exists>r\<in>set (st_tags s). pf_uuid pf (update_tag_id req) = Some (tag_id r) \<and> tag_user r = u \<and>
     tag_name_free pf s u (update_tag_new_name req) (tag_id r) \<and>
     s' = s\<lparr>st_tags := tags.replace (tag_id r) (tag_update_name (update_tag_new_name req) now r) (st_tags s),
            st_pending := []\<rparr>"
proof -
  let ?n = "update_tag_new_name req"
  obtain i r' s1 where i: "pf_uuid pf (update_tag_id req) = Some i"
    and row: "tags.change_row ''Tag not found'' i u (tag_ensure_name_unique pf u ?n i) (tag_update_name ?n now) s = (Inr r', s1)"
    and res: "tag_item_result u r' s1 = (Inr res, s')"
    using assms by (auto simp: update_tag_def tag_mutate_with_unique_row new_tag_name_Inr act_iff(1-7))
  have "s' = s1" using read_only_outcome[OF tag_results_total(3) res] .
  then show ?thesis using tags.change_row_effect[OF row tag_checks_read_only(2)] i
    by (auto simp: tag_ensure_name_unique_Inr)
qed


lemma move_tag_rows:
  "move_tag pf now u req = sbind (lift (parse_id (pf_uuid pf) (move_tag_id req))) (\<lambda>i.
     with_tx (sbind (tags.move_rows now u i (case move_tag_after req of None \<Rightarrow> [] | Some a \<Rightarrow> a)) (\<lambda>_. tag_list_results u)))"
  unfolding move_tag_def tags.move_rows_def tag_repo sbind_assoc Let_def ..

lemma sort_tag_rows:
  "sort_tag_list now u ids = with_tx (sbind (tags.sort_rows now u ids) (\<lambda>_. tag_list_results u))"
  unfolding sort_tag_list_def tags.sort_rows_def tags.save_changed_def [abs_def] tag_repo sbind_assoc ..

lemma move_tag_effect:
  assumes "move_tag pf now u req s = (Inr res, s')"
  shows "\<exists>i s1. pf_uuid pf (move_tag_id req) = Some i \<and>
     tags.move_rows now u i (case move_tag_after req of None \<Rightarrow> [] | Some a \<Rightarrow> a) (s\<lparr>st_pending := []\<rparr>) = (Inr (), s1) \<and>
     s' = flush s1"
proof -
  obtain i where i: "pf_uuid pf (move_tag_id req) = Some i"
    "with_tx (sbind (tags.move_rows now u i (case move_tag_after req of None \<Rightarrow> [] | Some a \<Rightarrow> a)) (\<lambda>_. tag_list_results u)) s
       = (Inr res, s')"
    using assms unfolding move_tag_rows by (auto simp: act_iff(1-7))
  from with_tx_respond_Inr[OF tag_results_total(1) i(2)] i(1) show ?thesis by auto
qed

lemma sort_tag_list_effect:
  assumes "sort_tag_list now u ids s = (Inr res, s')"
  shows "\<exists>s1. tags.sort_rows now u ids (s\<lparr>st_pending := []\<rparr>) = (Inr (), s1) \<and> s' = flush s1"
  using with_tx_respond_Inr[OF tag_results_total(1) assms[unfolded sort_tag_rows]] by auto


lemma create_tag_rows:
  "create_tag pf claim_now now fresh u req =
     sbind (lift (parse_id (pf_uuid pf) (create_tag_id req))) (\<lambda>oid.
     sbind (lift (new_tag_name (create_tag_name req))) (\<lambda>name.
     sbind (owner_act pf u (create_tag_account req) (tag_resolve_account_owner u)) (\<lambda>owner.
     sbind (with_tx (tags.insert_row (tag_ensure_name_unique pf owner name []) oid claim_now now owner
              (\<lambda>k. tag_set_sort_key k (new_tag fresh owner name now)))) (\<lambda>created.
     tag_item_result owner created))))"
  unfolding create_tag_def tags.insert_row_def owner_act_def tag_repo ..


lemma create_tag_effect:
  assumes "create_tag pf claim_now now fresh u req s = (Inr res, s')"
  shows "\<exists>oid owner k. pf_uuid pf (create_tag_id req) = Some oid \<and> oid \<notin> op_id ` set (st_operations s) \<and>
     3 \<le> rune_count (create_tag_name req) \<and> rune_count (create_tag_name req) \<le> 64 \<and> 
     creates_for pf s u (create_tag_account req) owner \<and> tag_name_free pf s owner (create_tag_name req) [] \<and> 
     append_key (tags.own (st_tags s) owner) tags.as_item GrowsUp = Inr k \<and>
     s' = s\<lparr>st_tags := upsert_row tag_id (tag_set_sort_key k (new_tag fresh owner (create_tag_name req) now)) (st_tags s),
            st_operations := st_operations s @ [\<lparr>op_id = oid, op_handled = True, op_created = claim_now, op_updated = now\<rparr>],
            st_pending := []\<rparr>"
proof -
  let ?n = "create_tag_name req"
  obtain oid owner r s0 where pre: "pf_uuid pf (create_tag_id req) = Some oid" "3 \<le> rune_count ?n" "rune_count ?n \<le> 64"
      "creates_for pf s u (create_tag_account req) owner"
    and tx: "with_tx (tags.insert_row (tag_ensure_name_unique pf owner ?n []) oid claim_now now owner
              (\<lambda>k. tag_set_sort_key k (new_tag fresh owner ?n now))) s = (Inr r, s0)"
    and res: "tag_item_result owner r s0 = (Inr res, s')"
    using assms unfolding create_tag_rows
    by (auto simp: act_iff(1-7) owner_act_Inr[OF tag_resolve_Inr] new_tag_name_Inr)
  have "s' = s0" using read_only_outcome[OF tag_results_total(3) res] .
  moreover from tx obtain s1 where s1: "tags.insert_row (tag_ensure_name_unique pf owner ?n []) oid claim_now now owner
              (\<lambda>k. tag_set_sort_key k (new_tag fresh owner ?n now)) (s\<lparr>st_pending := []\<rparr>) = (Inr r, s1)" "s0 = flush s1"
    by (auto simp: act_iff)
  ultimately show ?thesis using tags.insert_row_effect[OF s1(1) tag_checks_read_only(2)] pre
    by (auto simp: tag_ensure_name_unique_Inr)
qed


text \<open>The database after a deletion and after the two re-pointing statements of a merge.\<close>

definition tag_deleted :: "ident \<Rightarrow> store \<Rightarrow> store" where
  "tag_deleted i s = s\<lparr>st_tags := delete_row tag_id i (st_tags s),
     st_transactions := map (\<lambda>t. t\<lparr>tx_tag := set_none i (tx_tag t)\<rparr>) (st_transactions s),
     st_recurring := map (\<lambda>t. t\<lparr>rt_tag := set_none i (rt_tag t)\<rparr>) (st_recurring s),
     st_pending := st_pending s @ touched (\<lambda>t. tx_tag t = Some i) (st_transactions s)\<rparr>"

definition tag_repointed :: "ident \<Rightarrow> ident \<Rightarrow> store \<Rightarrow> store" where
  "tag_repointed i j s = s\<lparr>st_pending := st_pending s @ touched (\<lambda>t. tx_tag t = Some i) (st_transactions s),
     st_transactions := map (\<lambda>t. t\<lparr>tx_tag := point_at i j (tx_tag t)\<rparr>) (st_transactions s),
     st_recurring := map (\<lambda>t. t\<lparr>rt_tag := point_at i j (rt_tag t)\<rparr>) (st_recurring s)\<rparr>"

lemma repo_delete_tag_iff [act_iff]: "repo_delete_tag i s = (r, s') \<longleftrightarrow> r = Inr () \<and> s' = tag_deleted i s"
  by (auto simp: repo_delete_tag_def tag_deleted_def sbind_def bump_where_def bump_def touched_def gets_def update_store_def)

lemma repo_reassign_tag:
  "sbind (repo_reassign_tag_transactions i j) (\<lambda>_. sbind (repo_reassign_tag_recurring i j) (\<lambda>_. m)) s = m (tag_repointed i j s)"
  by (simp add: repo_reassign_tag_transactions_def repo_reassign_tag_recurring_def tag_repointed_def sbind_def bump_where_def
      bump_def touched_def gets_def update_store_def)

lemma delete_tag_effect:
  "delete_tag pf u q s = (Inr x, s') \<Longrightarrow>
   \<exists>r\<in>set (st_tags s). pf_uuid pf q = Some (tag_id r) \<and> tag_user r = u \<and>
     s' = flush (tag_deleted (tag_id r) (s\<lparr>st_pending := []\<rparr>))"
  by (auto simp: delete_tag_def tag_repo tags.get_def act_iff dest!: find_row_Some)


lemma merge_tag_effect:
  "merge_tag pf now new_id u req s = (Inr x, s') \<Longrightarrow>
   \<exists>src\<in>set (st_tags s). \<exists>dst\<in>set (st_tags s). \<exists>s2.
     pf_uuid pf (merge_tag_source req) = Some (tag_id src) \<and> pf_uuid pf (merge_tag_target req) = Some (tag_id dst) \<and>
     tag_id src \<noteq> tag_id dst \<and> tag_user src = u \<and> tag_user dst = u \<and>
     merge_elements now new_id (tag_id src) (tag_id dst) (tag_repointed (tag_id src) (tag_id dst) (s\<lparr>st_pending := []\<rparr>)) = (Inr (), s2) \<and>
     s' = flush (tag_deleted (tag_id src) s2)"
  by (auto simp: merge_tag_def tag_repo tags.get_def repo_reassign_tag act_iff dest!: find_row_Some)


lemma merge_tag_tables:
  assumes "merge_tag pf now new_id u req s = (Inr x, s')"
  shows "\<exists>src\<in>set (st_tags s). \<exists>dst\<in>set (st_tags s).
     pf_uuid pf (merge_tag_source req) = Some (tag_id src) \<and> pf_uuid pf (merge_tag_target req) = Some (tag_id dst) \<and>
     tag_id src \<noteq> tag_id dst \<and> tag_user src = u \<and> tag_user dst = u \<and>
     st_tags s' = delete_row tag_id (tag_id src) (st_tags s) \<and>
     st_transactions s' = map (\<lambda>t. t\<lparr>tx_tag := point_at (tag_id src) (tag_id dst) (tx_tag t)\<rparr>) (st_transactions s) \<and>
     st_recurring s' = map (\<lambda>t. t\<lparr>rt_tag := point_at (tag_id src) (tag_id dst) (rt_tag t)\<rparr>) (st_recurring s) \<and>
     st_accounts s' = map (bump_account (accounts_of (\<lambda>t. tx_tag t = Some (tag_id src)) (st_transactions s))) (st_accounts s) \<and>
     st_categories s' = st_categories s \<and> st_payees s' = st_payees s \<and> st_labels s' = st_labels s \<and>
     st_envelope_categories s' = st_envelope_categories s \<and> st_access s' = st_access s \<and> st_operations s' = st_operations s"
proof -
  obtain src dst s2 where m: "src \<in> set (st_tags s)" "dst \<in> set (st_tags s)"
     "pf_uuid pf (merge_tag_source req) = Some (tag_id src)" "pf_uuid pf (merge_tag_target req) = Some (tag_id dst)"
     "tag_id src \<noteq> tag_id dst" "tag_user src = u" "tag_user dst = u"
     and el: "merge_elements now new_id (tag_id src) (tag_id dst) (tag_repointed (tag_id src) (tag_id dst) (s\<lparr>st_pending := []\<rparr>)) = (Inr (), s2)"
     and s': "s' = flush (tag_deleted (tag_id src) s2)"
    using merge_tag_effect[OF assms] by blast
  have "st_tags s' = delete_row tag_id (tag_id src) (st_tags s) \<and>
     st_transactions s' = map (\<lambda>t. t\<lparr>tx_tag := point_at (tag_id src) (tag_id dst) (tx_tag t)\<rparr>) (st_transactions s) \<and>
     st_recurring s' = map (\<lambda>t. t\<lparr>rt_tag := point_at (tag_id src) (tag_id dst) (rt_tag t)\<rparr>) (st_recurring s) \<and>
     st_accounts s' = map (bump_account (accounts_of (\<lambda>t. tx_tag t = Some (tag_id src)) (st_transactions s))) (st_accounts s) \<and>
     st_categories s' = st_categories s \<and> st_payees s' = st_payees s \<and> st_labels s' = st_labels s \<and>
     st_envelope_categories s' = st_envelope_categories s \<and> st_access s' = st_access s \<and> st_operations s' = st_operations s"
    unfolding s' using m(5) merge_elements_tables[OF el]
    by (simp add: tag_deleted_def tag_repointed_def set_none_point_at comp_def flush_accounts accounts_of_map)
  with m show ?thesis by blast
qed

subsection \<open>The calls of the service\<close>

datatype tag_call =
    CreateTag ident create_tag_request
  | UpdateTag update_tag_request
  | ArchiveTag string
  | UnarchiveTag string
  | DeleteTag string
  | MergeTag merge_tag_request
  | MoveTag move_tag_request
  | SortTagList "string list"
  | GetTagList

text \<open>A call with its result left out; \<open>CreateTag\<close> carries the id that \<open>vo.NewId\<close> gives.\<close>

fun tag_perform :: "platform \<Rightarrow> instant \<Rightarrow> instant \<Rightarrow> (ident \<Rightarrow> ident) \<Rightarrow> ident \<Rightarrow> tag_call \<Rightarrow> unit act" where
  "tag_perform pf claim_now now new_id u (CreateTag fresh q) = sbind (create_tag pf claim_now now fresh u q) (\<lambda>_. ret ())"
| "tag_perform pf claim_now now new_id u (UpdateTag q) = sbind (update_tag pf now u q) (\<lambda>_. ret ())"
| "tag_perform pf claim_now now new_id u (ArchiveTag q) = archive_tag pf now u q"
| "tag_perform pf claim_now now new_id u (UnarchiveTag q) = unarchive_tag pf now u q"
| "tag_perform pf claim_now now new_id u (DeleteTag q) = delete_tag pf u q"
| "tag_perform pf claim_now now new_id u (MergeTag q) = merge_tag pf now new_id u q"
| "tag_perform pf claim_now now new_id u (MoveTag q) = sbind (move_tag pf now u q) (\<lambda>_. ret ())"
| "tag_perform pf claim_now now new_id u (SortTagList q) = sbind (sort_tag_list now u q) (\<lambda>_. ret ())"
| "tag_perform pf claim_now now new_id u GetTagList = sbind (get_tag_list u) (\<lambda>_. ret ())"

fun tag_fresh :: "store \<Rightarrow> tag_call \<Rightarrow> bool" where
  "tag_fresh s (CreateTag fresh q) = (fresh \<noteq> [] \<and> fresh \<notin> tag_id ` set (st_tags s))"
| "tag_fresh s _ = True"

text \<open>A call on the own table is one abstract step for the caller or, creating in a shared account, for its owner.\<close>

lemma tag_created_change:
  assumes "create_tag pf claim_now now fresh u q s = (Inr x, s')" "tags.wf (st_tags s)"
    "fresh \<noteq> []" "fresh \<notin> tag_id ` set (st_tags s)"
  shows "\<exists>v. acts_for s u v \<and> tags.change (tag_name_free pf s) v (st_tags s) (st_tags s')"
  using create_tag_effect[OF assms(1)] assms(2-4)
  by (fastforce dest: creates_for_acts intro!: tags.add_change simp: tag_set_sort_key_def new_tag_def)

lemma tag_moved_change:
  assumes "move_tag pf now u q s = (Inr x, s')" "tags.wf (st_tags s)"
  shows "tags.change free u (st_tags s) (st_tags s') \<and> s' = s\<lparr>st_tags := st_tags s', st_pending := []\<rparr> \<and>
    tag_id ` set (st_tags s') = tag_id ` set (st_tags s)"
  using move_tag_effect[OF assms(1)] assms(2)
    tags.move_rows_change[of "s\<lparr>st_pending := []\<rparr>" now u _ _ _ free] by fastforce

lemma tag_sorted_change:
  assumes "sort_tag_list now u q s = (Inr x, s')" "tags.wf (st_tags s)"
  shows "tags.change free u (st_tags s) (st_tags s') \<and> s' = s\<lparr>st_tags := st_tags s', st_pending := []\<rparr> \<and>
    tag_id ` set (st_tags s') = tag_id ` set (st_tags s)"
  using sort_tag_list_effect[OF assms(1)] assms(2)
    tags.sort_rows_change[of "s\<lparr>st_pending := []\<rparr>" now u q _ free] by fastforce

lemma tag_perform_atomic: "atomic (tag_perform pf claim_now now new_id u c)"
proof -
  have "atomic (create_tag pf claim_now now fresh u q)" for fresh q
    unfolding create_tag_rows
    by ((rule atomic_sbind_lift)+, rule atomic_sbind_owner, rule tag_checks_read_only, rule atomic_sbind_total, rule atomic_with_tx, rule tag_results_total)
  moreover have "atomic (update_tag pf now u q)" for q
    unfolding update_tag_def tag_mutate_with_unique_row tags.change_row_def by ((rule atomic_sbind_lift)+, rule atomic_sbind_total, rule atomic_with_tx, rule tag_results_total)
  moreover have "atomic (archive_tag pf now u q)" "atomic (unarchive_tag pf now u q)" for q
    unfolding archive_tag_def unarchive_tag_def tag_mutate_row tags.change_row_def
    by (rule atomic_sbind_lift, rule atomic_done, rule atomic_with_tx)+
  ultimately show ?thesis
    by (cases c) (auto simp: delete_tag_def merge_tag_def move_tag_rows sort_tag_rows
      intro: atomic_done atomic_sbind_lift atomic_with_tx atomic_read_only tag_results_total)
qed

lemma tag_perform_change:
  assumes "tag_perform pf claim_now now new_id u c s = (Inr x, s')" "tags.wf (st_tags s)" "tag_fresh s c"
  shows "\<exists>v. acts_for s u v \<and> tags.change (tag_name_free pf s) v (st_tags s) (st_tags s')"
proof (cases c)
  case (CreateTag fresh q)
  then show ?thesis using assms tag_created_change[OF _ assms(2)] by (auto simp: act_iff)
next
  case (UpdateTag q)
  then obtain r where "r \<in> set (st_tags s)" "tag_user r = u" "tag_name_free pf s u (update_tag_new_name q) (tag_id r)"
    "st_tags s' = tags.replace (tag_id r) (tag_update_name (update_tag_new_name q) now r) (st_tags s)"
    using assms(1) by (auto simp: act_iff dest!: update_tag_effect)
  then show ?thesis using assms(2) tags.put_change[of "st_tags s" r "tag_update_name (update_tag_new_name q) now r" "tag_name_free pf s"]
    by (intro exI[of _ u]) simp
next
  case (ArchiveTag q)
  then obtain r where "r \<in> set (st_tags s)" "tag_user r = u"
    "st_tags s' = tags.replace (tag_id r) (tag_archive now r) (st_tags s)"
    using assms(1) by (auto dest!: archive_tag_effect)
  then show ?thesis using assms(2) tags.put_change[of "st_tags s" r "tag_archive now r" "tag_name_free pf s"]
    by (intro exI[of _ u]) simp
next
  case (UnarchiveTag q)
  then obtain r where "r \<in> set (st_tags s)" "tag_user r = u"
    "st_tags s' = tags.replace (tag_id r) (tag_unarchive now r) (st_tags s)"
    using assms(1) by (auto dest!: unarchive_tag_effect)
  then show ?thesis using assms(2) tags.put_change[of "st_tags s" r "tag_unarchive now r" "tag_name_free pf s"]
    by (intro exI[of _ u]) simp
next
  case (DeleteTag q)
  then obtain r where "r \<in> set (st_tags s)" "tag_user r = u" "st_tags s' = delete_row tag_id (tag_id r) (st_tags s)"
    using assms(1) by (auto simp: tag_deleted_def dest!: delete_tag_effect)
  then show ?thesis using tags.change.drop[of r "st_tags s" u] by (intro exI[of _ u]) simp
next
  case (MergeTag q)
  then have "merge_tag pf now new_id u q s = (Inr x, s')" using assms(1) by simp
  from merge_tag_tables[OF this] obtain r where
    "r \<in> set (st_tags s)" "tag_user r = u" "st_tags s' = delete_row tag_id (tag_id r) (st_tags s)" by blast
  then show ?thesis using tags.change.drop[of r "st_tags s" u] by (intro exI[of _ u]) simp
next
  case (MoveTag q)
  then obtain y where "move_tag pf now u q s = (Inr y, s')" using assms(1) by (auto simp: sbind_Inr_iff ret_iff)
  from tag_moved_change[OF this assms(2)] show ?thesis by (intro exI[of _ u]) simp
next
  case (SortTagList q)
  then obtain y where "sort_tag_list now u q s = (Inr y, s')" using assms(1) by (auto simp: sbind_Inr_iff ret_iff)
  from tag_sorted_change[OF this assms(2)] show ?thesis by (intro exI[of _ u]) simp
next
  case GetTagList
  then have "s' = s" using assms(1) read_only_outcome[OF tag_results_total(5)] by (auto simp: act_iff)
  then show ?thesis using tags.change.same by (intro exI[of _ u]) simp
qed

lemma tag_perform_rest:
  assumes "tag_perform pf claim_now now new_id u c s = (Inr x, s')" "tags.wf (st_tags s)"
  shows "(st_categories s' = st_categories s \<and> st_payees s' = st_payees s \<and> st_labels s' = st_labels s \<and> st_access s' = st_access s) \<and>
    (category_refs s' = category_refs s \<and> payee_refs s' = payee_refs s \<and> label_refs s' = label_refs s) \<and>
    (tag_refs s \<subseteq> tag_id ` set (st_tags s) \<longrightarrow> tag_refs s' \<subseteq> tag_id ` set (st_tags s'))"
proof (cases c)
  case (CreateTag fresh q)
  then obtain y where "create_tag pf claim_now now fresh u q s = (Inr y, s')" using assms(1) by (auto simp: sbind_Inr_iff ret_iff)
  from create_tag_effect[OF this] obtain r ops where
    "s' = s\<lparr>st_tags := upsert_row tag_id r (st_tags s), st_operations := ops, st_pending := []\<rparr>" by metis
  then show ?thesis using upsert_ids[of tag_id r "st_tags s"] by (auto simp: refs_defs)
next
  case (UpdateTag q)
  then obtain y where "update_tag pf now u q s = (Inr y, s')" using assms(1) by (auto simp: sbind_Inr_iff ret_iff)
  from update_tag_effect[OF this] obtain i r where
    "s' = s\<lparr>st_tags := tags.replace i r (st_tags s), st_pending := []\<rparr>" "tag_id r = i" by fastforce
  then show ?thesis using tags.replace_id_set[of r i "st_tags s"] by (simp add: refs_defs)
next
  case (ArchiveTag q)
  then have "archive_tag pf now u q s = (Inr x, s')" using assms(1) by simp
  from archive_tag_effect[OF this] obtain i r where
    "s' = s\<lparr>st_tags := tags.replace i r (st_tags s), st_pending := []\<rparr>" "tag_id r = i" by fastforce
  then show ?thesis using tags.replace_id_set[of r i "st_tags s"] by (simp add: refs_defs)
next
  case (UnarchiveTag q)
  then have "unarchive_tag pf now u q s = (Inr x, s')" using assms(1) by simp
  from unarchive_tag_effect[OF this] obtain i r where
    "s' = s\<lparr>st_tags := tags.replace i r (st_tags s), st_pending := []\<rparr>" "tag_id r = i" by fastforce
  then show ?thesis using tags.replace_id_set[of r i "st_tags s"] by (simp add: refs_defs)
next
  case (DeleteTag q)
  then have "delete_tag pf u q s = (Inr x, s')" using assms(1) by simp
  from delete_tag_effect[OF this] obtain i where s': "s' = flush (tag_deleted i (s\<lparr>st_pending := []\<rparr>))" by blast
  have "tag_refs s' \<subseteq> tag_refs s - {i}" "tag_id ` set (st_tags s') = tag_id ` set (st_tags s) - {i}"
    unfolding s' by (auto simp: tag_deleted_def refs_defs delete_ids)
  moreover have "st_categories s' = st_categories s \<and> st_payees s' = st_payees s \<and> st_labels s' = st_labels s \<and> st_access s' = st_access s" "category_refs s' = category_refs s \<and> payee_refs s' = payee_refs s \<and> label_refs s' = label_refs s"
    unfolding s' by (simp_all add: tag_deleted_def refs_defs)
  ultimately show ?thesis by auto
next
  case (MergeTag q)
  then have "merge_tag pf now new_id u q s = (Inr x, s')" using assms(1) by simp
  from merge_tag_tables[OF this] show ?thesis
  proof (elim bexE conjE)
    fix src dst assume m: "dst \<in> set (st_tags s)" "tag_id src \<noteq> tag_id dst" "st_tags s' = delete_row tag_id (tag_id src) (st_tags s)"
    "st_transactions s' = map (\<lambda>t. t\<lparr>tx_tag := point_at (tag_id src) (tag_id dst) (tx_tag t)\<rparr>) (st_transactions s)"
    "st_recurring s' = map (\<lambda>t. t\<lparr>rt_tag := point_at (tag_id src) (tag_id dst) (rt_tag t)\<rparr>) (st_recurring s)"
    "st_access s' = st_access s" "st_categories s' = st_categories s" "st_payees s' = st_payees s" "st_labels s' = st_labels s" "st_envelope_categories s' = st_envelope_categories s"
    have "tag_refs s' \<subseteq> insert (tag_id dst) (tag_refs s - {tag_id src})"
      using m by (auto simp: refs_defs point_at_Some)
    moreover have "tag_id ` set (st_tags s') = tag_id ` set (st_tags s) - {tag_id src}"
      unfolding m(3) by (rule delete_ids)
    moreover have "st_categories s' = st_categories s \<and> st_payees s' = st_payees s \<and> st_labels s' = st_labels s \<and> st_access s' = st_access s" "category_refs s' = category_refs s \<and> payee_refs s' = payee_refs s \<and> label_refs s' = label_refs s"
      using m by (simp_all add: refs_defs)
    ultimately show ?thesis using m(1,2) by auto
  qed
next
  case (MoveTag q)
  then obtain y where "move_tag pf now u q s = (Inr y, s')" using assms(1) by (auto simp: sbind_Inr_iff ret_iff)
  from tag_moved_change[OF this assms(2)] obtain ys where
    "s' = s\<lparr>st_tags := ys, st_pending := []\<rparr>" "tag_id ` set (st_tags s') = tag_id ` set (st_tags s)" by blast
  then show ?thesis by (simp add: refs_defs)
next
  case (SortTagList q)
  then obtain y where "sort_tag_list now u q s = (Inr y, s')" using assms(1) by (auto simp: sbind_Inr_iff ret_iff)
  from tag_sorted_change[OF this assms(2)] obtain ys where
    "s' = s\<lparr>st_tags := ys, st_pending := []\<rparr>" "tag_id ` set (st_tags s') = tag_id ` set (st_tags s)" by blast
  then show ?thesis by (simp add: refs_defs)
next
  case GetTagList
  then have "s' = s" using assms(1) read_only_outcome[OF tag_results_total(5)] by (auto simp: act_iff)
  then show ?thesis by simp
qed

text \<open>The operation id a call would claim.\<close>

fun tag_operation :: "tag_call \<Rightarrow> string option" where
  "tag_operation (CreateTag fresh q) = Some (create_tag_id q)"
| "tag_operation _ = None"

lemma tag_perform_operations:
  assumes "tag_perform pf claim_now now new_id u c s = (Inr x, s')" "tags.wf (st_tags s)"
  shows "op_id ` set (st_operations s') = op_id ` set (st_operations s) \<union> claimed_by pf (tag_operation c) \<and>
    op_id ` set (st_operations s) \<inter> claimed_by pf (tag_operation c) = {}"
proof (cases c)
  case (CreateTag fresh q)
  then obtain y where "create_tag pf claim_now now fresh u q s = (Inr y, s')" using assms(1) by (auto simp: sbind_Inr_iff ret_iff)
  from create_tag_effect[OF this] show ?thesis using CreateTag by (elim exE conjE) (simp add: claimed_by_def)
next
  case (UpdateTag q)
  then obtain y where "update_tag pf now u q s = (Inr y, s')" using assms(1) by (auto simp: sbind_Inr_iff ret_iff)
  from update_tag_effect[OF this] show ?thesis using UpdateTag by (elim bexE conjE) (simp add: claimed_by_def)
next
  case (ArchiveTag q)
  then have "archive_tag pf now u q s = (Inr x, s')" using assms(1) by simp
  from archive_tag_effect[OF this] show ?thesis using ArchiveTag by (elim bexE conjE) (simp add: claimed_by_def)
next
  case (UnarchiveTag q)
  then have "unarchive_tag pf now u q s = (Inr x, s')" using assms(1) by simp
  from unarchive_tag_effect[OF this] show ?thesis using UnarchiveTag by (elim bexE conjE) (simp add: claimed_by_def)
next
  case (DeleteTag q)
  then have "delete_tag pf u q s = (Inr x, s')" using assms(1) by simp
  from delete_tag_effect[OF this] show ?thesis using DeleteTag
    by (elim bexE conjE) (simp add: claimed_by_def tag_deleted_def)
next
  case (MergeTag q)
  then have "merge_tag pf now new_id u q s = (Inr x, s')" using assms(1) by simp
  from merge_tag_tables[OF this] show ?thesis using MergeTag by (elim bexE conjE) (simp add: claimed_by_def)
next
  case (MoveTag q)
  then obtain y where "move_tag pf now u q s = (Inr y, s')" using assms(1) by (auto simp: sbind_Inr_iff ret_iff)
  from tag_moved_change[OF this assms(2)] obtain ys where "s' = s\<lparr>st_tags := ys, st_pending := []\<rparr>" by blast
  then show ?thesis using MoveTag by (simp add: claimed_by_def)
next
  case (SortTagList q)
  then obtain y where "sort_tag_list now u q s = (Inr y, s')" using assms(1) by (auto simp: sbind_Inr_iff ret_iff)
  from tag_sorted_change[OF this assms(2)] obtain ys where "s' = s\<lparr>st_tags := ys, st_pending := []\<rparr>" by blast
  then show ?thesis using SortTagList by (simp add: claimed_by_def)
next
  case GetTagList
  then have "s' = s" using assms(1) read_only_outcome[OF tag_results_total(5)] by (auto simp: act_iff)
  then show ?thesis using GetTagList by (simp add: claimed_by_def)
qed

end
