(* ===== verification/Payee_Service.thy ===== *)
theory Payee_Service
  imports Classified_Table
begin

section \<open>The payee service\<close>

text \<open>
  \<open>internal/payee\<close>: the payee service. Payee names are unique per owner as written; payees have no budget presence.
  The id of a new row is an argument (\<open>vo.NewId\<close>), as are the readings of the clock; a request has been through
  its \<open>Validate\<close>.
\<close>

definition payee_to_result :: "payee \<Rightarrow> payee_result" where
  "payee_to_result r =
     \<lparr>payee_res_id = payee_id r, payee_res_owner = payee_user r, payee_res_name = payee_name r,
      payee_res_position = 0,
      payee_res_archived = (if payee_archived r then 1 else 0),
      payee_res_created = format_layout (payee_created r), payee_res_updated = format_layout (payee_updated r)\<rparr>"

definition payee_to_view_result :: "payee \<Rightarrow> payee_result" where
  "payee_to_view_result r =
     \<lparr>payee_res_id = payee_id r, payee_res_owner = payee_user r, payee_res_name = payee_name r,
      payee_res_position = 0,
      payee_res_archived = (if payee_archived r then 1 else 0),
      payee_res_created = format_layout (payee_created r), payee_res_updated = format_layout (payee_updated r)\<rparr>"

definition payee_assign_positions :: "payee_result list \<Rightarrow> payee_result list" where
  "payee_assign_positions items = map (\<lambda>(i, it). it\<lparr>payee_res_position := i\<rparr>) (enumerate 0 items)"

definition payee_list_results :: "ident \<Rightarrow> payee_result list act" where
  "payee_list_results user =
     sbind (payee_list_view user) (\<lambda>rows. ret (payee_assign_positions (map payee_to_view_result rows)))"

definition payee_item_result :: "ident \<Rightarrow> payee \<Rightarrow> payee_result act" where
  "payee_item_result user r =
     sbind (payee_list_results user) (\<lambda>items.
       ret (case map_of (map (\<lambda>(i, it). (payee_res_id it, i)) (enumerate 0 items)) (payee_id r) of
              Some i \<Rightarrow> (payee_to_result r)\<lparr>payee_res_position := i\<rparr>
            | None \<Rightarrow> payee_to_result r))"

definition get_payee_list :: "ident \<Rightarrow> payee_result list act" where
  "get_payee_list user =
     sbind (payee_list_view user) (\<lambda>rows. ret (payee_assign_positions (map payee_to_view_result rows)))"

definition payee_resolve_account_owner :: "ident \<Rightarrow> ident \<Rightarrow> ident act" where
  "payee_resolve_account_owner user account_id =
     sbind (account_owner account_id) (\<lambda>owner.
       if owner = user then ret owner
       else sbind (has_admin_grant account_id user) (\<lambda>is_admin.
         if is_admin then ret owner else fail (AccessDeniedError ''Access is not allowed'' [] 0)))"

definition new_payee_name :: "string \<Rightarrow> string result" where
  "new_payee_name v =
     (let n = rune_count v in
      if n < 3 \<or> 64 < n
      then Inl (ValidationError ''Payee name must be 3-64 characters'' []
             [\<lparr>fe_key = ''name'', fe_message = ''Payee name must be 3-64 characters'', fe_code = ''payee.name_length''\<rparr>])
      else Inr v)"

definition payee_name_taken :: go_error where
  "payee_name_taken = ValidationError ''Payee already exists.'' ''payee.already_exists'' []"

definition payee_ensure_name_unique :: "ident \<Rightarrow> string \<Rightarrow> ident \<Rightarrow> unit act" where
  "payee_ensure_name_unique user name except_id =
     sbind (repo_list_payees user) (\<lambda>rows.
       if \<exists>r\<in>set rows. payee_name r = name \<and> payee_id r \<noteq> except_id then fail payee_name_taken else ret ())"

definition payee_mutate :: "instant \<Rightarrow> ident \<Rightarrow> ident \<Rightarrow> (instant \<Rightarrow> payee \<Rightarrow> payee) \<Rightarrow> payee act" where
  "payee_mutate now i user fn =
     with_tx (sbind (repo_get_payee i) (\<lambda>r.
       if payee_user r \<noteq> user then fail (NotFoundError ''Payee not found'')
       else sbind (repo_save_payee (fn now r)) (\<lambda>_. ret (fn now r))))"

definition payee_mutate_checked ::
  "instant \<Rightarrow> ident \<Rightarrow> ident \<Rightarrow> (instant \<Rightarrow> payee \<Rightarrow> payee act) \<Rightarrow> payee act" where
  "payee_mutate_checked now i user fn =
     with_tx (sbind (repo_get_payee i) (\<lambda>r.
       if payee_user r \<noteq> user then fail (NotFoundError ''Payee not found'')
       else sbind (fn now r) (\<lambda>r'. sbind (repo_save_payee r') (\<lambda>_. ret r'))))"

definition payee_item :: "payee \<Rightarrow> item" where
  "payee_item r = \<lparr>item_id = payee_id r, item_key = payee_sort_key r\<rparr>"

subsection \<open>Create\<close>

definition create_payee ::
  "platform \<Rightarrow> instant \<Rightarrow> instant \<Rightarrow> ident \<Rightarrow> ident \<Rightarrow> create_payee_request \<Rightarrow> payee_result act" where
  "create_payee pf claim_now now fresh user req =
     sbind (lift (parse_id (pf_uuid pf) (create_payee_id req))) (\<lambda>oid.
     sbind (lift (new_payee_name (create_payee_name req))) (\<lambda>name.
     sbind (case create_payee_account req of
              None \<Rightarrow> ret user
            | Some a \<Rightarrow> if a = [] then ret user
                else sbind (lift (parse_id (pf_uuid pf) a)) (\<lambda>account_id.
                  payee_resolve_account_owner user account_id)) (\<lambda>owner.
     sbind (with_tx (
         sbind (claim oid claim_now) (\<lambda>already. if already then fail operation_locked else 
         sbind (payee_ensure_name_unique owner name []) (\<lambda>_.
         sbind (repo_list_payees owner) (\<lambda>rows.
         sbind (lift (append_key rows payee_item GrowsUp)) (\<lambda>k.
         let r = payee_set_sort_key k (new_payee fresh owner name now) in
         sbind (repo_save_payee r) (\<lambda>_.
         sbind (mark_handled oid now) (\<lambda>_. ret r)))))))) (\<lambda>created.
     payee_item_result owner created))))"

subsection \<open>Update, archive, unarchive\<close>

definition update_payee :: "platform \<Rightarrow> instant \<Rightarrow> ident \<Rightarrow> update_payee_request \<Rightarrow> unit act" where
  "update_payee pf now user req =
     sbind (lift (parse_id (pf_uuid pf) (update_payee_id req))) (\<lambda>i.
     sbind (lift (new_payee_name (update_payee_new_name req))) (\<lambda>name.
     sbind (payee_mutate_checked now i user (\<lambda>now r.
         sbind (payee_ensure_name_unique user name i) (\<lambda>_. ret (payee_update_name name now r))))
       (\<lambda>_. ret ())))"

definition archive_payee :: "platform \<Rightarrow> instant \<Rightarrow> ident \<Rightarrow> string \<Rightarrow> unit act" where
  "archive_payee pf now user req_id =
     sbind (lift (parse_id (pf_uuid pf) req_id)) (\<lambda>i.
     sbind (payee_mutate now i user payee_archive) (\<lambda>_. ret ()))"

definition unarchive_payee :: "platform \<Rightarrow> instant \<Rightarrow> ident \<Rightarrow> string \<Rightarrow> unit act" where
  "unarchive_payee pf now user req_id =
     sbind (lift (parse_id (pf_uuid pf) req_id)) (\<lambda>i.
     sbind (payee_mutate now i user payee_unarchive) (\<lambda>_. ret ()))"

subsection \<open>Delete and merge\<close>

definition delete_payee :: "platform \<Rightarrow> ident \<Rightarrow> string \<Rightarrow> unit act" where
  "delete_payee pf user req_id =
     sbind (lift (parse_id (pf_uuid pf) req_id)) (\<lambda>i.
     with_tx (sbind (repo_get_payee i) (\<lambda>r.
       if payee_user r \<noteq> user then fail (NotFoundError ''Payee not found'') else repo_delete_payee i)))"

definition payee_cannot_merge :: go_error where
  "payee_cannot_merge = ValidationError ''The selected payees cannot be merged'' ''payee.cannot_be_merged'' []"

definition merge_payee :: "platform \<Rightarrow> ident \<Rightarrow> merge_payee_request \<Rightarrow> unit act" where
  "merge_payee pf user req =
     sbind (lift (parse_id (pf_uuid pf) (merge_payee_source req))) (\<lambda>source_id.
     sbind (lift (parse_id (pf_uuid pf) (merge_payee_target req))) (\<lambda>target_id.
     with_tx (sbind (repo_get_payee source_id) (\<lambda>source.
       if payee_user source \<noteq> user then fail (NotFoundError ''Payee not found'')
       else if source_id = target_id then fail payee_cannot_merge
       else sbind (repo_get_payee target_id) (\<lambda>target.
       if payee_user target \<noteq> user then fail payee_cannot_merge
       else sbind (repo_reassign_payee_transactions source_id target_id) (\<lambda>_.
            sbind (repo_reassign_payee_recurring source_id target_id) (\<lambda>_.
            repo_delete_payee source_id)))))))"

subsection \<open>Move and sort\<close>

definition move_payee :: "platform \<Rightarrow> instant \<Rightarrow> ident \<Rightarrow> move_payee_request \<Rightarrow> payee_result list act" where
  "move_payee pf now user req =
     sbind (lift (parse_id (pf_uuid pf) (move_payee_id req))) (\<lambda>i.
     let after_id = (case move_payee_after req of None \<Rightarrow> [] | Some a \<Rightarrow> a) in
     with_tx (sbind (repo_list_payees user) (\<lambda>rows.
       sbind (lift (move_within rows i after_id payee_item GrowsUp)) (\<lambda>moved.
       sbind (case moved of
                None \<Rightarrow> ret ()
              | Some (r, k) \<Rightarrow> repo_save_payee (payee_update_sort_key k now r)) (\<lambda>_.
       payee_list_results user)))))"

definition sort_payee_list :: "instant \<Rightarrow> ident \<Rightarrow> string list \<Rightarrow> payee_result list act" where
  "sort_payee_list now user ids =
     with_tx (sbind (repo_list_payees user) (\<lambda>rows.
       sbind (lift (resequence rows ids payee_item GrowsUp)) (\<lambda>changed.
       sbind (for_each rows (\<lambda>row.
                case changed (payee_id row) of
                  None \<Rightarrow> ret ()
                | Some k \<Rightarrow> repo_save_payee (payee_update_sort_key k now row))) (\<lambda>_.
       payee_list_results user))))"

subsection \<open>The table of payees\<close>

lemma payee_mutators [simp]:
  "payee_id (payee_archive now r) = payee_id r" "payee_user (payee_archive now r) = payee_user r"
  "payee_name (payee_archive now r) = payee_name r" "payee_sort_key (payee_archive now r) = payee_sort_key r"
  "payee_id (payee_unarchive now r) = payee_id r" "payee_user (payee_unarchive now r) = payee_user r"
  "payee_name (payee_unarchive now r) = payee_name r" "payee_sort_key (payee_unarchive now r) = payee_sort_key r"
  "payee_id (payee_update_name nm now r) = payee_id r" "payee_user (payee_update_name nm now r) = payee_user r"
  "payee_name (payee_update_name nm now r) = nm" "payee_sort_key (payee_update_name nm now r) = payee_sort_key r"
  by (simp_all add: payee_archive_def payee_unarchive_def payee_update_name_def)

interpretation payees: classified_table st_payees "\<lambda>xs s. s\<lparr>st_payees := xs\<rparr>" payee_id payee_user payee_sort_key
    payee_update_sort_key payee_name
  by unfold_locales (auto simp: payee_update_sort_key_def)

lemma payee_repo:
  "repo_get_payee = payees.get ''Payee not found''" "repo_list_payees = payees.list_of" "repo_save_payee = payees.save"
  "payee_item = payees.as_item"
  by (simp_all add: fun_eq_iff repo_get_payee_def payees.get_def repo_list_payees_def payees.list_of_def payees.own_def
      repo_save_payee_def payees.save_def payee_item_def payees.as_item_def)

lemma payee_results_total [atomic_intro]:
  "read_only (payee_list_results u)" "total (payee_list_results u)"
  "read_only (payee_item_result u r)" "total (payee_item_result u r)" "read_only (get_payee_list u)" "total (get_payee_list u)"
  unfolding payee_list_results_def payee_item_result_def get_payee_list_def payee_list_view_def by (intro atomic_intro)+

lemma new_payee_name_Inr: "new_payee_name v = Inr n \<longleftrightarrow> n = v \<and> 3 \<le> rune_count v \<and> rune_count v \<le> 64"
  by (auto simp: new_payee_name_def Let_def)


definition payee_name_free :: "store \<Rightarrow> ident \<Rightarrow> string \<Rightarrow> ident \<Rightarrow> bool" where
  "payee_name_free s u name except \<longleftrightarrow>
     (\<forall>r\<in>set (st_payees s). payee_user r = u \<and> payee_id r \<noteq> except \<longrightarrow> payee_name r \<noteq> name)"

lemma payee_ensure_name_unique_Inr:
  "payee_ensure_name_unique u name except s = (Inr (), s') \<longleftrightarrow> s' = s \<and> payee_name_free s u name except"
  by (auto simp: payee_ensure_name_unique_def payee_name_free_def payee_repo payees.list_of_def act_iff split: if_splits)

lemma payee_name_free_frame [simp]:
  "payee_name_free (s\<lparr>st_pending := p\<rparr>) = payee_name_free s"
  "payee_name_free (s\<lparr>st_operations := ops\<rparr>) = payee_name_free s"
  by (simp_all add: payee_name_free_def fun_eq_iff)


lemma payee_checks_read_only [atomic_intro]:
  "read_only (payee_resolve_account_owner u i)" "read_only (payee_ensure_name_unique u name ex)"
  unfolding payee_resolve_account_owner_def payee_ensure_name_unique_def payee_repo payees.list_of_def
  by (intro atomic_intro)+

lemma payee_resolve_Inr:
  "payee_resolve_account_owner u a s = (Inr owner, s') \<longleftrightarrow> s' = s \<and> may_create_in s u a owner"
  unfolding payee_resolve_account_owner_def by (rule resolve_Inr)

lemma payee_mutate_row: "payee_mutate now i u fn = payees.change_row ''Payee not found'' i u (ret ()) (fn now)"
  unfolding payee_mutate_def payees.change_row_def payee_repo ret_sbind ..


lemma archive_payee_effect:
  "archive_payee pf now u q s = (Inr x, s') \<Longrightarrow>
   \<exists>r\<in>set (st_payees s). pf_uuid pf q = Some (payee_id r) \<and> payee_user r = u \<and>
     s' = s\<lparr>st_payees := payees.replace (payee_id r) (payee_archive now r) (st_payees s), st_pending := []\<rparr>"
  using payees.change_row_effect[of "''Payee not found''" _ u "ret ()" "payee_archive now" s _ s']
  by (fastforce simp: archive_payee_def payee_mutate_row act_iff)


lemma unarchive_payee_effect:
  "unarchive_payee pf now u q s = (Inr x, s') \<Longrightarrow>
   \<exists>r\<in>set (st_payees s). pf_uuid pf q = Some (payee_id r) \<and> payee_user r = u \<and>
     s' = s\<lparr>st_payees := payees.replace (payee_id r) (payee_unarchive now r) (st_payees s), st_pending := []\<rparr>"
  using payees.change_row_effect[of "''Payee not found''" _ u "ret ()" "payee_unarchive now" s _ s']
  by (fastforce simp: unarchive_payee_def payee_mutate_row act_iff)


lemma update_payee_row:
  "update_payee pf now u req =
     sbind (lift (parse_id (pf_uuid pf) (update_payee_id req))) (\<lambda>i.
     sbind (lift (new_payee_name (update_payee_new_name req))) (\<lambda>name.
     sbind (payees.change_row ''Payee not found'' i u (payee_ensure_name_unique u name i) (payee_update_name name now)) (\<lambda>_. ret ())))"
  unfolding update_payee_def payee_mutate_checked_def payees.change_row_def payee_repo sbind_assoc ret_sbind ..

lemma update_payee_effect:
  assumes "update_payee pf now u req s = (Inr res, s')"
  shows "\<exists>r\<in>set (st_payees s). pf_uuid pf (update_payee_id req) = Some (payee_id r) \<and> payee_user r = u \<and>
     payee_name_free s u (update_payee_new_name req) (payee_id r) \<and>
     s' = s\<lparr>st_payees := payees.replace (payee_id r) (payee_update_name (update_payee_new_name req) now r) (st_payees s),
            st_pending := []\<rparr>"
proof -
  let ?n = "update_payee_new_name req"
  obtain i r' where i: "pf_uuid pf (update_payee_id req) = Some i"
    and row: "payees.change_row ''Payee not found'' i u (payee_ensure_name_unique u ?n i) (payee_update_name ?n now) s = (Inr r', s')"
    using assms by (auto simp: update_payee_row new_payee_name_Inr act_iff(1-7))
  show ?thesis using payees.change_row_effect[OF row payee_checks_read_only(2)] i
    by (auto simp: payee_ensure_name_unique_Inr)
qed


lemma move_payee_rows:
  "move_payee pf now u req = sbind (lift (parse_id (pf_uuid pf) (move_payee_id req))) (\<lambda>i.
     with_tx (sbind (payees.move_rows now u i (case move_payee_after req of None \<Rightarrow> [] | Some a \<Rightarrow> a)) (\<lambda>_. payee_list_results u)))"
  unfolding move_payee_def payees.move_rows_def payee_repo sbind_assoc Let_def ..

lemma sort_payee_rows:
  "sort_payee_list now u ids = with_tx (sbind (payees.sort_rows now u ids) (\<lambda>_. payee_list_results u))"
  unfolding sort_payee_list_def payees.sort_rows_def payees.save_changed_def [abs_def] payee_repo sbind_assoc ..

lemma move_payee_effect:
  assumes "move_payee pf now u req s = (Inr res, s')"
  shows "\<exists>i s1. pf_uuid pf (move_payee_id req) = Some i \<and>
     payees.move_rows now u i (case move_payee_after req of None \<Rightarrow> [] | Some a \<Rightarrow> a) (s\<lparr>st_pending := []\<rparr>) = (Inr (), s1) \<and>
     s' = flush s1"
proof -
  obtain i where i: "pf_uuid pf (move_payee_id req) = Some i"
    "with_tx (sbind (payees.move_rows now u i (case move_payee_after req of None \<Rightarrow> [] | Some a \<Rightarrow> a)) (\<lambda>_. payee_list_results u)) s
       = (Inr res, s')"
    using assms unfolding move_payee_rows by (auto simp: act_iff(1-7))
  from with_tx_respond_Inr[OF payee_results_total(1) i(2)] i(1) show ?thesis by auto
qed

lemma sort_payee_list_effect:
  assumes "sort_payee_list now u ids s = (Inr res, s')"
  shows "\<exists>s1. payees.sort_rows now u ids (s\<lparr>st_pending := []\<rparr>) = (Inr (), s1) \<and> s' = flush s1"
  using with_tx_respond_Inr[OF payee_results_total(1) assms[unfolded sort_payee_rows]] by auto


lemma create_payee_rows:
  "create_payee pf claim_now now fresh u req =
     sbind (lift (parse_id (pf_uuid pf) (create_payee_id req))) (\<lambda>oid.
     sbind (lift (new_payee_name (create_payee_name req))) (\<lambda>name.
     sbind (owner_act pf u (create_payee_account req) (payee_resolve_account_owner u)) (\<lambda>owner.
     sbind (with_tx (payees.insert_row (payee_ensure_name_unique owner name []) oid claim_now now owner
              (\<lambda>k. payee_set_sort_key k (new_payee fresh owner name now)))) (\<lambda>created.
     payee_item_result owner created))))"
  unfolding create_payee_def payees.insert_row_def owner_act_def payee_repo ..


lemma create_payee_effect:
  assumes "create_payee pf claim_now now fresh u req s = (Inr res, s')"
  shows "\<exists>oid owner k. pf_uuid pf (create_payee_id req) = Some oid \<and> oid \<notin> op_id ` set (st_operations s) \<and>
     3 \<le> rune_count (create_payee_name req) \<and> rune_count (create_payee_name req) \<le> 64 \<and> 
     creates_for pf s u (create_payee_account req) owner \<and> payee_name_free s owner (create_payee_name req) [] \<and> 
     append_key (payees.own (st_payees s) owner) payees.as_item GrowsUp = Inr k \<and>
     s' = s\<lparr>st_payees := upsert_row payee_id (payee_set_sort_key k (new_payee fresh owner (create_payee_name req) now)) (st_payees s),
            st_operations := st_operations s @ [\<lparr>op_id = oid, op_handled = True, op_created = claim_now, op_updated = now\<rparr>],
            st_pending := []\<rparr>"
proof -
  let ?n = "create_payee_name req"
  obtain oid owner r s0 where pre: "pf_uuid pf (create_payee_id req) = Some oid" "3 \<le> rune_count ?n" "rune_count ?n \<le> 64"
      "creates_for pf s u (create_payee_account req) owner"
    and tx: "with_tx (payees.insert_row (payee_ensure_name_unique owner ?n []) oid claim_now now owner
              (\<lambda>k. payee_set_sort_key k (new_payee fresh owner ?n now))) s = (Inr r, s0)"
    and res: "payee_item_result owner r s0 = (Inr res, s')"
    using assms unfolding create_payee_rows
    by (auto simp: act_iff(1-7) owner_act_Inr[OF payee_resolve_Inr] new_payee_name_Inr)
  have "s' = s0" using read_only_outcome[OF payee_results_total(3) res] .
  moreover from tx obtain s1 where s1: "payees.insert_row (payee_ensure_name_unique owner ?n []) oid claim_now now owner
              (\<lambda>k. payee_set_sort_key k (new_payee fresh owner ?n now)) (s\<lparr>st_pending := []\<rparr>) = (Inr r, s1)" "s0 = flush s1"
    by (auto simp: act_iff)
  ultimately show ?thesis using payees.insert_row_effect[OF s1(1) payee_checks_read_only(2)] pre
    by (auto simp: payee_ensure_name_unique_Inr)
qed


text \<open>The database after a deletion and after the two re-pointing statements of a merge.\<close>

definition payee_deleted :: "ident \<Rightarrow> store \<Rightarrow> store" where
  "payee_deleted i s = s\<lparr>st_payees := delete_row payee_id i (st_payees s),
     st_transactions := map (\<lambda>t. t\<lparr>tx_payee := set_none i (tx_payee t)\<rparr>) (st_transactions s),
     st_recurring := map (\<lambda>t. t\<lparr>rt_payee := set_none i (rt_payee t)\<rparr>) (st_recurring s),
     st_pending := st_pending s @ touched (\<lambda>t. tx_payee t = Some i) (st_transactions s)\<rparr>"

definition payee_repointed :: "ident \<Rightarrow> ident \<Rightarrow> store \<Rightarrow> store" where
  "payee_repointed i j s = s\<lparr>st_pending := st_pending s @ touched (\<lambda>t. tx_payee t = Some i) (st_transactions s),
     st_transactions := map (\<lambda>t. t\<lparr>tx_payee := point_at i j (tx_payee t)\<rparr>) (st_transactions s),
     st_recurring := map (\<lambda>t. t\<lparr>rt_payee := point_at i j (rt_payee t)\<rparr>) (st_recurring s)\<rparr>"

lemma repo_delete_payee_iff [act_iff]: "repo_delete_payee i s = (r, s') \<longleftrightarrow> r = Inr () \<and> s' = payee_deleted i s"
  by (auto simp: repo_delete_payee_def payee_deleted_def sbind_def bump_where_def bump_def touched_def gets_def update_store_def)

lemma repo_reassign_payee:
  "sbind (repo_reassign_payee_transactions i j) (\<lambda>_. sbind (repo_reassign_payee_recurring i j) (\<lambda>_. m)) s = m (payee_repointed i j s)"
  by (simp add: repo_reassign_payee_transactions_def repo_reassign_payee_recurring_def payee_repointed_def sbind_def bump_where_def
      bump_def touched_def gets_def update_store_def)

lemma delete_payee_effect:
  "delete_payee pf u q s = (Inr x, s') \<Longrightarrow>
   \<exists>r\<in>set (st_payees s). pf_uuid pf q = Some (payee_id r) \<and> payee_user r = u \<and>
     s' = flush (payee_deleted (payee_id r) (s\<lparr>st_pending := []\<rparr>))"
  by (auto simp: delete_payee_def payee_repo payees.get_def act_iff dest!: find_row_Some)


lemma merge_payee_effect:
  "merge_payee pf u req s = (Inr x, s') \<Longrightarrow>
   \<exists>src\<in>set (st_payees s). \<exists>dst\<in>set (st_payees s).
     pf_uuid pf (merge_payee_source req) = Some (payee_id src) \<and> pf_uuid pf (merge_payee_target req) = Some (payee_id dst) \<and>
     payee_id src \<noteq> payee_id dst \<and> payee_user src = u \<and> payee_user dst = u \<and>
     s' = flush (payee_deleted (payee_id src) (payee_repointed (payee_id src) (payee_id dst) (s\<lparr>st_pending := []\<rparr>)))"
  by (auto simp: merge_payee_def payee_repo payees.get_def repo_reassign_payee act_iff dest!: find_row_Some)


lemma merge_payee_tables:
  assumes "merge_payee pf u req s = (Inr x, s')"
  shows "\<exists>src\<in>set (st_payees s). \<exists>dst\<in>set (st_payees s).
     pf_uuid pf (merge_payee_source req) = Some (payee_id src) \<and> pf_uuid pf (merge_payee_target req) = Some (payee_id dst) \<and>
     payee_id src \<noteq> payee_id dst \<and> payee_user src = u \<and> payee_user dst = u \<and>
     st_payees s' = delete_row payee_id (payee_id src) (st_payees s) \<and>
     st_transactions s' = map (\<lambda>t. t\<lparr>tx_payee := point_at (payee_id src) (payee_id dst) (tx_payee t)\<rparr>) (st_transactions s) \<and>
     st_recurring s' = map (\<lambda>t. t\<lparr>rt_payee := point_at (payee_id src) (payee_id dst) (rt_payee t)\<rparr>) (st_recurring s) \<and>
     st_accounts s' = map (bump_account (accounts_of (\<lambda>t. tx_payee t = Some (payee_id src)) (st_transactions s))) (st_accounts s) \<and>
     st_categories s' = st_categories s \<and> st_tags s' = st_tags s \<and> st_labels s' = st_labels s \<and>
     st_envelope_categories s' = st_envelope_categories s \<and> st_access s' = st_access s \<and> st_operations s' = st_operations s"
proof -
  obtain src dst where m: "src \<in> set (st_payees s)" "dst \<in> set (st_payees s)"
     "pf_uuid pf (merge_payee_source req) = Some (payee_id src)" "pf_uuid pf (merge_payee_target req) = Some (payee_id dst)"
     "payee_id src \<noteq> payee_id dst" "payee_user src = u" "payee_user dst = u"
     and s': "s' = flush (payee_deleted (payee_id src) (payee_repointed (payee_id src) (payee_id dst) (s\<lparr>st_pending := []\<rparr>)))"
    using merge_payee_effect[OF assms] by blast
  have "st_payees s' = delete_row payee_id (payee_id src) (st_payees s) \<and>
     st_transactions s' = map (\<lambda>t. t\<lparr>tx_payee := point_at (payee_id src) (payee_id dst) (tx_payee t)\<rparr>) (st_transactions s) \<and>
     st_recurring s' = map (\<lambda>t. t\<lparr>rt_payee := point_at (payee_id src) (payee_id dst) (rt_payee t)\<rparr>) (st_recurring s) \<and>
     st_accounts s' = map (bump_account (accounts_of (\<lambda>t. tx_payee t = Some (payee_id src)) (st_transactions s))) (st_accounts s) \<and>
     st_categories s' = st_categories s \<and> st_tags s' = st_tags s \<and> st_labels s' = st_labels s \<and>
     st_envelope_categories s' = st_envelope_categories s \<and> st_access s' = st_access s \<and> st_operations s' = st_operations s"
    unfolding s' using m(5)
    by (simp add: payee_deleted_def payee_repointed_def set_none_point_at comp_def flush_accounts accounts_of_map)
  with m show ?thesis by blast
qed

subsection \<open>The calls of the service\<close>

datatype payee_call =
    CreatePayee ident create_payee_request
  | UpdatePayee update_payee_request
  | ArchivePayee string
  | UnarchivePayee string
  | DeletePayee string
  | MergePayee merge_payee_request
  | MovePayee move_payee_request
  | SortPayeeList "string list"
  | GetPayeeList

text \<open>A call with its result left out; \<open>CreatePayee\<close> carries the id that \<open>vo.NewId\<close> gives.\<close>

fun payee_perform :: "platform \<Rightarrow> instant \<Rightarrow> instant \<Rightarrow> (ident \<Rightarrow> ident) \<Rightarrow> ident \<Rightarrow> payee_call \<Rightarrow> unit act" where
  "payee_perform pf claim_now now new_id u (CreatePayee fresh q) = sbind (create_payee pf claim_now now fresh u q) (\<lambda>_. ret ())"
| "payee_perform pf claim_now now new_id u (UpdatePayee q) = update_payee pf now u q"
| "payee_perform pf claim_now now new_id u (ArchivePayee q) = archive_payee pf now u q"
| "payee_perform pf claim_now now new_id u (UnarchivePayee q) = unarchive_payee pf now u q"
| "payee_perform pf claim_now now new_id u (DeletePayee q) = delete_payee pf u q"
| "payee_perform pf claim_now now new_id u (MergePayee q) = merge_payee pf u q"
| "payee_perform pf claim_now now new_id u (MovePayee q) = sbind (move_payee pf now u q) (\<lambda>_. ret ())"
| "payee_perform pf claim_now now new_id u (SortPayeeList q) = sbind (sort_payee_list now u q) (\<lambda>_. ret ())"
| "payee_perform pf claim_now now new_id u GetPayeeList = sbind (get_payee_list u) (\<lambda>_. ret ())"

fun payee_fresh :: "store \<Rightarrow> payee_call \<Rightarrow> bool" where
  "payee_fresh s (CreatePayee fresh q) = (fresh \<noteq> [] \<and> fresh \<notin> payee_id ` set (st_payees s))"
| "payee_fresh s _ = True"

text \<open>A call on the own table is one abstract step for the caller or, creating in a shared account, for its owner.\<close>

lemma payee_created_change:
  assumes "create_payee pf claim_now now fresh u q s = (Inr x, s')" "payees.wf (st_payees s)"
    "fresh \<noteq> []" "fresh \<notin> payee_id ` set (st_payees s)"
  shows "\<exists>v. acts_for s u v \<and> payees.change (payee_name_free s) v (st_payees s) (st_payees s')"
  using create_payee_effect[OF assms(1)] assms(2-4)
  by (fastforce dest: creates_for_acts intro!: payees.add_change simp: payee_set_sort_key_def new_payee_def)

lemma payee_moved_change:
  assumes "move_payee pf now u q s = (Inr x, s')" "payees.wf (st_payees s)"
  shows "payees.change free u (st_payees s) (st_payees s') \<and> s' = s\<lparr>st_payees := st_payees s', st_pending := []\<rparr> \<and>
    payee_id ` set (st_payees s') = payee_id ` set (st_payees s)"
  using move_payee_effect[OF assms(1)] assms(2)
    payees.move_rows_change[of "s\<lparr>st_pending := []\<rparr>" now u _ _ _ free] by fastforce

lemma payee_sorted_change:
  assumes "sort_payee_list now u q s = (Inr x, s')" "payees.wf (st_payees s)"
  shows "payees.change free u (st_payees s) (st_payees s') \<and> s' = s\<lparr>st_payees := st_payees s', st_pending := []\<rparr> \<and>
    payee_id ` set (st_payees s') = payee_id ` set (st_payees s)"
  using sort_payee_list_effect[OF assms(1)] assms(2)
    payees.sort_rows_change[of "s\<lparr>st_pending := []\<rparr>" now u q _ free] by fastforce

lemma payee_perform_atomic: "atomic (payee_perform pf claim_now now new_id u c)"
proof -
  have "atomic (create_payee pf claim_now now fresh u q)" for fresh q
    unfolding create_payee_rows
    by ((rule atomic_sbind_lift)+, rule atomic_sbind_owner, rule payee_checks_read_only, rule atomic_sbind_total, rule atomic_with_tx, rule payee_results_total)
  moreover have "atomic (update_payee pf now u q)" for q
    unfolding update_payee_row payees.change_row_def by ((rule atomic_sbind_lift)+, rule atomic_done, rule atomic_with_tx)
  moreover have "atomic (archive_payee pf now u q)" "atomic (unarchive_payee pf now u q)" for q
    unfolding archive_payee_def unarchive_payee_def payee_mutate_row payees.change_row_def
    by (rule atomic_sbind_lift, rule atomic_done, rule atomic_with_tx)+
  ultimately show ?thesis
    by (cases c) (auto simp: delete_payee_def merge_payee_def move_payee_rows sort_payee_rows
      intro: atomic_done atomic_sbind_lift atomic_with_tx atomic_read_only payee_results_total)
qed

lemma payee_perform_change:
  assumes "payee_perform pf claim_now now new_id u c s = (Inr x, s')" "payees.wf (st_payees s)" "payee_fresh s c"
  shows "\<exists>v. acts_for s u v \<and> payees.change (payee_name_free s) v (st_payees s) (st_payees s')"
proof (cases c)
  case (CreatePayee fresh q)
  then show ?thesis using assms payee_created_change[OF _ assms(2)] by (auto simp: act_iff)
next
  case (UpdatePayee q)
  then obtain r where "r \<in> set (st_payees s)" "payee_user r = u" "payee_name_free s u (update_payee_new_name q) (payee_id r)"
    "st_payees s' = payees.replace (payee_id r) (payee_update_name (update_payee_new_name q) now r) (st_payees s)"
    using assms(1) by (auto simp: dest!: update_payee_effect)
  then show ?thesis using assms(2) payees.put_change[of "st_payees s" r "payee_update_name (update_payee_new_name q) now r" "payee_name_free s"]
    by (intro exI[of _ u]) simp
next
  case (ArchivePayee q)
  then obtain r where "r \<in> set (st_payees s)" "payee_user r = u"
    "st_payees s' = payees.replace (payee_id r) (payee_archive now r) (st_payees s)"
    using assms(1) by (auto dest!: archive_payee_effect)
  then show ?thesis using assms(2) payees.put_change[of "st_payees s" r "payee_archive now r" "payee_name_free s"]
    by (intro exI[of _ u]) simp
next
  case (UnarchivePayee q)
  then obtain r where "r \<in> set (st_payees s)" "payee_user r = u"
    "st_payees s' = payees.replace (payee_id r) (payee_unarchive now r) (st_payees s)"
    using assms(1) by (auto dest!: unarchive_payee_effect)
  then show ?thesis using assms(2) payees.put_change[of "st_payees s" r "payee_unarchive now r" "payee_name_free s"]
    by (intro exI[of _ u]) simp
next
  case (DeletePayee q)
  then obtain r where "r \<in> set (st_payees s)" "payee_user r = u" "st_payees s' = delete_row payee_id (payee_id r) (st_payees s)"
    using assms(1) by (auto simp: payee_deleted_def dest!: delete_payee_effect)
  then show ?thesis using payees.change.drop[of r "st_payees s" u] by (intro exI[of _ u]) simp
next
  case (MergePayee q)
  then have "merge_payee pf u q s = (Inr x, s')" using assms(1) by simp
  from merge_payee_tables[OF this] obtain r where
    "r \<in> set (st_payees s)" "payee_user r = u" "st_payees s' = delete_row payee_id (payee_id r) (st_payees s)" by blast
  then show ?thesis using payees.change.drop[of r "st_payees s" u] by (intro exI[of _ u]) simp
next
  case (MovePayee q)
  then obtain y where "move_payee pf now u q s = (Inr y, s')" using assms(1) by (auto simp: sbind_Inr_iff ret_iff)
  from payee_moved_change[OF this assms(2)] show ?thesis by (intro exI[of _ u]) simp
next
  case (SortPayeeList q)
  then obtain y where "sort_payee_list now u q s = (Inr y, s')" using assms(1) by (auto simp: sbind_Inr_iff ret_iff)
  from payee_sorted_change[OF this assms(2)] show ?thesis by (intro exI[of _ u]) simp
next
  case GetPayeeList
  then have "s' = s" using assms(1) read_only_outcome[OF payee_results_total(5)] by (auto simp: act_iff)
  then show ?thesis using payees.change.same by (intro exI[of _ u]) simp
qed

lemma payee_perform_rest:
  assumes "payee_perform pf claim_now now new_id u c s = (Inr x, s')" "payees.wf (st_payees s)"
  shows "(st_categories s' = st_categories s \<and> st_tags s' = st_tags s \<and> st_labels s' = st_labels s \<and> st_access s' = st_access s) \<and>
    (category_refs s' = category_refs s \<and> tag_refs s' = tag_refs s \<and> label_refs s' = label_refs s) \<and>
    (payee_refs s \<subseteq> payee_id ` set (st_payees s) \<longrightarrow> payee_refs s' \<subseteq> payee_id ` set (st_payees s'))"
proof (cases c)
  case (CreatePayee fresh q)
  then obtain y where "create_payee pf claim_now now fresh u q s = (Inr y, s')" using assms(1) by (auto simp: sbind_Inr_iff ret_iff)
  from create_payee_effect[OF this] obtain r ops where
    "s' = s\<lparr>st_payees := upsert_row payee_id r (st_payees s), st_operations := ops, st_pending := []\<rparr>" by metis
  then show ?thesis using upsert_ids[of payee_id r "st_payees s"] by (auto simp: refs_defs)
next
  case (UpdatePayee q)
  then have "update_payee pf now u q s = (Inr x, s')" using assms(1) by simp
  from update_payee_effect[OF this] obtain i r where
    "s' = s\<lparr>st_payees := payees.replace i r (st_payees s), st_pending := []\<rparr>" "payee_id r = i" by fastforce
  then show ?thesis using payees.replace_id_set[of r i "st_payees s"] by (simp add: refs_defs)
next
  case (ArchivePayee q)
  then have "archive_payee pf now u q s = (Inr x, s')" using assms(1) by simp
  from archive_payee_effect[OF this] obtain i r where
    "s' = s\<lparr>st_payees := payees.replace i r (st_payees s), st_pending := []\<rparr>" "payee_id r = i" by fastforce
  then show ?thesis using payees.replace_id_set[of r i "st_payees s"] by (simp add: refs_defs)
next
  case (UnarchivePayee q)
  then have "unarchive_payee pf now u q s = (Inr x, s')" using assms(1) by simp
  from unarchive_payee_effect[OF this] obtain i r where
    "s' = s\<lparr>st_payees := payees.replace i r (st_payees s), st_pending := []\<rparr>" "payee_id r = i" by fastforce
  then show ?thesis using payees.replace_id_set[of r i "st_payees s"] by (simp add: refs_defs)
next
  case (DeletePayee q)
  then have "delete_payee pf u q s = (Inr x, s')" using assms(1) by simp
  from delete_payee_effect[OF this] obtain i where s': "s' = flush (payee_deleted i (s\<lparr>st_pending := []\<rparr>))" by blast
  have "payee_refs s' \<subseteq> payee_refs s - {i}" "payee_id ` set (st_payees s') = payee_id ` set (st_payees s) - {i}"
    unfolding s' by (auto simp: payee_deleted_def refs_defs delete_ids)
  moreover have "st_categories s' = st_categories s \<and> st_tags s' = st_tags s \<and> st_labels s' = st_labels s \<and> st_access s' = st_access s" "category_refs s' = category_refs s \<and> tag_refs s' = tag_refs s \<and> label_refs s' = label_refs s"
    unfolding s' by (simp_all add: payee_deleted_def refs_defs)
  ultimately show ?thesis by auto
next
  case (MergePayee q)
  then have "merge_payee pf u q s = (Inr x, s')" using assms(1) by simp
  from merge_payee_tables[OF this] show ?thesis
  proof (elim bexE conjE)
    fix src dst assume m: "dst \<in> set (st_payees s)" "payee_id src \<noteq> payee_id dst" "st_payees s' = delete_row payee_id (payee_id src) (st_payees s)"
    "st_transactions s' = map (\<lambda>t. t\<lparr>tx_payee := point_at (payee_id src) (payee_id dst) (tx_payee t)\<rparr>) (st_transactions s)"
    "st_recurring s' = map (\<lambda>t. t\<lparr>rt_payee := point_at (payee_id src) (payee_id dst) (rt_payee t)\<rparr>) (st_recurring s)"
    "st_access s' = st_access s" "st_categories s' = st_categories s" "st_tags s' = st_tags s" "st_labels s' = st_labels s" "st_envelope_categories s' = st_envelope_categories s"
    have "payee_refs s' \<subseteq> insert (payee_id dst) (payee_refs s - {payee_id src})"
      using m by (auto simp: refs_defs point_at_Some)
    moreover have "payee_id ` set (st_payees s') = payee_id ` set (st_payees s) - {payee_id src}"
      unfolding m(3) by (rule delete_ids)
    moreover have "st_categories s' = st_categories s \<and> st_tags s' = st_tags s \<and> st_labels s' = st_labels s \<and> st_access s' = st_access s" "category_refs s' = category_refs s \<and> tag_refs s' = tag_refs s \<and> label_refs s' = label_refs s"
      using m by (simp_all add: refs_defs)
    ultimately show ?thesis using m(1,2) by auto
  qed
next
  case (MovePayee q)
  then obtain y where "move_payee pf now u q s = (Inr y, s')" using assms(1) by (auto simp: sbind_Inr_iff ret_iff)
  from payee_moved_change[OF this assms(2)] obtain ys where
    "s' = s\<lparr>st_payees := ys, st_pending := []\<rparr>" "payee_id ` set (st_payees s') = payee_id ` set (st_payees s)" by blast
  then show ?thesis by (simp add: refs_defs)
next
  case (SortPayeeList q)
  then obtain y where "sort_payee_list now u q s = (Inr y, s')" using assms(1) by (auto simp: sbind_Inr_iff ret_iff)
  from payee_sorted_change[OF this assms(2)] obtain ys where
    "s' = s\<lparr>st_payees := ys, st_pending := []\<rparr>" "payee_id ` set (st_payees s') = payee_id ` set (st_payees s)" by blast
  then show ?thesis by (simp add: refs_defs)
next
  case GetPayeeList
  then have "s' = s" using assms(1) read_only_outcome[OF payee_results_total(5)] by (auto simp: act_iff)
  then show ?thesis by simp
qed

text \<open>The operation id a call would claim.\<close>

fun payee_operation :: "payee_call \<Rightarrow> string option" where
  "payee_operation (CreatePayee fresh q) = Some (create_payee_id q)"
| "payee_operation _ = None"

lemma payee_perform_operations:
  assumes "payee_perform pf claim_now now new_id u c s = (Inr x, s')" "payees.wf (st_payees s)"
  shows "op_id ` set (st_operations s') = op_id ` set (st_operations s) \<union> claimed_by pf (payee_operation c) \<and>
    op_id ` set (st_operations s) \<inter> claimed_by pf (payee_operation c) = {}"
proof (cases c)
  case (CreatePayee fresh q)
  then obtain y where "create_payee pf claim_now now fresh u q s = (Inr y, s')" using assms(1) by (auto simp: sbind_Inr_iff ret_iff)
  from create_payee_effect[OF this] show ?thesis using CreatePayee by (elim exE conjE) (simp add: claimed_by_def)
next
  case (UpdatePayee q)
  then have "update_payee pf now u q s = (Inr x, s')" using assms(1) by simp
  from update_payee_effect[OF this] show ?thesis using UpdatePayee by (elim bexE conjE) (simp add: claimed_by_def)
next
  case (ArchivePayee q)
  then have "archive_payee pf now u q s = (Inr x, s')" using assms(1) by simp
  from archive_payee_effect[OF this] show ?thesis using ArchivePayee by (elim bexE conjE) (simp add: claimed_by_def)
next
  case (UnarchivePayee q)
  then have "unarchive_payee pf now u q s = (Inr x, s')" using assms(1) by simp
  from unarchive_payee_effect[OF this] show ?thesis using UnarchivePayee by (elim bexE conjE) (simp add: claimed_by_def)
next
  case (DeletePayee q)
  then have "delete_payee pf u q s = (Inr x, s')" using assms(1) by simp
  from delete_payee_effect[OF this] show ?thesis using DeletePayee
    by (elim bexE conjE) (simp add: claimed_by_def payee_deleted_def)
next
  case (MergePayee q)
  then have "merge_payee pf u q s = (Inr x, s')" using assms(1) by simp
  from merge_payee_tables[OF this] show ?thesis using MergePayee by (elim bexE conjE) (simp add: claimed_by_def)
next
  case (MovePayee q)
  then obtain y where "move_payee pf now u q s = (Inr y, s')" using assms(1) by (auto simp: sbind_Inr_iff ret_iff)
  from payee_moved_change[OF this assms(2)] obtain ys where "s' = s\<lparr>st_payees := ys, st_pending := []\<rparr>" by blast
  then show ?thesis using MovePayee by (simp add: claimed_by_def)
next
  case (SortPayeeList q)
  then obtain y where "sort_payee_list now u q s = (Inr y, s')" using assms(1) by (auto simp: sbind_Inr_iff ret_iff)
  from payee_sorted_change[OF this assms(2)] obtain ys where "s' = s\<lparr>st_payees := ys, st_pending := []\<rparr>" by blast
  then show ?thesis using SortPayeeList by (simp add: claimed_by_def)
next
  case GetPayeeList
  then have "s' = s" using assms(1) read_only_outcome[OF payee_results_total(5)] by (auto simp: act_iff)
  then show ?thesis using GetPayeeList by (simp add: claimed_by_def)
qed

end
