(* ===== verification/Label_Service.thy ===== *)
theory Label_Service
  imports Classified_Table
begin

section \<open>The label service\<close>

text \<open>
  \<open>internal/label\<close>: the label service. Label names share the namespace of the owner's tags; labels are many-to-many
  and budget-neutral.
  The id of a new row is an argument (\<open>vo.NewId\<close>), as are the readings of the clock; a request has been through
  its \<open>Validate\<close>.
\<close>

definition label_to_result :: "label \<Rightarrow> label_result" where
  "label_to_result r =
     \<lparr>label_res_id = label_id r, label_res_owner = label_user r, label_res_name = label_name r,
      label_res_icon = label_icon r, label_res_position = 0,
      label_res_archived = (if label_archived r then 1 else 0),
      label_res_created = format_layout (label_created r), label_res_updated = format_layout (label_updated r)\<rparr>"

definition label_to_view_result :: "label \<Rightarrow> label_result" where
  "label_to_view_result r =
     \<lparr>label_res_id = label_id r, label_res_owner = label_user r, label_res_name = label_name r,
      label_res_icon = label_icon r, label_res_position = 0,
      label_res_archived = (if label_archived r then 1 else 0),
      label_res_created = format_layout (label_created r), label_res_updated = format_layout (label_updated r)\<rparr>"

definition label_assign_positions :: "label_result list \<Rightarrow> label_result list" where
  "label_assign_positions items = map (\<lambda>(i, it). it\<lparr>label_res_position := i\<rparr>) (enumerate 0 items)"

definition label_list_results :: "ident \<Rightarrow> label_result list act" where
  "label_list_results user =
     sbind (label_list_view user) (\<lambda>rows. ret (label_assign_positions (map label_to_view_result rows)))"

definition label_item_result :: "ident \<Rightarrow> label \<Rightarrow> label_result act" where
  "label_item_result user r =
     sbind (label_list_results user) (\<lambda>items.
       ret (case map_of (map (\<lambda>(i, it). (label_res_id it, i)) (enumerate 0 items)) (label_id r) of
              Some i \<Rightarrow> (label_to_result r)\<lparr>label_res_position := i\<rparr>
            | None \<Rightarrow> label_to_result r))"

definition get_label_list :: "ident \<Rightarrow> label_result list act" where
  "get_label_list user =
     sbind (label_list_view user) (\<lambda>rows. ret (label_assign_positions (map label_to_view_result rows)))"

definition label_resolve_account_owner :: "ident \<Rightarrow> ident \<Rightarrow> ident act" where
  "label_resolve_account_owner user account_id =
     sbind (account_owner account_id) (\<lambda>owner.
       if owner = user then ret owner
       else sbind (has_admin_grant account_id user) (\<lambda>is_admin.
         if is_admin then ret owner else fail (AccessDeniedError ''Access is not allowed'' [] 0)))"

definition new_label_name :: "string \<Rightarrow> string result" where
  "new_label_name v =
     (let n = rune_count v in
      if n < 3 \<or> 64 < n
      then Inl (ValidationError ''Label name must be 3-64 characters'' []
             [\<lparr>fe_key = ''name'', fe_message = ''Label name must be 3-64 characters'', fe_code = ''label.name_length''\<rparr>])
      else Inr v)"

definition label_name_taken :: go_error where
  "label_name_taken = ValidationError ''Tag already exists.'' ''tag.already_exists'' []"

definition label_ensure_name_unique :: "platform \<Rightarrow> ident \<Rightarrow> string \<Rightarrow> ident \<Rightarrow> unit act" where
  "label_ensure_name_unique pf user name except_id =
     sbind (repo_list_labels user) (\<lambda>rows.
       if \<exists>r\<in>set rows. equal_fold (pf_fold pf) (label_name r) name \<and> label_id r \<noteq> except_id then fail label_name_taken
       else sbind (tag_names_by_owner user) (\<lambda>names.
         if \<exists>n\<in>set names. equal_fold (pf_fold pf) n name then fail label_name_taken else ret ()))"

definition label_mutate :: "instant \<Rightarrow> ident \<Rightarrow> ident \<Rightarrow> (instant \<Rightarrow> label \<Rightarrow> label) \<Rightarrow> label act" where
  "label_mutate now i user fn =
     with_tx (sbind (repo_get_label i) (\<lambda>r.
       if label_user r \<noteq> user then fail (NotFoundError ''Label not found'')
       else sbind (repo_save_label (fn now r)) (\<lambda>_. ret (fn now r))))"

definition label_mutate_checked ::
  "instant \<Rightarrow> ident \<Rightarrow> ident \<Rightarrow> (instant \<Rightarrow> label \<Rightarrow> label act) \<Rightarrow> label act" where
  "label_mutate_checked now i user fn =
     with_tx (sbind (repo_get_label i) (\<lambda>r.
       if label_user r \<noteq> user then fail (NotFoundError ''Label not found'')
       else sbind (fn now r) (\<lambda>r'. sbind (repo_save_label r') (\<lambda>_. ret r'))))"

definition label_item :: "label \<Rightarrow> item" where
  "label_item r = \<lparr>item_id = label_id r, item_key = label_sort_key r\<rparr>"

subsection \<open>Create\<close>

definition create_label ::
  "platform \<Rightarrow> instant \<Rightarrow> instant \<Rightarrow> ident \<Rightarrow> ident \<Rightarrow> create_label_request \<Rightarrow> label_result act" where
  "create_label pf claim_now now fresh user req =
     sbind (lift (parse_id (pf_uuid pf) (create_label_id req))) (\<lambda>oid.
     sbind (lift (new_label_name (create_label_name req))) (\<lambda>name.
     sbind (case create_label_account req of
              None \<Rightarrow> ret user
            | Some a \<Rightarrow> if a = [] then ret user
                else sbind (lift (parse_id (pf_uuid pf) a)) (\<lambda>account_id.
                  label_resolve_account_owner user account_id)) (\<lambda>owner.
     sbind (with_tx (
         sbind (claim oid claim_now) (\<lambda>already. if already then fail operation_locked else 
         sbind (label_ensure_name_unique pf owner name []) (\<lambda>_.
         sbind (repo_list_labels owner) (\<lambda>rows.
         sbind (lift (append_key rows label_item GrowsUp)) (\<lambda>k.
         let r = label_set_sort_key k (new_label fresh owner name now) in
         sbind (repo_save_label r) (\<lambda>_.
         sbind (mark_handled oid now) (\<lambda>_. ret r)))))))) (\<lambda>created.
     label_item_result owner created))))"

subsection \<open>Update, archive, unarchive\<close>

definition label_mutate_with_unique :: "platform \<Rightarrow> instant \<Rightarrow> ident \<Rightarrow> ident \<Rightarrow> string \<Rightarrow> label act" where
  "label_mutate_with_unique pf now i user name =
     label_mutate_checked now i user (\<lambda>now r.
       sbind (label_ensure_name_unique pf user name i) (\<lambda>_. ret (label_update_name name now r)))"

definition update_label :: "platform \<Rightarrow> instant \<Rightarrow> ident \<Rightarrow> update_label_request \<Rightarrow> label_result act" where
  "update_label pf now user req =
     sbind (lift (parse_id (pf_uuid pf) (update_label_id req))) (\<lambda>i.
     sbind (lift (new_label_name (update_label_new_name req))) (\<lambda>name.
     sbind (label_mutate_with_unique pf now i user name) (\<lambda>r.
     label_item_result user r)))"

definition archive_label :: "platform \<Rightarrow> instant \<Rightarrow> ident \<Rightarrow> string \<Rightarrow> unit act" where
  "archive_label pf now user req_id =
     sbind (lift (parse_id (pf_uuid pf) req_id)) (\<lambda>i.
     sbind (label_mutate now i user label_archive) (\<lambda>_. ret ()))"

definition unarchive_label :: "platform \<Rightarrow> instant \<Rightarrow> ident \<Rightarrow> string \<Rightarrow> unit act" where
  "unarchive_label pf now user req_id =
     sbind (lift (parse_id (pf_uuid pf) req_id)) (\<lambda>i.
     sbind (label_mutate now i user label_unarchive) (\<lambda>_. ret ()))"

subsection \<open>Delete and merge\<close>

definition delete_label :: "platform \<Rightarrow> ident \<Rightarrow> string \<Rightarrow> unit act" where
  "delete_label pf user req_id =
     sbind (lift (parse_id (pf_uuid pf) req_id)) (\<lambda>i.
     with_tx (sbind (repo_get_label i) (\<lambda>r.
       if label_user r \<noteq> user then fail (NotFoundError ''Label not found'') else repo_delete_label i)))"

definition label_cannot_merge :: go_error where
  "label_cannot_merge = ValidationError ''The selected tags cannot be merged'' ''label.cannot_be_merged'' []"

definition merge_label :: "platform \<Rightarrow> ident \<Rightarrow> merge_label_request \<Rightarrow> unit act" where
  "merge_label pf user req =
     sbind (lift (parse_id (pf_uuid pf) (merge_label_source req))) (\<lambda>source_id.
     sbind (lift (parse_id (pf_uuid pf) (merge_label_target req))) (\<lambda>target_id.
     with_tx (sbind (repo_get_label source_id) (\<lambda>source.
       if label_user source \<noteq> user then fail (NotFoundError ''Label not found'')
       else if source_id = target_id then fail label_cannot_merge
       else sbind (repo_get_label target_id) (\<lambda>target.
       if label_user target \<noteq> user then fail label_cannot_merge
       else sbind (repo_reassign_label_transactions source_id target_id) (\<lambda>_.
            sbind (repo_reassign_label_recurring source_id target_id) (\<lambda>_.
            repo_delete_label source_id)))))))"

subsection \<open>Move and sort\<close>

definition move_label :: "platform \<Rightarrow> instant \<Rightarrow> ident \<Rightarrow> move_label_request \<Rightarrow> label_result list act" where
  "move_label pf now user req =
     sbind (lift (parse_id (pf_uuid pf) (move_label_id req))) (\<lambda>i.
     let after_id = (case move_label_after req of None \<Rightarrow> [] | Some a \<Rightarrow> a) in
     with_tx (sbind (repo_list_labels user) (\<lambda>rows.
       sbind (lift (move_within rows i after_id label_item GrowsUp)) (\<lambda>moved.
       sbind (case moved of
                None \<Rightarrow> ret ()
              | Some (r, k) \<Rightarrow> repo_save_label (label_update_sort_key k now r)) (\<lambda>_.
       label_list_results user)))))"

definition sort_label_list :: "instant \<Rightarrow> ident \<Rightarrow> string list \<Rightarrow> label_result list act" where
  "sort_label_list now user ids =
     with_tx (sbind (repo_list_labels user) (\<lambda>rows.
       sbind (lift (resequence rows ids label_item GrowsUp)) (\<lambda>changed.
       sbind (for_each rows (\<lambda>row.
                case changed (label_id row) of
                  None \<Rightarrow> ret ()
                | Some k \<Rightarrow> repo_save_label (label_update_sort_key k now row))) (\<lambda>_.
       label_list_results user))))"

subsection \<open>The table of labels\<close>

lemma label_mutators [simp]:
  "label_id (label_archive now r) = label_id r" "label_user (label_archive now r) = label_user r"
  "label_name (label_archive now r) = label_name r" "label_sort_key (label_archive now r) = label_sort_key r"
  "label_id (label_unarchive now r) = label_id r" "label_user (label_unarchive now r) = label_user r"
  "label_name (label_unarchive now r) = label_name r" "label_sort_key (label_unarchive now r) = label_sort_key r"
  "label_id (label_update_name nm now r) = label_id r" "label_user (label_update_name nm now r) = label_user r"
  "label_name (label_update_name nm now r) = nm" "label_sort_key (label_update_name nm now r) = label_sort_key r"
  by (simp_all add: label_archive_def label_unarchive_def label_update_name_def)

interpretation labels: classified_table st_labels "\<lambda>xs s. s\<lparr>st_labels := xs\<rparr>" label_id label_user label_sort_key
    label_update_sort_key label_name
  by unfold_locales (auto simp: label_update_sort_key_def)

lemma label_repo:
  "repo_get_label = labels.get ''Label not found''" "repo_list_labels = labels.list_of" "repo_save_label = labels.save"
  "label_item = labels.as_item"
  by (simp_all add: fun_eq_iff repo_get_label_def labels.get_def repo_list_labels_def labels.list_of_def labels.own_def
      repo_save_label_def labels.save_def label_item_def labels.as_item_def)

lemma label_results_total [atomic_intro]:
  "read_only (label_list_results u)" "total (label_list_results u)"
  "read_only (label_item_result u r)" "total (label_item_result u r)" "read_only (get_label_list u)" "total (get_label_list u)"
  unfolding label_list_results_def label_item_result_def get_label_list_def label_list_view_def by (intro atomic_intro)+

lemma new_label_name_Inr: "new_label_name v = Inr n \<longleftrightarrow> n = v \<and> 3 \<le> rune_count v \<and> rune_count v \<le> 64"
  by (auto simp: new_label_name_def Let_def)


text \<open>No other label of the owner and no tag has the name, up to case.\<close>

definition label_name_free :: "platform \<Rightarrow> store \<Rightarrow> ident \<Rightarrow> string \<Rightarrow> ident \<Rightarrow> bool" where
  "label_name_free pf s u name except \<longleftrightarrow>
     (\<forall>r\<in>set (st_labels s). label_user r = u \<and> label_id r \<noteq> except \<longrightarrow> \<not> equal_fold (pf_fold pf) (label_name r) name) \<and>
     (\<forall>r\<in>set (st_tags s). tag_user r = u \<longrightarrow> \<not> equal_fold (pf_fold pf) (tag_name r) name)"

lemma label_ensure_name_unique_Inr:
  "label_ensure_name_unique pf u name except s = (Inr (), s') \<longleftrightarrow> s' = s \<and> label_name_free pf s u name except"
  by (auto simp: label_ensure_name_unique_def label_name_free_def label_repo labels.list_of_def tag_names_Inr act_iff
      split: if_splits)

lemma label_name_free_frame [simp]:
  "label_name_free pf (s\<lparr>st_pending := p\<rparr>) = label_name_free pf s"
  "label_name_free pf (s\<lparr>st_operations := ops\<rparr>) = label_name_free pf s"
  by (simp_all add: label_name_free_def fun_eq_iff)


lemma label_checks_read_only [atomic_intro]:
  "read_only (label_resolve_account_owner u i)" "read_only (label_ensure_name_unique pf u name ex)"
  unfolding label_resolve_account_owner_def label_ensure_name_unique_def label_repo labels.list_of_def tag_names_by_owner_def repo_list_tags_def
  by (intro atomic_intro)+

lemma label_resolve_Inr:
  "label_resolve_account_owner u a s = (Inr owner, s') \<longleftrightarrow> s' = s \<and> may_create_in s u a owner"
  unfolding label_resolve_account_owner_def by (rule resolve_Inr)

lemma label_mutate_row: "label_mutate now i u fn = labels.change_row ''Label not found'' i u (ret ()) (fn now)"
  unfolding label_mutate_def labels.change_row_def label_repo ret_sbind ..


lemma archive_label_effect:
  "archive_label pf now u q s = (Inr x, s') \<Longrightarrow>
   \<exists>r\<in>set (st_labels s). pf_uuid pf q = Some (label_id r) \<and> label_user r = u \<and>
     s' = s\<lparr>st_labels := labels.replace (label_id r) (label_archive now r) (st_labels s), st_pending := []\<rparr>"
  using labels.change_row_effect[of "''Label not found''" _ u "ret ()" "label_archive now" s _ s']
  by (fastforce simp: archive_label_def label_mutate_row act_iff)


lemma unarchive_label_effect:
  "unarchive_label pf now u q s = (Inr x, s') \<Longrightarrow>
   \<exists>r\<in>set (st_labels s). pf_uuid pf q = Some (label_id r) \<and> label_user r = u \<and>
     s' = s\<lparr>st_labels := labels.replace (label_id r) (label_unarchive now r) (st_labels s), st_pending := []\<rparr>"
  using labels.change_row_effect[of "''Label not found''" _ u "ret ()" "label_unarchive now" s _ s']
  by (fastforce simp: unarchive_label_def label_mutate_row act_iff)


lemma label_mutate_with_unique_row:
  "label_mutate_with_unique pf now i u name =
     labels.change_row ''Label not found'' i u (label_ensure_name_unique pf u name i) (label_update_name name now)"
  unfolding label_mutate_with_unique_def label_mutate_checked_def labels.change_row_def label_repo sbind_assoc ret_sbind ..

lemma update_label_effect:
  assumes "update_label pf now u req s = (Inr res, s')"
  shows "\<exists>r\<in>set (st_labels s). pf_uuid pf (update_label_id req) = Some (label_id r) \<and> label_user r = u \<and>
     label_name_free pf s u (update_label_new_name req) (label_id r) \<and>
     s' = s\<lparr>st_labels := labels.replace (label_id r) (label_update_name (update_label_new_name req) now r) (st_labels s),
            st_pending := []\<rparr>"
proof -
  let ?n = "update_label_new_name req"
  obtain i r' s1 where i: "pf_uuid pf (update_label_id req) = Some i"
    and row: "labels.change_row ''Label not found'' i u (label_ensure_name_unique pf u ?n i) (label_update_name ?n now) s = (Inr r', s1)"
    and res: "label_item_result u r' s1 = (Inr res, s')"
    using assms by (auto simp: update_label_def label_mutate_with_unique_row new_label_name_Inr act_iff(1-7))
  have "s' = s1" using read_only_outcome[OF label_results_total(3) res] .
  then show ?thesis using labels.change_row_effect[OF row label_checks_read_only(2)] i
    by (auto simp: label_ensure_name_unique_Inr)
qed


lemma move_label_rows:
  "move_label pf now u req = sbind (lift (parse_id (pf_uuid pf) (move_label_id req))) (\<lambda>i.
     with_tx (sbind (labels.move_rows now u i (case move_label_after req of None \<Rightarrow> [] | Some a \<Rightarrow> a)) (\<lambda>_. label_list_results u)))"
  unfolding move_label_def labels.move_rows_def label_repo sbind_assoc Let_def ..

lemma sort_label_rows:
  "sort_label_list now u ids = with_tx (sbind (labels.sort_rows now u ids) (\<lambda>_. label_list_results u))"
  unfolding sort_label_list_def labels.sort_rows_def labels.save_changed_def [abs_def] label_repo sbind_assoc ..

lemma move_label_effect:
  assumes "move_label pf now u req s = (Inr res, s')"
  shows "\<exists>i s1. pf_uuid pf (move_label_id req) = Some i \<and>
     labels.move_rows now u i (case move_label_after req of None \<Rightarrow> [] | Some a \<Rightarrow> a) (s\<lparr>st_pending := []\<rparr>) = (Inr (), s1) \<and>
     s' = flush s1"
proof -
  obtain i where i: "pf_uuid pf (move_label_id req) = Some i"
    "with_tx (sbind (labels.move_rows now u i (case move_label_after req of None \<Rightarrow> [] | Some a \<Rightarrow> a)) (\<lambda>_. label_list_results u)) s
       = (Inr res, s')"
    using assms unfolding move_label_rows by (auto simp: act_iff(1-7))
  from with_tx_respond_Inr[OF label_results_total(1) i(2)] i(1) show ?thesis by auto
qed

lemma sort_label_list_effect:
  assumes "sort_label_list now u ids s = (Inr res, s')"
  shows "\<exists>s1. labels.sort_rows now u ids (s\<lparr>st_pending := []\<rparr>) = (Inr (), s1) \<and> s' = flush s1"
  using with_tx_respond_Inr[OF label_results_total(1) assms[unfolded sort_label_rows]] by auto


lemma create_label_rows:
  "create_label pf claim_now now fresh u req =
     sbind (lift (parse_id (pf_uuid pf) (create_label_id req))) (\<lambda>oid.
     sbind (lift (new_label_name (create_label_name req))) (\<lambda>name.
     sbind (owner_act pf u (create_label_account req) (label_resolve_account_owner u)) (\<lambda>owner.
     sbind (with_tx (labels.insert_row (label_ensure_name_unique pf owner name []) oid claim_now now owner
              (\<lambda>k. label_set_sort_key k (new_label fresh owner name now)))) (\<lambda>created.
     label_item_result owner created))))"
  unfolding create_label_def labels.insert_row_def owner_act_def label_repo ..


lemma create_label_effect:
  assumes "create_label pf claim_now now fresh u req s = (Inr res, s')"
  shows "\<exists>oid owner k. pf_uuid pf (create_label_id req) = Some oid \<and> oid \<notin> op_id ` set (st_operations s) \<and>
     3 \<le> rune_count (create_label_name req) \<and> rune_count (create_label_name req) \<le> 64 \<and> 
     creates_for pf s u (create_label_account req) owner \<and> label_name_free pf s owner (create_label_name req) [] \<and> 
     append_key (labels.own (st_labels s) owner) labels.as_item GrowsUp = Inr k \<and>
     s' = s\<lparr>st_labels := upsert_row label_id (label_set_sort_key k (new_label fresh owner (create_label_name req) now)) (st_labels s),
            st_operations := st_operations s @ [\<lparr>op_id = oid, op_handled = True, op_created = claim_now, op_updated = now\<rparr>],
            st_pending := []\<rparr>"
proof -
  let ?n = "create_label_name req"
  obtain oid owner r s0 where pre: "pf_uuid pf (create_label_id req) = Some oid" "3 \<le> rune_count ?n" "rune_count ?n \<le> 64"
      "creates_for pf s u (create_label_account req) owner"
    and tx: "with_tx (labels.insert_row (label_ensure_name_unique pf owner ?n []) oid claim_now now owner
              (\<lambda>k. label_set_sort_key k (new_label fresh owner ?n now))) s = (Inr r, s0)"
    and res: "label_item_result owner r s0 = (Inr res, s')"
    using assms unfolding create_label_rows
    by (auto simp: act_iff(1-7) owner_act_Inr[OF label_resolve_Inr] new_label_name_Inr)
  have "s' = s0" using read_only_outcome[OF label_results_total(3) res] .
  moreover from tx obtain s1 where s1: "labels.insert_row (label_ensure_name_unique pf owner ?n []) oid claim_now now owner
              (\<lambda>k. label_set_sort_key k (new_label fresh owner ?n now)) (s\<lparr>st_pending := []\<rparr>) = (Inr r, s1)" "s0 = flush s1"
    by (auto simp: act_iff)
  ultimately show ?thesis using labels.insert_row_effect[OF s1(1) label_checks_read_only(2)] pre
    by (auto simp: label_ensure_name_unique_Inr)
qed


text \<open>The database after a deletion and after the two re-pointing statements of a merge.\<close>

definition label_deleted :: "ident \<Rightarrow> store \<Rightarrow> store" where
  "label_deleted i s = s\<lparr>st_labels := delete_row label_id i (st_labels s),
     st_transactions := map (\<lambda>t. t\<lparr>tx_labels := drop_label i (tx_labels t)\<rparr>) (st_transactions s),
     st_recurring := map (\<lambda>t. t\<lparr>rt_labels := drop_label i (rt_labels t)\<rparr>) (st_recurring s),
     st_pending := st_pending s @ touched (\<lambda>t. i \<in> set (tx_labels t)) (st_transactions s)\<rparr>"

definition label_repointed :: "ident \<Rightarrow> ident \<Rightarrow> store \<Rightarrow> store" where
  "label_repointed i j s = s\<lparr>st_pending := st_pending s @ touched (\<lambda>t. i \<in> set (tx_labels t)) (st_transactions s),
     st_transactions := map (\<lambda>t. t\<lparr>tx_labels := add_label i j (tx_labels t)\<rparr>) (st_transactions s),
     st_recurring := map (\<lambda>t. t\<lparr>rt_labels := add_label i j (rt_labels t)\<rparr>) (st_recurring s)\<rparr>"

lemma repo_delete_label_iff [act_iff]: "repo_delete_label i s = (r, s') \<longleftrightarrow> r = Inr () \<and> s' = label_deleted i s"
  by (auto simp: repo_delete_label_def label_deleted_def sbind_def bump_where_def bump_def touched_def gets_def update_store_def)

lemma repo_reassign_label:
  "sbind (repo_reassign_label_transactions i j) (\<lambda>_. sbind (repo_reassign_label_recurring i j) (\<lambda>_. m)) s = m (label_repointed i j s)"
  by (simp add: repo_reassign_label_transactions_def repo_reassign_label_recurring_def label_repointed_def sbind_def bump_where_def
      bump_def touched_def gets_def update_store_def)

lemma delete_label_effect:
  "delete_label pf u q s = (Inr x, s') \<Longrightarrow>
   \<exists>r\<in>set (st_labels s). pf_uuid pf q = Some (label_id r) \<and> label_user r = u \<and>
     s' = flush (label_deleted (label_id r) (s\<lparr>st_pending := []\<rparr>))"
  by (auto simp: delete_label_def label_repo labels.get_def act_iff dest!: find_row_Some)


lemma merge_label_effect:
  "merge_label pf u req s = (Inr x, s') \<Longrightarrow>
   \<exists>src\<in>set (st_labels s). \<exists>dst\<in>set (st_labels s).
     pf_uuid pf (merge_label_source req) = Some (label_id src) \<and> pf_uuid pf (merge_label_target req) = Some (label_id dst) \<and>
     label_id src \<noteq> label_id dst \<and> label_user src = u \<and> label_user dst = u \<and>
     s' = flush (label_deleted (label_id src) (label_repointed (label_id src) (label_id dst) (s\<lparr>st_pending := []\<rparr>)))"
  by (auto simp: merge_label_def label_repo labels.get_def repo_reassign_label act_iff dest!: find_row_Some)


definition merged_label :: "ident \<Rightarrow> ident \<Rightarrow> ident list \<Rightarrow> ident list" where
  "merged_label i j ls = drop_label i (add_label i j ls)"


lemma merge_label_tables:
  assumes "merge_label pf u req s = (Inr x, s')"
  shows "\<exists>src\<in>set (st_labels s). \<exists>dst\<in>set (st_labels s).
     pf_uuid pf (merge_label_source req) = Some (label_id src) \<and> pf_uuid pf (merge_label_target req) = Some (label_id dst) \<and>
     label_id src \<noteq> label_id dst \<and> label_user src = u \<and> label_user dst = u \<and>
     st_labels s' = delete_row label_id (label_id src) (st_labels s) \<and>
     st_transactions s' = map (\<lambda>t. t\<lparr>tx_labels := merged_label (label_id src) (label_id dst) (tx_labels t)\<rparr>) (st_transactions s) \<and>
     st_recurring s' = map (\<lambda>t. t\<lparr>rt_labels := merged_label (label_id src) (label_id dst) (rt_labels t)\<rparr>) (st_recurring s) \<and>
     st_accounts s' = map (bump_account (accounts_of (\<lambda>t. label_id src \<in> set (tx_labels t)) (st_transactions s))) (st_accounts s) \<and>
     st_categories s' = st_categories s \<and> st_tags s' = st_tags s \<and> st_payees s' = st_payees s \<and>
     st_envelope_categories s' = st_envelope_categories s \<and> st_access s' = st_access s \<and> st_operations s' = st_operations s"
proof -
  obtain src dst where m: "src \<in> set (st_labels s)" "dst \<in> set (st_labels s)"
     "pf_uuid pf (merge_label_source req) = Some (label_id src)" "pf_uuid pf (merge_label_target req) = Some (label_id dst)"
     "label_id src \<noteq> label_id dst" "label_user src = u" "label_user dst = u"
     and s': "s' = flush (label_deleted (label_id src) (label_repointed (label_id src) (label_id dst) (s\<lparr>st_pending := []\<rparr>)))"
    using merge_label_effect[OF assms] by blast
  have "st_labels s' = delete_row label_id (label_id src) (st_labels s) \<and>
     st_transactions s' = map (\<lambda>t. t\<lparr>tx_labels := merged_label (label_id src) (label_id dst) (tx_labels t)\<rparr>) (st_transactions s) \<and>
     st_recurring s' = map (\<lambda>t. t\<lparr>rt_labels := merged_label (label_id src) (label_id dst) (rt_labels t)\<rparr>) (st_recurring s) \<and>
     st_accounts s' = map (bump_account (accounts_of (\<lambda>t. label_id src \<in> set (tx_labels t)) (st_transactions s))) (st_accounts s) \<and>
     st_categories s' = st_categories s \<and> st_tags s' = st_tags s \<and> st_payees s' = st_payees s \<and>
     st_envelope_categories s' = st_envelope_categories s \<and> st_access s' = st_access s \<and> st_operations s' = st_operations s"
    unfolding s' using m(5)
    by (simp add: label_deleted_def label_repointed_def merged_label_def comp_def flush_accounts accounts_of_map)
  with m show ?thesis by blast
qed

subsection \<open>The calls of the service\<close>

datatype label_call =
    CreateLabel ident create_label_request
  | UpdateLabel update_label_request
  | ArchiveLabel string
  | UnarchiveLabel string
  | DeleteLabel string
  | MergeLabel merge_label_request
  | MoveLabel move_label_request
  | SortLabelList "string list"
  | GetLabelList

text \<open>A call with its result left out; \<open>CreateLabel\<close> carries the id that \<open>vo.NewId\<close> gives.\<close>

fun label_perform :: "platform \<Rightarrow> instant \<Rightarrow> instant \<Rightarrow> (ident \<Rightarrow> ident) \<Rightarrow> ident \<Rightarrow> label_call \<Rightarrow> unit act" where
  "label_perform pf claim_now now new_id u (CreateLabel fresh q) = sbind (create_label pf claim_now now fresh u q) (\<lambda>_. ret ())"
| "label_perform pf claim_now now new_id u (UpdateLabel q) = sbind (update_label pf now u q) (\<lambda>_. ret ())"
| "label_perform pf claim_now now new_id u (ArchiveLabel q) = archive_label pf now u q"
| "label_perform pf claim_now now new_id u (UnarchiveLabel q) = unarchive_label pf now u q"
| "label_perform pf claim_now now new_id u (DeleteLabel q) = delete_label pf u q"
| "label_perform pf claim_now now new_id u (MergeLabel q) = merge_label pf u q"
| "label_perform pf claim_now now new_id u (MoveLabel q) = sbind (move_label pf now u q) (\<lambda>_. ret ())"
| "label_perform pf claim_now now new_id u (SortLabelList q) = sbind (sort_label_list now u q) (\<lambda>_. ret ())"
| "label_perform pf claim_now now new_id u GetLabelList = sbind (get_label_list u) (\<lambda>_. ret ())"

fun label_fresh :: "store \<Rightarrow> label_call \<Rightarrow> bool" where
  "label_fresh s (CreateLabel fresh q) = (fresh \<noteq> [] \<and> fresh \<notin> label_id ` set (st_labels s))"
| "label_fresh s _ = True"

text \<open>A call on the own table is one abstract step for the caller or, creating in a shared account, for its owner.\<close>

lemma label_created_change:
  assumes "create_label pf claim_now now fresh u q s = (Inr x, s')" "labels.wf (st_labels s)"
    "fresh \<noteq> []" "fresh \<notin> label_id ` set (st_labels s)"
  shows "\<exists>v. acts_for s u v \<and> labels.change (label_name_free pf s) v (st_labels s) (st_labels s')"
  using create_label_effect[OF assms(1)] assms(2-4)
  by (fastforce dest: creates_for_acts intro!: labels.add_change simp: label_set_sort_key_def new_label_def)

lemma label_moved_change:
  assumes "move_label pf now u q s = (Inr x, s')" "labels.wf (st_labels s)"
  shows "labels.change free u (st_labels s) (st_labels s') \<and> s' = s\<lparr>st_labels := st_labels s', st_pending := []\<rparr> \<and>
    label_id ` set (st_labels s') = label_id ` set (st_labels s)"
  using move_label_effect[OF assms(1)] assms(2)
    labels.move_rows_change[of "s\<lparr>st_pending := []\<rparr>" now u _ _ _ free] by fastforce

lemma label_sorted_change:
  assumes "sort_label_list now u q s = (Inr x, s')" "labels.wf (st_labels s)"
  shows "labels.change free u (st_labels s) (st_labels s') \<and> s' = s\<lparr>st_labels := st_labels s', st_pending := []\<rparr> \<and>
    label_id ` set (st_labels s') = label_id ` set (st_labels s)"
  using sort_label_list_effect[OF assms(1)] assms(2)
    labels.sort_rows_change[of "s\<lparr>st_pending := []\<rparr>" now u q _ free] by fastforce

lemma label_perform_atomic: "atomic (label_perform pf claim_now now new_id u c)"
proof -
  have "atomic (create_label pf claim_now now fresh u q)" for fresh q
    unfolding create_label_rows
    by ((rule atomic_sbind_lift)+, rule atomic_sbind_owner, rule label_checks_read_only, rule atomic_sbind_total, rule atomic_with_tx, rule label_results_total)
  moreover have "atomic (update_label pf now u q)" for q
    unfolding update_label_def label_mutate_with_unique_row labels.change_row_def by ((rule atomic_sbind_lift)+, rule atomic_sbind_total, rule atomic_with_tx, rule label_results_total)
  moreover have "atomic (archive_label pf now u q)" "atomic (unarchive_label pf now u q)" for q
    unfolding archive_label_def unarchive_label_def label_mutate_row labels.change_row_def
    by (rule atomic_sbind_lift, rule atomic_done, rule atomic_with_tx)+
  ultimately show ?thesis
    by (cases c) (auto simp: delete_label_def merge_label_def move_label_rows sort_label_rows
      intro: atomic_done atomic_sbind_lift atomic_with_tx atomic_read_only label_results_total)
qed

lemma label_perform_change:
  assumes "label_perform pf claim_now now new_id u c s = (Inr x, s')" "labels.wf (st_labels s)" "label_fresh s c"
  shows "\<exists>v. acts_for s u v \<and> labels.change (label_name_free pf s) v (st_labels s) (st_labels s')"
proof (cases c)
  case (CreateLabel fresh q)
  then show ?thesis using assms label_created_change[OF _ assms(2)] by (auto simp: act_iff)
next
  case (UpdateLabel q)
  then obtain r where "r \<in> set (st_labels s)" "label_user r = u" "label_name_free pf s u (update_label_new_name q) (label_id r)"
    "st_labels s' = labels.replace (label_id r) (label_update_name (update_label_new_name q) now r) (st_labels s)"
    using assms(1) by (auto simp: act_iff dest!: update_label_effect)
  then show ?thesis using assms(2) labels.put_change[of "st_labels s" r "label_update_name (update_label_new_name q) now r" "label_name_free pf s"]
    by (intro exI[of _ u]) simp
next
  case (ArchiveLabel q)
  then obtain r where "r \<in> set (st_labels s)" "label_user r = u"
    "st_labels s' = labels.replace (label_id r) (label_archive now r) (st_labels s)"
    using assms(1) by (auto dest!: archive_label_effect)
  then show ?thesis using assms(2) labels.put_change[of "st_labels s" r "label_archive now r" "label_name_free pf s"]
    by (intro exI[of _ u]) simp
next
  case (UnarchiveLabel q)
  then obtain r where "r \<in> set (st_labels s)" "label_user r = u"
    "st_labels s' = labels.replace (label_id r) (label_unarchive now r) (st_labels s)"
    using assms(1) by (auto dest!: unarchive_label_effect)
  then show ?thesis using assms(2) labels.put_change[of "st_labels s" r "label_unarchive now r" "label_name_free pf s"]
    by (intro exI[of _ u]) simp
next
  case (DeleteLabel q)
  then obtain r where "r \<in> set (st_labels s)" "label_user r = u" "st_labels s' = delete_row label_id (label_id r) (st_labels s)"
    using assms(1) by (auto simp: label_deleted_def dest!: delete_label_effect)
  then show ?thesis using labels.change.drop[of r "st_labels s" u] by (intro exI[of _ u]) simp
next
  case (MergeLabel q)
  then have "merge_label pf u q s = (Inr x, s')" using assms(1) by simp
  from merge_label_tables[OF this] obtain r where
    "r \<in> set (st_labels s)" "label_user r = u" "st_labels s' = delete_row label_id (label_id r) (st_labels s)" by blast
  then show ?thesis using labels.change.drop[of r "st_labels s" u] by (intro exI[of _ u]) simp
next
  case (MoveLabel q)
  then obtain y where "move_label pf now u q s = (Inr y, s')" using assms(1) by (auto simp: sbind_Inr_iff ret_iff)
  from label_moved_change[OF this assms(2)] show ?thesis by (intro exI[of _ u]) simp
next
  case (SortLabelList q)
  then obtain y where "sort_label_list now u q s = (Inr y, s')" using assms(1) by (auto simp: sbind_Inr_iff ret_iff)
  from label_sorted_change[OF this assms(2)] show ?thesis by (intro exI[of _ u]) simp
next
  case GetLabelList
  then have "s' = s" using assms(1) read_only_outcome[OF label_results_total(5)] by (auto simp: act_iff)
  then show ?thesis using labels.change.same by (intro exI[of _ u]) simp
qed

lemma label_perform_rest:
  assumes "label_perform pf claim_now now new_id u c s = (Inr x, s')" "labels.wf (st_labels s)"
  shows "(st_categories s' = st_categories s \<and> st_tags s' = st_tags s \<and> st_payees s' = st_payees s \<and> st_access s' = st_access s) \<and>
    (category_refs s' = category_refs s \<and> tag_refs s' = tag_refs s \<and> payee_refs s' = payee_refs s) \<and>
    (label_refs s \<subseteq> label_id ` set (st_labels s) \<longrightarrow> label_refs s' \<subseteq> label_id ` set (st_labels s'))"
proof (cases c)
  case (CreateLabel fresh q)
  then obtain y where "create_label pf claim_now now fresh u q s = (Inr y, s')" using assms(1) by (auto simp: sbind_Inr_iff ret_iff)
  from create_label_effect[OF this] obtain r ops where
    "s' = s\<lparr>st_labels := upsert_row label_id r (st_labels s), st_operations := ops, st_pending := []\<rparr>" by metis
  then show ?thesis using upsert_ids[of label_id r "st_labels s"] by (auto simp: refs_defs)
next
  case (UpdateLabel q)
  then obtain y where "update_label pf now u q s = (Inr y, s')" using assms(1) by (auto simp: sbind_Inr_iff ret_iff)
  from update_label_effect[OF this] obtain i r where
    "s' = s\<lparr>st_labels := labels.replace i r (st_labels s), st_pending := []\<rparr>" "label_id r = i" by fastforce
  then show ?thesis using labels.replace_id_set[of r i "st_labels s"] by (simp add: refs_defs)
next
  case (ArchiveLabel q)
  then have "archive_label pf now u q s = (Inr x, s')" using assms(1) by simp
  from archive_label_effect[OF this] obtain i r where
    "s' = s\<lparr>st_labels := labels.replace i r (st_labels s), st_pending := []\<rparr>" "label_id r = i" by fastforce
  then show ?thesis using labels.replace_id_set[of r i "st_labels s"] by (simp add: refs_defs)
next
  case (UnarchiveLabel q)
  then have "unarchive_label pf now u q s = (Inr x, s')" using assms(1) by simp
  from unarchive_label_effect[OF this] obtain i r where
    "s' = s\<lparr>st_labels := labels.replace i r (st_labels s), st_pending := []\<rparr>" "label_id r = i" by fastforce
  then show ?thesis using labels.replace_id_set[of r i "st_labels s"] by (simp add: refs_defs)
next
  case (DeleteLabel q)
  then have "delete_label pf u q s = (Inr x, s')" using assms(1) by simp
  from delete_label_effect[OF this] obtain i where s': "s' = flush (label_deleted i (s\<lparr>st_pending := []\<rparr>))" by blast
  have "label_refs s' \<subseteq> label_refs s - {i}" "label_id ` set (st_labels s') = label_id ` set (st_labels s) - {i}"
    unfolding s' by (auto simp: label_deleted_def refs_defs delete_ids)
  moreover have "st_categories s' = st_categories s \<and> st_tags s' = st_tags s \<and> st_payees s' = st_payees s \<and> st_access s' = st_access s" "category_refs s' = category_refs s \<and> tag_refs s' = tag_refs s \<and> payee_refs s' = payee_refs s"
    unfolding s' by (simp_all add: label_deleted_def refs_defs)
  ultimately show ?thesis by auto
next
  case (MergeLabel q)
  then have "merge_label pf u q s = (Inr x, s')" using assms(1) by simp
  from merge_label_tables[OF this] show ?thesis
  proof (elim bexE conjE)
    fix src dst assume m: "dst \<in> set (st_labels s)" "label_id src \<noteq> label_id dst" "st_labels s' = delete_row label_id (label_id src) (st_labels s)"
    "st_transactions s' = map (\<lambda>t. t\<lparr>tx_labels := merged_label (label_id src) (label_id dst) (tx_labels t)\<rparr>) (st_transactions s)"
    "st_recurring s' = map (\<lambda>t. t\<lparr>rt_labels := merged_label (label_id src) (label_id dst) (rt_labels t)\<rparr>) (st_recurring s)"
    "st_access s' = st_access s" "st_categories s' = st_categories s" "st_tags s' = st_tags s" "st_payees s' = st_payees s" "st_envelope_categories s' = st_envelope_categories s"
    have "label_refs s' \<subseteq> insert (label_id dst) (label_refs s - {label_id src})"
      using m by (auto simp: refs_defs point_at_Some merged_label_def)
    moreover have "label_id ` set (st_labels s') = label_id ` set (st_labels s) - {label_id src}"
      unfolding m(3) by (rule delete_ids)
    moreover have "st_categories s' = st_categories s \<and> st_tags s' = st_tags s \<and> st_payees s' = st_payees s \<and> st_access s' = st_access s" "category_refs s' = category_refs s \<and> tag_refs s' = tag_refs s \<and> payee_refs s' = payee_refs s"
      using m by (simp_all add: refs_defs)
    ultimately show ?thesis using m(1,2) by auto
  qed
next
  case (MoveLabel q)
  then obtain y where "move_label pf now u q s = (Inr y, s')" using assms(1) by (auto simp: sbind_Inr_iff ret_iff)
  from label_moved_change[OF this assms(2)] obtain ys where
    "s' = s\<lparr>st_labels := ys, st_pending := []\<rparr>" "label_id ` set (st_labels s') = label_id ` set (st_labels s)" by blast
  then show ?thesis by (simp add: refs_defs)
next
  case (SortLabelList q)
  then obtain y where "sort_label_list now u q s = (Inr y, s')" using assms(1) by (auto simp: sbind_Inr_iff ret_iff)
  from label_sorted_change[OF this assms(2)] obtain ys where
    "s' = s\<lparr>st_labels := ys, st_pending := []\<rparr>" "label_id ` set (st_labels s') = label_id ` set (st_labels s)" by blast
  then show ?thesis by (simp add: refs_defs)
next
  case GetLabelList
  then have "s' = s" using assms(1) read_only_outcome[OF label_results_total(5)] by (auto simp: act_iff)
  then show ?thesis by simp
qed

text \<open>The operation id a call would claim.\<close>

fun label_operation :: "label_call \<Rightarrow> string option" where
  "label_operation (CreateLabel fresh q) = Some (create_label_id q)"
| "label_operation _ = None"

lemma label_perform_operations:
  assumes "label_perform pf claim_now now new_id u c s = (Inr x, s')" "labels.wf (st_labels s)"
  shows "op_id ` set (st_operations s') = op_id ` set (st_operations s) \<union> claimed_by pf (label_operation c) \<and>
    op_id ` set (st_operations s) \<inter> claimed_by pf (label_operation c) = {}"
proof (cases c)
  case (CreateLabel fresh q)
  then obtain y where "create_label pf claim_now now fresh u q s = (Inr y, s')" using assms(1) by (auto simp: sbind_Inr_iff ret_iff)
  from create_label_effect[OF this] show ?thesis using CreateLabel by (elim exE conjE) (simp add: claimed_by_def)
next
  case (UpdateLabel q)
  then obtain y where "update_label pf now u q s = (Inr y, s')" using assms(1) by (auto simp: sbind_Inr_iff ret_iff)
  from update_label_effect[OF this] show ?thesis using UpdateLabel by (elim bexE conjE) (simp add: claimed_by_def)
next
  case (ArchiveLabel q)
  then have "archive_label pf now u q s = (Inr x, s')" using assms(1) by simp
  from archive_label_effect[OF this] show ?thesis using ArchiveLabel by (elim bexE conjE) (simp add: claimed_by_def)
next
  case (UnarchiveLabel q)
  then have "unarchive_label pf now u q s = (Inr x, s')" using assms(1) by simp
  from unarchive_label_effect[OF this] show ?thesis using UnarchiveLabel by (elim bexE conjE) (simp add: claimed_by_def)
next
  case (DeleteLabel q)
  then have "delete_label pf u q s = (Inr x, s')" using assms(1) by simp
  from delete_label_effect[OF this] show ?thesis using DeleteLabel
    by (elim bexE conjE) (simp add: claimed_by_def label_deleted_def)
next
  case (MergeLabel q)
  then have "merge_label pf u q s = (Inr x, s')" using assms(1) by simp
  from merge_label_tables[OF this] show ?thesis using MergeLabel by (elim bexE conjE) (simp add: claimed_by_def)
next
  case (MoveLabel q)
  then obtain y where "move_label pf now u q s = (Inr y, s')" using assms(1) by (auto simp: sbind_Inr_iff ret_iff)
  from label_moved_change[OF this assms(2)] obtain ys where "s' = s\<lparr>st_labels := ys, st_pending := []\<rparr>" by blast
  then show ?thesis using MoveLabel by (simp add: claimed_by_def)
next
  case (SortLabelList q)
  then obtain y where "sort_label_list now u q s = (Inr y, s')" using assms(1) by (auto simp: sbind_Inr_iff ret_iff)
  from label_sorted_change[OF this assms(2)] obtain ys where "s' = s\<lparr>st_labels := ys, st_pending := []\<rparr>" by blast
  then show ?thesis using SortLabelList by (simp add: claimed_by_def)
next
  case GetLabelList
  then have "s' = s" using assms(1) read_only_outcome[OF label_results_total(5)] by (auto simp: act_iff)
  then show ?thesis using GetLabelList by (simp add: claimed_by_def)
qed

end
