(* ===== verification/Classification.thy ===== *)
theory Classification
  imports Category_Service Tag_Service Payee_Service Label_Service
begin

section \<open>The four classification services together\<close>

text \<open>
  The use cases of the category, tag, payee and label services as calls on one database, in any order and by any
  users: what holds in every state such a history reaches, what a failing call leaves behind, and whose rows a call can
  change. A call that creates a row is given an id no row of its table has (\<open>vo.NewId\<close>).
\<close>

datatype call = CategoryCall category_call | TagCall tag_call | PayeeCall payee_call | LabelCall label_call

fun perform :: "platform \<Rightarrow> instant \<Rightarrow> instant \<Rightarrow> (ident \<Rightarrow> ident) \<Rightarrow> ident \<Rightarrow> call \<Rightarrow> unit act" where
  "perform pf claim_now now new_id u (CategoryCall c) = category_perform pf claim_now now new_id u c"
| "perform pf claim_now now new_id u (TagCall c) = tag_perform pf claim_now now new_id u c"
| "perform pf claim_now now new_id u (PayeeCall c) = payee_perform pf claim_now now new_id u c"
| "perform pf claim_now now new_id u (LabelCall c) = label_perform pf claim_now now new_id u c"

fun call_fresh :: "store \<Rightarrow> call \<Rightarrow> bool" where
  "call_fresh s (CategoryCall c) = category_fresh s c"
| "call_fresh s (TagCall c) = tag_fresh s c"
| "call_fresh s (PayeeCall c) = payee_fresh s c"
| "call_fresh s (LabelCall c) = label_fresh s c"

fun call_operation :: "call \<Rightarrow> string option" where
  "call_operation (CategoryCall c) = category_operation c"
| "call_operation (TagCall c) = tag_operation c"
| "call_operation (PayeeCall c) = payee_operation c"
| "call_operation (LabelCall c) = label_operation c"

text \<open>One call by some user, whatever its outcome, and any number of them in sequence.\<close>

inductive call_step :: "platform \<Rightarrow> store \<Rightarrow> store \<Rightarrow> bool" for pf where
  "\<lbrakk>call_fresh s c; perform pf claim_now now new_id u c s = (r, s')\<rbrakk> \<Longrightarrow> call_step pf s s'"

inductive reaches :: "platform \<Rightarrow> store \<Rightarrow> store \<Rightarrow> bool" for pf where
  start: "reaches pf s s"
| more: "\<lbrakk>reaches pf s s1; call_step pf s1 s2\<rbrakk> \<Longrightarrow> reaches pf s s2"

inductive_cases call_stepE: "call_step pf s s'"

subsection \<open>The invariant\<close>

definition tables_wf :: "store \<Rightarrow> bool" where
  "tables_wf s \<longleftrightarrow>
     distinct (map category_id (st_categories s)) \<and> (\<forall>r\<in>set (st_categories s). category_id r \<noteq> [] \<and> valid_key (category_sort_key r)) \<and>
     distinct (map tag_id (st_tags s)) \<and> (\<forall>r\<in>set (st_tags s). tag_id r \<noteq> [] \<and> valid_key (tag_sort_key r)) \<and>
     distinct (map payee_id (st_payees s)) \<and> (\<forall>r\<in>set (st_payees s). payee_id r \<noteq> [] \<and> valid_key (payee_sort_key r)) \<and>
     distinct (map label_id (st_labels s)) \<and> (\<forall>r\<in>set (st_labels s). label_id r \<noteq> [] \<and> valid_key (label_sort_key r))"

text \<open>Tags and labels of an owner share one namespace, up to case; payees are told apart as written.\<close>

definition names_consistent :: "platform \<Rightarrow> store \<Rightarrow> bool" where
  "names_consistent pf s \<longleftrightarrow>
     (\<forall>r\<in>set (st_tags s). \<forall>r'\<in>set (st_tags s). tag_user r = tag_user r' \<and> tag_id r \<noteq> tag_id r' \<longrightarrow>
        \<not> equal_fold (pf_fold pf) (tag_name r) (tag_name r')) \<and>
     (\<forall>r\<in>set (st_labels s). \<forall>r'\<in>set (st_labels s). label_user r = label_user r' \<and> label_id r \<noteq> label_id r' \<longrightarrow>
        \<not> equal_fold (pf_fold pf) (label_name r) (label_name r')) \<and>
     (\<forall>r\<in>set (st_tags s). \<forall>r'\<in>set (st_labels s). tag_user r = label_user r' \<longrightarrow>
        \<not> equal_fold (pf_fold pf) (tag_name r) (label_name r')) \<and>
     (\<forall>r\<in>set (st_payees s). \<forall>r'\<in>set (st_payees s). payee_user r = payee_user r' \<and> payee_id r \<noteq> payee_id r' \<longrightarrow>
        payee_name r \<noteq> payee_name r')"

definition references_resolve :: "store \<Rightarrow> bool" where
  "references_resolve s \<longleftrightarrow>
     category_refs s \<subseteq> category_id ` set (st_categories s) \<and> tag_refs s \<subseteq> tag_id ` set (st_tags s) \<and>
     payee_refs s \<subseteq> payee_id ` set (st_payees s) \<and> label_refs s \<subseteq> label_id ` set (st_labels s)"

definition consistent :: "platform \<Rightarrow> store \<Rightarrow> bool" where
  "consistent pf s \<longleftrightarrow> tables_wf s \<and> names_consistent pf s \<and> references_resolve s"

lemma nonempty_ids: "[] \<notin> f ` S \<longleftrightarrow> (\<forall>x\<in>S. f x \<noteq> [])"
  by (metis imageE image_eqI)

lemma tables_wf_iff: "tables_wf s \<longleftrightarrow>
   categories.wf (st_categories s) \<and> [] \<notin> category_id ` set (st_categories s) \<and>
   tags.wf (st_tags s) \<and> [] \<notin> tag_id ` set (st_tags s) \<and>
   payees.wf (st_payees s) \<and> [] \<notin> payee_id ` set (st_payees s) \<and>
   labels.wf (st_labels s) \<and> [] \<notin> label_id ` set (st_labels s)"
  unfolding tables_wf_def categories.wf_def tags.wf_def payees.wf_def labels.wf_def nonempty_ids by blast

lemma names_consistent_iff: "names_consistent pf s \<longleftrightarrow>
   tags.names_unique (equal_fold (pf_fold pf)) (st_tags s) \<and> labels.names_unique (equal_fold (pf_fold pf)) (st_labels s) \<and>
   (\<forall>r\<in>set (st_tags s). \<forall>r'\<in>set (st_labels s). tag_user r = label_user r' \<longrightarrow>
      \<not> equal_fold (pf_fold pf) (tag_name r) (label_name r')) \<and>
   payees.names_unique (=) (st_payees s)"
  unfolding names_consistent_def tags.names_unique_def labels.names_unique_def payees.names_unique_def ..

lemma perform_atomic: "atomic (perform pf claim_now now new_id u c)"
  by (cases c) (simp_all add: category_perform_atomic tag_perform_atomic payee_perform_atomic label_perform_atomic)

lemma perform_operations:
  assumes "perform pf claim_now now new_id u c s = (Inr x, s')" "tables_wf s"
  shows "op_id ` set (st_operations s') = op_id ` set (st_operations s) \<union> claimed_by pf (call_operation c) \<and>
    op_id ` set (st_operations s) \<inter> claimed_by pf (call_operation c) = {}"
  using assms unfolding tables_wf_iff
  by (cases c) (simp_all add: category_perform_operations tag_perform_operations payee_perform_operations label_perform_operations)

text \<open>The step each call makes on the tables, the other three left as they are.\<close>

lemma category_call_preserves:
  assumes "category_perform pf claim_now now new_id u c s = (Inr x, s')" "category_fresh s c" "consistent pf s"
  shows "consistent pf s'"
proof -
  have wf: "categories.wf (st_categories s)" "[] \<notin> category_id ` set (st_categories s)"
    using assms(3) by (simp_all add: consistent_def tables_wf_iff)
  from category_perform_change[OF assms(1) wf(1) assms(2)]
  obtain v where ch: "categories.change (\<lambda>_ _ _. True) v (st_categories s) (st_categories s')" by blast
  show ?thesis
    using assms(3) category_perform_rest[OF assms(1) wf(1)] categories.change_wf[OF ch wf(1)]
      categories.change_ids_nonempty[OF ch wf(2)]
    by (simp add: consistent_def tables_wf_iff names_consistent_iff references_resolve_def)
qed

lemma payee_call_preserves:
  assumes "payee_perform pf claim_now now new_id u c s = (Inr x, s')" "payee_fresh s c" "consistent pf s"
  shows "consistent pf s'"
proof -
  have wf: "payees.wf (st_payees s)" "[] \<notin> payee_id ` set (st_payees s)" "payees.names_unique (=) (st_payees s)"
    using assms(3) by (simp_all add: consistent_def tables_wf_iff names_consistent_iff)
  from payee_perform_change[OF assms(1) wf(1) assms(2)]
  obtain v where ch: "payees.change (payee_name_free s) v (st_payees s) (st_payees s')" by blast
  have "payees.names_unique (=) (st_payees s')"
    by (rule payees.change_unique[OF ch wf(1,2,3)]) (auto simp: payee_name_free_def)
  then show ?thesis
    using assms(3) payee_perform_rest[OF assms(1) wf(1)] payees.change_wf[OF ch wf(1)]
      payees.change_ids_nonempty[OF ch wf(2)]
    by (simp add: consistent_def tables_wf_iff names_consistent_iff references_resolve_def)
qed

lemma tag_call_preserves:
  assumes "tag_perform pf claim_now now new_id u c s = (Inr x, s')" "tag_fresh s c" "consistent pf s"
  shows "consistent pf s'"
proof -
  let ?eq = "equal_fold (pf_fold pf)"
  have wf: "tags.wf (st_tags s)" "[] \<notin> tag_id ` set (st_tags s)" "tags.names_unique ?eq (st_tags s)"
    using assms(3) by (simp_all add: consistent_def tables_wf_iff names_consistent_iff)
  from tag_perform_change[OF assms(1) wf(1) assms(2)]
  obtain v where ch: "tags.change (tag_name_free pf s) v (st_tags s) (st_tags s')" by blast
  have u: "tags.names_unique ?eq (st_tags s')"
    by (rule tags.change_unique[OF ch wf(1,2,3)]) (auto simp: tag_name_free_def equal_fold_sym)
  have "\<not> ?eq (tag_name r) (label_name l)" if "r \<in> set (st_tags s')" "l \<in> set (st_labels s)" "tag_user r = label_user l" for r l
    using tags.change_names[OF ch that(1)] that(2,3) assms(3) equal_fold_sym[of "pf_fold pf"]
    unfolding tag_name_free_def consistent_def names_consistent_def by metis
  with u show ?thesis
    using assms(3) tag_perform_rest[OF assms(1) wf(1)] tags.change_wf[OF ch wf(1)]
      tags.change_ids_nonempty[OF ch wf(2)]
    by (simp add: consistent_def tables_wf_iff names_consistent_iff references_resolve_def)
qed

lemma label_call_preserves:
  assumes "label_perform pf claim_now now new_id u c s = (Inr x, s')" "label_fresh s c" "consistent pf s"
  shows "consistent pf s'"
proof -
  let ?eq = "equal_fold (pf_fold pf)"
  have wf: "labels.wf (st_labels s)" "[] \<notin> label_id ` set (st_labels s)" "labels.names_unique ?eq (st_labels s)"
    using assms(3) by (simp_all add: consistent_def tables_wf_iff names_consistent_iff)
  from label_perform_change[OF assms(1) wf(1) assms(2)]
  obtain v where ch: "labels.change (label_name_free pf s) v (st_labels s) (st_labels s')" by blast
  have u: "labels.names_unique ?eq (st_labels s')"
    by (rule labels.change_unique[OF ch wf(1,2,3)]) (auto simp: label_name_free_def equal_fold_sym)
  have "\<not> ?eq (tag_name r) (label_name l)" if "r \<in> set (st_tags s)" "l \<in> set (st_labels s')" "tag_user r = label_user l" for r l
    using labels.change_names[OF ch that(2)] that(1,3) assms(3) equal_fold_sym[of "pf_fold pf"]
    unfolding label_name_free_def consistent_def names_consistent_def by metis
  with u show ?thesis
    using assms(3) label_perform_rest[OF assms(1) wf(1)] labels.change_wf[OF ch wf(1)]
      labels.change_ids_nonempty[OF ch wf(2)]
    by (simp add: consistent_def tables_wf_iff names_consistent_iff references_resolve_def)
qed

lemma call_step_preserves: "\<lbrakk>call_step pf s s'; consistent pf s\<rbrakk> \<Longrightarrow> consistent pf s'"
proof (erule call_stepE)
  fix c claim_now now new_id u r
  assume p: "perform pf claim_now now new_id u c s = (r, s')" "call_fresh s c" and ok: "consistent pf s"
  show "consistent pf s'"
  proof (cases r)
    case (Inl e)
    then show ?thesis using p(1) ok atomic_outcome[OF perform_atomic] by blast
  next
    case (Inr x)
    then show ?thesis using p ok
      by (cases c) (auto intro: category_call_preserves tag_call_preserves payee_call_preserves label_call_preserves)
  qed
qed

lemma perform_frame:
  assumes "perform pf claim_now now new_id u c s = (Inr x, s')" "call_fresh s c" "tables_wf s" "\<not> acts_for s u v"
  shows "filter (\<lambda>r. category_user r = v) (st_categories s') = filter (\<lambda>r. category_user r = v) (st_categories s) \<and>
    filter (\<lambda>r. tag_user r = v) (st_tags s') = filter (\<lambda>r. tag_user r = v) (st_tags s) \<and>
    filter (\<lambda>r. payee_user r = v) (st_payees s') = filter (\<lambda>r. payee_user r = v) (st_payees s) \<and>
    filter (\<lambda>r. label_user r = v) (st_labels s') = filter (\<lambda>r. label_user r = v) (st_labels s)"
proof (cases c)
  case (CategoryCall d)
  then have p: "category_perform pf claim_now now new_id u d s = (Inr x, s')" "category_fresh s d" using assms(1,2) by simp_all
  have wf: "categories.wf (st_categories s)" using assms(3) by (simp add: tables_wf_iff)
  from category_perform_change[OF p(1) wf p(2)] obtain w where
    "acts_for s u w" "categories.change (\<lambda>_ _ _. True) w (st_categories s) (st_categories s')" by blast
  moreover from this have "v \<noteq> w" using assms(4) by blast
  ultimately show ?thesis using categories.change_frame[OF _ wf] category_perform_rest[OF p(1) wf] by simp
next
  case (TagCall d)
  then have p: "tag_perform pf claim_now now new_id u d s = (Inr x, s')" "tag_fresh s d" using assms(1,2) by simp_all
  have wf: "tags.wf (st_tags s)" using assms(3) by (simp add: tables_wf_iff)
  from tag_perform_change[OF p(1) wf p(2)] obtain w where
    "acts_for s u w" "tags.change (tag_name_free pf s) w (st_tags s) (st_tags s')" by blast
  moreover from this have "v \<noteq> w" using assms(4) by blast
  ultimately show ?thesis using tags.change_frame[OF _ wf] tag_perform_rest[OF p(1) wf] by simp
next
  case (PayeeCall d)
  then have p: "payee_perform pf claim_now now new_id u d s = (Inr x, s')" "payee_fresh s d" using assms(1,2) by simp_all
  have wf: "payees.wf (st_payees s)" using assms(3) by (simp add: tables_wf_iff)
  from payee_perform_change[OF p(1) wf p(2)] obtain w where
    "acts_for s u w" "payees.change (payee_name_free s) w (st_payees s) (st_payees s')" by blast
  moreover from this have "v \<noteq> w" using assms(4) by blast
  ultimately show ?thesis using payees.change_frame[OF _ wf] payee_perform_rest[OF p(1) wf] by simp
next
  case (LabelCall d)
  then have p: "label_perform pf claim_now now new_id u d s = (Inr x, s')" "label_fresh s d" using assms(1,2) by simp_all
  have wf: "labels.wf (st_labels s)" using assms(3) by (simp add: tables_wf_iff)
  from label_perform_change[OF p(1) wf p(2)] obtain w where
    "acts_for s u w" "labels.change (label_name_free pf s) w (st_labels s) (st_labels s')" by blast
  moreover from this have "v \<noteq> w" using assms(4) by blast
  ultimately show ?thesis using labels.change_frame[OF _ wf] label_perform_rest[OF p(1) wf] by simp
qed

lemma reaches_preserves: "\<lbrakk>reaches pf s s'; consistent pf s\<rbrakk> \<Longrightarrow> consistent pf s'"
  by (induction rule: reaches.induct) (auto dest: call_step_preserves)

lemma reaches_operations:
  "\<lbrakk>reaches pf s s'; consistent pf s\<rbrakk> \<Longrightarrow> op_id ` set (st_operations s) \<subseteq> op_id ` set (st_operations s')"
proof (induction rule: reaches.induct)
  case (more s s1 s2)
  from more(2) obtain c claim_now now new_id u r where p: "perform pf claim_now now new_id u c s1 = (r, s2)"
    by (auto elim: call_stepE)
  have "op_id ` set (st_operations s1) \<subseteq> op_id ` set (st_operations s2)"
  proof (cases r)
    case (Inl e)
    then show ?thesis using p atomic_outcome[OF perform_atomic] by blast
  next
    case (Inr x)
    have "tables_wf s1" using reaches_preserves[OF more(1,4)] by (simp add: consistent_def)
    from perform_operations[OF p[unfolded Inr] this] show ?thesis by blast
  qed
  then show ?case using more by blast
qed simp

subsection \<open>What every history keeps\<close>

lemma empty_store_consistent [simp]: "consistent pf empty_store"
  by (simp add: consistent_def tables_wf_def names_consistent_def references_resolve_def refs_defs empty_store_def)

text \<open>C21: A call of any of the four services that returns an error leaves the whole database as it was.\<close>

theorem failed_call_changes_nothing:
  "perform pf claim_now now new_id u c s = (Inl e, s') \<Longrightarrow> s' = s"
  by (rule atomic_outcome[OF perform_atomic])

text \<open>C2: Whatever calls of the four services are made, in any order and by any users, in every state reached ids are
  distinct and sort keys well-formed, the tags and labels of an owner differ pairwise up to case, payees of an owner
  differ in name, and every category, tag, payee or label a transaction, template or envelope refers to exists.\<close>

theorem classifications_stay_consistent:
  assumes "consistent pf s" "reaches pf s s'"
  shows "consistent pf s'"
  by (rule reaches_preserves[OF assms(2,1)])

text \<open>C17: A call changes no classification of an owner other than the caller, except for the owners of accounts the
  caller administers.\<close>

theorem calls_leave_other_owners_alone:
  assumes "perform pf claim_now now new_id u c s = (r, s')" "call_fresh s c" "consistent pf s" "\<not> acts_for s u v"
  shows "filter (\<lambda>r. category_user r = v) (st_categories s') = filter (\<lambda>r. category_user r = v) (st_categories s) \<and>
    filter (\<lambda>r. tag_user r = v) (st_tags s') = filter (\<lambda>r. tag_user r = v) (st_tags s) \<and>
    filter (\<lambda>r. payee_user r = v) (st_payees s') = filter (\<lambda>r. payee_user r = v) (st_payees s) \<and>
    filter (\<lambda>r. label_user r = v) (st_labels s') = filter (\<lambda>r. label_user r = v) (st_labels s)"
proof (cases r)
  case (Inl e)
  then show ?thesis using assms(1) atomic_outcome[OF perform_atomic] by blast
next
  case (Inr x)
  show ?thesis using perform_frame[OF assms(1)[unfolded Inr] assms(2) _ assms(4)] assms(3) by (simp add: consistent_def)
qed

text \<open>C3: An operation id is good for one creation: after a creation with it succeeded, every later creation with the
  same id, of whatever kind and by whoever, fails.\<close>

theorem operation_id_used_once:
  assumes "consistent pf s" "call_fresh s c" "perform pf claim_now now new_id u c s = (Inr (), s1)"
    and "call_operation c = Some q" "pf_uuid pf q = Some i"
    and "reaches pf s1 s2" "call_operation c' = Some q'" "pf_uuid pf q' = Some i"
  shows "\<exists>e. perform pf claim_now' now' new_id' u' c' s2 = (Inl e, s2)"
proof -
  have ok1: "consistent pf s1" by (rule call_step_preserves[OF call_step.intros[OF assms(2,3)] assms(1)])
  have "i \<in> op_id ` set (st_operations s1)"
    using perform_operations[OF assms(3)] assms(1,4,5) by (simp add: consistent_def claimed_by_def)
  then have used: "i \<in> op_id ` set (st_operations s2)" using reaches_operations[OF assms(6) ok1] by blast
  obtain r s3 where p: "perform pf claim_now' now' new_id' u' c' s2 = (r, s3)" by (cases "perform pf claim_now' now' new_id' u' c' s2")
  show ?thesis
  proof (cases r)
    case (Inl e)
    then show ?thesis using p atomic_outcome[OF perform_atomic] by blast
  next
    case (Inr x)
    have "tables_wf s2" using reaches_preserves[OF assms(6) ok1] by (simp add: consistent_def)
    from perform_operations[OF p[unfolded Inr] this] used assms(7,8) show ?thesis by (simp add: claimed_by_def)
  qed
qed

lemma total_result: "total m \<Longrightarrow> \<exists>x s'. m s = (Inr x, s')"
  by (simp add: total_def)

lemma tag_table_wf: "tables_wf s \<Longrightarrow> tags.wf (st_tags s)"
  by (simp add: tables_wf_iff)

lemma create_tag_succeeds:
  assumes "tables_wf s" "pf_uuid pf (create_tag_id q) = Some oid" "oid \<notin> op_id ` set (st_operations s)"
    "3 \<le> rune_count (create_tag_name q)" "rune_count (create_tag_name q) \<le> 64"
    "creates_for pf s u (create_tag_account q) owner" "tag_name_free pf s owner (create_tag_name q) []"
  shows "\<exists>res s'. create_tag pf claim_now now fresh u q s = (Inr res, s')"
proof -
  let ?mk = "\<lambda>k. tag_set_sort_key k (new_tag fresh owner (create_tag_name q) now)"
    and ?check = "tag_ensure_name_unique pf owner (create_tag_name q) []"
  have "?check (s\<lparr>st_pending := [], st_operations := ops\<rparr>) = (Inr (), s\<lparr>st_pending := [], st_operations := ops\<rparr>)" for ops
    using assms(7) by (simp add: tag_ensure_name_unique_Inr)
  then obtain r s1 where "tags.insert_row ?check oid claim_now now owner ?mk (s\<lparr>st_pending := []\<rparr>) = (Inr r, s1)"
    using tags.insert_row_succeeds[of oid "s\<lparr>st_pending := []\<rparr>" ?check claim_now now owner ?mk] assms(3) tag_table_wf[OF assms(1)]
    by auto
  moreover obtain res s2 where "tag_item_result owner r (flush s1) = (Inr res, s2)"
    using total_result[OF tag_results_total(4)] by blast
  moreover have "owner_act pf u (create_tag_account q) (tag_resolve_account_owner u) s = (Inr owner, s)"
    using assms(6) by (simp add: owner_act_Inr[OF tag_resolve_Inr])
  moreover have "parse_id (pf_uuid pf) (create_tag_id q) = Inr oid" "new_tag_name (create_tag_name q) = Inr (create_tag_name q)"
    using assms(2,4,5) by (simp_all add: new_tag_name_Inr)
  ultimately show ?thesis by (auto simp: create_tag_rows act_iff)
qed

text \<open>C24: A tag is created exactly when its operation id is a UUID no creation has used, the name has 3 to 64 characters,
  the caller may create for the owner of the named account, and no tag or label of that owner has the name up to
  case.\<close>

theorem create_tag_outcome:
  assumes "tables_wf s"
  shows "(\<exists>res s'. create_tag pf claim_now now fresh u q s = (Inr res, s')) \<longleftrightarrow>
      (\<exists>oid owner. pf_uuid pf (create_tag_id q) = Some oid \<and> oid \<notin> op_id ` set (st_operations s) \<and>
         3 \<le> rune_count (create_tag_name q) \<and> rune_count (create_tag_name q) \<le> 64 \<and>
         creates_for pf s u (create_tag_account q) owner \<and> tag_name_free pf s owner (create_tag_name q) [])"
  using create_tag_succeeds[OF assms] create_tag_effect[of pf claim_now now fresh u q s] by metis

text \<open>C25: A created tag belongs to the caller or to the owner of the named account, comes last in the list of that owner,
  and nothing else of the list changes.\<close>

theorem created_tag_comes_last:
  assumes "tables_wf s" "fresh \<notin> tag_id ` set (st_tags s)"
    and c: "create_tag pf claim_now now fresh u q s = (Inr res, s')"
  shows "\<exists>owner k rows. creates_for pf s u (create_tag_account q) owner \<and> repo_list_tags owner s = (Inr rows, s) \<and>
    repo_list_tags owner s' = (Inr (rows @ [tag_set_sort_key k (new_tag fresh owner (create_tag_name q) now)]), s')"
proof -
  from create_tag_effect[OF c] obtain owner k where
    o: "creates_for pf s u (create_tag_account q) owner" "append_key (tags.own (st_tags s) owner) tags.as_item GrowsUp = Inr k"
    and s': "st_tags s' = upsert_row tag_id (tag_set_sort_key k (new_tag fresh owner (create_tag_name q) now)) (st_tags s)"
    by (elim exE conjE) simp
  let ?r = "tag_set_sort_key k (new_tag fresh owner (create_tag_name q) now)"
  have r: "tag_id ?r = fresh" "tag_user ?r = owner" "tag_sort_key ?r = k" by (simp_all add: tag_set_sort_key_def new_tag_def)
  have "st_tags s' = st_tags s @ [?r]" unfolding s' using assms(2) r(1) by (intro upsert_row_new) simp
  then have "tags.own (st_tags s') owner = tags.own (st_tags s) owner @ [?r]"
    using tags.own_append[OF tag_table_wf[OF assms(1)] r(2)] o(2) r(3) by simp
  then show ?thesis
    using o(1) by (intro exI[of _ owner] exI[of _ k]) (simp add: tag_repo tags.list_of_def gets_def)
qed

subsection \<open>Concrete histories\<close>

definition food_tag :: create_tag_request where
  "food_tag = \<lparr>create_tag_id = ''op1'', create_tag_name = ''Food'', create_tag_account = None\<rparr>"

lemma sample_simps [simp]:
  "pf_uuid sample_platform ''op1'' = Some ''op1''" "pf_uuid sample_platform [] = None" "tables_wf empty_store"
  "create_tag_id food_tag = ''op1''" "create_tag_name food_tag = ''Food''" "create_tag_account food_tag = None"
  "st_tags empty_store = []" "st_labels empty_store = []" "st_operations empty_store = []"
  using empty_store_consistent[of sample_platform]
  by (simp_all add: sample_platform_def food_tag_def empty_store_def consistent_def)

lemma food_name [simp]: "rune_count ''Food'' = 4"
  by (simp add: rune_count_def runes_ascii del: runes.simps)

lemma food_free [simp]: "tag_name_free sample_platform empty_store u n ex" "creates_for pf s u None u"
  by (simp_all add: tag_name_free_def creates_for_def)

theorem create_tag_outcome_witness:
  "\<exists>res s'. create_tag sample_platform 0 0 ''t1'' ''ann'' food_tag empty_store = (Inr res, s')"
  unfolding create_tag_outcome[OF sample_simps(3)] by (intro exI[of _ "''op1''"] exI[of _ "''ann''"]) simp

text \<open>The first call of a history: a tag created by \<open>ann\<close> in the empty database.\<close>

lemma food_created:
  "\<exists>res s'. create_tag sample_platform 0 0 ''t1'' ''ann'' food_tag empty_store = (Inr res, s')"
  by (rule create_tag_succeeds[of _ _ _ "''op1''" _ "''ann''"]) simp_all

theorem created_tag_comes_last_witness:
  "\<exists>res s' k. create_tag sample_platform 0 0 ''t1'' ''ann'' food_tag empty_store = (Inr res, s') \<and>
     repo_list_tags ''ann'' s' = (Inr [tag_set_sort_key k (new_tag ''t1'' ''ann'' ''Food'' 0)], s')"
proof -
  obtain res s' where c: "create_tag sample_platform 0 0 ''t1'' ''ann'' food_tag empty_store = (Inr res, s')"
    using food_created by blast
  have "repo_list_tags u empty_store = (Inr [], empty_store)" for u
    by (simp add: repo_list_tags_def gets_def ordered_def)
  then show ?thesis using created_tag_comes_last[OF sample_simps(3) _ c] c by (fastforce simp: creates_for_def)
qed

theorem failed_call_changes_nothing_witness:
  "\<exists>e s'. perform sample_platform 0 0 id ''ann'' (TagCall (DeleteTag [])) empty_store = (Inl e, s') \<and> s' = empty_store"
proof -
  obtain e s' where p: "perform sample_platform 0 0 id ''ann'' (TagCall (DeleteTag [])) empty_store = (Inl e, s')"
    by (simp add: delete_tag_def parse_id_def sbind_def lift_def)
  with failed_call_changes_nothing[OF p] show ?thesis by blast
qed

definition food_call :: call where
  "food_call = TagCall (CreateTag ''t1'' food_tag)"

lemma food_performed:
  "\<exists>s'. perform sample_platform 0 0 id ''ann'' food_call empty_store = (Inr (), s') \<and> map tag_name (st_tags s') = [''Food'']"
proof -
  obtain res s' where c: "create_tag sample_platform 0 0 ''t1'' ''ann'' food_tag empty_store = (Inr res, s')"
    using food_created by blast
  moreover have "map tag_name (st_tags s') = [''Food'']"
    using create_tag_effect[OF c] by (auto simp: upsert_row_def tag_set_sort_key_def new_tag_def)
  ultimately show ?thesis by (simp add: food_call_def sbind_def ret_def)
qed

lemma food_fresh [simp]: "call_fresh empty_store food_call" "call_operation food_call = Some ''op1''"
  by (simp_all add: food_call_def)

theorem classifications_stay_consistent_witness:
  "\<exists>s'. reaches sample_platform empty_store s' \<and> map tag_name (st_tags s') = [''Food''] \<and> consistent sample_platform s'"
proof -
  obtain s' where p: "perform sample_platform 0 0 id ''ann'' food_call empty_store = (Inr (), s')"
    "map tag_name (st_tags s') = [''Food'']" using food_performed by metis
  have "reaches sample_platform empty_store s'"
    by (rule reaches.more[OF reaches.start call_step.intros[OF _ p(1)]]) simp
  with classifications_stay_consistent[OF empty_store_consistent this] p(2) show ?thesis by (intro exI[of _ s']) simp
qed

theorem calls_leave_other_owners_alone_witness:
  "\<exists>s'. perform sample_platform 0 0 id ''ann'' food_call empty_store = (Inr (), s') \<and> st_tags s' \<noteq> [] \<and>
     filter (\<lambda>r. tag_user r = ''bob'') (st_tags s') = []"
proof -
  obtain s' where p: "perform sample_platform 0 0 id ''ann'' food_call empty_store = (Inr (), s')"
    "map tag_name (st_tags s') = [''Food'']" using food_performed by metis
  have "\<not> acts_for empty_store ''ann'' ''bob''" by (simp add: acts_for_def empty_store_def)
  from calls_leave_other_owners_alone[OF p(1) _ empty_store_consistent this] p show ?thesis by (intro exI[of _ s']) auto
qed

theorem operation_id_used_once_witness:
  "\<exists>s1 e. perform sample_platform 0 0 id ''ann'' food_call empty_store = (Inr (), s1) \<and>
     perform sample_platform 0 0 id ''bob'' (TagCall (CreateTag ''t2'' food_tag)) s1 = (Inl e, s1)"
proof -
  obtain s1 where p: "perform sample_platform 0 0 id ''ann'' food_call empty_store = (Inr (), s1)" using food_performed by blast
  have "\<exists>e. perform sample_platform 0 0 id ''bob'' (TagCall (CreateTag ''t2'' food_tag)) s1 = (Inl e, s1)"
    by (rule operation_id_used_once[OF empty_store_consistent _ p _ _ reaches.start, of "''op1''" "''op1''" _ "''op1''"]) simp_all
  with p show ?thesis by blast
qed

lemma list_results_again: "get_tag_list = tag_list_results" "get_label_list = label_list_results"
  by (simp_all add: fun_eq_iff get_tag_list_def tag_list_results_def get_label_list_def label_list_results_def)

lemma with_tx_respond_runs:
  assumes "m (s\<lparr>st_pending := []\<rparr>) = (Inr x, s1)" "total (f x)"
  shows "\<exists>y s'. with_tx (sbind m f) s = (Inr y, s')"
proof -
  obtain y s2 where "f x s1 = (Inr y, s2)" using total_result[OF assms(2)] by blast
  then show ?thesis using assms(1) by (simp add: with_tx_def sbind_def)
qed

lemma moved_tag:
  assumes "tables_wf s" and m: "move_tag pf now u q s = (Inr res, s')"
    and "pf_uuid pf (move_tag_id q) = Some (tag_id r)" "move_tag_after q = Some (tag_id a)"
    and r: "r \<in> set (st_tags s)" "tag_user r = u" and a: "a \<in> set (st_tags s)" "tag_user a = u" "tag_id a \<noteq> tag_id r"
    and "repo_list_tags u s = (Inr rows, s)"
  shows "(\<exists>k. repo_list_tags u s' = (Inr (let others = filter (\<lambda>x. tag_id x \<noteq> tag_id r) rows in
        filter (\<lambda>x. tag_sort_key x \<le> tag_sort_key a) others @ tag_update_sort_key k now r #
        filter (\<lambda>x. tag_sort_key a < tag_sort_key x) others), s')) \<and>
    get_tag_list u s' = (Inr res, s')"
proof (intro conjI)
  note wf = tag_table_wf[OF assms(1)]
  have rows: "rows = tags.own (st_tags s) u" using assms(10) by (simp add: tag_repo tags.list_of_def gets_def)
  obtain s1 where mv: "tags.move_rows now u (tag_id r) (tag_id a) (s\<lparr>st_pending := []\<rparr>) = (Inr (), s1)" "s' = flush s1"
    using move_tag_effect[OF m] assms(3,4) by auto
  have ne: "tag_id a \<noteq> []" using a(1) assms(1) by (simp add: tables_wf_def)
  from tags.move_rows_effect[OF _ mv(1)] wf r obtain k r' where
    k: "r' \<in> set (st_tags s)" "tag_id r' = tag_id r"
      "move_within (tags.own (st_tags s) u) (tag_id r) (tag_id a) tags.as_item GrowsUp = Inr (Some (r', k))"
      "s1 = s\<lparr>st_pending := [], st_tags := tags.replace (tag_id r) (tag_update_sort_key k now r') (st_tags s)\<rparr>"
    by auto
  have "r' = r" using tags.rid_inj[OF wf k(1) r(1) k(2)] .
  then have "tags.own (st_tags s') u = (let others = filter (\<lambda>x. tag_id x \<noteq> tag_id r) rows in
        filter (\<lambda>x. tag_sort_key x \<le> tag_sort_key a) others @ tag_update_sort_key k now r #
        filter (\<lambda>x. tag_sort_key a < tag_sort_key x) others)"
    using tags.moved_after_anchor[OF wf r(1) refl r(2) a(1,2,3) ne, of k now] k mv(2) rows by simp
  then show "\<exists>k. repo_list_tags u s' = (Inr (let others = filter (\<lambda>x. tag_id x \<noteq> tag_id r) rows in
        filter (\<lambda>x. tag_sort_key x \<le> tag_sort_key a) others @ tag_update_sort_key k now r #
        filter (\<lambda>x. tag_sort_key a < tag_sort_key x) others), s')"
    by (auto simp: tag_repo tags.list_of_def gets_def)
  have s': "s' = s1" unfolding mv(2) k(4) by (rule flush_no_pending) simp
  obtain s2 s3 where x: "tags.move_rows now u (tag_id r) (tag_id a) (s\<lparr>st_pending := []\<rparr>) = (Inr (), s2)"
     "tag_list_results u s2 = (Inr res, s3)"
    using m assms(3,4) by (auto simp: move_tag_rows act_iff(1-8))
  show "get_tag_list u s' = (Inr res, s')"
    using x mv(1) read_only_outcome[OF tag_results_total(1) x(2)] by (simp add: list_results_again s')
qed

text \<open>C22: Moving a tag after another one succeeds and puts it in the owner's list after the anchor and the tags with the
  anchor's key, before every tag with a greater key; the other tags keep their order, and the response is the list a
  later read returns.\<close>

theorem move_tag_lands_after_anchor:
  assumes "tables_wf s" "pf_uuid pf (move_tag_id q) = Some (tag_id r)" "move_tag_after q = Some (tag_id a)"
    and "r \<in> set (st_tags s)" "tag_user r = u" "a \<in> set (st_tags s)" "tag_user a = u" "tag_id a \<noteq> tag_id r"
    and "repo_list_tags u s = (Inr rows, s)"
  shows "\<exists>res s' k. move_tag pf now u q s = (Inr res, s') \<and>
    repo_list_tags u s' = (Inr (let others = filter (\<lambda>x. tag_id x \<noteq> tag_id r) rows in
        filter (\<lambda>x. tag_sort_key x \<le> tag_sort_key a) others @ tag_update_sort_key k now r #
        filter (\<lambda>x. tag_sort_key a < tag_sort_key x) others), s') \<and>
    get_tag_list u s' = (Inr res, s')"
proof -
  have "tag_id a \<noteq> []" using assms(1,6) by (simp add: tables_wf_def)
  then obtain s1 where "tags.move_rows now u (tag_id r) (tag_id a) (s\<lparr>st_pending := []\<rparr>) = (Inr (), s1)"
    using tags.move_rows_succeeds[of "s\<lparr>st_pending := []\<rparr>" "tag_id a"] tag_table_wf[OF assms(1)] by simp blast
  from with_tx_respond_runs[where f = "\<lambda>_. tag_list_results u" and m = "tags.move_rows now u (tag_id r) (tag_id a)", OF this] obtain res s' where
    "move_tag pf now u q s = (Inr res, s')"
    using assms(2,3) tag_results_total(2) by (auto simp: move_tag_rows sbind_Inr_iff lift_iff)
  with moved_tag[OF assms(1) this assms(2-9)] show ?thesis by blast
qed

lemma sorted_labels:
  assumes "tables_wf s" "distinct ids" "sort_label_list now u ids s = (Inr res, s')" "repo_list_labels u s = (Inr rows, s)"
  shows "\<exists>rows'. repo_list_labels u s' = (Inr rows', s') \<and>
    filter (\<lambda>i. i \<in> set ids) (map label_id rows') = filter (\<lambda>i. i \<in> set (map label_id rows)) ids \<and>
    label_id ` set rows' = label_id ` set rows"
proof -
  have wf: "labels.wf (st_labels s)" using assms(1) by (simp add: tables_wf_iff)
  have rows: "rows = labels.own (st_labels s) u" using assms(4) by (simp add: label_repo labels.list_of_def gets_def)
  obtain s1 where so: "labels.sort_rows now u ids (s\<lparr>st_pending := []\<rparr>) = (Inr (), s1)" "s' = flush s1"
    using sort_label_list_effect[OF assms(3)] by blast
  have wf0: "labels.wf (st_labels (s\<lparr>st_pending := []\<rparr>))" using wf by simp
  obtain changed where c: "resequence (labels.own (st_labels s) u) ids labels.as_item GrowsUp = Inr changed"
    "st_labels s' = map (\<lambda>x. if label_user x = u then labels.rekeyed now changed x else x) (st_labels s)"
    using so labels.sort_rows_effect[OF wf0, of now u ids "Inr ()" s1] by (auto split: sum.splits)
  have "{r \<in> set (st_labels s'). label_user r = u} = labels.rekeyed now changed ` {r \<in> set (st_labels s). label_user r = u}"
    unfolding c(2) by (auto split: if_splits intro: rev_image_eqI)
  then have "label_id ` {r \<in> set (st_labels s'). label_user r = u} = label_id ` {r \<in> set (st_labels s). label_user r = u}"
    by (simp add: image_image)
  moreover have "set (map label_id rows) = label_id ` {r \<in> set (st_labels s). label_user r = u}" unfolding rows by simp
  ultimately show ?thesis using labels.sorted_order[OF wf assms(2) c(1), of now] c(2)
    by (intro exI[of _ "labels.own (st_labels s') u"]) (simp add: label_repo labels.list_of_def gets_def)
qed

text \<open>C23: Sorting labels by a list of distinct ids succeeds and leaves the owner's list with the requested labels in the
  requested order; unknown ids in the request are skipped, and no label appears or disappears.\<close>

theorem sort_label_list_orders:
  assumes "tables_wf s" "distinct ids" "repo_list_labels u s = (Inr rows, s)"
  shows "\<exists>res s' rows'. sort_label_list now u ids s = (Inr res, s') \<and> repo_list_labels u s' = (Inr rows', s') \<and>
    filter (\<lambda>i. i \<in> set ids) (map label_id rows') = filter (\<lambda>i. i \<in> set (map label_id rows)) ids \<and>
    label_id ` set rows' = label_id ` set rows"
proof -
  have "labels.wf (st_labels (s\<lparr>st_pending := []\<rparr>))" using assms(1) by (simp add: tables_wf_iff)
  then obtain s1 where "labels.sort_rows now u ids (s\<lparr>st_pending := []\<rparr>) = (Inr (), s1)"
    using labels.sort_rows_succeeds assms(2) by blast
  from with_tx_respond_runs[where f = "\<lambda>_. label_list_results u" and m = "labels.sort_rows now u ids", OF this] obtain res s' where
    "sort_label_list now u ids s = (Inr res, s')"
    using label_results_total(2) by (auto simp: sort_label_rows)
  with sorted_labels[OF assms(1,2) this assms(3)] show ?thesis by blast
qed

subsection \<open>A database with rows\<close>

definition sample_tag :: "ident \<Rightarrow> string \<Rightarrow> key \<Rightarrow> tag" where
  "sample_tag i nm k = tag_set_sort_key k (new_tag i ''ann'' nm 0)"

definition sample_label :: "ident \<Rightarrow> string \<Rightarrow> key \<Rightarrow> label" where
  "sample_label i nm k = label_set_sort_key k (new_label i ''ann'' nm 0)"

definition sample_store :: store where
  "sample_store = empty_store\<lparr>
     st_tags := [sample_tag ''t1'' ''Food'' ''a0'', sample_tag ''t2'' ''Fuel'' ''a1'', sample_tag ''t3'' ''Rent'' ''a2''],
     st_labels := [sample_label ''l1'' ''Trip'' ''a0'', sample_label ''l2'' ''Home'' ''a1'', sample_label ''l3'' ''Work'' ''a2'']\<rparr>"

lemma sample_keys: "valid_key ''a0'' \<and> valid_key ''a1'' \<and> valid_key ''a2''"
  by code_simp

lemma sample_row_sel [simp]:
  "tag_id (sample_tag i nm k) = i" "tag_user (sample_tag i nm k) = ''ann''" "tag_sort_key (sample_tag i nm k) = k"
  "tag_name (sample_tag i nm k) = nm"
  "label_id (sample_label i nm k) = i" "label_user (sample_label i nm k) = ''ann''" "label_sort_key (sample_label i nm k) = k"
  "label_name (sample_label i nm k) = nm"
  by (simp_all add: sample_tag_def sample_label_def tag_set_sort_key_def label_set_sort_key_def new_tag_def new_label_def)

lemma sample_store_wf: "tables_wf sample_store"
  by (simp add: tables_wf_def sample_store_def sample_keys empty_store_def)

lemma sample_lists:
  "repo_list_tags ''ann'' sample_store =
     (Inr [sample_tag ''t1'' ''Food'' ''a0'', sample_tag ''t2'' ''Fuel'' ''a1'', sample_tag ''t3'' ''Rent'' ''a2''], sample_store)"
  "repo_list_labels ''ann'' sample_store =
     (Inr [sample_label ''l1'' ''Trip'' ''a0'', sample_label ''l2'' ''Home'' ''a1'', sample_label ''l3'' ''Work'' ''a2''], sample_store)"
  by (simp_all add: repo_list_tags_def repo_list_labels_def gets_def sample_store_def ordered_def less_char_def
      less_eq_prod_def less_list_code)

theorem move_tag_lands_after_anchor_witness:
  "\<exists>res s' k. move_tag sample_platform 0 ''ann'' \<lparr>move_tag_id = ''t1'', move_tag_after = Some ''t2''\<rparr> sample_store = (Inr res, s') \<and>
     repo_list_tags ''ann'' s' = (Inr [sample_tag ''t2'' ''Fuel'' ''a1'', tag_update_sort_key k 0 (sample_tag ''t1'' ''Food'' ''a0''),
        sample_tag ''t3'' ''Rent'' ''a2''], s')"
proof -
  let ?q = "\<lparr>move_tag_id = ''t1'', move_tag_after = Some ''t2''\<rparr>"
    and ?r = "sample_tag ''t1'' ''Food'' ''a0''" and ?a = "sample_tag ''t2'' ''Fuel'' ''a1''"
  have "pf_uuid sample_platform (move_tag_id ?q) = Some (tag_id ?r)" "move_tag_after ?q = Some (tag_id ?a)"
    "?r \<in> set (st_tags sample_store)" "?a \<in> set (st_tags sample_store)" "tag_id ?a \<noteq> tag_id ?r"
    by (simp_all add: sample_platform_def sample_store_def)
  from move_tag_lands_after_anchor[OF sample_store_wf this(1,2,3) _ this(4) _ this(5) sample_lists(1), of 0]
  obtain res s' k where "move_tag sample_platform 0 ''ann'' ?q sample_store = (Inr res, s')"
    "repo_list_tags ''ann'' s' = (Inr [?a, tag_update_sort_key k 0 ?r, sample_tag ''t3'' ''Rent'' ''a2''], s')"
    by (auto simp: less_char_def)
  then show ?thesis by blast
qed

theorem sort_label_list_orders_witness:
  "\<exists>res s' rows'. sort_label_list 0 ''ann'' [''l3'', ''x'', ''l1''] sample_store = (Inr res, s') \<and>
     repo_list_labels ''ann'' s' = (Inr rows', s') \<and>
     filter (\<lambda>i. i \<in> {''l3'', ''x'', ''l1''}) (map label_id rows') = [''l3'', ''l1''] \<and>
     label_id ` set rows' = {''l1'', ''l2'', ''l3''}"
  using sort_label_list_orders[OF sample_store_wf _ sample_lists(2), of "[''l3'', ''x'', ''l1'']" 0] by simp

end
