(* ===== verification/Budget_Merge_Laws.thy ===== *)
theory Budget_Merge_Laws
  imports Budget_Merge
begin

section \<open>Merging budget presence keeps the planned money\<close>

text \<open>
  What \<open>MergeElements\<close> does to the planned amounts: \<open>planned\<close> sums the limits of an element in a period,
  \<open>planned_for\<close> the elements of a budget with an external id. The loops over sources and over limits are followed one
  iteration at a time; each keeps ids distinct and moves exactly the source's amounts.
\<close>

text \<open>The amount planned for an element in a period, and for an external id in a budget.\<close>

definition planned :: "budget_limit list \<Rightarrow> ident \<Rightarrow> instant \<Rightarrow> int" where
  "planned limits e p = (\<Sum>l\<leftarrow>limits. if bl_element l = e \<and> bl_period l = p then scaled (bl_amount l) else 0)"

definition planned_for :: "store \<Rightarrow> ident \<Rightarrow> ident \<Rightarrow> instant \<Rightarrow> int" where
  "planned_for s b ext p =
     (\<Sum>e\<leftarrow>st_elements s. if el_budget e = b \<and> el_external e = ext then planned (st_limits s) (el_id e) p else 0)"

lemma sum_list_update:
  fixes f :: "'a \<Rightarrow> int"
  assumes "distinct (map rid xs)" "x \<in> set xs"
  shows "(\<Sum>y\<leftarrow>map (\<lambda>y. if rid y = rid x then x' else y) xs. f y) = (\<Sum>y\<leftarrow>xs. f y) - f x + f x'"
  using assms
proof (induction xs)
  case (Cons z xs)
  show ?case
  proof (cases "z = x")
    case True
    then have "\<forall>y\<in>set xs. rid y \<noteq> rid x" using Cons.prems(1) by (auto simp: image_iff)
    then have "map (\<lambda>y. if rid y = rid x then x' else y) xs = xs" by (intro map_idI) simp
    then show ?thesis using True by simp
  next
    case False
    then have "rid z \<noteq> rid x" using Cons.prems by auto
    then show ?thesis using Cons False by (simp add: comp_def)
  qed
qed simp

lemma save_limit_known:
  "\<lbrakk>l0 \<in> set (st_limits s); bl_id l = bl_id l0\<rbrakk> \<Longrightarrow>
   save_limit l s = (Inr (), s\<lparr>st_limits := map (\<lambda>y. if bl_id y = bl_id l0 then l else y) (st_limits s)\<rparr>)"
  by (auto simp: save_limit_def update_store_def upsert_row_def)

lemma save_limit_new:
  "bl_id l \<notin> bl_id ` set (st_limits s) \<Longrightarrow> save_limit l s = (Inr (), s\<lparr>st_limits := st_limits s @ [l]\<rparr>)"
  by (simp add: save_limit_def update_store_def upsert_row_new)

lemma if_found_get:
  "if_found (sbind (gets f) (\<lambda>x. lift (row_or_not_found msg x))) found missing s =
     (case f s of Some x \<Rightarrow> found x s | None \<Rightarrow> missing s)"
  by (cases "f s") (simp_all add: if_found_def sbind_def gets_def lift_def row_or_not_found_def as_not_found_def)

text \<open>One limit of the source folded into the target.\<close>

definition merge_limit :: "instant \<Rightarrow> (ident \<Rightarrow> ident) \<Rightarrow> ident \<Rightarrow> budget_limit \<Rightarrow> unit act" where
  "merge_limit now new_id dst l =
       if_found (get_limit dst (bl_period l))
         (\<lambda>existing. save_limit (existing\<lparr>bl_amount := add_decimal (bl_amount existing) (bl_amount l),
                                          bl_updated := now\<rparr>))
         (save_limit \<lparr>bl_id = new_id (bl_id l), bl_element = dst, bl_amount = bl_amount l,
                      bl_period = bl_period l, bl_created = now, bl_updated = now\<rparr>)"

lemma merge_limit_effect:
  assumes "distinct (map bl_id (st_limits s))" "new_id (bl_id l) \<notin> bl_id ` set (st_limits s)"
  shows "\<exists>limits'. merge_limit now new_id dst l s = (Inr (), s\<lparr>st_limits := limits'\<rparr>) \<and>
    distinct (map bl_id limits') \<and> bl_id ` set limits' \<subseteq> insert (new_id (bl_id l)) (bl_id ` set (st_limits s)) \<and>
    (\<forall>e p. planned limits' e p = planned (st_limits s) e p + (if e = dst \<and> p = bl_period l then scaled (bl_amount l) else 0)) \<and>
    (\<forall>e. e \<noteq> dst \<longrightarrow> filter (\<lambda>x. bl_element x = e) limits' = filter (\<lambda>x. bl_element x = e) (st_limits s))"
proof (cases "find (\<lambda>x. bl_element x = dst \<and> bl_period x = bl_period l) (st_limits s)")
  case None
  let ?l = "\<lparr>bl_id = new_id (bl_id l), bl_element = dst, bl_amount = bl_amount l,
                      bl_period = bl_period l, bl_created = now, bl_updated = now\<rparr>"
  have "merge_limit now new_id dst l s = save_limit ?l s" using None by (simp add: merge_limit_def get_limit_def if_found_get)
  also have "\<dots> = (Inr (), s\<lparr>st_limits := st_limits s @ [?l]\<rparr>)" using assms(2) by (intro save_limit_new) simp
  finally show ?thesis using assms
    by (intro exI[of _ "st_limits s @ [?l]"]) (auto simp: planned_def)
next
  case (Some x)
  then have x: "x \<in> set (st_limits s)" "bl_element x = dst" "bl_period x = bl_period l"
    by (auto simp: find_Some_iff)
  let ?x = "x\<lparr>bl_amount := add_decimal (bl_amount x) (bl_amount l), bl_updated := now\<rparr>"
  let ?ls = "map (\<lambda>y. if bl_id y = bl_id x then ?x else y) (st_limits s)"
  have same: "y = x" if "y \<in> set (st_limits s)" "bl_id y = bl_id x" for y
    using assms(1) that x(1) by (auto simp: distinct_map inj_on_def)
  have ids: "map bl_id ?ls = map bl_id (st_limits s)" by (auto simp: same)
  have "merge_limit now new_id dst l s = save_limit ?x s" using Some by (simp add: merge_limit_def get_limit_def if_found_get)
  also have "\<dots> = (Inr (), s\<lparr>st_limits := ?ls\<rparr>)" using x(1) by (intro save_limit_known) simp_all
  moreover have "planned ?ls e p = planned (st_limits s) e p + (if e = dst \<and> p = bl_period l then scaled (bl_amount l) else 0)" for e p
    unfolding planned_def sum_list_update[OF assms(1) x(1)] using x by (simp add: add_decimal_def)
  moreover have "filter (\<lambda>x. bl_element x = e) ?ls = filter (\<lambda>x. bl_element x = e) (st_limits s)" if "e \<noteq> dst" for e
  proof -
    have "filter (\<lambda>x. bl_element x = e) ?ls = map (\<lambda>y. if bl_id y = bl_id x then ?x else y) (filter (\<lambda>x. bl_element x = e) (st_limits s))"
      unfolding filter_map comp_def using x that same by (intro arg_cong[where f = "map _"] filter_cong) auto
    also have "\<dots> = filter (\<lambda>x. bl_element x = e) (st_limits s)" using x that same by (intro map_idI) auto
    finally show ?thesis .
  qed
  ultimately show ?thesis using ids assms(1)
    by (intro exI[of _ ?ls]) (metis (no_types, lifting) list.set_map subset_insertI)
qed

lemma subset_through_insert: "\<lbrakk>X \<subseteq> A \<union> B; B \<subseteq> insert c D\<rbrakk> \<Longrightarrow> X \<subseteq> insert c A \<union> D"
  by blast

lemma for_each_merge_limits:
  assumes "distinct (map bl_id (st_limits s))" "distinct (map bl_id ls)"
    "\<forall>l\<in>set ls. new_id (bl_id l) \<notin> bl_id ` set (st_limits s)" "inj new_id"
  shows "\<exists>limits'. for_each ls (merge_limit now new_id dst) s = (Inr (), s\<lparr>st_limits := limits'\<rparr>) \<and>
    distinct (map bl_id limits') \<and> bl_id ` set limits' \<subseteq> new_id ` bl_id ` set ls \<union> bl_id ` set (st_limits s) \<and>
    (\<forall>e p. planned limits' e p = planned (st_limits s) e p +
       (if e = dst then (\<Sum>l\<leftarrow>ls. if bl_period l = p then scaled (bl_amount l) else 0) else 0)) \<and>
    (\<forall>e. e \<noteq> dst \<longrightarrow> filter (\<lambda>x. bl_element x = e) limits' = filter (\<lambda>x. bl_element x = e) (st_limits s))"
  using assms(1-3)
proof (induction ls arbitrary: s)
  case Nil
  then show ?case by (intro exI[of _ "st_limits s"]) (simp add: ret_def)
next
  case (Cons l ls)
  obtain l1 where l1: "merge_limit now new_id dst l s = (Inr (), s\<lparr>st_limits := l1\<rparr>)" "distinct (map bl_id l1)"
    "bl_id ` set l1 \<subseteq> insert (new_id (bl_id l)) (bl_id ` set (st_limits s))"
    "\<And>e p. planned l1 e p = planned (st_limits s) e p + (if e = dst \<and> p = bl_period l then scaled (bl_amount l) else 0)"
    "\<And>e. e \<noteq> dst \<Longrightarrow> filter (\<lambda>x. bl_element x = e) l1 = filter (\<lambda>x. bl_element x = e) (st_limits s)"
    using merge_limit_effect[of s new_id l now dst] Cons.prems by auto
  have fresh: "\<forall>x\<in>set ls. new_id (bl_id x) \<notin> bl_id ` set l1"
  proof
    fix x assume x: "x \<in> set ls"
    then have "bl_id x \<noteq> bl_id l" using Cons.prems(2) by (auto simp: image_iff)
    then have "new_id (bl_id x) \<noteq> new_id (bl_id l)" using assms(4) by (simp add: inj_eq)
    then show "new_id (bl_id x) \<notin> bl_id ` set l1" using l1(3) Cons.prems(3) x by auto
  qed
  have "\<exists>limits'. for_each ls (merge_limit now new_id dst) (s\<lparr>st_limits := l1\<rparr>) = (Inr (), s\<lparr>st_limits := l1, st_limits := limits'\<rparr>) \<and>
    distinct (map bl_id limits') \<and> bl_id ` set limits' \<subseteq> new_id ` bl_id ` set ls \<union> bl_id ` set (st_limits (s\<lparr>st_limits := l1\<rparr>)) \<and>
    (\<forall>e p. planned limits' e p = planned (st_limits (s\<lparr>st_limits := l1\<rparr>)) e p +
       (if e = dst then (\<Sum>l\<leftarrow>ls. if bl_period l = p then scaled (bl_amount l) else 0) else 0)) \<and>
    (\<forall>e. e \<noteq> dst \<longrightarrow> filter (\<lambda>x. bl_element x = e) limits' = filter (\<lambda>x. bl_element x = e) (st_limits (s\<lparr>st_limits := l1\<rparr>)))"
    using l1(2) fresh Cons.prems(2) by (intro Cons.IH) simp_all
  then obtain l2 where l2: "for_each ls (merge_limit now new_id dst) (s\<lparr>st_limits := l1\<rparr>) = (Inr (), s\<lparr>st_limits := l2\<rparr>)"
    "distinct (map bl_id l2)" "bl_id ` set l2 \<subseteq> new_id ` bl_id ` set ls \<union> bl_id ` set l1"
    "\<And>e p. planned l2 e p = planned l1 e p + (if e = dst then (\<Sum>l\<leftarrow>ls. if bl_period l = p then scaled (bl_amount l) else 0) else 0)"
    "\<And>e. e \<noteq> dst \<Longrightarrow> filter (\<lambda>x. bl_element x = e) l2 = filter (\<lambda>x. bl_element x = e) l1"
    by auto
  have "for_each (l # ls) (merge_limit now new_id dst) s = (Inr (), s\<lparr>st_limits := l2\<rparr>)"
    using l1(1) l2(1) by (simp add: sbind_def)
  moreover have "bl_id ` set l2 \<subseteq> new_id ` bl_id ` set (l # ls) \<union> bl_id ` set (st_limits s)" using subset_through_insert[OF l2(3) l1(3)] by simp
  moreover have "planned l2 e p = planned (st_limits s) e p +
     (if e = dst then (\<Sum>x\<leftarrow>l # ls. if bl_period x = p then scaled (bl_amount x) else 0) else 0)" for e p
    by (simp add: l2(4) l1(4))
  ultimately show ?case using l2(2) l1(5) l2(5) by (intro exI[of _ l2]) simp
qed

lemma planned_own: "(\<Sum>l\<leftarrow>filter (\<lambda>l. bl_element l = e) limits. if bl_period l = p then scaled (bl_amount l) else 0) = planned limits e p"
  unfolding planned_def by (induction limits) auto

lemma merge_element_limits_effect:
  assumes "distinct (map bl_id (st_limits s))" "el_id src \<noteq> el_id dst" "inj new_id"
    "\<forall>l\<in>set (st_limits s). bl_element l = el_id src \<longrightarrow> new_id (bl_id l) \<notin> bl_id ` set (st_limits s)"
  obtains limits' where "merge_element_limits now new_id src dst s = (Inr (), s\<lparr>st_limits := limits'\<rparr>)"
    "distinct (map bl_id limits')"
    "bl_id ` set limits' \<subseteq> new_id ` bl_id ` {l \<in> set (st_limits s). bl_element l = el_id src} \<union> bl_id ` set (st_limits s)"
    "\<forall>e p. planned limits' e p = planned (st_limits s) e p + (if e = el_id dst then planned (st_limits s) (el_id src) p else 0)"
    "\<forall>e. e \<noteq> el_id dst \<longrightarrow> filter (\<lambda>x. bl_element x = e) limits' = filter (\<lambda>x. bl_element x = e) (st_limits s)"
proof -
  have "merge_element_limits now new_id src dst s =
    for_each (filter (\<lambda>l. bl_element l = el_id src) (st_limits s)) (merge_limit now new_id (el_id dst)) s"
    by (simp add: merge_element_limits_def list_limits_by_element_def sbind_def gets_def merge_limit_def[abs_def])
  moreover have "distinct (map bl_id (filter (\<lambda>l. bl_element l = el_id src) (st_limits s)))"
    using assms(1) by (simp add: distinct_map_filter)
  moreover have "\<forall>l\<in>set (filter (\<lambda>l. bl_element l = el_id src) (st_limits s)). new_id (bl_id l) \<notin> bl_id ` set (st_limits s)"
    using assms(4) by simp
  ultimately have "\<exists>limits'. merge_element_limits now new_id src dst s = (Inr (), s\<lparr>st_limits := limits'\<rparr>) \<and>
    distinct (map bl_id limits') \<and>
    bl_id ` set limits' \<subseteq> new_id ` bl_id ` {l \<in> set (st_limits s). bl_element l = el_id src} \<union> bl_id ` set (st_limits s) \<and>
    (\<forall>e p. planned limits' e p = planned (st_limits s) e p + (if e = el_id dst then planned (st_limits s) (el_id src) p else 0)) \<and>
    (\<forall>e. e \<noteq> el_id dst \<longrightarrow> filter (\<lambda>x. bl_element x = e) limits' = filter (\<lambda>x. bl_element x = e) (st_limits s))"
    using for_each_merge_limits[OF assms(1) _ _ assms(3), of "filter (\<lambda>l. bl_element l = el_id src) (st_limits s)" now "el_id dst",
        unfolded planned_own] by simp
  then show thesis using that by (elim exE conjE) (rule that)
qed

subsection \<open>One source element\<close>

definition merge_source :: "instant \<Rightarrow> (ident \<Rightarrow> ident) \<Rightarrow> ident \<Rightarrow> budget_element \<Rightarrow> unit act" where
  "merge_source now new_id new_external src =
       if_found (get_element_by_external (el_budget src) new_external)
         (\<lambda>target.
            sbind (merge_element_limits now new_id src target) (\<lambda>_.
            sbind (repoint_comments (el_id src) (el_id target)) (\<lambda>_.
            repo_delete_element (el_id src))))
         (repoint_element (el_id src) new_external now)"

text \<open>Elements have distinct ids and no budget has two for one external id; limits have distinct ids.\<close>

definition elements_wf :: "store \<Rightarrow> bool" where
  "elements_wf s \<longleftrightarrow> distinct (map el_id (st_elements s)) \<and>
     distinct (map (\<lambda>e. (el_budget e, el_external e)) (st_elements s)) \<and> distinct (map bl_id (st_limits s))"

lemma planned_deleted: "planned (filter (\<lambda>l. bl_element l \<noteq> i) limits) e p = (if e = i then 0 else planned limits e p)"
  unfolding planned_def by (induction limits) auto

lemma sum_deleted:
  fixes g :: "'a \<Rightarrow> int"
  assumes "distinct (map rid xs)" "x \<in> set xs"
  shows "(\<Sum>y\<leftarrow>delete_row rid (rid x) xs. g y) = (\<Sum>y\<leftarrow>xs. g y) - g x"
  using assms
proof (induction xs)
  case (Cons z xs)
  show ?case
  proof (cases "z = x")
    case True
    then have "\<forall>y\<in>set xs. rid y \<noteq> rid x" using Cons.prems(1) by (auto simp: image_iff)
    then have "delete_row rid (rid x) (z # xs) = xs" using True by (simp add: delete_row_def)
    then show ?thesis using True by simp
  next
    case False
    then have "rid z \<noteq> rid x" using Cons.prems by auto
    then show ?thesis using Cons False by (simp add: delete_row_def)
  qed
qed simp

text \<open>The money planned under the two ids together, and how much is planned under any third.\<close>

definition mergeable :: "(ident \<Rightarrow> ident) \<Rightarrow> ident \<Rightarrow> store \<Rightarrow> bool" where
  "mergeable new_id old s \<longleftrightarrow>
     (\<forall>e\<in>set (st_elements s). el_external e = old \<longrightarrow>
        (\<forall>l\<in>set (st_limits s). bl_element l = el_id e \<longrightarrow> new_id (bl_id l) \<notin> bl_id ` set (st_limits s)))"

lemma distinct_map_eq: "\<lbrakk>distinct (map f xs); x \<in> set xs; y \<in> set xs; f x = f y\<rbrakk> \<Longrightarrow> x = y"
  by (auto simp: distinct_map inj_on_def)

lemma sum_single:
  fixes c :: int
  assumes "distinct xs" "x \<in> set xs"
  shows "(\<Sum>e\<leftarrow>xs. if e = x \<and> C then c else 0) = (if C then c else 0)"
  using assms
proof (induction xs)
  case (Cons y xs)
  show ?case
  proof (cases "y = x")
    case True
    then have "(\<Sum>e\<leftarrow>xs. if e = x \<and> C then c else 0) = (\<Sum>e\<leftarrow>xs. 0)"
      using Cons.prems(1) by (intro arg_cong[where f = sum_list] map_cong) auto
    then show ?thesis using True by simp
  next
    case False
    then show ?thesis using Cons by simp
  qed
qed simp

lemma elements_unique:
  "\<lbrakk>elements_wf s; e \<in> set (st_elements s); e' \<in> set (st_elements s); el_id e = el_id e'\<rbrakk> \<Longrightarrow> e = e'"
  by (auto simp: elements_wf_def distinct_map inj_on_def)

lemma elements_pair_unique:
  "\<lbrakk>elements_wf s; e \<in> set (st_elements s); e' \<in> set (st_elements s); el_budget e = el_budget e'; el_external e = el_external e'\<rbrakk>
   \<Longrightarrow> e = e'"
  by (rule distinct_map_eq[where f = "\<lambda>e. (el_budget e, el_external e)" and xs = "st_elements s"]) (simp_all add: elements_wf_def)

lemma find_unique:
  assumes "x \<in> set xs" "\<forall>y\<in>set xs. P y \<longrightarrow> y = x" "P x"
  shows "find P xs = Some x"
proof (cases "find P xs")
  case None
  then show ?thesis using assms(1,3) by (auto simp: find_None_iff)
next
  case (Some y)
  then have "y \<in> set xs \<and> P y" by (auto simp: find_Some_iff)
  then show ?thesis using Some assms(2) by blast
qed

lemma planned_for_cong:
  "\<lbrakk>st_elements s' = st_elements s; \<And>e. e \<in> set (st_elements s) \<Longrightarrow> el_external e = ext \<Longrightarrow>
     planned (st_limits s') (el_id e) p = planned (st_limits s) (el_id e) p\<rbrakk> \<Longrightarrow>
   planned_for s' b ext p = planned_for s b ext p"
  unfolding planned_for_def by (intro arg_cong[where f = sum_list] map_cong) auto

text \<open>The source element goes into an element the budget already has for the new id.\<close>

lemma merge_source_known:
  assumes wf: "elements_wf s" and src: "src \<in> set (st_elements s)" "el_external src = old"
    and tgt: "tgt \<in> set (st_elements s)" "el_budget tgt = el_budget src" "el_external tgt = new" and ne: "old \<noteq> new"
    and "inj new_id" "mergeable new_id old s"
  shows "\<exists>s'. merge_source now new_id new src s = (Inr (), s') \<and> elements_wf s' \<and>
    st_elements s' = delete_row el_id (el_id src) (st_elements s) \<and> 
    bl_id ` set (st_limits s') \<subseteq> new_id ` bl_id ` {l \<in> set (st_limits s). bl_element l = el_id src} \<union> bl_id ` set (st_limits s) \<and>
    (\<forall>e. e \<noteq> el_id tgt \<and> e \<noteq> el_id src \<longrightarrow> filter (\<lambda>x. bl_element x = e) (st_limits s') = filter (\<lambda>x. bl_element x = e) (st_limits s)) \<and>
    (\<forall>b p. planned_for s' b new p = planned_for s b new p + (if b = el_budget src then planned (st_limits s) (el_id src) p else 0) \<and>
       planned_for s' b old p = planned_for s b old p - (if b = el_budget src then planned (st_limits s) (el_id src) p else 0)) \<and>
    (\<forall>b ext p. ext \<noteq> old \<and> ext \<noteq> new \<longrightarrow> planned_for s' b ext p = planned_for s b ext p)"
proof -
  have ids: "el_id src \<noteq> el_id tgt" using elements_unique[OF wf src(1) tgt(1)] src(2) tgt(3) ne by auto
  have d: "distinct (map el_id (st_elements s))" "distinct (map bl_id (st_limits s))"
    and u: "distinct (map (\<lambda>e. (el_budget e, el_external e)) (st_elements s))"
    using wf by (simp_all add: elements_wf_def)
  have "find (\<lambda>e. el_budget e = el_budget src \<and> el_external e = new) (st_elements s) = Some tgt"
  proof (rule find_unique[OF tgt(1)])
    show "\<forall>e\<in>set (st_elements s). el_budget e = el_budget src \<and> el_external e = new \<longrightarrow> e = tgt"
      using elements_pair_unique[OF wf _ tgt(1)] tgt(2,3) by simp
  qed (simp add: tgt)
  moreover have "\<forall>l\<in>set (st_limits s). bl_element l = el_id src \<longrightarrow> new_id (bl_id l) \<notin> bl_id ` set (st_limits s)"
    using assms(9) src by (simp add: mergeable_def)
  from merge_element_limits_effect[OF d(2) ids assms(8) this, of now] obtain limits' where
    L: "merge_element_limits now new_id src tgt s = (Inr (), s\<lparr>st_limits := limits'\<rparr>)"
    "distinct (map bl_id limits')"
    "bl_id ` set limits' \<subseteq> new_id ` bl_id ` {l \<in> set (st_limits s). bl_element l = el_id src} \<union> bl_id ` set (st_limits s)"
    "\<forall>e p. planned limits' e p = planned (st_limits s) e p + (if e = el_id tgt then planned (st_limits s) (el_id src) p else 0)"
    "\<forall>e. e \<noteq> el_id tgt \<longrightarrow> filter (\<lambda>x. bl_element x = e) limits' = filter (\<lambda>x. bl_element x = e) (st_limits s)" .
  define s' where "s' = s\<lparr>st_elements := delete_row el_id (el_id src) (st_elements s),
     st_limits := filter (\<lambda>l. bl_element l \<noteq> el_id src) limits',
     st_comments := filter (\<lambda>c. bc_element c \<noteq> el_id src)
       (map (\<lambda>c. if bc_element c = el_id src then c\<lparr>bc_element := el_id tgt\<rparr> else c) (st_comments s))\<rparr>"
  have run: "merge_source now new_id new src s = (Inr (), s')"
    using calculation L(1)
    by (simp add: merge_source_def get_element_by_external_def if_found_get sbind_def repoint_comments_def update_store_def
        repo_delete_element_def s'_def)
  have tab: "st_elements s' = delete_row el_id (el_id src) (st_elements s)"
    "st_limits s' = filter (\<lambda>l. bl_element l \<noteq> el_id src) limits'" by (simp_all add: s'_def)
  have "planned_for s' b ext p = (\<Sum>e\<leftarrow>st_elements s. if el_budget e = b \<and> el_external e = ext then planned (st_limits s') (el_id e) p else 0)
       - (if b = el_budget src \<and> ext = old then planned (st_limits s') (el_id src) p else 0)" for b ext p
    unfolding planned_for_def tab(1) using sum_deleted[OF d(1) src(1)] src(2) by simp
  then have pf: "planned_for s' b ext p = (\<Sum>e\<leftarrow>st_elements s. if el_budget e = b \<and> el_external e = ext then planned (st_limits s') (el_id e) p else 0)"
    for b ext p by (simp add: tab(2) planned_deleted)
  have pl: "planned (st_limits s') e p = (if e = el_id src then 0 else planned (st_limits s) e p +
      (if e = el_id tgt then planned (st_limits s) (el_id src) p else 0))" for e p
    by (simp add: tab(2) planned_deleted L(4))
  have split: "(if el_budget e = b \<and> el_external e = ext then planned (st_limits s') (el_id e) p else 0) =
      (if el_budget e = b \<and> el_external e = ext then planned (st_limits s) (el_id e) p else 0) +
      ((if e = tgt \<and> el_budget tgt = b \<and> ext = new then planned (st_limits s) (el_id src) p else 0) -
      (if e = src \<and> el_budget src = b \<and> ext = old then planned (st_limits s) (el_id src) p else 0))"
    if "e \<in> set (st_elements s)" for e b ext p
  proof -
    have e: "el_id e = el_id tgt \<longleftrightarrow> e = tgt" "el_id e = el_id src \<longleftrightarrow> e = src"
      using elements_unique[OF wf that tgt(1)] elements_unique[OF wf that src(1)] by blast+
    consider "e = src" | "e = tgt" "e \<noteq> src" | "e \<noteq> tgt" "e \<noteq> src" by blast
    then show ?thesis
    proof cases
      case 1
      then show ?thesis using ids src(2) by (auto simp: pl)
    next
      case 2
      then show ?thesis using e ids tgt by (auto simp: pl)
    qed (simp add: pl e)
  qed
  have de: "distinct (st_elements s)" using d(1) by (simp add: distinct_map)
  have total: "planned_for s' b ext p = planned_for s b ext p +
      ((if el_budget tgt = b \<and> ext = new then planned (st_limits s) (el_id src) p else 0) -
       (if el_budget src = b \<and> ext = old then planned (st_limits s) (el_id src) p else 0))" for b ext p
  proof -
    have "planned_for s' b ext p = (\<Sum>e\<leftarrow>st_elements s.
       (if el_budget e = b \<and> el_external e = ext then planned (st_limits s) (el_id e) p else 0) +
      ((if e = tgt \<and> el_budget tgt = b \<and> ext = new then planned (st_limits s) (el_id src) p else 0) -
      (if e = src \<and> el_budget src = b \<and> ext = old then planned (st_limits s) (el_id src) p else 0)))"
      unfolding pf by (intro arg_cong[where f = sum_list] map_cong refl split)
    then show ?thesis
      unfolding sum_list_addf sum_list_subtractf sum_single[OF de tgt(1)] sum_single[OF de src(1)] planned_for_def .
  qed
  have "elements_wf s'"
    using wf L(2) by (simp add: elements_wf_def tab delete_row_def distinct_map_filter)
  moreover have "bl_id ` set (st_limits s') \<subseteq> new_id ` bl_id ` {l \<in> set (st_limits s). bl_element l = el_id src} \<union> bl_id ` set (st_limits s)"
    using L(3) by (auto simp: tab(2))
  moreover have "filter (\<lambda>x. bl_element x = e) (st_limits s') = filter (\<lambda>x. bl_element x = e) (st_limits s)"
    if "e \<noteq> el_id tgt" "e \<noteq> el_id src" for e
  proof -
    have "filter (\<lambda>x. bl_element x = e) (st_limits s') = filter (\<lambda>x. bl_element x = e) limits'"
      unfolding tab(2) filter_filter using that(2) by (intro filter_cong) auto
    then show ?thesis using L(5) that(1) by simp
  qed
  ultimately show ?thesis using run tab(1) total ne tgt(2) by (intro exI[of _ s']) auto
qed

text \<open>The budget has no element for the new id: the source element is renamed.\<close>

lemma merge_source_renamed:
  assumes wf: "elements_wf s" and src: "src \<in> set (st_elements s)" "el_external src = old" and ne: "old \<noteq> new"
    and none: "\<forall>e\<in>set (st_elements s). \<not> (el_budget e = el_budget src \<and> el_external e = new)"
  shows "\<exists>s'. merge_source now new_id new src s = (Inr (), s') \<and> elements_wf s' \<and>
    st_elements s' = map (\<lambda>e. if el_id e = el_id src then e\<lparr>el_external := new, el_updated := now\<rparr> else e) (st_elements s) \<and>
    st_limits s' = st_limits s \<and>
    (\<forall>b ext p. planned_for s' b ext p = planned_for s b ext p +
      ((if el_budget src = b \<and> ext = new then planned (st_limits s) (el_id src) p else 0) -
       (if el_budget src = b \<and> ext = old then planned (st_limits s) (el_id src) p else 0)))"
proof -
  let ?src = "src\<lparr>el_external := new, el_updated := now\<rparr>"
  let ?es = "map (\<lambda>e. if el_id e = el_id src then ?src else e) (st_elements s)"
  have d: "distinct (map el_id (st_elements s))" using wf by (simp add: elements_wf_def)
  have es: "map (\<lambda>e. if el_id e = el_id src then e\<lparr>el_external := new, el_updated := now\<rparr> else e) (st_elements s) = ?es"
    using elements_unique[OF wf _ src(1)] by (intro map_cong) auto
  have "find (\<lambda>e. el_budget e = el_budget src \<and> el_external e = new) (st_elements s) = None"
    using none by (simp add: find_None_iff)
  then have run: "merge_source now new_id new src s = (Inr (), s\<lparr>st_elements := ?es\<rparr>)"
    by (simp add: merge_source_def get_element_by_external_def if_found_get repoint_element_def update_store_def es)
  have "el_id ?src = el_id src" by simp
  have ids: "map el_id ?es = map el_id (st_elements s)" by (simp add: comp_def if_distrib cong: if_cong)
  have "distinct (map (\<lambda>e. (el_budget e, el_external e)) ?es)"
  proof -
    have "inj_on (\<lambda>e. (el_budget e, el_external e)) (set ?es)"
    proof (rule inj_onI)
      fix x y assume xy: "x \<in> set ?es" "y \<in> set ?es" "(el_budget x, el_external x) = (el_budget y, el_external y)"
      have mem: "z = ?src \<or> (z \<in> set (st_elements s) \<and> el_id z \<noteq> el_id src)" if "z \<in> set ?es" for z using that by auto
      show "x = y"
      proof (cases "x = ?src \<or> y = ?src")
        case True
        then show ?thesis using mem[OF xy(1)] mem[OF xy(2)] xy(3) none by auto
      next
        case False
        then show ?thesis using mem[OF xy(1)] mem[OF xy(2)] xy(3) elements_pair_unique[OF wf] by simp
      qed
    qed
    moreover have "distinct ?es" using d unfolding ids[symmetric] distinct_map by (rule conjunct1)
    ultimately show ?thesis by (simp add: distinct_map del: map_map)
  qed
  then have wf': "elements_wf (s\<lparr>st_elements := ?es\<rparr>)" using wf ids by (simp add: elements_wf_def del: map_map)
  have "planned_for (s\<lparr>st_elements := ?es\<rparr>) b ext p = planned_for s b ext p +
      ((if el_budget src = b \<and> ext = new then planned (st_limits s) (el_id src) p else 0) -
       (if el_budget src = b \<and> ext = old then planned (st_limits s) (el_id src) p else 0))" for b ext p
  proof -
    have e: "st_elements (s\<lparr>st_elements := ?es\<rparr>) = ?es" "st_limits (s\<lparr>st_elements := ?es\<rparr>) = st_limits s" by simp_all
    show ?thesis unfolding planned_for_def e sum_list_update[OF d src(1)] using src(2) by simp
  qed
  then show ?thesis using run wf' es by (intro exI[of _ "s\<lparr>st_elements := ?es\<rparr>"]) simp
qed

lemma merge_source_effect:
  assumes wf: "elements_wf s" and src: "src \<in> set (st_elements s)" "el_external src = old" and ne: "old \<noteq> new"
    and inj: "inj new_id" and mg: "mergeable new_id old s"
  obtains s' where "merge_source now new_id new src s = (Inr (), s')" "elements_wf s'" "mergeable new_id old s'"
    "{e \<in> set (st_elements s'). el_external e = old} = {e \<in> set (st_elements s). el_external e = old} - {src}"
    "\<forall>b p. planned_for s' b new p + planned_for s' b old p = planned_for s b new p + planned_for s b old p"
    "\<forall>b ext p. ext \<noteq> old \<and> ext \<noteq> new \<longrightarrow> planned_for s' b ext p = planned_for s b ext p"
proof (cases "\<exists>tgt\<in>set (st_elements s). el_budget tgt = el_budget src \<and> el_external tgt = new")
  case True
  then obtain tgt where tgt: "tgt \<in> set (st_elements s)" "el_budget tgt = el_budget src" "el_external tgt = new" by blast
  from merge_source_known[OF wf src tgt ne inj mg, of now] obtain s' where
    s': "merge_source now new_id new src s = (Inr (), s')" "elements_wf s'"
      "st_elements s' = delete_row el_id (el_id src) (st_elements s)"
    and ids: "bl_id ` set (st_limits s') \<subseteq> new_id ` bl_id ` {l \<in> set (st_limits s). bl_element l = el_id src} \<union> bl_id ` set (st_limits s)"
    and fr: "\<forall>e. e \<noteq> el_id tgt \<and> e \<noteq> el_id src \<longrightarrow>
      filter (\<lambda>x. bl_element x = e) (st_limits s') = filter (\<lambda>x. bl_element x = e) (st_limits s)"
    and pl: "\<forall>b p. planned_for s' b new p = planned_for s b new p + (if b = el_budget src then planned (st_limits s) (el_id src) p else 0) \<and>
       planned_for s' b old p = planned_for s b old p - (if b = el_budget src then planned (st_limits s) (el_id src) p else 0)"
      "\<forall>b ext p. ext \<noteq> old \<and> ext \<noteq> new \<longrightarrow> planned_for s' b ext p = planned_for s b ext p"
    by (elim exE conjE) (rule that)
  have left: "{e \<in> set (st_elements s'). el_external e = old} = {e \<in> set (st_elements s). el_external e = old} - {src}"
    using elements_unique[OF wf _ src(1)] by (auto simp: s'(3) delete_row_def)
  have "new_id (bl_id l) \<notin> bl_id ` set (st_limits s')"
    if e: "e \<in> set (st_elements s')" "el_external e = old" and l: "l \<in> set (st_limits s')" "bl_element l = el_id e" for e l
  proof -
    have es: "e \<in> set (st_elements s)" "el_id e \<noteq> el_id src" using e(1) by (simp_all add: s'(3) delete_row_def)
    have "e \<noteq> tgt" using e(2) tgt(3) ne by blast
    then have "el_id e \<noteq> el_id tgt" using elements_unique[OF wf es(1) tgt(1)] by blast
    then have "filter (\<lambda>x. bl_element x = el_id e) (st_limits s') = filter (\<lambda>x. bl_element x = el_id e) (st_limits s)"
      using fr es(2) by blast
    from arg_cong[OF this, of set] have ls: "l \<in> set (st_limits s)" using l by auto
    have "new_id (bl_id l) \<notin> bl_id ` set (st_limits s)" using mg es(1) e(2) ls l(2) by (simp add: mergeable_def)
    moreover have "bl_id l \<noteq> bl_id l'" if "l' \<in> set (st_limits s)" "bl_element l' = el_id src" for l'
      using distinct_map_eq[of bl_id "st_limits s" l l'] ls that l(2) es(2) wf by (auto simp: elements_wf_def)
    then have "new_id (bl_id l) \<notin> new_id ` bl_id ` {l \<in> set (st_limits s). bl_element l = el_id src}"
      using inj by (auto simp: inj_eq)
    ultimately show ?thesis using ids by blast
  qed
  then have "mergeable new_id old s'" by (simp add: mergeable_def)
  then show thesis using s'(1,2) left pl by (intro that[of s']) simp_all
next
  case False
  then have none: "\<forall>e\<in>set (st_elements s). \<not> (el_budget e = el_budget src \<and> el_external e = new)" by blast
  from merge_source_renamed[OF wf src ne none, of now new_id] obtain s' where
    s': "merge_source now new_id new src s = (Inr (), s')" "elements_wf s'"
      "st_elements s' = map (\<lambda>e. if el_id e = el_id src then e\<lparr>el_external := new, el_updated := now\<rparr> else e) (st_elements s)"
      "st_limits s' = st_limits s"
    and pl: "\<forall>b ext p. planned_for s' b ext p = planned_for s b ext p +
      ((if el_budget src = b \<and> ext = new then planned (st_limits s) (el_id src) p else 0) -
       (if el_budget src = b \<and> ext = old then planned (st_limits s) (el_id src) p else 0))"
    by (elim exE conjE) (rule that)
  have left: "{e \<in> set (st_elements s'). el_external e = old} = {e \<in> set (st_elements s). el_external e = old} - {src}"
  proof (intro set_eqI iffI)
    fix x assume "x \<in> {e \<in> set (st_elements s'). el_external e = old}"
    then obtain e where e: "e \<in> set (st_elements s)" "el_external x = old"
      "x = (if el_id e = el_id src then e\<lparr>el_external := new, el_updated := now\<rparr> else e)" unfolding s'(3) by auto
    then have "el_id e \<noteq> el_id src" using ne by auto
    then show "x \<in> {e \<in> set (st_elements s). el_external e = old} - {src}" using e by auto
  next
    fix x assume x: "x \<in> {e \<in> set (st_elements s). el_external e = old} - {src}"
    then have "el_id x \<noteq> el_id src" using elements_unique[OF wf _ src(1), of x] by blast
    then show "x \<in> {e \<in> set (st_elements s'). el_external e = old}" unfolding s'(3) using x by (auto intro: rev_image_eqI)
  qed
  moreover have "mergeable new_id old s'"
    using mg left unfolding mergeable_def s'(4) by blast
  ultimately show thesis using s'(1,2) pl ne by (intro that[of s']) simp_all
qed

text \<open>All source elements, one budget after the other.\<close>

lemma merge_sources_effect:
  assumes "elements_wf s" "set srcs = {e \<in> set (st_elements s). el_external e = old}" "distinct srcs" "old \<noteq> new"
    "inj new_id" "mergeable new_id old s"
  shows "\<exists>s'. for_each srcs (merge_source now new_id new) s = (Inr (), s') \<and> elements_wf s' \<and>
    old \<notin> el_external ` set (st_elements s') \<and>
    (\<forall>b p. planned_for s' b new p + planned_for s' b old p = planned_for s b new p + planned_for s b old p) \<and>
    (\<forall>b ext p. ext \<noteq> old \<and> ext \<noteq> new \<longrightarrow> planned_for s' b ext p = planned_for s b ext p)"
  using assms(1,2,3,6)
proof (induction srcs arbitrary: s)
  case Nil
  then show ?case by (intro exI[of _ s]) (auto simp: ret_def)
next
  case (Cons src srcs)
  then have src: "src \<in> set (st_elements s)" "el_external src = old" by auto
  from merge_source_effect[OF Cons.prems(1) src assms(4,5) Cons.prems(4), of now] obtain s1 where
    s1: "merge_source now new_id new src s = (Inr (), s1)" "elements_wf s1" "mergeable new_id old s1"
    "{e \<in> set (st_elements s1). el_external e = old} = {e \<in> set (st_elements s). el_external e = old} - {src}"
    "\<forall>b p. planned_for s1 b new p + planned_for s1 b old p = planned_for s b new p + planned_for s b old p"
    "\<forall>b ext p. ext \<noteq> old \<and> ext \<noteq> new \<longrightarrow> planned_for s1 b ext p = planned_for s b ext p" .
  have "set srcs = {e \<in> set (st_elements s1). el_external e = old}"
    using Cons.prems(2,3) s1(4) by auto
  from Cons.IH[OF s1(2) this _ s1(3)] Cons.prems(3) obtain s2 where
    "for_each srcs (merge_source now new_id new) s1 = (Inr (), s2)" "elements_wf s2" "old \<notin> el_external ` set (st_elements s2)"
    "\<forall>b p. planned_for s2 b new p + planned_for s2 b old p = planned_for s1 b new p + planned_for s1 b old p"
    "\<forall>b ext p. ext \<noteq> old \<and> ext \<noteq> new \<longrightarrow> planned_for s2 b ext p = planned_for s1 b ext p" by auto
  then show ?case using s1(1,5,6) by (intro exI[of _ s2]) (simp add: sbind_def)
qed

lemma merge_elements_sources:
  "merge_elements now new_id old new s =
     for_each (filter (\<lambda>e. el_external e = old) (st_elements s)) (merge_source now new_id new) s"
  by (simp add: merge_elements_def list_elements_by_external_def merge_source_def[abs_def] sbind_def gets_def)

lemma merge_elements_planned:
  assumes "elements_wf s" "old \<noteq> new" "inj new_id" "mergeable new_id old s"
  shows "\<exists>s'. merge_elements now new_id old new s = (Inr (), s') \<and> elements_wf s' \<and>
    (\<forall>b p. planned_for s' b new p = planned_for s b new p + planned_for s b old p \<and> planned_for s' b old p = 0) \<and>
    (\<forall>b ext p. ext \<noteq> old \<and> ext \<noteq> new \<longrightarrow> planned_for s' b ext p = planned_for s b ext p)"
proof -
  have "distinct (st_elements s)" using assms(1) by (simp add: elements_wf_def distinct_map)
  then have "distinct (filter (\<lambda>e. el_external e = old) (st_elements s))" by simp
  from merge_sources_effect[OF assms(1) _ this assms(2,3,4), of now] obtain s' where
    s': "merge_elements now new_id old new s = (Inr (), s')" "elements_wf s'" "old \<notin> el_external ` set (st_elements s')"
    "\<forall>b p. planned_for s' b new p + planned_for s' b old p = planned_for s b new p + planned_for s b old p"
    "\<forall>b ext p. ext \<noteq> old \<and> ext \<noteq> new \<longrightarrow> planned_for s' b ext p = planned_for s b ext p"
    unfolding merge_elements_sources by auto
  have "planned_for s' b old p = 0" for b p
  proof -
    have "planned_for s' b old p = (\<Sum>e\<leftarrow>st_elements s'. 0)"
      unfolding planned_for_def using s'(3) by (intro arg_cong[where f = sum_list] map_cong) auto
    then show ?thesis by simp
  qed
  then show ?thesis using s' by (intro exI[of _ s']) (simp add: add_0_right)
qed

text \<open>C13: Folding the budget presence of one classification into another always succeeds when the ids it generates are
  new, and no planned money is lost or invented: in every budget and period the target is planned the sum of what the
  two were planned before, the source nothing, any other classification what it was; and still no budget has two
  elements for one classification.\<close>

theorem merge_elements_keeps_planned_money:
  assumes "elements_wf s" "old \<noteq> new" "inj new_id" "mergeable new_id old s"
  shows "\<exists>s'. merge_elements now new_id old new s = (Inr (), s') \<and> elements_wf s' \<and>
    (\<forall>b p. planned_for s' b new p = planned_for s b new p + planned_for s b old p \<and> planned_for s' b old p = 0) \<and>
    (\<forall>b ext p. ext \<noteq> old \<and> ext \<noteq> new \<longrightarrow> planned_for s' b ext p = planned_for s b ext p)"
  by (rule merge_elements_planned[OF assms])

definition two_elements :: store where
  "two_elements = empty_store\<lparr>
     st_elements := [\<lparr>el_id = ''e1'', el_budget = ''b'', el_external = ''c1'', el_type = ElementCategory, el_currency = None,
         el_folder = None, el_key = ''a0'', el_created = 0, el_updated = 0\<rparr>,
       \<lparr>el_id = ''e2'', el_budget = ''b'', el_external = ''c2'', el_type = ElementCategory, el_currency = None,
         el_folder = None, el_key = ''a1'', el_created = 0, el_updated = 0\<rparr>],
     st_limits := [\<lparr>bl_id = ''l1'', bl_element = ''e1'', bl_amount = from_scaled 100, bl_period = 0, bl_created = 0, bl_updated = 0\<rparr>,
       \<lparr>bl_id = ''l2'', bl_element = ''e2'', bl_amount = from_scaled 23, bl_period = 0, bl_created = 0, bl_updated = 0\<rparr>]\<rparr>"

lemma two_elements_ok:
  "elements_wf two_elements" "mergeable (\<lambda>i. CHR ''n'' # i) ''c1'' two_elements"
  "planned_for two_elements ''b'' ''c1'' 0 = 100" "planned_for two_elements ''b'' ''c2'' 0 = 23"
  by (simp_all add: elements_wf_def mergeable_def two_elements_def planned_for_def planned_def)

theorem merge_elements_keeps_planned_money_witness:
  "\<exists>s'. merge_elements 5 (\<lambda>i. CHR ''n'' # i) ''c1'' ''c2'' two_elements = (Inr (), s') \<and>
     planned_for s' ''b'' ''c2'' 0 = 123 \<and> planned_for s' ''b'' ''c1'' 0 = 0"
proof -
  have "inj (\<lambda>i. CHR ''n'' # i)" by (rule injI) simp
  from merge_elements_keeps_planned_money[OF two_elements_ok(1) _ this two_elements_ok(2), of "''c2''" 5]
  show ?thesis by (auto simp: two_elements_ok)
qed

end
