(* ===== verification/Merging.thy ===== *)
theory Merging
  imports Classification Budget_Merge_Laws
begin

section \<open>Merging two categories\<close>

text \<open>
  \<open>MergeCategory\<close> with the budget merge it calls inside its transaction: the service, the foreign-key actions, the
  revision bumps and the planned amounts together.
\<close>

lemma planned_for_same_tables:
  "\<lbrakk>st_elements s' = st_elements s; st_limits s' = st_limits s\<rbrakk> \<Longrightarrow> planned_for s' = planned_for s"
  by (intro ext) (simp only: planned_for_def)

lemma elements_wf_same_tables:
  "\<lbrakk>st_elements s' = st_elements s; st_limits s' = st_limits s\<rbrakk> \<Longrightarrow>
     elements_wf s' = elements_wf s \<and> mergeable new_id old s' = mergeable new_id old s"
  by (simp add: elements_wf_def mergeable_def)

lemma repointed_tables [simp]:
  "st_elements (category_repointed i j s) = st_elements s" "st_limits (category_repointed i j s) = st_limits s"
  "st_elements (category_deleted i s) = st_elements s" "st_limits (category_deleted i s) = st_limits s"
  by (simp_all add: category_repointed_def category_deleted_def)

text \<open>C14: A user who owns two categories of one type can merge them: the source goes, every transaction and template that
  had it has the target, nothing refers to it any more, each account with such a transaction has its revision raised by
  one and no other account's changes, and in every budget and period the target is planned what both were before.\<close>

theorem merge_category_outcome:
  assumes "tables_wf s" "elements_wf s" "inj new_id" "mergeable new_id (category_id src) s"
    and rows: "src \<in> set (st_categories s)" "dst \<in> set (st_categories s)"
    and own: "category_user src = u" "category_user dst = u" "category_type dst = category_type src" "category_id src \<noteq> category_id dst"
    and ids: "pf_uuid pf (merge_category_source q) = Some (category_id src)" "pf_uuid pf (merge_category_target q) = Some (category_id dst)"
  shows "\<exists>s'. merge_category pf now new_id u q s = (Inr (), s') \<and>
    st_categories s' = filter (\<lambda>c. category_id c \<noteq> category_id src) (st_categories s) \<and>
    map tx_category (st_transactions s') =
      map (\<lambda>t. if tx_category t = Some (category_id src) then Some (category_id dst) else tx_category t) (st_transactions s) \<and>
    map rt_category (st_recurring s') =
      map (\<lambda>t. if rt_category t = Some (category_id src) then Some (category_id dst) else rt_category t) (st_recurring s) \<and>
    category_id src \<notin> category_refs s' \<and>
    st_accounts s' = map (bump_account (accounts_of (\<lambda>t. tx_category t = Some (category_id src)) (st_transactions s))) (st_accounts s) \<and>
    (\<forall>b p. planned_for s' b (category_id dst) p = planned_for s b (category_id dst) p + planned_for s b (category_id src) p \<and>
       planned_for s' b (category_id src) p = 0)"
proof -
  let ?i = "category_id src" and ?j = "category_id dst" and ?s = "s\<lparr>st_pending := []\<rparr>"
  have d: "distinct (map category_id (st_categories s))" using assms(1) by (simp add: tables_wf_def)
  have found: "repo_get_category ?i ?s = (Inr src, ?s)" "repo_get_category ?j ?s = (Inr dst, ?s)"
    using find_row_unique[OF d rows(1) refl] find_row_unique[OF d rows(2) refl]
    by (simp_all add: repo_get_category_def sbind_def gets_def lift_def row_or_not_found_def)
  let ?r = "category_repointed ?i ?j ?s"
  have tabs: "st_elements ?r = st_elements s" "st_limits ?r = st_limits s" by simp_all
  have "elements_wf ?r" "mergeable new_id ?i ?r" using elements_wf_same_tables[OF tabs] assms(2,4) by blast+
  from merge_elements_planned[OF this(1) own(4) assms(3) this(2), of now] obtain s2 where
    el: "merge_elements now new_id ?i ?j ?r = (Inr (), s2)"
    and pl: "\<forall>b p. planned_for s2 b ?j p = planned_for ?r b ?j p + planned_for ?r b ?i p \<and> planned_for s2 b ?i p = 0"
    by blast
  have run: "merge_category pf now new_id u q s = (Inr (), flush (category_deleted ?i s2))"
    using found own ids el
    by (simp add: merge_category_def sbind_def[of "lift _"] sbind_def[of "repo_get_category _"] lift_def with_tx_def parse_id_def
        repo_reassign_category) (simp add: sbind_def repo_delete_category_iff[THEN iffD2])
  have "planned_for (flush (category_deleted ?i s2)) = planned_for s2" by (intro planned_for_same_tables) simp_all
  moreover have "planned_for ?r = planned_for s" using tabs by (intro planned_for_same_tables)
  moreover have m:
    "st_categories (flush (category_deleted ?i s2)) = delete_row category_id ?i (st_categories s) \<and>
     st_transactions (flush (category_deleted ?i s2)) = map (\<lambda>t. t\<lparr>tx_category := point_at ?i ?j (tx_category t)\<rparr>) (st_transactions s) \<and>
     st_recurring (flush (category_deleted ?i s2)) = map (\<lambda>t. t\<lparr>rt_category := point_at ?i ?j (rt_category t)\<rparr>) (st_recurring s) \<and>
     st_accounts (flush (category_deleted ?i s2)) = map (bump_account (accounts_of (\<lambda>t. tx_category t = Some ?i) (st_transactions s))) (st_accounts s) \<and>
     st_envelope_categories (flush (category_deleted ?i s2)) = filter (\<lambda>(_, c). c \<noteq> ?i) (st_envelope_categories s)"
    using merge_category_tables[OF run] ids by (elim bexE conjE) (simp del: flush_tables)
  ultimately show ?thesis using run pl own(4)
    by (intro exI[of _ "flush (category_deleted ?i s2)"])
      (auto simp del: flush_tables simp: m category_refs_def delete_row_def point_at_def)
qed

definition two_categories :: store where
  "two_categories = two_elements\<lparr>st_categories :=
     [category_set_sort_key ''a0'' (new_category ''c1'' ''ann'' ''Lunch'' TypeExpense ''x'' 0),
      category_set_sort_key ''a1'' (new_category ''c2'' ''ann'' ''Meals'' TypeExpense ''x'' 0)]\<rparr>"

theorem merge_category_outcome_witness:
  "\<exists>s'. merge_category sample_platform 5 (\<lambda>i. CHR ''n'' # i) ''ann''
       \<lparr>merge_category_source = ''c1'', merge_category_target = ''c2''\<rparr> two_categories = (Inr (), s') \<and>
     map category_name (st_categories s') = [''Meals''] \<and>
     planned_for s' ''b'' ''c2'' 0 = 123 \<and> planned_for s' ''b'' ''c1'' 0 = 0"
proof -
  let ?c = "\<lambda>i k n. category_set_sort_key k (new_category i ''ann'' n TypeExpense ''x'' 0)"
  have wf: "tables_wf two_categories"
    by (simp add: tables_wf_def two_categories_def two_elements_def empty_store_def category_set_sort_key_def new_category_def sample_keys)
  have tabs: "st_elements two_categories = st_elements two_elements" "st_limits two_categories = st_limits two_elements"
    by (simp_all add: two_categories_def)
  have el: "elements_wf two_categories" "mergeable (\<lambda>i. CHR ''n'' # i) ''c1'' two_categories"
    using elements_wf_same_tables[OF tabs] two_elements_ok by blast+
  have inj: "inj (\<lambda>i. CHR ''n'' # i)" by (rule injI) simp
  have pl: "planned_for two_categories ''b'' ''c1'' 0 = 100" "planned_for two_categories ''b'' ''c2'' 0 = 23"
    using planned_for_same_tables[OF tabs] two_elements_ok by simp_all
  have ids: "category_id (?c i k n) = i" "category_user (?c i k n) = ''ann''" "category_type (?c i k n) = TypeExpense"
    "category_name (?c i k n) = n" for i k n by (simp_all add: category_set_sort_key_def new_category_def)
  have cats: "st_categories two_categories = [?c ''c1'' ''a0'' ''Lunch'', ?c ''c2'' ''a1'' ''Meals'']" by (simp add: two_categories_def)
  have "\<exists>s'. merge_category sample_platform 5 (\<lambda>i. CHR ''n'' # i) ''ann''
       \<lparr>merge_category_source = ''c1'', merge_category_target = ''c2''\<rparr> two_categories = (Inr (), s') \<and>
     st_categories s' = [?c ''c2'' ''a1'' ''Meals''] \<and>
     planned_for s' ''b'' ''c2'' 0 = 123 \<and> planned_for s' ''b'' ''c1'' 0 = 0"
    using merge_category_outcome[OF wf el(1) inj, of "?c ''c1'' ''a0'' ''Lunch''" "?c ''c2'' ''a1'' ''Meals''" "''ann''" sample_platform
       "\<lparr>merge_category_source = ''c1'', merge_category_target = ''c2''\<rparr>" 5] el(2)
    by (auto simp: ids cats pl sample_platform_def)
  then show ?thesis using ids by fastforce
qed

end
