(* ===== verification/Convertor.thy ===== *)
theory Convertor
  imports Decimal Budget_Model
begin

section \<open>Currency conversion\<close>

text \<open>
  \<open>internal/currency/convertor.go\<close>. The rate provider is the interface the code declares: a record of
  functions, read-only for the length of a call. A Go map that is ranged over is an association list in the order
  of the iteration, which Go leaves open; a property below shows when that order cannot matter, and that the
  windows of a budget are such a case.
  The digits memo is threaded as a map. The lemmas show that the memo and the grouping by period are
  transparent: the result is that of the plain reference conversion.
\<close>

record full_rate =
  fr_currency :: ident
  fr_rate :: decimal

record convert_item =
  ci_start :: instant
  ci_end :: instant
  ci_from :: ident
  ci_to :: ident
  ci_amount :: decimal

record rate_provider =
  average_rates :: "instant \<Rightarrow> instant \<Rightarrow> full_rate list result"
  base_currency_id :: "ident result"
  fraction_digits :: "ident \<Rightarrow> int result"

definition month_key :: "instant \<Rightarrow> string" where
  "month_key t = (case t_date t of (y, m, _) \<Rightarrow> pad_int 4 y @ pad_int 2 m)"

type_synonym digits_memo = "ident \<rightharpoonup> int"

definition digits_lookup :: "rate_provider \<Rightarrow> digits_memo \<Rightarrow> ident \<Rightarrow> (int \<times> digits_memo) result" where
  "digits_lookup p seen i =
     (case seen i of
        Some d \<Rightarrow> Inr (d, seen)
      | None \<Rightarrow>
          (case fraction_digits p i of
             Inr d \<Rightarrow> Inr (d, seen(i \<mapsto> d))
           | Inl e \<Rightarrow> if as_not_found e = None then Inl e else Inr (2, seen(i \<mapsto> 2))))"

definition rate_of :: "full_rate list \<Rightarrow> ident \<Rightarrow> decimal option" where
  "rate_of rates i = map_option fr_rate (find (\<lambda>r. fr_currency r = i) rates)"

definition convert ::
  "rate_provider \<Rightarrow> digits_memo \<Rightarrow> full_rate list \<Rightarrow> ident \<Rightarrow> ident \<Rightarrow> ident \<Rightarrow> decimal \<Rightarrow>
    (decimal \<times> digits_memo) result" where
  "convert p seen rates base_id from to amount =
     (if from = to then Inr (amount, seen)
      else
        rbind (if from \<noteq> base_id
               then (case rate_of rates from of Some r \<Rightarrow> div_decimal amount r | None \<Rightarrow> Inr amount)
               else Inr amount) (\<lambda>result.
        let result = (if to \<noteq> base_id
               then (case rate_of rates to of Some r \<Rightarrow> mul_decimal result r | None \<Rightarrow> result)
               else result)
        in rbind (digits_lookup p seen to) (\<lambda>(digits, seen).
             Inr (round_decimal result digits, seen))))"

definition convert_once ::
  "rate_provider \<Rightarrow> instant \<Rightarrow> instant \<Rightarrow> ident \<Rightarrow> ident \<Rightarrow> decimal \<Rightarrow> decimal result" where
  "convert_once p period_start period_end from to amount =
     (if from = to then Inr amount
      else
        rbind (average_rates p period_start period_end) (\<lambda>rates.
        rbind (base_currency_id p) (\<lambda>base_id.
        rbind (convert p Map.empty rates base_id from to amount) (\<lambda>(d, seen). Inr d))))"

subsection \<open>\<open>summarize\<close>\<close>

type_synonym item_key = "ident \<times> ident \<times> string \<times> string"

definition item_key_of :: "convert_item \<Rightarrow> item_key" where
  "item_key_of it = (ci_from it, ci_to it, format_date (ci_start it), format_date (ci_end it))"

fun summarize_loop :: "(item_key \<rightharpoonup> nat) \<Rightarrow> convert_item list \<Rightarrow> convert_item list \<Rightarrow> convert_item list" where
  "summarize_loop idx out [] = out"
| "summarize_loop idx out (it # items) =
     (case idx (item_key_of it) of
        Some i \<Rightarrow> summarize_loop idx (out[i := (out ! i)\<lparr>ci_amount := add_decimal (ci_amount (out ! i)) (ci_amount it)\<rparr>]) items
      | None \<Rightarrow> summarize_loop (idx(item_key_of it \<mapsto> length out)) (out @ [it]) items)"

definition summarize :: "convert_item list \<Rightarrow> convert_item list" where
  "summarize items = summarize_loop Map.empty [] items"

subsection \<open>\<open>BulkConvert\<close>\<close>

text \<open>The periods to load: the top-level one and, for each further month of a cross-currency item, the first
  period met; an association list with one entry per month.\<close>

type_synonym needed = "(string \<times> instant \<times> instant) list"

definition need_item :: "needed \<Rightarrow> convert_item \<Rightarrow> needed" where
  "need_item needed it =
     (if ci_from it = ci_to it then needed
      else let k = month_key (ci_start it) in
        if map_of needed k \<noteq> None then needed else needed @ [(k, ci_start it, ci_end it)])"

definition needed_periods ::
  "instant \<Rightarrow> instant \<Rightarrow> (string \<times> convert_item list) list \<Rightarrow> needed" where
  "needed_periods period_start period_end items =
     foldl need_item [(month_key period_start, period_start, period_end)] (concat (map snd items))"

definition load_step ::
  "rate_provider \<Rightarrow> (string \<rightharpoonup> full_rate list) \<Rightarrow> string \<times> instant \<times> instant \<Rightarrow> (string \<rightharpoonup> full_rate list) result" where
  "load_step p m n = (case n of (k, a, b) \<Rightarrow> rbind (average_rates p a b) (\<lambda>rs. Inr (m(k \<mapsto> rs))))"

definition load_rates :: "rate_provider \<Rightarrow> needed \<Rightarrow> (string \<rightharpoonup> full_rate list) result" where
  "load_rates p needed = rfold (load_step p) Map.empty needed"

definition convert_step ::
  "rate_provider \<Rightarrow> string \<Rightarrow> (string \<rightharpoonup> full_rate list) \<Rightarrow> ident \<Rightarrow> decimal \<times> digits_memo \<Rightarrow> convert_item \<Rightarrow>
    (decimal \<times> digits_memo) result" where
  "convert_step p current_key rates_by_key base_id st it =
     (case st of (acc, seen) \<Rightarrow>
       (let k = (if rates_by_key (month_key (ci_start it)) \<noteq> None then month_key (ci_start it) else current_key);
            rates = (case rates_by_key k of Some rs \<Rightarrow> rs | None \<Rightarrow> [])
        in rbind (convert p seen rates base_id (ci_from it) (ci_to it) (ci_amount it)) (\<lambda>(conv, seen).
             Inr (add_decimal acc conv, seen))))"

definition bulk_step ::
  "rate_provider \<Rightarrow> string \<Rightarrow> (string \<rightharpoonup> full_rate list) \<Rightarrow> ident \<Rightarrow>
    (string \<rightharpoonup> decimal) \<times> digits_memo \<Rightarrow> string \<times> convert_item list \<Rightarrow> ((string \<rightharpoonup> decimal) \<times> digits_memo) result" where
  "bulk_step p current_key rates_by_key base_id st entry =
     (case (st, entry) of ((result, seen), (key, items)) \<Rightarrow>
       rbind (rfold (convert_step p current_key rates_by_key base_id) (new_decimal ''0'', seen) (summarize items))
         (\<lambda>(acc, seen). Inr (result(key \<mapsto> acc), seen)))"

definition bulk_convert ::
  "rate_provider \<Rightarrow> instant \<Rightarrow> instant \<Rightarrow> (string \<times> convert_item list) list \<Rightarrow> (string \<rightharpoonup> decimal) result" where
  "bulk_convert p period_start period_end items =
     rbind (load_rates p (needed_periods period_start period_end items)) (\<lambda>rates_by_key.
     rbind (base_currency_id p) (\<lambda>base_id.
     rbind (rfold (bulk_step p (month_key period_start) rates_by_key base_id) (Map.empty, Map.empty) items)
       (\<lambda>(result, seen). Inr result)))"

subsection \<open>\<open>summarize\<close> groups by currencies and period\<close>

text \<open>The reference: one item per key, in the order of first appearance, the amounts of its group added up.\<close>

definition first_seen :: "'a list \<Rightarrow> 'a list" where
  "first_seen xs = rev (remdups (rev xs))"

definition group_total :: "convert_item list \<Rightarrow> convert_item" where
  "group_total g = (hd g)\<lparr>ci_amount := foldl add_decimal (ci_amount (hd g)) (map ci_amount (tl g))\<rparr>"

definition group_items :: "convert_item list \<Rightarrow> convert_item list" where
  "group_items items =
     map (\<lambda>k. group_total (filter (\<lambda>it. item_key_of it = k) items)) (first_seen (map item_key_of items))"

lemma first_seen_snoc:
  "first_seen (xs @ [x]) = (if x \<in> set xs then first_seen xs else first_seen xs @ [x])"
  by (simp add: first_seen_def)

lemma set_first_seen [simp]: "set (first_seen xs) = set xs"
  by (simp add: first_seen_def)

lemma distinct_first_seen [simp]: "distinct (first_seen xs)"
  by (simp add: first_seen_def)

lemma group_total_snoc:
  "g \<noteq> [] \<Longrightarrow> group_total (g @ [it]) =
     (group_total g)\<lparr>ci_amount := add_decimal (ci_amount (group_total g)) (ci_amount it)\<rparr>"
  by (cases g) (simp_all add: group_total_def)

lemma item_key_of_amount [simp]: "item_key_of (it\<lparr>ci_amount := a\<rparr>) = item_key_of it"
  by (simp add: item_key_of_def)

lemma item_key_of_group_total:
  "\<lbrakk>g \<noteq> []; \<forall>it\<in>set g. item_key_of it = k\<rbrakk> \<Longrightarrow> item_key_of (group_total g) = k"
  by (cases g) (simp_all add: group_total_def)

lemma group_of_key:
  "k \<in> set (map item_key_of items) \<Longrightarrow>
     item_key_of (group_total (filter (\<lambda>it. item_key_of it = k) items)) = k"
  by (rule item_key_of_group_total) (auto simp: filter_empty_conv)

lemma keys_of_group_items: "map item_key_of (group_items items) = first_seen (map item_key_of items)"
proof -
  have "map (\<lambda>k. item_key_of (group_total (filter (\<lambda>it. item_key_of it = k) items))) (first_seen (map item_key_of items))
      = map (\<lambda>k. k) (first_seen (map item_key_of items))"
    by (rule map_cong[OF refl], rule group_of_key) simp
  then show ?thesis by (simp add: group_items_def comp_def)
qed

text \<open>One step of the loop, with the index map read off the output.\<close>

definition add_item :: "convert_item list \<Rightarrow> convert_item \<Rightarrow> convert_item list" where
  "add_item out it =
     (if item_key_of it \<in> item_key_of ` set out
      then map (\<lambda>o'. if item_key_of o' = item_key_of it
                     then o'\<lparr>ci_amount := add_decimal (ci_amount o') (ci_amount it)\<rparr> else o') out
      else out @ [it])"

definition index_of_keys :: "('k \<rightharpoonup> nat) \<Rightarrow> 'k list \<Rightarrow> bool" where
  "index_of_keys idx ks \<longleftrightarrow> distinct ks \<and> (\<forall>k i. idx k = Some i \<longleftrightarrow> i < length ks \<and> ks ! i = k)"

lemma index_of_keys_None:
  assumes "index_of_keys idx ks"
  shows "idx k = None \<longleftrightarrow> k \<notin> set ks"
proof -
  have *: "idx k = Some i \<longleftrightarrow> i < length ks \<and> ks ! i = k" for i
    using assms by (simp add: index_of_keys_def)
  show ?thesis using * by (cases "idx k") (auto simp: in_set_conv_nth)
qed

lemma index_of_keys_Some: "\<lbrakk>index_of_keys idx ks; idx k = Some i\<rbrakk> \<Longrightarrow> i < length ks \<and> ks ! i = k"
  by (simp add: index_of_keys_def)

lemma index_of_keys_distinct: "index_of_keys idx ks \<Longrightarrow> distinct ks"
  by (simp add: index_of_keys_def)

lemma index_of_keys_snoc:
  "\<lbrakk>index_of_keys idx ks; k \<notin> set ks\<rbrakk> \<Longrightarrow> index_of_keys (idx(k \<mapsto> length ks)) (ks @ [k])"
  by (auto simp: index_of_keys_def nth_append less_Suc_eq)

lemma update_at_key:
  assumes "distinct (map f xs)" "i < length xs"
  shows "xs[i := g (xs ! i)] = map (\<lambda>x. if f x = f (xs ! i) then g x else x) xs"
proof (rule nth_equalityI)
  fix j assume j: "j < length (xs[i := g (xs ! i)])"
  have "f (xs ! j) = f (xs ! i) \<longleftrightarrow> j = i"
    using assms j nth_eq_iff_index_eq[of "map f xs" j i] by simp
  then show "xs[i := g (xs ! i)] ! j = map (\<lambda>x. if f x = f (xs ! i) then g x else x) xs ! j"
    using assms j by (auto simp: nth_list_update)
qed simp

lemma add_item_keys:
  "map item_key_of (add_item out it) =
     (if item_key_of it \<in> item_key_of ` set out then map item_key_of out else map item_key_of out @ [item_key_of it])"
  by (simp add: add_item_def comp_def if_distrib cong: if_cong)

lemma summarize_loop_add_item:
  "index_of_keys idx (map item_key_of out) \<Longrightarrow> summarize_loop idx out items = foldl add_item out items"
proof (induction items arbitrary: idx out)
  case (Cons it items)
  show ?case
  proof (cases "idx (item_key_of it)")
    case None
    then have new: "item_key_of it \<notin> item_key_of ` set out"
      using index_of_keys_None[OF Cons.prems, of "item_key_of it"] by simp
    have "index_of_keys (idx(item_key_of it \<mapsto> length out)) (map item_key_of (out @ [it]))"
      using index_of_keys_snoc[OF Cons.prems, of "item_key_of it"] new by simp
    moreover have "add_item out it = out @ [it]" using new by (simp add: add_item_def)
    ultimately show ?thesis using Cons.IH[of "idx(item_key_of it \<mapsto> length out)" "out @ [it]"] None
      by (simp del: fun_upd_apply add: fun_upd_def)
  next
    case (Some i)
    let ?out = "out[i := (out ! i)\<lparr>ci_amount := add_decimal (ci_amount (out ! i)) (ci_amount it)\<rparr>]"
    from index_of_keys_Some[OF Cons.prems Some]
    have i: "i < length out" "item_key_of (out ! i) = item_key_of it" by auto
    note d = index_of_keys_distinct[OF Cons.prems]
    have old: "item_key_of it \<in> item_key_of ` set out" using i by (metis image_eqI nth_mem)
    have out: "?out = add_item out it"
      using update_at_key[OF d i(1), of "\<lambda>o'. o'\<lparr>ci_amount := add_decimal (ci_amount o') (ci_amount it)\<rparr>"] old i(2)
      by (simp add: add_item_def)
    have "map item_key_of ?out = map item_key_of out"
      unfolding out add_item_keys using old by simp
    then have "index_of_keys idx (map item_key_of ?out)"
      using Cons.prems by simp
    from Cons.IH[OF this] Some out show ?thesis by simp
  qed
qed simp

lemma add_item_group_items: "add_item (group_items items) it = group_items (items @ [it])"
proof (cases "item_key_of it \<in> set (map item_key_of items)")
  case True
  let ?g = "\<lambda>k. filter (\<lambda>it. item_key_of it = k) items"
  have "item_key_of it \<in> item_key_of ` set (group_items items)"
    using True keys_of_group_items[of items] by (metis list.set_map set_first_seen)
  then have "add_item (group_items items) it =
     map (\<lambda>k. if item_key_of (group_total (?g k)) = item_key_of it
               then (group_total (?g k))\<lparr>ci_amount := add_decimal (ci_amount (group_total (?g k))) (ci_amount it)\<rparr>
               else group_total (?g k)) (first_seen (map item_key_of items))"
    by (simp add: add_item_def group_items_def comp_def)
  also have "\<dots> = map (\<lambda>k. group_total (filter (\<lambda>it. item_key_of it = k) (items @ [it]))) (first_seen (map item_key_of items))"
  proof (rule map_cong[OF refl])
    fix k assume "k \<in> set (first_seen (map item_key_of items))"
    then have k: "k \<in> set (map item_key_of items)" by simp
    then have "?g k \<noteq> []" by (auto simp: filter_empty_conv)
    then show "(if item_key_of (group_total (?g k)) = item_key_of it
               then (group_total (?g k))\<lparr>ci_amount := add_decimal (ci_amount (group_total (?g k))) (ci_amount it)\<rparr>
               else group_total (?g k)) = group_total (filter (\<lambda>it. item_key_of it = k) (items @ [it]))"
      using group_of_key[OF k] group_total_snoc[of "?g k" it] by auto
  qed
  also have "\<dots> = group_items (items @ [it])"
    using True by (simp add: group_items_def first_seen_snoc)
  finally show ?thesis .
next
  case False
  then have new: "item_key_of it \<notin> item_key_of ` set (group_items items)"
    using keys_of_group_items[of items] by (metis list.set_map set_first_seen)
  have none: "filter (\<lambda>x. item_key_of x = item_key_of it) items = []"
    using False unfolding filter_empty_conv list.set_map by (metis imageI)
  have "map (\<lambda>k. group_total (filter (\<lambda>it. item_key_of it = k) items)) (first_seen (map item_key_of items))
      = map (\<lambda>k. group_total (filter (\<lambda>it. item_key_of it = k) (items @ [it]))) (first_seen (map item_key_of items))"
    by (rule map_cong[OF refl]) (use False in auto)
  with new False none show ?thesis
    by (simp add: add_item_def group_items_def first_seen_snoc group_total_def)
qed

lemma summarize_group_items: "summarize items = group_items items"
proof -
  have "foldl add_item [] items = group_items items"
  proof (induction items rule: rev_induct)
    case Nil
    show ?case by (simp add: group_items_def first_seen_def)
  next
    case (snoc x xs)
    then show ?case by (simp add: add_item_group_items)
  qed
  moreover have "index_of_keys Map.empty (map item_key_of [])" by (simp add: index_of_keys_def)
  ultimately show ?thesis unfolding summarize_def by (simp only: summarize_loop_add_item)
qed

subsection \<open>The digits memo is transparent\<close>

text \<open>The reference conversion: the same arithmetic, the fraction digits looked up afresh each time.\<close>

definition digits_plain :: "rate_provider \<Rightarrow> ident \<Rightarrow> int result" where
  "digits_plain p i =
     (case fraction_digits p i of Inr d \<Rightarrow> Inr d | Inl e \<Rightarrow> if as_not_found e = None then Inl e else Inr 2)"

definition convert_plain ::
  "rate_provider \<Rightarrow> full_rate list \<Rightarrow> ident \<Rightarrow> ident \<Rightarrow> ident \<Rightarrow> decimal \<Rightarrow> decimal result" where
  "convert_plain p rates base_id from to amount =
     rbind (convert p Map.empty rates base_id from to amount) (\<lambda>(d, seen). Inr d)"

definition memo_ok :: "rate_provider \<Rightarrow> digits_memo \<Rightarrow> bool" where
  "memo_ok p seen \<longleftrightarrow> (\<forall>i d. seen i = Some d \<longrightarrow> digits_plain p i = Inr d)"

text \<open>A memoised step against its reference: the same error, or the same value and a memo that is still right.\<close>

definition memo_result :: "rate_provider \<Rightarrow> ('a \<times> digits_memo) result \<Rightarrow> 'a result \<Rightarrow> bool" where
  "memo_result p m r \<longleftrightarrow> (case m of Inl e \<Rightarrow> r = Inl e | Inr (x, seen) \<Rightarrow> r = Inr x \<and> memo_ok p seen)"

lemma memo_ok_empty [simp]: "memo_ok p Map.empty"
  by (simp add: memo_ok_def)

lemma memo_result_Inr [simp]: "memo_result p (Inr (x, seen)) r \<longleftrightarrow> r = Inr x \<and> memo_ok p seen"
  by (simp add: memo_result_def)

lemma memo_result_Inl [simp]: "memo_result p (Inl e) r \<longleftrightarrow> r = Inl e"
  by (simp add: memo_result_def)

lemma memo_result_bind:
  assumes "memo_result p m r" and "\<And>x seen. memo_ok p seen \<Longrightarrow> memo_result p (f (x, seen)) (g x)"
  shows "memo_result p (rbind m f) (rbind r g)"
  using assms by (cases m) auto

lemma digits_lookup_memo: "memo_ok p seen \<Longrightarrow> memo_result p (digits_lookup p seen i) (digits_plain p i)"
proof (cases "seen i")
  case None
  then show "memo_ok p seen \<Longrightarrow> ?thesis"
    by (cases "fraction_digits p i") (auto simp: digits_lookup_def digits_plain_def memo_ok_def)
qed (simp add: digits_lookup_def memo_ok_def)

definition two_hops :: "full_rate list \<Rightarrow> ident \<Rightarrow> ident \<Rightarrow> ident \<Rightarrow> decimal \<Rightarrow> decimal result" where
  "two_hops rates base_id from to amount =
     rbind (if from \<noteq> base_id
            then (case rate_of rates from of Some r \<Rightarrow> div_decimal amount r | None \<Rightarrow> Inr amount)
            else Inr amount) (\<lambda>result.
       Inr (if to \<noteq> base_id
            then (case rate_of rates to of Some r \<Rightarrow> mul_decimal result r | None \<Rightarrow> result)
            else result))"

lemma convert_two_hops:
  "convert p seen rates base_id from to amount =
     (if from = to then Inr (amount, seen)
      else rbind (two_hops rates base_id from to amount) (\<lambda>result.
           rbind (digits_lookup p seen to) (\<lambda>(digits, seen). Inr (round_decimal result digits, seen))))"
  by (simp add: convert_def two_hops_def rbind_def split: sum.splits option.splits)

lemma convert_plain_eq:
  "convert_plain p rates base_id from to amount =
     (if from = to then Inr amount
      else rbind (two_hops rates base_id from to amount) (\<lambda>result.
           rbind (digits_plain p to) (\<lambda>digits. Inr (round_decimal result digits))))"
  by (cases "fraction_digits p to"; cases "two_hops rates base_id from to amount")
    (simp_all add: convert_plain_def convert_two_hops digits_lookup_def digits_plain_def)

lemma convert_memo:
  assumes "memo_ok p seen"
  shows "memo_result p (convert p seen rates base_id from to amount) (convert_plain p rates base_id from to amount)"
proof (cases "from = to")
  case True
  then show ?thesis using assms by (simp add: convert_two_hops convert_plain_eq)
next
  case False
  show ?thesis
  proof (cases "two_hops rates base_id from to amount")
    case (Inl e)
    then show ?thesis using False by (simp add: convert_two_hops convert_plain_eq)
  next
    case (Inr r)
    have "memo_result p (rbind (digits_lookup p seen to) (\<lambda>(digits, seen). Inr (round_decimal r digits, seen)))
      (rbind (digits_plain p to) (\<lambda>digits. Inr (round_decimal r digits)))"
      by (rule memo_result_bind[OF digits_lookup_memo[OF assms]]) simp
    then show ?thesis using False Inr by (simp add: convert_two_hops convert_plain_eq)
  qed
qed

subsection \<open>The reference for \<open>BulkConvert\<close>\<close>

fun rmap :: "('a \<Rightarrow> 'b result) \<Rightarrow> 'a list \<Rightarrow> 'b list result" where
  "rmap f [] = Inr []"
| "rmap f (x # xs) = rbind (f x) (\<lambda>y. rbind (rmap f xs) (\<lambda>ys. Inr (y # ys)))"

definition rates_for :: "string \<Rightarrow> (string \<rightharpoonup> full_rate list) \<Rightarrow> convert_item \<Rightarrow> full_rate list" where
  "rates_for current_key rates_by_key it =
     (case rates_by_key (month_key (ci_start it)) of
        Some rs \<Rightarrow> rs | None \<Rightarrow> (case rates_by_key current_key of Some rs \<Rightarrow> rs | None \<Rightarrow> []))"

definition convert_group ::
  "rate_provider \<Rightarrow> string \<Rightarrow> (string \<rightharpoonup> full_rate list) \<Rightarrow> ident \<Rightarrow> convert_item list \<Rightarrow> decimal result" where
  "convert_group p current_key rates_by_key base_id items =
     rbind (rmap (\<lambda>it. convert_plain p (rates_for current_key rates_by_key it) base_id (ci_from it) (ci_to it) (ci_amount it))
              (group_items items))
       (\<lambda>ds. Inr (foldl add_decimal (new_decimal ''0'') ds))"

definition reference_bulk ::
  "rate_provider \<Rightarrow> instant \<Rightarrow> instant \<Rightarrow> (string \<times> convert_item list) list \<Rightarrow> (string \<rightharpoonup> decimal) result" where
  "reference_bulk p period_start period_end items =
     rbind (load_rates p (needed_periods period_start period_end items)) (\<lambda>rates_by_key.
     rbind (base_currency_id p) (\<lambda>base_id.
     rbind (rmap (\<lambda>(key, its). rbind (convert_group p (month_key period_start) rates_by_key base_id its) (\<lambda>d. Inr (key, d))) items)
       (\<lambda>kds. Inr (map_of (rev kds)))))"

lemma convert_step_eq:
  "convert_step p ck rbk b (acc, seen) it =
     rbind (convert p seen (rates_for ck rbk it) b (ci_from it) (ci_to it) (ci_amount it))
       (\<lambda>(conv, seen). Inr (add_decimal acc conv, seen))"
  by (simp add: convert_step_def rates_for_def Let_def split: option.splits)

lemma convert_steps_memo:
  "memo_ok p seen \<Longrightarrow>
   memo_result p (rfold (convert_step p ck rbk b) (acc, seen) items)
     (rbind (rmap (\<lambda>it. convert_plain p (rates_for ck rbk it) b (ci_from it) (ci_to it) (ci_amount it)) items)
       (\<lambda>ds. Inr (foldl add_decimal acc ds)))"
proof (induction items arbitrary: acc seen)
  case (Cons it items)
  let ?c = "\<lambda>it. convert_plain p (rates_for ck rbk it) b (ci_from it) (ci_to it) (ci_amount it)"
  from convert_memo[OF Cons.prems, of "rates_for ck rbk it" b "ci_from it" "ci_to it" "ci_amount it"]
  show ?case
  proof (cases "convert p seen (rates_for ck rbk it) b (ci_from it) (ci_to it) (ci_amount it)")
    case (Inr xs)
    obtain x seen' where xs: "xs = (x, seen')" by (cases xs)
    with Inr convert_memo[OF Cons.prems, of "rates_for ck rbk it" b "ci_from it" "ci_to it" "ci_amount it"]
    have "?c it = Inr x" "memo_ok p seen'" by simp_all
    moreover have "rbind (rbind (rmap ?c items) (\<lambda>ys. Inr (x # ys))) (\<lambda>ds. Inr (foldl add_decimal acc ds))
       = rbind (rmap ?c items) (\<lambda>ds. Inr (foldl add_decimal (add_decimal acc x) ds))"
      by (cases "rmap ?c items") simp_all
    ultimately show ?thesis using Cons.IH[of seen' "add_decimal acc x"] Inr xs
      by (simp add: convert_step_eq)
  qed (simp add: convert_step_eq)
qed simp

lemma bulk_step_eq:
  "bulk_step p ck rbk b (result, seen) (key, items) =
     rbind (rfold (convert_step p ck rbk b) (new_decimal ''0'', seen) (summarize items))
       (\<lambda>(acc, seen). Inr (result(key \<mapsto> acc), seen))"
  by (simp add: bulk_step_def)

lemma bulk_steps_memo:
  "memo_ok p seen \<Longrightarrow>
   memo_result p (rfold (bulk_step p ck rbk b) (result, seen) items)
     (rbind (rmap (\<lambda>(key, its). rbind (convert_group p ck rbk b its) (\<lambda>d. Inr (key, d))) items)
       (\<lambda>kds. Inr (result ++ map_of (rev kds))))"
proof (induction items arbitrary: result seen)
  case (Cons entry items)
  obtain key its where e: "entry = (key, its)" by (cases entry)
  let ?c = "\<lambda>(key, its). rbind (convert_group p ck rbk b its) (\<lambda>d. Inr (key, d))"
  have g: "memo_result p (rfold (convert_step p ck rbk b) (new_decimal ''0'', seen) (summarize its))
     (convert_group p ck rbk b its)"
    unfolding convert_group_def summarize_group_items by (rule convert_steps_memo[OF Cons.prems])
  show ?case
  proof (cases "rfold (convert_step p ck rbk b) (new_decimal ''0'', seen) (summarize its)")
    case (Inl x)
    with g e show ?thesis by (simp add: bulk_step_eq)
  next
    case (Inr xs)
    obtain x seen' where xs: "xs = (x, seen')" by (cases xs)
    define r' where "r' = result(key \<mapsto> x)"
    from xs Inr g have "convert_group p ck rbk b its = Inr x" "memo_ok p seen'" by simp_all
    moreover have "rbind (rbind (rmap ?c items) (\<lambda>ys. Inr ((key, x) # ys))) (\<lambda>kds. Inr (result ++ map_of (rev kds)))
       = rbind (rmap ?c items) (\<lambda>kds. Inr (result(key \<mapsto> x) ++ map_of (rev kds)))"
      by (cases "rmap ?c items") simp_all
    ultimately show ?thesis using Cons.IH[of seen' r'] Inr xs e
      by (simp add: bulk_step_eq r'_def[symmetric])
  qed
qed simp

lemma memo_result_drop: "memo_result p m r \<Longrightarrow> rbind m (\<lambda>(x, seen). Inr x) = r"
  by (cases m) auto

lemma bulk_convert_reference:
  "bulk_convert p period_start period_end items = reference_bulk p period_start period_end items"
proof -
  have "rbind (rfold (bulk_step p ck rbk b) (Map.empty, Map.empty) items) (\<lambda>(result, seen). Inr result)
     = rbind (rmap (\<lambda>(key, its). rbind (convert_group p ck rbk b its) (\<lambda>d. Inr (key, d))) items)
         (\<lambda>kds. Inr (map_of (rev kds)))" for ck rbk b
    using memo_result_drop[OF bulk_steps_memo[of p Map.empty ck rbk b Map.empty items]] by simp
  then show ?thesis by (simp add: bulk_convert_def reference_bulk_def)
qed

subsection \<open>The iteration order of the input map\<close>

lemma rmap_eq_Inr:
  "rmap f xs = Inr ys \<longleftrightarrow> (\<forall>x\<in>set xs. \<exists>y. f x = Inr y) \<and> ys = map (projr \<circ> f) xs"
  by (induction xs arbitrary: ys) auto

lemma map_of_rev_distinct: "distinct (map fst xs) \<Longrightarrow> map_of (rev xs) = map_of xs"
  by (subst map_of_inject_set) (simp_all add: rev_map[symmetric])

lemma rmap_pairs:
  assumes "distinct (map fst items)"
  shows "rbind (rmap (\<lambda>(k, its). rbind (g its) (\<lambda>d. Inr (k, d))) items) (\<lambda>kds. Inr (map_of (rev kds))) = Inr m \<longleftrightarrow>
    (\<forall>its\<in>snd ` set items. \<exists>d. g its = Inr d) \<and> m = (\<lambda>k. map_option (projr \<circ> g) (map_of items k))"
proof -
  let ?f = "\<lambda>(k, its). rbind (g its) (\<lambda>d. Inr (k, d))"
  have ok: "(\<forall>x\<in>set items. \<exists>y. ?f x = Inr y) \<longleftrightarrow> (\<forall>its\<in>snd ` set items. \<exists>d. g its = Inr d)"
    by fastforce
  have "map_of (rev (map (projr \<circ> ?f) items)) = (\<lambda>k. map_option (projr \<circ> g) (map_of items k))"
    if all: "\<forall>its\<in>snd ` set items. \<exists>d. g its = Inr d"
  proof -
    have eq: "map (projr \<circ> ?f) items = map (\<lambda>(k, its). (k, projr (g its))) items"
    proof (rule map_cong[OF refl])
      fix x assume x: "x \<in> set items"
      obtain k its where kx: "x = (k, its)" by (cases x)
      with x all obtain d where "g its = Inr d" by force
      with kx show "(projr \<circ> ?f) x = (\<lambda>(k, its). (k, projr (g its))) x" by simp
    qed
    have "distinct (map fst (map (\<lambda>(k, its). (k, projr (g its))) items))"
      using assms by (simp add: comp_def case_prod_unfold)
    from map_of_rev_distinct[OF this] show ?thesis unfolding eq
      by (simp add: fun_eq_iff map_of_map comp_def)
  qed
  with ok show ?thesis by (auto simp: rmap_eq_Inr)
qed

lemma foldl_need_item_keys:
  "fst ` set (foldl need_item ns its) =
     fst ` set ns \<union> {month_key (ci_start it) |it. it \<in> set its \<and> ci_from it \<noteq> ci_to it}"
proof (induction its arbitrary: ns)
  case (Cons it its)
  have "fst ` set (need_item ns it) =
      fst ` set ns \<union> (if ci_from it \<noteq> ci_to it then {month_key (ci_start it)} else {})"
    using map_of_eq_None_iff[of ns "month_key (ci_start it)"] by (auto simp: need_item_def Let_def)
  with Cons.IH[of "need_item ns it"] show ?case by auto
qed simp

lemma foldl_need_item_entries:
  "x \<in> set (foldl need_item ns its) \<Longrightarrow> x \<in> set ns \<or>
     (\<exists>it\<in>set its. ci_from it \<noteq> ci_to it \<and> month_key (ci_start it) \<notin> fst ` set ns \<and> x = (month_key (ci_start it), ci_start it, ci_end it))"
proof (induction its arbitrary: ns)
  case (Cons it its)
  let ?k = "month_key (ci_start it)"
  have keys: "fst ` set ns \<subseteq> fst ` set (need_item ns it)" by (auto simp: need_item_def Let_def)
  have new: "x \<in> set ns \<or> ci_from it \<noteq> ci_to it \<and> ?k \<notin> fst ` set ns \<and> x = (?k, ci_start it, ci_end it)"
    if "x \<in> set (need_item ns it)"
    using that map_of_eq_None_iff[of ns ?k] by (auto simp: need_item_def Let_def split: if_splits)
  have "x \<in> set (foldl need_item (need_item ns it) its)" using Cons.prems by simp
  from Cons.IH[OF this] show ?case
  proof
    assume "x \<in> set (need_item ns it)"
    from new[OF this] show ?case by (elim disjE) simp_all
  next
    assume "\<exists>it'\<in>set its. ci_from it' \<noteq> ci_to it' \<and> month_key (ci_start it') \<notin> fst ` set (need_item ns it) \<and>
      x = (month_key (ci_start it'), ci_start it', ci_end it')"
    then obtain it' where it': "it' \<in> set (it # its)" "ci_from it' \<noteq> ci_to it'" "month_key (ci_start it') \<notin> fst ` set (need_item ns it)"
      "x = (month_key (ci_start it'), ci_start it', ci_end it')" by auto
    then have "month_key (ci_start it') \<notin> fst ` set ns" using keys by (meson subsetD)
    with it' show ?case by (intro disjI2 bexI[of _ it'] conjI)
  qed
qed simp

lemma needed_periods_keys:
  "fst ` set (needed_periods ps pe items) =
     {month_key ps} \<union> {month_key (ci_start it) |it its. its \<in> snd ` set items \<and> it \<in> set its \<and> ci_from it \<noteq> ci_to it}"
  unfolding needed_periods_def foldl_need_item_keys by auto

definition cross_items :: "(string \<times> convert_item list) list \<Rightarrow> convert_item set" where
  "cross_items items = {it. (\<exists>its\<in>snd ` set items. it \<in> set its) \<and> ci_from it \<noteq> ci_to it}"

lemma needed_periods_entries:
  assumes "(k, a, b) \<in> set (needed_periods ps pe items)"
  obtains "k = month_key ps" "a = ps" "b = pe"
  | it where "it \<in> cross_items items" "month_key (ci_start it) \<noteq> month_key ps"
      "k = month_key (ci_start it)" "a = ci_start it" "b = ci_end it"
proof -
  note e = foldl_need_item_entries[of "(k, a, b)" "[(month_key ps, ps, pe)]" "concat (map snd items)"]
  from assms have "(k, a, b) \<in> set [(month_key ps, ps, pe)] \<or>
     (\<exists>it\<in>set (concat (map snd items)). ci_from it \<noteq> ci_to it \<and> month_key (ci_start it) \<notin> fst ` set [(month_key ps, ps, pe)] \<and>
        (k, a, b) = (month_key (ci_start it), ci_start it, ci_end it))"
    unfolding needed_periods_def by (rule e)
  then show thesis
  proof
    assume "(k, a, b) \<in> set [(month_key ps, ps, pe)]"
    then show thesis using that(1) by simp
  next
    assume "\<exists>it\<in>set (concat (map snd items)). ci_from it \<noteq> ci_to it \<and> month_key (ci_start it) \<notin> fst ` set [(month_key ps, ps, pe)] \<and>
        (k, a, b) = (month_key (ci_start it), ci_start it, ci_end it)"
    then obtain it where "it \<in> set (concat (map snd items))" "ci_from it \<noteq> ci_to it" "month_key (ci_start it) \<noteq> month_key ps"
      "k = month_key (ci_start it)" "a = ci_start it" "b = ci_end it" by auto
    then show thesis by (intro that(2)[of it]) (auto simp: cross_items_def)
  qed
qed

text \<open>A list of periods with rates by month: what is loaded depends only on the set of months.\<close>

definition rates_by_month :: "rate_provider \<Rightarrow> (string \<Rightarrow> full_rate list result) \<Rightarrow> needed \<Rightarrow> bool" where
  "rates_by_month p R ns \<longleftrightarrow> (\<forall>(k, a, b)\<in>set ns. average_rates p a b = R k)"

lemma load_rates_monthly:
  assumes "rates_by_month p R ns"
  shows "load_rates p ns = Inr m \<longleftrightarrow>
    (\<forall>k\<in>fst ` set ns. \<exists>rs. R k = Inr rs) \<and> m = (\<lambda>k. if k \<in> fst ` set ns then Some (projr (R k)) else None)"
proof -
  have "rfold (load_step p) m0 ns = Inr m \<longleftrightarrow>
    (\<forall>k\<in>fst ` set ns. \<exists>rs. R k = Inr rs) \<and> m = (\<lambda>k. if k \<in> fst ` set ns then Some (projr (R k)) else m0 k)" for m0
    using assms
  proof (induction ns arbitrary: m0)
    case (Cons x ns)
    obtain k a b where x: "x = (k, a, b)" by (cases x)
    with Cons.prems have avg: "average_rates p a b = R k" by (simp add: rates_by_month_def)
    show ?case
    proof (cases "R k")
      case (Inr rs)
      define m1 where "m1 = m0(k \<mapsto> rs)"
      have step: "rfold (load_step p) m0 (x # ns) = rfold (load_step p) m1 ns" using avg Inr x by (simp add: m1_def load_step_def)
      have IH: "rfold (load_step p) m1 ns = Inr m \<longleftrightarrow>
        (\<forall>k\<in>fst ` set ns. \<exists>rs. R k = Inr rs) \<and> m = (\<lambda>k. if k \<in> fst ` set ns then Some (projr (R k)) else m1 k)"
        using Cons.IH[of m1] Cons.prems by (simp add: rates_by_month_def)
      have "(\<lambda>k'. if k' \<in> fst ` set ns then Some (projr (R k')) else m1 k')
         = (\<lambda>k'. if k' \<in> fst ` set (x # ns) then Some (projr (R k')) else m0 k')"
        using Inr x by (auto simp: m1_def)
      with IH show ?thesis unfolding step using Inr x by simp
    qed (use avg x in \<open>simp add: load_step_def\<close>)
  qed (auto simp: fun_eq_iff)
  from this[of Map.empty] show ?thesis by (simp add: load_rates_def)
qed

lemma rbind_two:
  "rbind a (\<lambda>x. rbind b (\<lambda>y. f x y)) = Inr m \<longleftrightarrow> (\<exists>x. a = Inr x \<and> (\<exists>y. b = Inr y \<and> f x y = Inr m))"
  by simp

lemma reference_bulk_Inr:
  assumes R: "rates_by_month p R (needed_periods ps pe items)" and d: "distinct (map fst items)"
  shows "reference_bulk p ps pe items = Inr m \<longleftrightarrow>
    (let ks = fst ` set (needed_periods ps pe items);
         rbk = (\<lambda>k. if k \<in> ks then Some (projr (R k)) else None)
     in (\<forall>k\<in>ks. \<exists>rs. R k = Inr rs) \<and>
        (\<exists>b. base_currency_id p = Inr b \<and>
          (\<forall>its\<in>snd ` set items. \<exists>x. convert_group p (month_key ps) rbk b its = Inr x) \<and>
          m = (\<lambda>k. map_option (projr \<circ> convert_group p (month_key ps) rbk b) (map_of items k))))"
  unfolding reference_bulk_def rbind_two load_rates_monthly[OF R] rmap_pairs[OF d] Let_def by blast

text \<open>The callers' side of the map of needed periods: beside the month of the top-level period, every month a
  cross-currency item names comes with one period. The provider then answers each month once, whichever item is met first.\<close>

definition one_period_per_month :: "instant \<Rightarrow> (string \<times> convert_item list) list \<Rightarrow> bool" where
  "one_period_per_month ps items \<longleftrightarrow> (\<forall>x\<in>cross_items items. \<forall>y\<in>cross_items items.
     month_key (ci_start x) = month_key (ci_start y) \<and> month_key (ci_start x) \<noteq> month_key ps \<longrightarrow>
     ci_start x = ci_start y \<and> ci_end x = ci_end y)"

definition month_rates :: "rate_provider \<Rightarrow> instant \<Rightarrow> instant \<Rightarrow> (string \<times> convert_item list) list \<Rightarrow> string \<Rightarrow> full_rate list result" where
  "month_rates p ps pe items k =
     (if k = month_key ps then average_rates p ps pe
      else let it = (SOME it. it \<in> cross_items items \<and> month_key (ci_start it) = k) in average_rates p (ci_start it) (ci_end it))"

lemma month_rates_needed:
  assumes "one_period_per_month ps items"
  shows "rates_by_month p (month_rates p ps pe items) (needed_periods ps pe items)"
  unfolding rates_by_month_def
proof clarify
  fix k a b assume "(k, a, b) \<in> set (needed_periods ps pe items)"
  then show "average_rates p a b = month_rates p ps pe items k"
  proof (cases rule: needed_periods_entries)
    case (2 it)
    define x where "x = (SOME x. x \<in> cross_items items \<and> month_key (ci_start x) = k)"
    have x: "x \<in> cross_items items \<and> month_key (ci_start x) = k"
      unfolding x_def by (rule someI[of _ it]) (simp add: 2)
    have "month_key (ci_start x) = month_key (ci_start it) \<and> month_key (ci_start x) \<noteq> month_key ps" using x 2 by simp
    with assms[unfolded one_period_per_month_def, THEN bspec, OF conjunct1[OF x], THEN bspec, OF 2(1)]
    have "ci_start x = ci_start it \<and> ci_end x = ci_end it" by (rule mp)
    moreover have "k \<noteq> month_key ps" using 2 by simp
    then have "month_rates p ps pe items k = average_rates p (ci_start x) (ci_end x)"
      by (simp only: month_rates_def x_def Let_def if_False simp_thms)
    ultimately show ?thesis using 2 by simp
  qed (simp add: month_rates_def)
qed

lemma cross_items_cong: "set items = set items' \<Longrightarrow> cross_items items = cross_items items'"
  by (simp add: cross_items_def)

text \<open>The windows of a budget with one start day are such periods: every list of items whose periods are windows
  (\<open>PeriodWindow\<close> of any key, the way \<open>internal/budget\<close> fills them) names one period per month.\<close>

lemma window_start_month:
  assumes "period_window key sd = (a, b)"
  shows "period_window a sd = (a, b)"
proof -
  obtain y m d where k: "t_date key = (y, m, d)" using prod_cases3 by metis
  have v: "valid_civil y m d" using civil_of_days_valid(1) k by (simp add: t_date_def)
  let ?s = "clamp_period_start_day sd"
  have a: "a = (days_of y m 1 + (?s - 1)) * day_ns" using assms period_window_days[OF k, of sd] by simp
  also have "days_of y m 1 + (?s - 1) = days_of y m ?s" using days_of_add_days[of y m 1 "?s - 1"] by simp
  finally have "a = days_of y m ?s * day_ns" .
  moreover have "valid_civil y m ?s" using v clamp_bounds[of sd] days_in_month_ge_28[of m y] by (simp add: valid_civil_def)
  ultimately have "t_date a = (y, m, ?s)" using civil_of_days_of[of y m ?s] by (simp only: t_date_def t_days_midnight)
  from period_window_days[OF this, of sd] period_window_days[OF k, of sd] show ?thesis using assms by simp
qed

lemma pad_int_shape: "pad_int w x = (if x < 0 then ''-'' else []) @ replicate (w - length (nat_str (nat \<bar>x\<bar>))) CHR ''0'' @ nat_str (nat \<bar>x\<bar>)"
  by (simp add: pad_int_def Let_def)

lemma pad_int_inj:
  assumes "pad_int w x = pad_int w y"
  shows "x = y"
proof -
  let ?p = "\<lambda>x. replicate (w - length (nat_str (nat \<bar>x\<bar>))) CHR ''0'' @ nat_str (nat \<bar>x\<bar>)"
  have v: "dec_val (?p x) = nat \<bar>x\<bar>" and d: "list_all is_dec (?p x)" for x
    by (simp_all add: nat_str_digits dec_val_append list_all_iff[of _ "replicate _ _"])
  have "\<not> is_dec CHR ''-''" by code_simp
  then have n: "''-'' @ r \<noteq> ?p x" for r x using d[of x] by (metis append_Cons list.pred_inject(2))
  have n': "y < 0" if "pad_int w x = pad_int w y" "x < 0" for x y
  proof (rule ccontr)
    assume "\<not> y < 0"
    with that have "''-'' @ ?p x = ?p y" by (simp add: pad_int_shape)
    then show False using n by (rule notE[rotated])
  qed
  have s: "x < 0 \<longleftrightarrow> y < 0" using n'[OF assms] n'[OF assms[symmetric]] by blast
  then have "(if x < 0 then ''-'' else []) = (if y < 0 then ''-'' else [])" by (simp only:)
  with assms have "?p x = ?p y" unfolding pad_int_shape by (simp only: append_same_eq same_append_eq)
  then have "dec_val (?p x) = dec_val (?p y)" by (rule arg_cong)
  then have "nat \<bar>x\<bar> = nat \<bar>y\<bar>" unfolding v .
  then have "\<bar>x\<bar> = \<bar>y\<bar>" by (simp only: eq_nat_nat_iff abs_ge_zero)
  then show ?thesis using s by linarith
qed

lemma month_key_inj:
  assumes "month_key a = month_key b" "t_date a = (y, m, d)" "t_date b = (y', m', d')"
  shows "y = y'" "m = m'"
proof -
  have "1 \<le> m" "m \<le> 12" "1 \<le> m'" "m' \<le> 12"
    using civil_of_days_valid(1)[of _ y m d] civil_of_days_valid(1)[of _ y' m' d'] assms(2,3) by (auto simp: t_date_def valid_civil_def)
  then have "length (pad_int 2 m) = length (pad_int 2 m')" by (simp add: pad_int_length_val)
  moreover have "pad_int 4 y @ pad_int 2 m = pad_int 4 y' @ pad_int 2 m'" using assms by (simp add: month_key_def)
  ultimately have "pad_int 4 y = pad_int 4 y'" "pad_int 2 m = pad_int 2 m'" by simp_all
  then show "y = y'" "m = m'" by (simp_all add: pad_int_inj)
qed

lemma windows_one_period_per_month:
  assumes "\<forall>it\<in>cross_items items. \<exists>key. period_window key sd = (ci_start it, ci_end it)"
  shows "one_period_per_month ps items"
  unfolding one_period_per_month_def
proof (intro ballI impI)
  fix i j assume i: "i \<in> cross_items items" and j: "j \<in> cross_items items"
    and k: "month_key (ci_start i) = month_key (ci_start j) \<and> month_key (ci_start i) \<noteq> month_key ps"
  have w: "period_window (ci_start x) sd = (ci_start x, ci_end x)" if "x \<in> cross_items items" for x
    using assms that window_start_month by blast
  obtain y m d y' m' d' where d: "t_date (ci_start i) = (y, m, d)" "t_date (ci_start j) = (y', m', d')" using prod_cases3 by metis
  note e = month_key_inj[OF conjunct1[OF k] d]
  have "period_window (ci_start i) sd = period_window (ci_start j) sd"
    using period_window_days[OF d(1), of sd] period_window_days[OF d(2), of sd] e by simp
  then show "ci_start i = ci_start j \<and> ci_end i = ci_end j" using w[OF i] w[OF j] by simp
qed

text \<open>C29: when every month the cross-currency items name, other than the month of the top-level period, comes with one
  period, the order in which Go ranges over the map of items cannot be seen in a successful result of \<open>BulkConvert\<close>: two
  listings of the same map succeed together, with the same result. The rate provider is arbitrary: its rates may depend on
  both ends of a period. Without the condition the first item met decides the period of its month, and the order shows.\<close>
theorem bulk_convert_order_irrelevant:
  assumes "one_period_per_month period_start items"
    and "distinct (map fst items)" and "distinct (map fst items')" and "set items = set items'"
  shows "bulk_convert p period_start period_end items = Inr m \<longleftrightarrow> bulk_convert p period_start period_end items' = Inr m"
proof -
  note c = cross_items_cong[OF assms(4)]
  have R: "rates_by_month p (month_rates p period_start period_end items) (needed_periods period_start period_end items)"
    by (rule month_rates_needed[OF assms(1)])
  have "one_period_per_month period_start items'" using assms(1) by (simp add: one_period_per_month_def c)
  from month_rates_needed[OF this, of p period_end]
  have R': "rates_by_month p (month_rates p period_start period_end items) (needed_periods period_start period_end items')"
    by (simp only: month_rates_def[abs_def] c)
  have ks: "fst ` set (needed_periods period_start period_end items) = fst ` set (needed_periods period_start period_end items')"
    by (simp add: needed_periods_keys assms(4))
  have mo: "map_of items = map_of items'" using assms(2-4) by (simp add: map_of_inject_set)
  have "reference_bulk p period_start period_end items = Inr m \<longleftrightarrow> reference_bulk p period_start period_end items' = Inr m"
    unfolding reference_bulk_Inr[OF R assms(2)] reference_bulk_Inr[OF R' assms(3)] ks mo assms(4) ..
  then show ?thesis unfolding bulk_convert_reference .
qed

text \<open>C15: the grouping of items and the digits memo of \<open>BulkConvert\<close> are transparent. Its result, errors included, is
  that of the plain reference: load the rates, then for every key convert the per-group totals one by one with a fresh
  lookup of the fraction digits and add them up; a group being the items of one pair of currencies and one pair of
  period dates, in the order of first appearance.\<close>
theorem bulk_convert_is_reference:
  "bulk_convert p period_start period_end items = reference_bulk p period_start period_end items"
  by (rule bulk_convert_reference)

text \<open>A provider whose rates depend on the end of a period, and two keys whose items share a window in February.\<close>

definition ranged_provider :: rate_provider where
  "ranged_provider = \<lparr>average_rates = \<lambda>a b. Inr [\<lparr>fr_currency = ''eur'', fr_rate = new_decimal (if b \<le> 5097600000000000 then ''0.5'' else ''0.25'')\<rparr>],
     base_currency_id = Inr ''usd'', fraction_digits = \<lambda>_. Inr 2\<rparr>"

definition spent_in :: "instant \<Rightarrow> string \<Rightarrow> convert_item" where
  "spent_in b v = \<lparr>ci_start = 2678400000000000, ci_end = b, ci_from = ''usd'', ci_to = ''eur'', ci_amount = new_decimal v\<rparr>"

definition february :: "instant \<Rightarrow> (string \<times> convert_item list) list" where
  "february b = [(''food'', [spent_in 5097600000000000 ''10'']), (''rent'', [spent_in b ''20''])]"

lemma february_keys: "month_key 0 = ''197001''" "month_key 2678400000000000 = ''197002''"
  by code_simp+

lemma february_amounts:
  "round_decimal (mul_decimal (new_decimal ''10'') (new_decimal ''0.5'')) 2 = new_decimal ''5''"
  "round_decimal (mul_decimal (new_decimal ''20'') (new_decimal ''0.5'')) 2 = new_decimal ''10''"
  "round_decimal (mul_decimal (new_decimal ''10'') (new_decimal ''0.25'')) 2 = new_decimal ''2.5''"
  "round_decimal (mul_decimal (new_decimal ''20'') (new_decimal ''0.25'')) 2 = new_decimal ''5''"
  "add_decimal (new_decimal ''0'') (new_decimal ''5'') = new_decimal ''5''"
  "add_decimal (new_decimal ''0'') (new_decimal ''10'') = new_decimal ''10''"
  "add_decimal (new_decimal ''0'') (new_decimal ''2.5'') = new_decimal ''2.5''"
  by code_simp+

lemmas february_defs = bulk_convert_def needed_periods_def need_item_def load_rates_def load_step_def ranged_provider_def
  february_def spent_in_def bulk_step_eq summarize_def convert_step_eq rates_for_def convert_two_hops two_hops_def rate_of_def
  digits_lookup_def february_keys february_amounts

lemma february_bulk:
  "bulk_convert ranged_provider 0 2678400000000000 (february 5097600000000000)
     = Inr [''food'' \<mapsto> new_decimal ''5'', ''rent'' \<mapsto> new_decimal ''10'']"
  by (simp add: february_defs)

theorem bulk_convert_order_irrelevant_witness:
  "bulk_convert ranged_provider 0 2678400000000000 (rev (february 5097600000000000))
     = Inr [''food'' \<mapsto> new_decimal ''5'', ''rent'' \<mapsto> new_decimal ''10'']"
proof (rule iffD1[OF bulk_convert_order_irrelevant february_bulk])
  show "one_period_per_month 0 (february 5097600000000000)"
    by (auto simp: one_period_per_month_def cross_items_def february_def spent_in_def)
qed (auto simp: february_def)

text \<open>With two periods in one month the first one listed sets the rate, so the condition cannot be left out.\<close>

lemma order_shows_without_condition:
  "bulk_convert ranged_provider 0 2678400000000000 (february 5443200000000000)
     = Inr [''food'' \<mapsto> new_decimal ''5'', ''rent'' \<mapsto> new_decimal ''10''] \<and>
   bulk_convert ranged_provider 0 2678400000000000 (rev (february 5443200000000000))
     = Inr [''rent'' \<mapsto> new_decimal ''5'', ''food'' \<mapsto> new_decimal ''2.5'']"
  by (simp add: february_defs)

end
