(* ===== verification/Ledger_Requests.thy ===== *)
theory Ledger_Requests
  imports Classification_Requests Recurring_Model
begin

section \<open>Requests of the transaction and recurring modules\<close>

text \<open>
  \<open>internal/model/transaction_dto.go\<close> and \<open>internal/model/recurring_dto.go\<close>: the request records and their
  \<open>Validate\<close> methods. The create and the update body have the same fields. A \<open>vo.FlexString\<close> is its string.
\<close>

record transaction_request =
  tr_id :: string
  tr_type :: string
  tr_amount :: string
  tr_amount_recipient :: "string option"
  tr_account :: string
  tr_recipient :: "string option"
  tr_category :: "string option"
  tr_date :: string
  tr_description :: "string option"
  tr_payee :: "string option"
  tr_tag :: "string option"
  tr_labels :: "string list"

type_synonym update_transaction_request = transaction_request

definition validate_create_transaction :: "transaction_request \<Rightarrow> unit result" where
  "validate_create_transaction r =
     check_not_blank [(''id'', tr_id r), (''type'', tr_type r), (''amount'', tr_amount r),
       (''accountId'', tr_account r), (''date'', tr_date r)]"

definition validate_update_transaction :: "update_transaction_request \<Rightarrow> unit result" where
  "validate_update_transaction r =
     check_not_blank [(''id'', tr_id r), (''type'', tr_type r), (''amount'', tr_amount r),
       (''accountId'', tr_account r), (''date'', tr_date r)]"

record move_transaction_request =
  mv_id :: string
  mv_account :: string
  mv_from_date :: string
  mv_date :: string
  mv_above :: "string option"

definition validate_move_transaction :: "move_transaction_request \<Rightarrow> unit result" where
  "validate_move_transaction r =
     check_not_blank [(''id'', mv_id r), (''accountId'', mv_account r), (''fromDate'', mv_from_date r), (''date'', mv_date r)]"

definition validate_delete_transaction :: "string \<Rightarrow> unit result" where
  "validate_delete_transaction i = check_not_blank [(''id'', i)]"

record bulk_update_request =
  bu_ids :: "string list"
  bu_category :: "string option"
  bu_payee :: "string option"
  bu_tag :: "string option"
  bu_clear_category :: bool
  bu_clear_payee :: bool
  bu_clear_tag :: bool

definition validate_bulk_update :: "bulk_update_request \<Rightarrow> unit result" where
  "validate_bulk_update r =
     (let fields =
        (if bu_ids r = [] then [blank_field ''ids''] else []) @
        map (\<lambda>(key, _, _). \<lparr>fe_key = key,
               fe_message = ''This value should not be provided together with the matching clear flag.'',
               fe_code = ''common.invalid_choice''\<rparr>)
          (filter (\<lambda>(_, set', clear). set' \<noteq> None \<and> clear)
             [(''categoryId'', bu_category r, bu_clear_category r), (''payeeId'', bu_payee r, bu_clear_payee r),
              (''tagId'', bu_tag r, bu_clear_tag r)]) @
        (if bu_category r = None \<and> bu_payee r = None \<and> bu_tag r = None \<and>
            \<not> bu_clear_category r \<and> \<not> bu_clear_payee r \<and> \<not> bu_clear_tag r
         then [\<lparr>fe_key = ''categoryId'', fe_message = ''At least one classification change is required.'',
                fe_code = ''common.is_blank''\<rparr>] else [])
      in if fields = [] then Inr () else Inl (ValidationError ''Validation failed'' [] fields))"

subsection \<open>Recurring requests\<close>

record recurring_request =
  rr_id :: string
  rr_type :: string
  rr_amount :: string
  rr_account :: string
  rr_recipient :: "string option"
  rr_category :: "string option"
  rr_payee :: "string option"
  rr_tag :: "string option"
  rr_description :: "string option"
  rr_schedule :: string
  rr_next_payment :: string
  rr_source :: "string option"
  rr_labels :: "string list"

text \<open>The update body is the create body without the source transaction.\<close>

type_synonym update_recurring_request = recurring_request

record post_recurring_request =
  pr_recurring :: string
  pr_id :: string
  pr_type :: string
  pr_amount :: string
  pr_amount_recipient :: "string option"
  pr_account :: string
  pr_recipient :: "string option"
  pr_category :: "string option"
  pr_payee :: "string option"
  pr_tag :: "string option"
  pr_description :: "string option"
  pr_date :: string
  pr_labels :: "string list option"

definition validate_not_blank :: "(string \<times> string) list \<Rightarrow> field_error list \<Rightarrow> unit result" where
  "validate_not_blank checks extra =
     (let fields = map (blank_field \<circ> fst) (filter (\<lambda>(_, v). trim_space v = []) checks) @ extra
      in if fields = [] then Inr () else Inl (ValidationError ''Validation failed'' [] fields))"

definition invalid_choice_field :: "string \<Rightarrow> field_error" where
  "invalid_choice_field key =
     \<lparr>fe_key = key, fe_message = ''The value you selected is not a valid choice.'', fe_code = ''common.invalid_choice''\<rparr>"

definition invalid_datetime_field :: "string \<Rightarrow> field_error" where
  "invalid_datetime_field key =
     \<lparr>fe_key = key, fe_message = ''This value is not a valid datetime.'', fe_code = ''common.invalid_datetime''\<rparr>"

definition validate_recurring_fields ::
  "string \<Rightarrow> string \<Rightarrow> string \<Rightarrow> string \<Rightarrow> string \<Rightarrow> string \<Rightarrow> unit result" where
  "validate_recurring_fields i typ' amount account schedule next_payment =
     validate_not_blank [(''id'', i), (''type'', typ'), (''amount'', amount), (''accountId'', account),
         (''schedule'', schedule), (''nextPaymentAt'', next_payment)]
       ((if trim_space schedule \<noteq> [] \<and> parse_recurring_schedule schedule = None
         then [invalid_choice_field ''schedule''] else []) @
        (if trim_space next_payment \<noteq> [] \<and> parse_layout next_payment = None
         then [invalid_datetime_field ''nextPaymentAt''] else []))"

definition validate_create_recurring :: "recurring_request \<Rightarrow> unit result" where
  "validate_create_recurring r =
     validate_recurring_fields (rr_id r) (rr_type r) (rr_amount r) (rr_account r) (rr_schedule r) (rr_next_payment r)"

definition validate_update_recurring :: "update_recurring_request \<Rightarrow> unit result" where
  "validate_update_recurring r =
     validate_recurring_fields (rr_id r) (rr_type r) (rr_amount r) (rr_account r) (rr_schedule r) (rr_next_payment r)"

definition validate_delete_recurring :: "string \<Rightarrow> unit result" where
  "validate_delete_recurring i = validate_not_blank [(''id'', i)] []"

definition validate_skip_recurring :: "string \<Rightarrow> unit result" where
  "validate_skip_recurring i = validate_not_blank [(''id'', i)] []"

definition validate_post_recurring :: "post_recurring_request \<Rightarrow> unit result" where
  "validate_post_recurring r =
     validate_not_blank [(''recurringId'', pr_recurring r), (''id'', pr_id r), (''type'', pr_type r),
       (''amount'', pr_amount r), (''accountId'', pr_account r), (''date'', pr_date r)] []"

end
