(* ===== verification/Ledger_Repos.thy ===== *)
theory Ledger_Repos
  imports Classification_Repos Ledger_Requests Decimal "HOL-Library.AList"
begin

section \<open>Repositories of the ledger\<close>

text \<open>
  The placement of rows within a day (\<open>internal/infra/txorder\<close>), the transaction repository
  (\<open>internal/transaction/repo\<close>), the balance and correction queries of \<open>internal/account/repo\<close> and the
  repository of recurring templates (\<open>internal/recurring/repo\<close>), over the tables of \<open>Store\<close>.

  The label links of a row are part of the row; as in the code a loaded row carries none, \<open>Save\<close> leaves the stored ones
  and \<open>ReplaceLabels\<close> rewrites them. \<open>ReplaceLabels\<close> queues the row's accounts again when \<open>Save\<close> has just done so
  in the same transaction; the code skips that read, and the queue is a set. Sums are exact, as PostgreSQL's \<open>NUMERIC\<close>
  sums are; SQLite adds doubles and the rounding of that is not modelled.
\<close>

subsection \<open>Places within a day\<close>

definition day_bounds :: "instant \<Rightarrow> instant \<times> instant" where
  "day_bounds spent_at =
     (case t_date spent_at of (y, m, d) \<Rightarrow>
        let start = go_date y m d 0 0 0 0 in (start, add_date start 0 0 1))"

definition in_day :: "instant \<Rightarrow> instant \<Rightarrow> bool" where
  "in_day day at = (case day_bounds day of (from_, until_) \<Rightarrow> from_ \<le> at \<and> at < until_)"

text \<open>The keys an account's day holds, its own side and the recipient side of transfers, in the order of the query.\<close>

definition side_rows :: "ident \<Rightarrow> instant \<Rightarrow> transaction list \<Rightarrow> (ident \<times> key option) list" where
  "side_rows account day txs =
     map (\<lambda>t. (tx_id t, Some (tx_sort_key t)))
       (filter (\<lambda>t. tx_account t = account \<and> in_day day (tx_spent_at t)) txs) @
     map (\<lambda>t. (tx_id t, tx_recipient_sort_key t))
       (filter (\<lambda>t. tx_recipient t = Some account \<and> in_day day (tx_spent_at t)) txs)"

definition order_top :: "ident \<Rightarrow> instant \<Rightarrow> key act" where
  "order_top account spent_at =
     sbind (gets (\<lambda>s. foldr max (List.map_filter snd (side_rows account spent_at (st_transactions s))) [])) (\<lambda>top.
       lift (between top []))"

subsection \<open>Transaction rows\<close>

definition repo_get_transaction :: "ident \<Rightarrow> transaction act" where
  "repo_get_transaction i =
     sbind (gets (find_row tx_id i \<circ> st_transactions)) (\<lambda>r.
       lift (rbind (row_or_not_found ''Transaction not found'' r) (\<lambda>t. Inr (t\<lparr>tx_labels := []\<rparr>))))"

definition place_transaction :: "transaction \<Rightarrow> transaction act" where
  "place_transaction t =
     sbind (if tx_sort_key t = []
            then sbind (order_top (tx_account t) (tx_spent_at t)) (\<lambda>top. ret (t\<lparr>tx_sort_key := top\<rparr>))
            else ret t) (\<lambda>t.
     (case tx_recipient t of
        None \<Rightarrow> ret (t\<lparr>tx_recipient_sort_key := None\<rparr>)
      | Some recipient \<Rightarrow>
          if \<not> is_transfer (tx_type t) then ret (t\<lparr>tx_recipient_sort_key := None\<rparr>)
          else if tx_recipient_sort_key t = None
          then sbind (order_top recipient (tx_spent_at t)) (\<lambda>top. ret (t\<lparr>tx_recipient_sort_key := Some top\<rparr>))
          else ret t))"

text \<open>The upsert leaves a stored row's owner, creation time, recurring origin and label links.\<close>

definition stored_over :: "transaction \<Rightarrow> transaction \<Rightarrow> transaction" where
  "stored_over t x =
     t\<lparr>tx_user := tx_user x, tx_created := tx_created x, tx_recurring := tx_recurring x, tx_labels := tx_labels x\<rparr>"

definition put_transaction :: "transaction \<Rightarrow> transaction list \<Rightarrow> transaction list" where
  "put_transaction t txs =
     (if tx_id t \<in> tx_id ` set txs then map (\<lambda>x. if tx_id x = tx_id t then stored_over t x else x) txs
      else txs @ [t\<lparr>tx_labels := []\<rparr>])"

definition upsert_transaction :: "transaction \<Rightarrow> unit act" where
  "upsert_transaction t = update_store (\<lambda>s. s\<lparr>st_transactions := put_transaction t (st_transactions s)\<rparr>)"

definition recipient_or_empty :: "transaction \<Rightarrow> ident" where
  "recipient_or_empty t = (case tx_recipient t of None \<Rightarrow> [] | Some r \<Rightarrow> r)"

definition repo_write_transaction :: "transaction \<Rightarrow> transaction act" where
  "repo_write_transaction t =
     sbind (place_transaction t) (\<lambda>t.
     sbind (upsert_transaction t) (\<lambda>_.
     sbind (bump [tx_account t, recipient_or_empty t]) (\<lambda>_. ret t)))"

definition repo_save_transaction :: "transaction \<Rightarrow> transaction act" where
  "repo_save_transaction t =
     sbind (bump_where (\<lambda>x. tx_id x = tx_id t)) (\<lambda>_. repo_write_transaction t)"

definition insert_label :: "ident list \<Rightarrow> ident \<Rightarrow> ident list" where
  "insert_label ls l = (if l \<in> set ls then ls else ls @ [l])"

definition map_transaction :: "ident \<Rightarrow> (transaction \<Rightarrow> transaction) \<Rightarrow> unit act" where
  "map_transaction i f = update_store (\<lambda>s. s\<lparr>st_transactions :=
     map (\<lambda>x. if tx_id x = i then f x else x) (st_transactions s)\<rparr>)"

definition repo_replace_labels :: "ident \<Rightarrow> ident list \<Rightarrow> unit act" where
  "repo_replace_labels i labels =
     sbind (bump_where (\<lambda>x. tx_id x = i)) (\<lambda>_.
     map_transaction i (\<lambda>x. x\<lparr>tx_labels := foldl insert_label [] labels\<rparr>))"

definition labels_by_transaction :: "ident \<Rightarrow> ident list act" where
  "labels_by_transaction i =
     gets (\<lambda>s. case find_row tx_id i (st_transactions s) of None \<Rightarrow> [] | Some t \<Rightarrow> sort (tx_labels t))"

definition repo_link_recurring :: "ident \<Rightarrow> ident \<Rightarrow> instant \<Rightarrow> unit act" where
  "repo_link_recurring i recurring now =
     sbind (bump_where (\<lambda>x. tx_id x = i)) (\<lambda>_.
     map_transaction i (\<lambda>x. x\<lparr>tx_recurring := Some recurring, tx_updated := now\<rparr>))"

definition repo_delete_transaction :: "ident \<Rightarrow> unit act" where
  "repo_delete_transaction i =
     sbind (bump_where (\<lambda>x. tx_id x = i)) (\<lambda>_.
     update_store (\<lambda>s. s\<lparr>st_transactions := delete_row tx_id i (st_transactions s)\<rparr>))"

text \<open>A Go map of a day's keys: a later row of the same id replaces the earlier one.\<close>

definition day_keys :: "ident \<Rightarrow> instant \<Rightarrow> (ident \<times> key) list act" where
  "day_keys account day =
     gets (\<lambda>s. fold (\<lambda>(i, k). AList.update i (case k of None \<Rightarrow> [] | Some k' \<Rightarrow> k'))
                 (side_rows account day (st_transactions s)) [])"

definition set_side_key :: "ident \<Rightarrow> ident \<Rightarrow> key \<Rightarrow> unit act" where
  "set_side_key account i k =
     sbind (bump_where (\<lambda>x. tx_id x = i)) (\<lambda>_.
     map_transaction i (\<lambda>x. x\<lparr>
       tx_sort_key := (if tx_account x = account then k else tx_sort_key x),
       tx_recipient_sort_key := (if tx_account x \<noteq> account \<and> tx_recipient x = Some account then Some k
                                 else tx_recipient_sort_key x)\<rparr>))"

subsection \<open>Lists\<close>

definition sort_desc :: "('a \<Rightarrow> 'b::linorder) \<Rightarrow> 'a list \<Rightarrow> 'a list" where
  "sort_desc f xs = rev (List.sort_key f (rev xs))"

definition side_key :: "ident \<Rightarrow> transaction \<Rightarrow> key" where
  "side_key account t =
     (if tx_account t = account then tx_sort_key t
      else (case tx_recipient_sort_key t of None \<Rightarrow> [] | Some k \<Rightarrow> k))"

definition on_account :: "ident \<Rightarrow> transaction \<Rightarrow> bool" where
  "on_account account t \<longleftrightarrow> tx_account t = account \<or> tx_recipient t = Some account"

definition list_by_account :: "ident \<Rightarrow> transaction list act" where
  "list_by_account account =
     gets (\<lambda>s. sort_desc (\<lambda>t. t_days (tx_spent_at t))
                 (sort_desc (side_key account)
                    (List.sort_key tx_id (filter (on_account account) (st_transactions s)))))"

subsection \<open>Balances and corrections\<close>

definition amount_value :: "string \<Rightarrow> int" where
  "amount_value a = scaled (new_decimal a)"

definition repo_balance :: "ident \<Rightarrow> instant \<Rightarrow> string act" where
  "repo_balance account before =
     gets (\<lambda>s.
       let txs = filter (\<lambda>t. tx_spent_at t < before) (st_transactions s);
           own = (\<lambda>ty. sum_list (map (\<lambda>t. amount_value (tx_amount t))
                         (filter (\<lambda>t. tx_account t = account \<and> tx_type t = ty) txs)));
           transfer_incomes = sum_list (map amount_value (List.map_filter tx_amount_recipient
                         (filter (\<lambda>t. tx_recipient t = Some account \<and> tx_type t = 2) txs)))
       in to_string (from_scaled (own 1 + transfer_incomes - own 0 - own 2)))"

record account_correction =
  co_id :: ident
  co_user :: ident
  co_account :: ident
  co_description :: string
  co_type :: int
  co_amount :: string
  co_spent_at :: instant
  co_created :: instant

definition correction_row :: "account_correction \<Rightarrow> key \<Rightarrow> transaction" where
  "correction_row c k =
    \<lparr>tx_id = co_id c, tx_user = co_user c, tx_type = co_type c, tx_account = co_account c, tx_recipient = None,
     tx_amount = co_amount c, tx_amount_recipient = None, tx_category = None, tx_payee = None, tx_tag = None,
     tx_labels = [], tx_description = co_description c, tx_spent_at = co_spent_at c, tx_created = co_created c,
     tx_updated = co_created c, tx_recurring = None, tx_sort_key = k, tx_recipient_sort_key = None\<rparr>"

text \<open>A plain insert: an id that exists violates the primary key.\<close>

definition insert_transaction :: "transaction \<Rightarrow> unit act" where
  "insert_transaction t =
     sbind (gets st_transactions) (\<lambda>txs.
       if tx_id t \<in> tx_id ` set txs then fail (OtherError ''duplicate key'')
       else update_store (\<lambda>s. s\<lparr>st_transactions := st_transactions s @ [t]\<rparr>))"

definition save_correction :: "account_correction \<Rightarrow> unit act" where
  "save_correction c =
     sbind (order_top (co_account c) (co_spent_at c)) (\<lambda>k.
     sbind (insert_transaction (correction_row c k)) (\<lambda>_.
     bump [co_account c]))"

subsection \<open>Accounts\<close>

definition repo_get_account :: "ident \<Rightarrow> account act" where
  "repo_get_account i =
     sbind (gets (find_row acc_id i \<circ> st_accounts)) (\<lambda>r. lift (row_or_not_found ''Account not found'' r))"

definition repo_list_deleted_accounts :: "account list act" where
  "repo_list_deleted_accounts = gets (\<lambda>s. List.sort_key acc_id (filter acc_deleted (st_accounts s)))"

definition account_currency :: "ident \<Rightarrow> ident act" where
  "account_currency i = sbind (repo_get_account i) (\<lambda>a. ret (acc_currency a))"

definition account_is_deleted :: "ident \<Rightarrow> bool act" where
  "account_is_deleted i = sbind (repo_get_account i) (\<lambda>a. ret (acc_deleted a))"

subsection \<open>Recurring templates\<close>

definition repo_get_recurring :: "ident \<Rightarrow> recurring act" where
  "repo_get_recurring i =
     sbind (gets (find_row rt_id i \<circ> st_recurring)) (\<lambda>r.
       lift (rbind (row_or_not_found ''Recurring transaction not found'' r) (\<lambda>t. Inr (recurring_from_state (t\<lparr>rt_labels := []\<rparr>)))))"

definition template_over :: "recurring \<Rightarrow> recurring \<Rightarrow> recurring" where
  "template_over t x = t\<lparr>rt_user := rt_user x, rt_created := rt_created x, rt_labels := rt_labels x\<rparr>"

definition repo_save_recurring :: "recurring \<Rightarrow> unit act" where
  "repo_save_recurring t = update_store (\<lambda>s. s\<lparr>st_recurring :=
     (if rt_id t \<in> rt_id ` set (st_recurring s)
      then map (\<lambda>x. if rt_id x = rt_id t then template_over t x else x) (st_recurring s)
      else st_recurring s @ [t\<lparr>rt_labels := []\<rparr>])\<rparr>)"

text \<open>The schema clears the origin of the transactions posted from a deleted template.\<close>

definition repo_delete_recurring :: "ident \<Rightarrow> unit act" where
  "repo_delete_recurring i =
     sbind (bump_where (\<lambda>x. tx_recurring x = Some i)) (\<lambda>_.
     update_store (\<lambda>s. s\<lparr>st_recurring := delete_row rt_id i (st_recurring s),
       st_transactions := map (\<lambda>t. t\<lparr>tx_recurring := set_none i (tx_recurring t)\<rparr>) (st_transactions s)\<rparr>))"

definition repo_replace_recurring_labels :: "ident \<Rightarrow> ident list \<Rightarrow> unit act" where
  "repo_replace_recurring_labels i labels = update_store (\<lambda>s. s\<lparr>st_recurring :=
     map (\<lambda>x. if rt_id x = i then x\<lparr>rt_labels := foldl insert_label [] labels\<rparr> else x) (st_recurring s)\<rparr>)"

definition labels_by_recurring :: "ident \<Rightarrow> ident list act" where
  "labels_by_recurring i =
     gets (\<lambda>s. case find_row rt_id i (st_recurring s) of None \<Rightarrow> [] | Some t \<Rightarrow> sort (rt_labels t))"

end
