(* ===== verification/Ledger_Service.thy ===== *)
theory Ledger_Service
  imports Ledger_Repos
begin

section \<open>The transaction service\<close>

text \<open>
  \<open>internal/transaction\<close>: creating, updating, deleting, re-classifying in bulk, moving within a day or to another day
  and linking transactions, and the zeroing of deleted accounts in \<open>internal/account/zero.go\<close> that the service drives
  after a write (\<open>internal/server/glue_transaction_zeroer.go\<close>). The result of a use case is the row it wrote; the
  wire form with its author and account list is not modelled. A call's environment holds the readings of the clock and
  the ids \<open>vo.NewId\<close> gives, one per account for the corrections.
\<close>

record call_env =
  ce_claim_now :: instant
  ce_now :: instant
  ce_zero_now :: "ident \<Rightarrow> instant"
  ce_new_id :: ident
  ce_correction_id :: "ident \<Rightarrow> ident"

subsection \<open>Zeroing deleted accounts\<close>

definition correctionDeletedTx :: string where
  "correctionDeletedTx = ''Balance adjustment (deleted transaction)''"

definition correctionEditedTx :: string where
  "correctionEditedTx = ''Balance adjustment (edited transaction)''"

definition correctionAccountDeleted :: string where
  "correctionAccountDeleted = ''Balance adjustment (account deleted)''"

definition all_time_balance_bound :: instant where
  "all_time_balance_bound = go_date 9999 12 31 0 0 0 0"

definition balance_scale :: int where
  "balance_scale = 8"

definition zero_balance :: "ident \<Rightarrow> instant \<Rightarrow> account \<Rightarrow> instant \<Rightarrow> string \<Rightarrow> bool act" where
  "zero_balance correction_id now acct spent_at description =
     sbind (repo_balance (acc_id acct) all_time_balance_bound) (\<lambda>raw.
       let balance = round_decimal (new_decimal raw) balance_scale in
       if is_zero balance then ret False
       else
         let corr = \<lparr>co_id = correction_id, co_user = acc_user acct, co_account = acc_id acct,
                     co_description = description, co_type = (if is_negative balance then 1 else 0),
                     co_amount = to_string (abs_decimal balance), co_spent_at = spent_at, co_created = now\<rparr>
         in sbind (save_correction corr) (\<lambda>_. ret True))"

definition zero_if_deleted :: "ident \<Rightarrow> instant \<Rightarrow> ident \<Rightarrow> instant \<Rightarrow> string \<Rightarrow> bool act" where
  "zero_if_deleted correction_id now account spent_at description =
     sbind (repo_get_account account) (\<lambda>acct.
       if \<not> acc_deleted acct then ret False
       else zero_balance correction_id now acct spent_at description)"

definition zero_deleted :: "call_env \<Rightarrow> ident \<Rightarrow> instant \<Rightarrow> string \<Rightarrow> unit act" where
  "zero_deleted env account spent_at description =
     sbind (zero_if_deleted (ce_correction_id env account) (ce_zero_now env account) account spent_at description)
       (\<lambda>_. ret ())"

text \<open>One transaction per account; the loop stops at the first error with the accounts done so far.\<close>

fun zero_accounts :: "call_env \<Rightarrow> account list \<Rightarrow> nat \<Rightarrow> nat act" where
  "zero_accounts env [] written = ret written"
| "zero_accounts env (acct # accts) written =
     sbind (with_tx (zero_balance (ce_correction_id env (acc_id acct)) (ce_zero_now env (acc_id acct)) acct
                       (acc_updated acct) correctionAccountDeleted)) (\<lambda>wrote.
     zero_accounts env accts (if wrote then Suc written else written))"

definition zero_deleted_accounts :: "call_env \<Rightarrow> nat act" where
  "zero_deleted_accounts env = sbind repo_list_deleted_accounts (\<lambda>accts. zero_accounts env accts 0)"

subsection \<open>Parties\<close>

record party =
  party_id :: ident
  party_field :: string

definition state_parties :: "new_state \<Rightarrow> party list" where
  "state_parties st =
     \<lparr>party_id = tx_account st, party_field = ''accountId''\<rparr> #
     (case tx_recipient st of None \<Rightarrow> [] | Some r \<Rightarrow> [\<lparr>party_id = r, party_field = ''accountRecipientId''\<rparr>])"

definition party_set :: "transaction \<Rightarrow> ident list" where
  "party_set t = tx_account t # (case tx_recipient t of None \<Rightarrow> [] | Some r \<Rightarrow> [r])"

definition union_ids :: "ident list \<Rightarrow> ident list \<Rightarrow> ident list" where
  "union_ids a b = foldl insert_label [] (a @ b)"

subsection \<open>Checks\<close>

definition account_not_available :: go_error where
  "account_not_available = ValidationError ''account.account.not_available'' ''transaction.account_not_available'' []"

definition item_not_available :: go_error where
  "item_not_available = ValidationError ''transaction.transaction.not_available'' ''transaction.item_not_available'' []"

definition with_error :: "go_error \<Rightarrow> 'a act \<Rightarrow> 'a act" where
  "with_error e m s = (case m s of (Inl _, s') \<Rightarrow> (Inl e, s') | (Inr x, s') \<Rightarrow> (Inr x, s'))"

definition check_write_access :: "ident \<Rightarrow> ident \<Rightarrow> go_error \<Rightarrow> unit act" where
  "check_write_access user account not_available =
     sbind (with_error not_available (account_owner account)) (\<lambda>owner.
       if owner = user then ret ()
       else sbind (has_write_grant account user) (\<lambda>ok. if ok then ret () else fail not_available))"

definition reject_deleted_account :: "party \<Rightarrow> unit act" where
  "reject_deleted_account p =
     sbind (account_is_deleted (party_id p)) (\<lambda>deleted.
       if \<not> deleted then ret ()
       else fail (field_validation (party_field p) ''This account has been deleted'' ''transaction.account_deleted''))"

definition reject_deleted_parties :: "new_state \<Rightarrow> unit act" where
  "reject_deleted_parties st = for_each (state_parties st) reject_deleted_account"

definition max_transaction_labels :: nat where
  "max_transaction_labels = 50"

definition too_many_labels :: go_error where
  "too_many_labels = ValidationError ''A transaction can have at most 50 labels.'' ''transaction.too_many_labels'' []"

definition label_owners :: "(ident \<Rightarrow> ident option) act" where
  "label_owners = gets (\<lambda>s i. map_option label_user (find_row label_id i (st_labels s)))"

definition parse_label_ids :: "platform \<Rightarrow> string list \<Rightarrow> ident list result" where
  "parse_label_ids pf raws =
     rfold (\<lambda>ids raw. rbind (parse_id (pf_uuid pf) raw) (\<lambda>i. Inr (insert_label ids i))) [] raws"

definition resolve_labels :: "platform \<Rightarrow> ident \<Rightarrow> string list \<Rightarrow> ident list act" where
  "resolve_labels pf owner raws =
     (if raws = [] then ret []
      else sbind (lift (parse_label_ids pf raws)) (\<lambda>ids.
        if max_transaction_labels < length ids then fail too_many_labels
        else sbind label_owners (\<lambda>owners.
          if \<exists>i\<in>set ids. owners i \<noteq> Some owner then fail item_not_available
          else ret (sort ids))))"

definition find_entity :: "('r \<Rightarrow> ident) \<Rightarrow> (ident \<Rightarrow> 'r list act) \<Rightarrow> ident \<Rightarrow> ident \<Rightarrow> 'r option act" where
  "find_entity rid list' owner i = sbind (list' owner) (\<lambda>items. ret (find (\<lambda>r. rid r = i) items))"

definition require_available_entity ::
  "('r \<Rightarrow> ident) \<Rightarrow> (ident \<Rightarrow> 'r list act) \<Rightarrow> ident \<Rightarrow> ident \<Rightarrow> unit act" where
  "require_available_entity rid list' owner i =
     sbind (find_entity rid list' owner i) (\<lambda>r. if r \<noteq> None then ret () else fail item_not_available)"

definition category_income :: "category \<Rightarrow> bool" where
  "category_income c \<longleftrightarrow> category_type c = TypeIncome"

definition category_mismatch :: go_error where
  "category_mismatch = field_validation ''categoryId'' ''The category type must match the transaction type.''
     ''transaction.category_type_mismatch''"

definition kept_category :: "transaction option \<Rightarrow> new_state \<Rightarrow> ident \<Rightarrow> bool" where
  "kept_category prev st c \<longleftrightarrow>
     (case prev of None \<Rightarrow> False | Some p \<Rightarrow> tx_category p = Some c \<and> tx_type p = tx_type st)"

definition check_category :: "ident \<Rightarrow> new_state \<Rightarrow> transaction option \<Rightarrow> ident \<Rightarrow> unit act" where
  "check_category owner st prev c =
     sbind (find_entity category_id repo_list_categories owner c) (\<lambda>cat.
       case cat of
         None \<Rightarrow> fail item_not_available
       | Some cat' \<Rightarrow>
           if \<not> kept_category prev st c \<and> category_income cat' \<noteq> is_income (tx_type st) then fail category_mismatch
           else ret ())"

definition when_some :: "'a option \<Rightarrow> ('a \<Rightarrow> unit act) \<Rightarrow> unit act" where
  "when_some x f = (case x of None \<Rightarrow> ret () | Some y \<Rightarrow> f y)"

definition check_references ::
  "platform \<Rightarrow> ident \<Rightarrow> new_state \<Rightarrow> string list \<Rightarrow> transaction option \<Rightarrow> new_state act" where
  "check_references pf user st raws prev =
     sbind (when_some (tx_recipient st) (\<lambda>r. check_write_access user r account_not_available)) (\<lambda>_.
     sbind (with_error account_not_available (account_owner (tx_account st))) (\<lambda>owner.
     sbind (when_some (tx_category st) (check_category owner st prev)) (\<lambda>_.
     sbind (when_some (tx_payee st) (require_available_entity payee_id repo_list_payees owner)) (\<lambda>_.
     sbind (when_some (tx_tag st) (require_available_entity tag_id repo_list_tags owner)) (\<lambda>_.
     if \<not> is_transfer (tx_type st)
     then sbind (resolve_labels pf owner raws) (\<lambda>ids. ret (st\<lparr>tx_labels := ids\<rparr>))
     else ret st)))))"

subsection \<open>Building a state\<close>

definition parse_type :: "string \<Rightarrow> transaction_type result" where
  "parse_type alias =
     (if alias = ''expense'' then Inr TransactionTypeExpense
      else if alias = ''income'' then Inr TransactionTypeIncome
      else if alias = ''transfer'' then Inr TransactionTypeTransfer
      else Inl (field_validation ''type'' ''The value you selected is not a valid choice.'' ''common.invalid_choice''))"

definition parse_spent_at :: "string \<Rightarrow> instant result" where
  "parse_spent_at v =
     (case parse_layout v of
        Some t \<Rightarrow> Inr t
      | None \<Rightarrow> Inl (field_validation ''date'' ''Invalid date format, expected Y-m-d H:i:s'' ''common.invalid_datetime_format''))"

definition parse_opt_id :: "platform \<Rightarrow> string option \<Rightarrow> ident option result" where
  "parse_opt_id pf q =
     (case q of
        None \<Rightarrow> Inr None
      | Some s \<Rightarrow> if s = [] then Inr None else rbind (parse_id (pf_uuid pf) s) (\<lambda>i. Inr (Some i)))"

definition blank_value :: "string \<Rightarrow> go_error" where
  "blank_value key = ValidationError ''Validation failed'' [] [blank_field key]"

definition or_empty :: "string option \<Rightarrow> string" where
  "or_empty x = (case x of None \<Rightarrow> [] | Some v \<Rightarrow> v)"

definition build_state ::
  "platform \<Rightarrow> ident \<Rightarrow> ident \<Rightarrow> transaction_type \<Rightarrow> ident \<Rightarrow> transaction_request \<Rightarrow> instant \<Rightarrow> instant \<Rightarrow> new_state result" where
  "build_state pf i user typ' account req spent_at now =
     (let st = \<lparr>tx_id = i, tx_user = user, tx_type = typ', tx_account = account, tx_recipient = None,
                tx_amount = to_string (new_decimal (tr_amount req)), tx_amount_recipient = None, tx_category = None,
                tx_payee = None, tx_tag = None, tx_labels = [], tx_description = or_empty (tr_description req),
                tx_spent_at = spent_at, tx_created = now, tx_updated = now, tx_recurring = None,
                tx_sort_key = [], tx_recipient_sort_key = None\<rparr>
      in if is_transfer typ'
         then if or_empty (tr_recipient req) = [] then Inl (blank_value ''accountRecipientId'')
              else rbind (parse_id (pf_uuid pf) (or_empty (tr_recipient req))) (\<lambda>rid.
                Inr (st\<lparr>tx_recipient := Some rid,
                        tx_amount_recipient :=
                          (if or_empty (tr_amount_recipient req) = [] then None
                           else Some (to_string (new_decimal (or_empty (tr_amount_recipient req)))))\<rparr>))
         else
           rbind (parse_opt_id pf (tr_category req)) (\<lambda>c.
           rbind (parse_opt_id pf (tr_payee req)) (\<lambda>p.
           rbind (parse_opt_id pf (tr_tag req)) (\<lambda>g.
           Inr (st\<lparr>tx_category := c, tx_payee := p, tx_tag := g\<rparr>)))))"

definition normalize_transfer_amounts :: "new_state \<Rightarrow> new_state act" where
  "normalize_transfer_amounts st =
     (case tx_recipient st of
        None \<Rightarrow> ret st
      | Some recipient \<Rightarrow>
          if \<not> is_transfer (tx_type st) then ret st
          else
            sbind (account_currency (tx_account st)) (\<lambda>src.
            sbind (with_error account_not_available (account_currency recipient)) (\<lambda>dst.
            if src = dst then ret (st\<lparr>tx_amount_recipient := Some (tx_amount st)\<rparr>)
            else if tx_amount_recipient st = None then fail (blank_value ''amountRecipient'')
            else ret st)))"

subsection \<open>Create\<close>

definition create_body ::
  "platform \<Rightarrow> call_env \<Rightarrow> ident \<Rightarrow> ident \<Rightarrow> transaction_type \<Rightarrow> ident \<Rightarrow> instant \<Rightarrow> transaction_request \<Rightarrow> ident option \<Rightarrow>
   transaction act" where
  "create_body pf env user op typ' account spent_at req recurring =
     sbind (check_write_access user account account_not_available) (\<lambda>_.
     sbind (claim op (ce_claim_now env)) (\<lambda>already.
     if already then fail operation_locked
     else
       sbind (lift (build_state pf (ce_new_id env) user typ' account req spent_at (ce_now env))) (\<lambda>st.
       sbind (normalize_transfer_amounts (st\<lparr>tx_recurring := recurring\<rparr>)) (\<lambda>st.
       sbind (check_references pf user st (tr_labels req) None) (\<lambda>st.
       sbind (reject_deleted_parties st) (\<lambda>_.
       sbind (repo_save_transaction (new_transaction st)) (\<lambda>t.
       sbind (repo_replace_labels (tx_id t) (tx_labels t)) (\<lambda>_.
       sbind (mark_handled op (ce_now env)) (\<lambda>_. ret t)))))))))"

text \<open>\<open>run\<close> is \<open>WithTx\<close>: \<open>with_tx\<close> outermost, a savepoint inside another transaction.\<close>

definition create_transaction_in ::
  "(transaction act \<Rightarrow> transaction act) \<Rightarrow> platform \<Rightarrow> call_env \<Rightarrow> ident \<Rightarrow> transaction_request \<Rightarrow> ident option \<Rightarrow> transaction act" where
  "create_transaction_in run pf env user req recurring =
     sbind (lift (parse_id (pf_uuid pf) (tr_id req))) (\<lambda>op.
     sbind (lift (parse_type (tr_type req))) (\<lambda>typ'.
     sbind (lift (parse_id (pf_uuid pf) (tr_account req))) (\<lambda>account.
     sbind (lift (parse_spent_at (tr_date req))) (\<lambda>spent_at.
     run (create_body pf env user op typ' account spent_at req recurring)))))"

definition create_transaction :: "platform \<Rightarrow> call_env \<Rightarrow> ident \<Rightarrow> transaction_request \<Rightarrow> transaction act" where
  "create_transaction pf env user req = create_transaction_in with_tx pf env user req None"

definition nested :: "'a act \<Rightarrow> 'a act" where
  "nested body s = (case body s of (Inl e, s') \<Rightarrow> (Inl e, s\<lparr>st_pending := st_pending s'\<rparr>) | r \<Rightarrow> r)"

definition create_transaction_from_recurring ::
  "platform \<Rightarrow> call_env \<Rightarrow> ident \<Rightarrow> transaction_request \<Rightarrow> ident \<Rightarrow> transaction act" where
  "create_transaction_from_recurring pf env user req recurring =
     create_transaction_in nested pf env user req (Some recurring)"

subsection \<open>Update\<close>

definition reject_introduced :: "ident list \<Rightarrow> new_state \<Rightarrow> unit act" where
  "reject_introduced old_parties st =
     for_each (state_parties st) (\<lambda>p.
       if party_id p \<in> set old_parties then ret () else reject_deleted_account p)"

definition zero_parties :: "call_env \<Rightarrow> ident list \<Rightarrow> instant \<Rightarrow> ident list \<Rightarrow> instant \<Rightarrow> unit act" where
  "zero_parties env old_parties old_spent_at new_parties new_spent_at =
     for_each (union_ids old_parties new_parties) (\<lambda>i.
       zero_deleted env i (if i \<in> set new_parties then new_spent_at else old_spent_at) correctionEditedTx)"

definition update_body ::
  "platform \<Rightarrow> call_env \<Rightarrow> ident \<Rightarrow> bool \<Rightarrow> ident \<Rightarrow> transaction_type \<Rightarrow> ident \<Rightarrow> instant \<Rightarrow> update_transaction_request \<Rightarrow>
   transaction act" where
  "update_body pf env user preserve i typ' account spent_at req =
     sbind (check_write_access user account account_not_available) (\<lambda>_.
     sbind (repo_get_transaction i) (\<lambda>t.
     sbind (check_write_access user (tx_account t) item_not_available) (\<lambda>_.
     sbind (if preserve then labels_by_transaction i else ret (tr_labels req)) (\<lambda>raws.
     sbind (lift (build_state pf i user typ' account req spent_at (ce_now env))) (\<lambda>st.
     sbind (normalize_transfer_amounts st) (\<lambda>st.
     sbind (check_references pf user st raws (Some t)) (\<lambda>st.
     sbind (reject_introduced (party_set t) st) (\<lambda>_.
     sbind (repo_save_transaction (update_transaction st (ce_now env) t)) (\<lambda>t'.
     sbind (repo_replace_labels (tx_id t') (tx_labels t')) (\<lambda>_.
     sbind (zero_parties env (party_set t) (tx_spent_at t) (party_set t') (tx_spent_at t')) (\<lambda>_.
     ret t')))))))))))"

definition update_transaction_call ::
  "platform \<Rightarrow> call_env \<Rightarrow> ident \<Rightarrow> update_transaction_request \<Rightarrow> bool \<Rightarrow> transaction act" where
  "update_transaction_call pf env user req preserve =
     sbind (lift (parse_id (pf_uuid pf) (tr_id req))) (\<lambda>i.
     sbind (lift (parse_type (tr_type req))) (\<lambda>typ'.
     sbind (lift (parse_id (pf_uuid pf) (tr_account req))) (\<lambda>account.
     sbind (lift (parse_spent_at (tr_date req))) (\<lambda>spent_at.
     with_tx (update_body pf env user preserve i typ' account spent_at req)))))"

subsection \<open>Delete\<close>

definition delete_body :: "call_env \<Rightarrow> ident \<Rightarrow> ident \<Rightarrow> transaction act" where
  "delete_body env user i =
     sbind (repo_get_transaction i) (\<lambda>t.
     sbind (check_write_access user (tx_account t) item_not_available) (\<lambda>_.
     sbind (labels_by_transaction i) (\<lambda>_.
     sbind (repo_delete_transaction i) (\<lambda>_.
     sbind (for_each (party_set t) (\<lambda>a. zero_deleted env a (tx_spent_at t) correctionDeletedTx)) (\<lambda>_.
     ret t)))))"

definition delete_transaction :: "platform \<Rightarrow> call_env \<Rightarrow> ident \<Rightarrow> string \<Rightarrow> transaction act" where
  "delete_transaction pf env user q =
     sbind (lift (parse_id (pf_uuid pf) q)) (\<lambda>i. with_tx (delete_body env user i))"

subsection \<open>Bulk re-classification\<close>

definition max_bulk_update_ids :: nat where
  "max_bulk_update_ids = 100"

definition parse_some_id :: "platform \<Rightarrow> string option \<Rightarrow> ident option result" where
  "parse_some_id pf q =
     (case q of None \<Rightarrow> Inr None | Some s \<Rightarrow> rbind (parse_id (pf_uuid pf) s) (\<lambda>i. Inr (Some i)))"

definition parse_ids :: "platform \<Rightarrow> string list \<Rightarrow> ident list result" where
  "parse_ids pf raws = rfold (\<lambda>ids raw. rbind (parse_id (pf_uuid pf) raw) (\<lambda>i. Inr (ids @ [i]))) [] raws"

definition reclassified :: "bool \<Rightarrow> ident option \<Rightarrow> ident option \<Rightarrow> ident option" where
  "reclassified clear new old = (if clear then None else case new of Some _ \<Rightarrow> new | None \<Rightarrow> old)"

record classification_change =
  cc_category :: "ident option"
  cc_payee :: "ident option"
  cc_tag :: "ident option"

definition bulk_state :: "bulk_update_request \<Rightarrow> classification_change \<Rightarrow> instant \<Rightarrow> transaction \<Rightarrow> new_state" where
  "bulk_state req new now t =
     t\<lparr>tx_recipient := None, tx_amount_recipient := None, tx_labels := [], tx_recurring := None, tx_sort_key := [],
       tx_recipient_sort_key := None, tx_updated := now,
       tx_category := reclassified (bu_clear_category req) (cc_category new) (tx_category t),
       tx_payee := reclassified (bu_clear_payee req) (cc_payee new) (tx_payee t),
       tx_tag := reclassified (bu_clear_tag req) (cc_tag new) (tx_tag t)\<rparr>"

definition bulk_one ::
  "platform \<Rightarrow> instant \<Rightarrow> ident \<Rightarrow> bulk_update_request \<Rightarrow> classification_change \<Rightarrow> ident \<Rightarrow> unit act" where
  "bulk_one pf now user req new i =
     sbind (repo_get_transaction i) (\<lambda>t.
     sbind (check_write_access user (tx_account t) item_not_available) (\<lambda>_.
     if is_transfer (tx_type t)
     then if cc_category new \<noteq> None \<or> cc_payee new \<noteq> None \<or> cc_tag new \<noteq> None \<or>
             bu_clear_category req \<or> bu_clear_payee req \<or> bu_clear_tag req
          then fail (ValidationError (''transaction '' @ i @ '' is a transfer and cannot carry a category, payee, or tag'') [] [])
          else ret ()
     else
       sbind (check_references pf user (bulk_state req new now t) [] (Some t)) (\<lambda>st.
       sbind (repo_save_transaction (update_transaction st now t)) (\<lambda>_. ret ()))))"

definition bulk_update_transactions :: "platform \<Rightarrow> call_env \<Rightarrow> ident \<Rightarrow> bulk_update_request \<Rightarrow> nat act" where
  "bulk_update_transactions pf env user req =
     sbind (lift (validate_bulk_update req)) (\<lambda>_.
     if max_bulk_update_ids < length (bu_ids req)
     then fail (ValidationError ''at most 100 transactions per bulk update; batch the rest'' [] [])
     else
       sbind (lift (parse_ids pf (bu_ids req))) (\<lambda>ids.
       sbind (lift (parse_some_id pf (bu_category req))) (\<lambda>c.
       sbind (lift (parse_some_id pf (bu_payee req))) (\<lambda>p.
       sbind (lift (parse_some_id pf (bu_tag req))) (\<lambda>g.
       sbind (with_tx (for_each ids (bulk_one pf (ce_now env) user req \<lparr>cc_category = c, cc_payee = p, cc_tag = g\<rparr>))) (\<lambda>_.
       ret (length ids)))))))"

subsection \<open>Moving within an account's list\<close>

record placed_row =
  pl_id :: ident
  pl_key :: key

definition day_order :: "(ident \<times> key) list \<Rightarrow> placed_row list" where
  "day_order keys = sort_desc pl_key (List.sort_key pl_id (map (\<lambda>(i, k). \<lparr>pl_id = i, pl_key = k\<rparr>) keys))"

text \<open>The rows of a tied run below its top, bottom first, with the key below the next of them.\<close>

fun split_run :: "ident \<Rightarrow> key \<Rightarrow> key \<Rightarrow> placed_row list \<Rightarrow> placed_row list act" where
  "split_run account high prev [] = ret []"
| "split_run account high prev (r # rs) =
     sbind (lift (between prev high)) (\<lambda>k.
     sbind (set_side_key account (pl_id r) k) (\<lambda>_.
     sbind (split_run account high k rs) (\<lambda>rs'. ret (r\<lparr>pl_key := k\<rparr> # rs'))))"

definition first_key :: "placed_row list \<Rightarrow> key" where
  "first_key rows = (case rows of [] \<Rightarrow> [] | r # _ \<Rightarrow> pl_key r)"

function split_ties :: "ident \<Rightarrow> placed_row list \<Rightarrow> (placed_row list \<times> ident list) act" where
  "split_ties account [] = ret ([], [])"
| "split_ties account (r # rs) =
     (let tied = takeWhile (\<lambda>x. pl_key x = pl_key r) rs;
          rest = dropWhile (\<lambda>x. pl_key x = pl_key r) rs
      in sbind (split_run account (pl_key r) (first_key rest) (rev tied)) (\<lambda>split.
         sbind (split_ties account rest) (\<lambda>(rest', ids).
         ret (r # rev split @ rest', map pl_id split @ ids))))"
  by pat_completeness auto
termination
  by (relation "measure (\<lambda>(_, rows). length rows)") (auto simp: length_dropWhile_le le_imp_less_Suc)

definition day_changed :: go_error where
  "day_changed = ValidationError ''This day changed meanwhile. Refresh and try again.'' ''transaction.day_changed'' []"

definition cannot_move :: go_error where
  "cannot_move = ValidationError ''This transaction can't be moved to another day.'' ''transaction.cannot_move'' []"

fun key_below_row :: "placed_row list \<Rightarrow> ident \<Rightarrow> key result" where
  "key_below_row [] anchor = Inl day_changed"
| "key_below_row (r # rs) anchor =
     (if pl_id r \<noteq> anchor then key_below_row rs anchor else between (first_key rs) (pl_key r))"

definition key_below :: "placed_row list \<Rightarrow> ident \<Rightarrow> key result" where
  "key_below day anchor = (if anchor = [] then between (first_key day) [] else key_below_row day anchor)"

definition moved_state :: "instant \<Rightarrow> transaction \<Rightarrow> new_state" where
  "moved_state day t =
     (case (t_date day, t_clock (tx_spent_at t)) of ((y, m, d), (hh, mi, ss)) \<Rightarrow>
        t\<lparr>tx_spent_at := go_date y m d hh mi ss 0\<rparr>)"

definition move_to_day :: "call_env \<Rightarrow> ident \<Rightarrow> transaction \<Rightarrow> instant \<Rightarrow> transaction act" where
  "move_to_day env user t day =
     sbind (with_error cannot_move (for_each (party_set t) (\<lambda>p. check_write_access user p account_not_available))) (\<lambda>_.
     sbind (repo_save_transaction (update_transaction (moved_state day t) (ce_now env) t)) (\<lambda>t'.
     sbind (for_each (party_set t') (\<lambda>p. zero_deleted env p (tx_spent_at t') correctionEditedTx)) (\<lambda>_.
     ret t')))"

definition move_body ::
  "call_env \<Rightarrow> ident \<Rightarrow> ident \<Rightarrow> ident \<Rightarrow> instant \<Rightarrow> ident \<Rightarrow> move_transaction_request \<Rightarrow> ident list act" where
  "move_body env user i account day anchor req =
     sbind (check_write_access user account account_not_available) (\<lambda>_.
     sbind (repo_get_transaction i) (\<lambda>t.
     if \<not> on_account account t then fail item_not_available
     else if format_date (tx_spent_at t) \<noteq> mv_from_date req then fail day_changed
     else
       sbind (if mv_from_date req \<noteq> mv_date req then move_to_day env user t day else ret t) (\<lambda>t.
       sbind (day_keys account day) (\<lambda>keys.
       let keys = filter (\<lambda>(j, _). j \<noteq> tx_id t) keys
       in if anchor \<noteq> [] \<and> anchor \<notin> fst ` set keys then fail day_changed
          else
            sbind (split_ties account (day_order keys)) (\<lambda>(order, split).
            sbind (lift (key_below order anchor)) (\<lambda>k.
            sbind (set_side_key account (tx_id t) k) (\<lambda>_.
            ret (tx_id t # split))))))))"

definition move_transaction :: "platform \<Rightarrow> call_env \<Rightarrow> ident \<Rightarrow> move_transaction_request \<Rightarrow> ident list act" where
  "move_transaction pf env user req =
     sbind (lift (validate_move_transaction req)) (\<lambda>_.
     sbind (lift (parse_id (pf_uuid pf) (mv_id req))) (\<lambda>i.
     sbind (lift (parse_id (pf_uuid pf) (mv_account req))) (\<lambda>account.
     sbind (lift (case parse_date (mv_date req) of
                    Some day \<Rightarrow> Inr day
                  | None \<Rightarrow> Inl (field_validation ''date'' ''Invalid date format, expected Y-m-d'' ''common.invalid_datetime_format'')))
       (\<lambda>day.
     let anchor = or_empty (mv_above req)
     in if anchor = mv_id req then fail day_changed
        else with_tx (move_body env user i account day anchor req)))))"

subsection \<open>Linking a transaction to a template\<close>

definition link_transaction_to_recurring :: "call_env \<Rightarrow> ident \<Rightarrow> ident \<Rightarrow> ident \<Rightarrow> unit act" where
  "link_transaction_to_recurring env user i recurring =
     sbind (repo_get_transaction i) (\<lambda>t.
     sbind (check_write_access user (tx_account t) item_not_available) (\<lambda>_.
     repo_link_recurring i recurring (ce_now env)))"

end
