(* ===== verification/Act_Relations.thy ===== *)
theory Act_Relations
  imports Ledger_Service
begin

section \<open>Relations that actions respect\<close>

text \<open>
  An interface for facts of the form "whatever this action does when it succeeds relates the database after it to the
  database before it": a preorder on databases is closed under the sequencing of actions, so a fact about the
  repository calls carries to every use case composed of them. Its interpretations: the tables the ledger leaves alone and
  the revision rule, an account whose list of transactions changes is queued for a new revision (\<open>Ledger_Laws\<close>); the types of
  rows (\<open>Ledger_Typing\<close>); rows that are only appended and deleted accounts (\<open>Ledger_Zeroing\<close>); the tables that decide who has an
  account placed (\<open>Account_Sharing\<close>); well-formed templates (\<open>Ledger_Templates\<close>); no row written at all (\<open>Account_Balances\<close>).
\<close>

named_theorems obeys_intro "actions that respect a relation on databases"

locale store_relation =
  fixes R :: "store \<Rightarrow> store \<Rightarrow> bool"
  assumes refl: "R s s" and trans: "\<lbrakk>R s s'; R s' s''\<rbrakk> \<Longrightarrow> R s s''"
begin

definition obeys :: "'a act \<Rightarrow> bool" where
  "obeys m \<longleftrightarrow> (\<forall>s x s'. m s = (Inr x, s') \<longrightarrow> R s s')"

lemma obeys_outcome: "\<lbrakk>obeys m; m s = (Inr x, s')\<rbrakk> \<Longrightarrow> R s s'"
  by (auto simp: obeys_def)

lemma obeys_read_only: "read_only m \<Longrightarrow> obeys m"
  by (auto simp: obeys_def refl dest: read_only_outcome)

lemma obeys_basic: "obeys (ret x)" "obeys (fail e)" "obeys (lift r)" "obeys (gets f)"
  by (simp_all add: obeys_read_only)

lemma obeys_update: "(\<And>s. R s (f s)) \<Longrightarrow> obeys (update_store f)"
  by (auto simp: obeys_def update_store_def)

lemma obeys_sbind: "\<lbrakk>obeys m; \<And>x. obeys (f x)\<rbrakk> \<Longrightarrow> obeys (sbind m f)"
  unfolding obeys_def sbind_Inr_iff using trans by blast

lemma obeys_for_each: "(\<And>x. obeys (f x)) \<Longrightarrow> obeys (for_each xs f)"
  by (induction xs) (simp_all add: obeys_basic obeys_sbind)

lemma obeys_if: "\<lbrakk>b \<Longrightarrow> obeys m; \<not> b \<Longrightarrow> obeys n\<rbrakk> \<Longrightarrow> obeys (if b then m else n)"
  by simp

lemma obeys_option: "\<lbrakk>obeys m; \<And>x. obeys (f x)\<rbrakk> \<Longrightarrow> obeys (case q of None \<Rightarrow> m | Some x \<Rightarrow> f x)"
  by (cases q) simp_all

lemma obeys_with_error: "obeys m \<Longrightarrow> obeys (with_error e m)"
  unfolding obeys_def with_error_def by (auto split: prod.splits sum.splits) 

lemma obeys_when_some: "(\<And>y. obeys (f y)) \<Longrightarrow> obeys (when_some x f)"
  by (cases x) (simp_all add: when_some_def obeys_basic)

lemma obeys_case_prod: "(\<And>x y. obeys (f x y)) \<Longrightarrow> obeys (case p of (x, y) \<Rightarrow> f x y)"
  by (cases p) simp

lemmas obeys_rules = obeys_basic obeys_sbind obeys_for_each obeys_if obeys_option
  obeys_with_error obeys_when_some obeys_case_prod

end

end
