(* ===== verification/Ledger_Laws.thy ===== *)
theory Ledger_Laws
  imports Act_Relations
begin

section \<open>Laws of the transaction service\<close>

text \<open>
  What a transaction call reads and writes, stated once: the row that placing and saving give
  (\<open>placed\<close>, \<open>save_transaction_Inr\<close>), the decisions of the access and reference checks, and the interpretation of the
  interface \<open>store_relation\<close> on \<open>queued\<close>, the relation between the store before and after a body: every account whose list
  of transactions changed is waiting for a new revision.
\<close>

subsection \<open>Days and keys\<close>

lemma in_day_iff: "in_day day at \<longleftrightarrow> t_days at = t_days day"
proof -
  obtain y m d where t: "t_date day = (y, m, d)" using prod_cases3 by blast
  then have "days_of y m d = t_days day" using civil_of_days_valid(2) by (simp add: t_date_def)
  moreover have "t_days day * day_ns + day_ns = (t_days day + 1) * day_ns" by (simp add: distrib_right)
  ultimately have "in_day day at \<longleftrightarrow> t_days day * day_ns \<le> at \<and> at < (t_days day + 1) * day_ns"
    using t by (simp add: in_day_def day_bounds_def add_days)
  then show ?thesis by (auto simp: t_days_le t_days_less)
qed

lemma between_Inr: "between prev nxt = Inr k \<Longrightarrow> valid_key k \<and> prev < k \<and> (nxt = [] \<or> k < nxt)"
  using between_rejects[of prev nxt] between_prepend[of nxt] between_append[of prev] between_inner[of prev nxt]
    between_empty validate_seed[of GrowsUp]
  by (cases "usable_bounds prev nxt"; cases "prev = []"; cases "nxt = []") (auto simp: usable_bounds_def)

lemma order_top_Inr:
  "order_top a at s = (Inr k, s') \<Longrightarrow> s' = s \<and> valid_key k \<and>
     (\<forall>i k'. (i, Some k') \<in> set (side_rows a at (st_transactions s)) \<longrightarrow> k' < k)"
proof -
  assume r: "order_top a at s = (Inr k, s')"
  let ?ks = "List.map_filter snd (side_rows a at (st_transactions s))"
  have b: "between (foldr max ?ks []) [] = Inr k" and s: "s' = s" using r by (auto simp: order_top_def act_iff)
  have "x \<le> foldr max ks []" if "x \<in> set ks" for x and ks :: "string list"
    using that by (induction ks) (auto simp: le_max_iff_disj)
  then have "k' \<le> foldr max ?ks []" if "(i, Some k') \<in> set (side_rows a at (st_transactions s))" for i k'
    using that by (force simp: List.map_filter_def image_iff)
  then show ?thesis using between_Inr[OF b] s by (auto dest: order.strict_trans1)
qed

subsection \<open>Saving a row\<close>

text \<open>The row as placed: keys filled in where missing, no recipient key except on a transfer.\<close>

definition placed :: "transaction \<Rightarrow> transaction \<Rightarrow> bool" where
  "placed t t' \<longleftrightarrow> (\<exists>k rk. t' = t\<lparr>tx_sort_key := k, tx_recipient_sort_key := rk\<rparr> \<and>
     (if tx_sort_key t = [] then valid_key k else k = tx_sort_key t) \<and>
     (if is_transfer (tx_type t) \<and> tx_recipient t \<noteq> None
      then (if tx_recipient_sort_key t = None then \<exists>k'. rk = Some k' \<and> valid_key k' else rk = tx_recipient_sort_key t)
      else rk = None))"

lemma place_transaction_Inr:
  assumes "place_transaction t s = (Inr t', s')"
  shows "s' = s \<and> placed t t'"
proof -
  obtain k where k: "if tx_sort_key t = [] then valid_key k else k = tx_sort_key t"
    and r: "(case tx_recipient t of None \<Rightarrow> ret (t\<lparr>tx_sort_key := k, tx_recipient_sort_key := None\<rparr>)
      | Some recipient \<Rightarrow>
          if \<not> is_transfer (tx_type t) then ret (t\<lparr>tx_sort_key := k, tx_recipient_sort_key := None\<rparr>)
          else if tx_recipient_sort_key t = None
          then sbind (order_top recipient (tx_spent_at t)) (\<lambda>high.
                 ret (t\<lparr>tx_sort_key := k, tx_recipient_sort_key := Some high\<rparr>))
          else ret (t\<lparr>tx_sort_key := k\<rparr>)) s = (Inr t', s')"
  proof (cases "tx_sort_key t = []")
    case True
    then obtain k s1 where "order_top (tx_account t) (tx_spent_at t) s = (Inr k, s1)"
      using assms by (auto simp: place_transaction_def act_iff)
    then show thesis using that[of k] True assms order_top_Inr[of "tx_account t" "tx_spent_at t" s k s1]
      by (simp add: place_transaction_def sbind_def ret_def cong: if_cong option.case_cong)
  next
    case False
    then show thesis using that[of "tx_sort_key t"] assms by (simp add: place_transaction_def cong: if_cong option.case_cong)
  qed
  have *: "placed t (t\<lparr>tx_sort_key := k, tx_recipient_sort_key := rk\<rparr>)"
    if "if is_transfer (tx_type t) \<and> tx_recipient t \<noteq> None
      then (if tx_recipient_sort_key t = None then \<exists>k'. rk = Some k' \<and> valid_key k' else rk = tx_recipient_sort_key t)
      else rk = None" for rk
    unfolding placed_def using k that by blast
  show ?thesis
  proof (cases "tx_recipient t")
    case None
    then show ?thesis using r *[of None] by (simp add: act_iff)
  next
    case (Some recipient)
    show ?thesis
    proof (cases "is_transfer (tx_type t)")
      case False
      then show ?thesis using r Some *[of None] by (simp add: act_iff)
    next
      case True
      show ?thesis
      proof (cases "tx_recipient_sort_key t")
        case None
        then obtain high where "order_top recipient (tx_spent_at t) s = (Inr high, s')"
          "t' = t\<lparr>tx_sort_key := k, tx_recipient_sort_key := Some high\<rparr>"
          using r Some True by (auto simp: act_iff)
        then show ?thesis using *[of "Some high"] None Some True by (auto dest: order_top_Inr)
      next
        case (Some rk)
        then have eq: "t\<lparr>tx_sort_key := k, tx_recipient_sort_key := Some rk\<rparr> = t\<lparr>tx_sort_key := k\<rparr>"
          by (cases t) simp
        have "t' = t\<lparr>tx_sort_key := k\<rparr>" "s' = s"
          using r \<open>tx_recipient t = Some recipient\<close> True Some by (simp_all add: act_iff)
        then show ?thesis using \<open>tx_recipient t = Some recipient\<close> True Some *[of "Some rk"] by (simp add: eq)
      qed
    qed
  qed
qed

lemma placed_sel [simp]:
  assumes "placed t t'"
  shows "tx_id t' = tx_id t" "tx_account t' = tx_account t" "tx_recipient t' = tx_recipient t" "tx_type t' = tx_type t"
    "tx_amount t' = tx_amount t" "tx_amount_recipient t' = tx_amount_recipient t" "tx_category t' = tx_category t"
    "tx_payee t' = tx_payee t" "tx_tag t' = tx_tag t" "tx_labels t' = tx_labels t" "tx_spent_at t' = tx_spent_at t"
    "tx_user t' = tx_user t" "tx_recurring t' = tx_recurring t" "tx_created t' = tx_created t"
    "tx_description t' = tx_description t" "tx_updated t' = tx_updated t"
  using assms by (auto simp: placed_def)

lemma save_transaction_Inr:
  "repo_save_transaction t s = (Inr t', s') \<Longrightarrow> placed t t' \<and>
     s' = s\<lparr>st_transactions := put_transaction t' (st_transactions s),
            st_pending := st_pending s @ touched (\<lambda>x. tx_id x = tx_id t) (st_transactions s) @
              filter (\<lambda>i. i \<noteq> []) [tx_account t, recipient_or_empty t]\<rparr>"
  by (auto simp: repo_save_transaction_def repo_write_transaction_def upsert_transaction_def bump_def act_iff
      recipient_or_empty_def dest!: place_transaction_Inr)

subsection \<open>What the checks decide\<close>

definition write_grant :: "store \<Rightarrow> ident \<Rightarrow> ident \<Rightarrow> bool" where
  "write_grant s account_id user_id \<longleftrightarrow>
     (case find (\<lambda>g. aa_account g = account_id \<and> aa_user g = user_id) (st_access s) of
        Some g \<Rightarrow> aa_accepted g \<and> (aa_role g = RoleAdmin \<or> aa_role g = RoleUser) | None \<Rightarrow> False)"

definition may_write :: "store \<Rightarrow> ident \<Rightarrow> ident \<Rightarrow> bool" where
  "may_write s user i \<longleftrightarrow>
     (\<exists>a. find_row acc_id i (st_accounts s) = Some a \<and> (acc_user a = user \<or> write_grant s i user))"

lemma has_write_grant_iff [act_iff]: "has_write_grant a u s = (r, s') \<longleftrightarrow> r = Inr (write_grant s a u) \<and> s' = s"
proof -
  have "has_write_grant a u s = (Inr (write_grant s a u), s)"
    by (cases "find (\<lambda>g. aa_account g = a \<and> aa_user g = u) (st_access s)")
      (simp_all add: has_write_grant_def granted_def get_grant_def write_grant_def sbind_def gets_def lift_def
        row_or_not_found_def as_not_found_def)
  then show ?thesis by auto
qed

lemma with_error_Inr [act_iff]: "with_error e m s = (Inr x, s') \<longleftrightarrow> m s = (Inr x, s')"
  by (auto simp: with_error_def split: prod.splits sum.splits)

lemma check_write_access_iff [act_iff]:
  "check_write_access u i e s = (Inr x, s') \<longleftrightarrow> s' = s \<and> may_write s u i"
  by (auto simp: check_write_access_def act_iff may_write_def split: if_splits)

lemma repo_get_account_iff [act_iff]:
  "repo_get_account i s = (Inr a, s') \<longleftrightarrow> s' = s \<and> find_row acc_id i (st_accounts s) = Some a"
  by (auto simp: repo_get_account_def act_iff)

lemma when_some_iff [act_iff]:
  "when_some x f s = (Inr y, s') \<longleftrightarrow> (if x = None then s' = s else f (the x) s = (Inr y, s'))"
  by (cases x) (auto simp: when_some_def act_iff)

lemma find_entity_iff [act_iff]:
  "find_entity rid list' owner i s = (Inr r, s') \<longleftrightarrow>
     (\<exists>items. list' owner s = (Inr items, s') \<and> r = find (\<lambda>x. rid x = i) items)"
  by (auto simp: find_entity_def act_iff)

lemma find_ordered: "find (\<lambda>x. rid x = i) (ordered key rid xs) = Some r \<Longrightarrow> r \<in> set xs \<and> rid r = i"
  using find_row_Some[of rid i "ordered key rid xs" r] by (simp add: find_row_def)

lemma require_available_payee:
  "require_available_entity payee_id repo_list_payees owner i s = (Inr x, s') \<Longrightarrow>
     s' = s \<and> (\<exists>r\<in>set (st_payees s). payee_id r = i \<and> payee_user r = owner)"
  by (auto simp: require_available_entity_def act_iff repo_list_payees_def dest!: find_ordered split: if_splits)

lemma require_available_tag:
  "require_available_entity tag_id repo_list_tags owner i s = (Inr x, s') \<Longrightarrow>
     s' = s \<and> (\<exists>r\<in>set (st_tags s). tag_id r = i \<and> tag_user r = owner)"
  by (auto simp: require_available_entity_def act_iff repo_list_tags_def dest!: find_ordered split: if_splits)

lemma check_category_Inr:
  "check_category owner st prev c s = (Inr x, s') \<Longrightarrow> s' = s \<and>
     (\<exists>r\<in>set (st_categories s). category_id r = c \<and> category_user r = owner \<and>
        (kept_category prev st c \<or> category_income r = is_income (tx_type st)))"
  by (auto simp: check_category_def act_iff repo_list_categories_def dest!: find_ordered split: option.splits if_splits)

lemma parse_label_ids_distinct: "parse_label_ids pf raws = Inr ids \<Longrightarrow> distinct ids"
  unfolding parse_label_ids_def
  by (erule rfold_invariant) (auto simp: insert_label_def split: if_splits)

lemma resolve_labels_Inr:
  assumes "resolve_labels pf owner raws s = (Inr ids, s')"
  shows "s' = s \<and> distinct ids \<and> sorted ids \<and> length ids \<le> 50 \<and>
     (\<forall>i\<in>set ids. \<exists>r\<in>set (st_labels s). label_id r = i \<and> label_user r = owner)"
proof (cases "raws = []")
  case True
  then show ?thesis using assms by (simp add: resolve_labels_def act_iff)
next
  case False
  then obtain ids0 where p: "parse_label_ids pf raws = Inr ids0" "length ids0 \<le> 50" "ids = sort ids0" "s' = s"
    and o: "\<forall>i\<in>set ids0. map_option label_user (find_row label_id i (st_labels s)) = Some owner"
    using assms by (auto simp: resolve_labels_def act_iff label_owners_def max_transaction_labels_def split: if_splits)
  have "\<exists>r\<in>set (st_labels s). label_id r = i \<and> label_user r = owner" if "i \<in> set ids" for i
  proof -
    have "map_option label_user (find_row label_id i (st_labels s)) = Some owner" using o that p(3) by simp
    then obtain r where "find_row label_id i (st_labels s) = Some r" "label_user r = owner" by auto
    then show ?thesis using find_row_Some[of label_id i "st_labels s" r] by blast
  qed
  then show ?thesis using p parse_label_ids_distinct[OF p(1)] by simp
qed

subsection \<open>Changed lists and raised revisions\<close>

text \<open>What a body may do before its commit: an account whose list of transactions changes is queued for a new
  revision, and no account row is touched.\<close>

definition queued :: "store \<Rightarrow> store \<Rightarrow> bool" where
  "queued s s' \<longleftrightarrow> set (st_pending s) \<subseteq> set (st_pending s') \<and> st_accounts s' = st_accounts s \<and>
     (\<forall>a. a \<noteq> [] \<and> filter (on_account a) (st_transactions s') \<noteq> filter (on_account a) (st_transactions s) \<longrightarrow>
        a \<in> set (st_pending s'))"

interpretation qd: store_relation queued
  by unfold_locales (auto simp: queued_def)

lemma queued_rest:
  "\<lbrakk>st_transactions s' = st_transactions s; st_pending s' = st_pending s; st_accounts s' = st_accounts s\<rbrakk> \<Longrightarrow> queued s s'"
  by (simp add: queued_def)

lemma filter_map_id:
  assumes "\<And>x. x \<in> set xs \<Longrightarrow> P x \<or> P (f x) \<Longrightarrow> f x = x"
  shows "filter P (map f xs) = filter P xs"
  using assms
proof (induction xs)
  case (Cons x xs)
  have "filter P (map f xs) = filter P xs" using Cons.prems by (intro Cons.IH) simp
  then show ?case using Cons.prems[of x] by (cases "P x \<or> P (f x)") auto
qed simp

lemma queued_map:
  assumes f: "\<And>x. tx_account (f x) = tx_account x" "\<And>x. tx_recipient (f x) = tx_recipient x"
  shows "qd.obeys (sbind (bump_where (\<lambda>x. tx_id x = i)) (\<lambda>_. map_transaction i f))"
  unfolding qd.obeys_def
proof (intro allI impI)
  fix s x s'
  assume "sbind (bump_where (\<lambda>x. tx_id x = i)) (\<lambda>_. map_transaction i f) s = (Inr x, s')"
  then have s': "s' = s\<lparr>st_pending := st_pending s @ touched (\<lambda>x. tx_id x = i) (st_transactions s),
      st_transactions := map (\<lambda>x. if tx_id x = i then f x else x) (st_transactions s)\<rparr>"
    by (auto simp: act_iff map_transaction_def)
  have on_f: "on_account a (f x) = on_account a x" for a x by (simp add: on_account_def f)
  have "filter (on_account a) (map (\<lambda>x. if tx_id x = i then f x else x) (st_transactions s)) =
      filter (on_account a) (st_transactions s)"
    if "a \<noteq> []" "a \<notin> accounts_of (\<lambda>x. tx_id x = i) (st_transactions s)" for a
    using that by (intro filter_map_id) (auto simp: f accounts_of_def on_account_def)
  then show "queued s s'" unfolding s' queued_def by auto
qed

lemma queued_save: "qd.obeys (repo_save_transaction t)"
  unfolding qd.obeys_def
proof (intro allI impI)
  fix s t' s'
  assume "repo_save_transaction t s = (Inr t', s')"
  from save_transaction_Inr[OF this] have p: "placed t t'" and
    s': "s' = s\<lparr>st_transactions := put_transaction t' (st_transactions s),
            st_pending := st_pending s @ touched (\<lambda>x. tx_id x = tx_id t) (st_transactions s) @
              filter (\<lambda>i. i \<noteq> []) [tx_account t, recipient_or_empty t]\<rparr>" by auto
  have "filter (on_account a) (put_transaction t' (st_transactions s)) = filter (on_account a) (st_transactions s)"
    if "a \<noteq> []" "a \<notin> accounts_of (\<lambda>x. tx_id x = tx_id t) (st_transactions s)" "\<not> on_account a t" for a
  proof -
    have n: "\<not> on_account a (stored_over t' x)" "\<not> on_account a (t'\<lparr>tx_labels := []\<rparr>)" for x
      using that(3) p by (simp_all add: on_account_def stored_over_def)
    have "filter (on_account a) (map (\<lambda>x. if tx_id x = tx_id t' then stored_over t' x else x) (st_transactions s)) =
        filter (on_account a) (st_transactions s)"
      using that(1,2) n p by (intro filter_map_id) (auto simp: accounts_of_def on_account_def split: if_splits)
    then show ?thesis using n by (simp add: put_transaction_def)
  qed
  moreover have "a \<in> set [tx_account t, recipient_or_empty t]" if "on_account a t" for a
    using that by (auto simp: on_account_def recipient_or_empty_def)
  ultimately show "queued s s'" unfolding s' queued_def by auto
qed

lemma queued_delete: "qd.obeys (repo_delete_transaction i)"
  unfolding qd.obeys_def
proof (intro allI impI)
  fix s x s'
  assume "repo_delete_transaction i s = (Inr x, s')"
  then have s': "s' = s\<lparr>st_pending := st_pending s @ touched (\<lambda>x. tx_id x = i) (st_transactions s),
      st_transactions := delete_row tx_id i (st_transactions s)\<rparr>"
    by (auto simp: repo_delete_transaction_def act_iff)
  have "filter (on_account a) (delete_row tx_id i (st_transactions s)) = filter (on_account a) (st_transactions s)"
    if "a \<noteq> []" "a \<notin> accounts_of (\<lambda>x. tx_id x = i) (st_transactions s)" for a
    unfolding delete_row_def filter_filter
    using that by (intro filter_cong) (auto simp: accounts_of_def on_account_def)
  then show "queued s s'" unfolding s' queued_def by auto
qed

lemma queued_correction: "qd.obeys (save_correction c)"
  unfolding qd.obeys_def
  by (auto simp: save_correction_def insert_transaction_def bump_def act_iff queued_def correction_row_def on_account_def
      dest!: order_top_Inr split: if_splits)

lemma queued_rows [obeys_intro]:
  "qd.obeys (repo_replace_labels i ls)" "qd.obeys (repo_link_recurring i r now)" "qd.obeys (set_side_key a i k)"
  unfolding repo_replace_labels_def repo_link_recurring_def set_side_key_def by (rule queued_map; simp)+

lemma queued_marks [obeys_intro]:
  "qd.obeys (claim i now)" "qd.obeys (mark_handled i now)"
  unfolding qd.obeys_def
  by (auto simp: claim_def mark_handled_def act_iff intro!: queued_rest split: option.splits)

lemmas [obeys_intro] = queued_save queued_delete queued_correction

lemma read_only_checks [simp]:
  "read_only (account_owner a)" "read_only (repo_get_account a)" "read_only (repo_get_transaction i)"
  "read_only (repo_get_recurring i)" "read_only (labels_by_transaction i)" "read_only (labels_by_recurring i)"
  "read_only (day_keys a day)" "read_only (label_owners)" "read_only (repo_balance a b)"
  "read_only (account_currency a)" "read_only (account_is_deleted a)" "read_only (repo_list_categories u)"
  "read_only (repo_list_payees u)" "read_only (repo_list_tags u)"
  by (auto simp: repo_get_account_def repo_get_transaction_def repo_get_recurring_def labels_by_transaction_def
      labels_by_recurring_def day_keys_def label_owners_def repo_balance_def account_currency_def account_is_deleted_def
      repo_list_categories_def repo_list_payees_def repo_list_tags_def intro!: atomic_intro)

lemma queued_reads [obeys_intro]:
  "qd.obeys (account_owner a)" "qd.obeys (repo_get_account a)" "qd.obeys (repo_get_transaction i)"
  "qd.obeys (labels_by_transaction i)" "qd.obeys (day_keys a day)" "qd.obeys label_owners" "qd.obeys (repo_balance a b)"
  "qd.obeys (account_currency a)" "qd.obeys (account_is_deleted a)" "qd.obeys (repo_list_categories u)"
  "qd.obeys (repo_list_payees u)" "qd.obeys (repo_list_tags u)" "qd.obeys (has_write_grant a u)"
  by (simp_all add: qd.obeys_read_only)

lemmas [obeys_intro] = qd.obeys_rules

lemma queued_checks [obeys_intro]:
  "qd.obeys (check_write_access u a e)" "qd.obeys (reject_deleted_parties st)" "qd.obeys (reject_introduced ps st)"
  "qd.obeys (normalize_transfer_amounts st)" "qd.obeys (check_references pf u st raws prev)"
  unfolding check_write_access_def reject_deleted_parties_def reject_deleted_account_def reject_introduced_def
    normalize_transfer_amounts_def check_references_def check_category_def find_entity_def
    require_available_entity_def resolve_labels_def
  by (intro obeys_intro)+

lemma queued_zero [obeys_intro]: "qd.obeys (zero_balance c now acct at d)" "qd.obeys (zero_deleted env a at d)"
  unfolding zero_deleted_def zero_if_deleted_def zero_balance_def Let_def by (intro obeys_intro)+

lemma queued_parties [obeys_intro]: "qd.obeys (zero_parties env ps at ps' at')"
  unfolding zero_parties_def by (intro obeys_intro)

lemma queued_split_run [obeys_intro]: "qd.obeys (split_run a high prev rows)"
  by (induction a high prev rows rule: split_run.induct) (auto intro!: obeys_intro)

lemma queued_split_ties [obeys_intro]: "qd.obeys (split_ties a rows)"
proof (induction a rows rule: split_ties.induct)
  case (2 a r rs)
  then show ?case by (auto simp: Let_def intro!: obeys_intro)
qed (simp add: obeys_intro)

lemma queued_bodies:
  "qd.obeys (create_body pf env user op ty acc at req rec)"
  "qd.obeys (update_body pf env user preserve i ty acc at ureq)"
  "qd.obeys (delete_body env user i)"
  "qd.obeys (bulk_one pf now user breq new i)"
  "qd.obeys (move_body env user i acc day anchor mreq)"
  unfolding create_body_def update_body_def delete_body_def bulk_one_def move_body_def move_to_day_def Let_def
  by (intro obeys_intro)+

end
