(* ===== verification/Recurring_Service.thy ===== *)
theory Recurring_Service
  imports Ledger_Service
begin

section \<open>The recurring-transaction service\<close>

text \<open>
  \<open>internal/recurring\<close>: creating, updating, deleting, skipping and posting templates. Posting creates the transaction
  through the transaction service, in a savepoint of its own transaction, and then advances the schedule. The label
  resolution and the access check are the transaction service's, repeated in the code; the result of a use case is the
  row it wrote.
\<close>

definition template_access :: "ident \<Rightarrow> ident \<Rightarrow> unit act" where
  "template_access user account = check_write_access user account account_not_available"

definition kept_template_category :: "recurring option \<Rightarrow> transaction_type \<Rightarrow> ident \<Rightarrow> bool" where
  "kept_template_category prev typ' c \<longleftrightarrow>
     (case prev of None \<Rightarrow> False | Some p \<Rightarrow> rt_category p = Some c \<and> rt_type p = typ')"

definition check_category_kind ::
  "ident \<Rightarrow> transaction_type \<Rightarrow> ident option \<Rightarrow> recurring option \<Rightarrow> unit act" where
  "check_category_kind owner typ' category prev =
     when_some category (\<lambda>c.
       if kept_template_category prev typ' c then ret ()
       else sbind (repo_list_categories owner) (\<lambda>cats.
         if \<exists>r\<in>set cats. category_id r = c \<and> category_income r \<noteq> is_income typ' then fail category_mismatch
         else ret ()))"

definition build_template_state :: "platform \<Rightarrow> recurring_request \<Rightarrow> recurring_new_state result" where
  "build_template_state pf req =
     rbind (parse_type (rr_type req)) (\<lambda>typ'.
     rbind (parse_id (pf_uuid pf) (rr_account req)) (\<lambda>account.
     rbind (case parse_recurring_schedule (rr_schedule req) of
              Some s \<Rightarrow> Inr s
            | None \<Rightarrow> Inl (ValidationError ''Validation failed'' [] [invalid_choice_field ''schedule''])) (\<lambda>schedule.
     rbind (case parse_layout (rr_next_payment req) of
              Some t \<Rightarrow> Inr t
            | None \<Rightarrow> Inl (ValidationError ''Validation failed'' [] [invalid_datetime_field ''nextPaymentAt''])) (\<lambda>next'.
     rbind (parse_opt_id pf (rr_recipient req)) (\<lambda>recipient.
     if is_transfer typ' \<and> recipient = None then Inl (blank_value ''accountRecipientId'')
     else
       rbind (parse_opt_id pf (rr_category req)) (\<lambda>c.
       rbind (parse_opt_id pf (rr_payee req)) (\<lambda>p.
       rbind (parse_opt_id pf (rr_tag req)) (\<lambda>g.
       Inr \<lparr>rt_id = [], rt_user = [], rt_type = typ', rt_account = account, rt_recipient = recipient,
            rt_amount = to_string (new_decimal (rr_amount req)), rt_category = c, rt_payee = p, rt_tag = g,
            rt_labels = [], rt_description = or_empty (rr_description req), rt_schedule = schedule,
            rt_next_payment = next', rt_scheduled_day = 0, rt_created = 0, rt_updated = 0\<rparr>))))))))"

text \<open>The labels and the category of a template that is not a transfer.\<close>

definition template_references ::
  "platform \<Rightarrow> recurring_new_state \<Rightarrow> string list \<Rightarrow> recurring option \<Rightarrow> recurring_new_state act" where
  "template_references pf st raws prev =
     (if is_transfer (rt_type st) then ret st
      else
        sbind (with_error account_not_available (account_owner (rt_account st))) (\<lambda>owner.
        sbind (resolve_labels pf owner raws) (\<lambda>ids.
        sbind (check_category_kind owner (rt_type st) (rt_category st) prev) (\<lambda>_.
        ret (st\<lparr>rt_labels := ids\<rparr>)))))"

subsection \<open>Create, update, delete, skip\<close>

definition create_template_body ::
  "platform \<Rightarrow> call_env \<Rightarrow> ident \<Rightarrow> ident \<Rightarrow> recurring_new_state \<Rightarrow> ident option \<Rightarrow> string list \<Rightarrow> recurring act" where
  "create_template_body pf env user op st source labels =
     sbind (template_access user (rt_account st)) (\<lambda>_.
     sbind (claim op (ce_now env)) (\<lambda>already.
     if already then fail operation_locked
     else
       sbind (template_references pf (st\<lparr>rt_id := ce_new_id env, rt_user := user, rt_created := ce_now env\<rparr>) labels None) (\<lambda>st.
       let created = new_recurring_transaction st in
       sbind (repo_save_recurring created) (\<lambda>_.
       sbind (repo_replace_recurring_labels (rt_id created) (rt_labels created)) (\<lambda>_.
       sbind (when_some source (\<lambda>i. link_transaction_to_recurring env user i (rt_id created))) (\<lambda>_.
       sbind (mark_handled op (ce_now env)) (\<lambda>_. ret created)))))))"

definition create_recurring_transaction :: "platform \<Rightarrow> call_env \<Rightarrow> ident \<Rightarrow> recurring_request \<Rightarrow> recurring act" where
  "create_recurring_transaction pf env user req =
     sbind (lift (parse_id (pf_uuid pf) (rr_id req))) (\<lambda>op.
     sbind (lift (build_template_state pf req)) (\<lambda>st.
     sbind (lift (parse_opt_id pf (rr_source req))) (\<lambda>source.
     with_tx (create_template_body pf env user op st source (rr_labels req)))))"

definition update_template_body ::
  "platform \<Rightarrow> call_env \<Rightarrow> ident \<Rightarrow> ident \<Rightarrow> recurring_new_state \<Rightarrow> string list \<Rightarrow> recurring act" where
  "update_template_body pf env user i st labels =
     sbind (repo_get_recurring i) (\<lambda>rt.
     sbind (template_access user (rt_account rt)) (\<lambda>_.
     sbind (if rt_account st \<noteq> rt_account rt then template_access user (rt_account st) else ret ()) (\<lambda>_.
     sbind (template_references pf st labels (Some rt)) (\<lambda>st.
     let rt' = recurring_update st (ce_now env) rt in
     sbind (repo_save_recurring rt') (\<lambda>_.
     sbind (repo_replace_recurring_labels (rt_id rt') (rt_labels rt')) (\<lambda>_. ret rt'))))))"

definition update_recurring_transaction :: "platform \<Rightarrow> call_env \<Rightarrow> ident \<Rightarrow> update_recurring_request \<Rightarrow> recurring act" where
  "update_recurring_transaction pf env user req =
     sbind (lift (parse_id (pf_uuid pf) (rr_id req))) (\<lambda>i.
     sbind (lift (build_template_state pf req)) (\<lambda>st.
     with_tx (update_template_body pf env user i st (rr_labels req))))"

definition delete_recurring_transaction :: "platform \<Rightarrow> ident \<Rightarrow> string \<Rightarrow> unit act" where
  "delete_recurring_transaction pf user q =
     sbind (lift (parse_id (pf_uuid pf) q)) (\<lambda>i.
     with_tx (
       sbind (repo_get_recurring i) (\<lambda>rt.
       sbind (template_access user (rt_account rt)) (\<lambda>_.
       repo_delete_recurring i))))"

definition skip_recurring_transaction :: "platform \<Rightarrow> call_env \<Rightarrow> ident \<Rightarrow> string \<Rightarrow> recurring act" where
  "skip_recurring_transaction pf env user q =
     sbind (lift (parse_id (pf_uuid pf) q)) (\<lambda>i.
     with_tx (
       sbind (repo_get_recurring i) (\<lambda>rt.
       sbind (template_access user (rt_account rt)) (\<lambda>_.
       sbind (repo_save_recurring (advance (ce_now env) rt)) (\<lambda>_.
       sbind (labels_by_recurring (rt_id rt)) (\<lambda>ids.
       ret ((advance (ce_now env) rt)\<lparr>rt_labels := ids\<rparr>)))))))"

subsection \<open>Post\<close>

definition post_create_request :: "post_recurring_request \<Rightarrow> transaction_request" where
  "post_create_request req =
    \<lparr>tr_id = pr_id req, tr_type = pr_type req, tr_amount = pr_amount req, tr_amount_recipient = pr_amount_recipient req,
     tr_account = pr_account req, tr_recipient = pr_recipient req, tr_category = pr_category req, tr_date = pr_date req,
     tr_description = pr_description req, tr_payee = pr_payee req, tr_tag = pr_tag req,
     tr_labels = (case pr_labels req of None \<Rightarrow> [] | Some ls \<Rightarrow> ls)\<rparr>"

definition post_body ::
  "platform \<Rightarrow> call_env \<Rightarrow> ident \<Rightarrow> ident \<Rightarrow> post_recurring_request \<Rightarrow> (transaction \<times> recurring) act" where
  "post_body pf env user i req =
     sbind (repo_get_recurring i) (\<lambda>rt.
     sbind (template_access user (rt_account rt)) (\<lambda>_.
     sbind (if pr_labels req = None then labels_by_recurring i else ret (tr_labels (post_create_request req))) (\<lambda>labels.
     sbind (create_transaction_from_recurring pf env user ((post_create_request req)\<lparr>tr_labels := labels\<rparr>) i) (\<lambda>t.
     sbind (repo_save_recurring (advance (ce_now env) rt)) (\<lambda>_.
     ret (t, advance (ce_now env) rt))))))"

definition post_recurring_transaction ::
  "platform \<Rightarrow> call_env \<Rightarrow> ident \<Rightarrow> post_recurring_request \<Rightarrow> (transaction \<times> recurring) act" where
  "post_recurring_transaction pf env user req =
     sbind (lift (parse_id (pf_uuid pf) (pr_recurring req))) (\<lambda>i.
     sbind (lift (validate_create_transaction (post_create_request req))) (\<lambda>_.
     with_tx (post_body pf env user i req)))"

end
