(* ===== verification/Ledger_Calls.thy ===== *)
theory Ledger_Calls
  imports Ledger_Laws Recurring_Service
begin

section \<open>The calls of the ledger\<close>

text \<open>
  The use cases of the transaction and recurring services and the zeroing command as calls on one database, and the
  interface between the bodies that run in a transaction and the calls around them: a relation between the database
  before and after a body, and one between the database before and after a call, whatever its outcome. A pair of
  relations the bodies satisfy carries over to every history of calls.
\<close>

datatype ledger_call =
    CreateTransaction transaction_request
  | UpdateTransaction update_transaction_request bool
  | DeleteTransaction string
  | BulkUpdateTransactions bulk_update_request
  | MoveTransaction move_transaction_request
  | ZeroDeletedAccounts
  | CreateRecurring recurring_request
  | UpdateRecurring update_recurring_request
  | DeleteRecurring string
  | SkipRecurring string
  | PostRecurring post_recurring_request

fun ledger_perform :: "platform \<Rightarrow> call_env \<Rightarrow> ident \<Rightarrow> ledger_call \<Rightarrow> unit act" where
  "ledger_perform pf env u (CreateTransaction req) = sbind (create_transaction pf env u req) (\<lambda>_. ret ())"
| "ledger_perform pf env u (UpdateTransaction req preserve) = sbind (update_transaction_call pf env u req preserve) (\<lambda>_. ret ())"
| "ledger_perform pf env u (DeleteTransaction q) = sbind (delete_transaction pf env u q) (\<lambda>_. ret ())"
| "ledger_perform pf env u (BulkUpdateTransactions req) = sbind (bulk_update_transactions pf env u req) (\<lambda>_. ret ())"
| "ledger_perform pf env u (MoveTransaction req) = sbind (move_transaction pf env u req) (\<lambda>_. ret ())"
| "ledger_perform pf env u ZeroDeletedAccounts = sbind (zero_deleted_accounts env) (\<lambda>_. ret ())"
| "ledger_perform pf env u (CreateRecurring req) = sbind (create_recurring_transaction pf env u req) (\<lambda>_. ret ())"
| "ledger_perform pf env u (UpdateRecurring req) = sbind (update_recurring_transaction pf env u req) (\<lambda>_. ret ())"
| "ledger_perform pf env u (DeleteRecurring q) = delete_recurring_transaction pf u q"
| "ledger_perform pf env u (SkipRecurring q) = sbind (skip_recurring_transaction pf env u q) (\<lambda>_. ret ())"
| "ledger_perform pf env u (PostRecurring req) = sbind (post_recurring_transaction pf env u req) (\<lambda>_. ret ())"

text \<open>Any number of calls by any users, whatever their outcomes.\<close>

inductive ledger_reaches :: "platform \<Rightarrow> store \<Rightarrow> store \<Rightarrow> bool" for pf where
  start: "ledger_reaches pf s s"
| more: "\<lbrakk>ledger_reaches pf s s1; ledger_perform pf env u c s1 = (r, s2)\<rbrakk> \<Longrightarrow> ledger_reaches pf s s2"

definition skip_body :: "call_env \<Rightarrow> ident \<Rightarrow> ident \<Rightarrow> recurring act" where
  "skip_body env user i =
       sbind (repo_get_recurring i) (\<lambda>rt.
       sbind (template_access user (rt_account rt)) (\<lambda>_.
       sbind (repo_save_recurring (advance (ce_now env) rt)) (\<lambda>_.
       sbind (labels_by_recurring (rt_id rt)) (\<lambda>ids.
       ret ((advance (ce_now env) rt)\<lparr>rt_labels := ids\<rparr>)))))"

definition delete_template_body :: "ident \<Rightarrow> ident \<Rightarrow> unit act" where
  "delete_template_body user i =
       sbind (repo_get_recurring i) (\<lambda>rt.
       sbind (template_access user (rt_account rt)) (\<lambda>_.
       repo_delete_recurring i))"

lemma read_only_with_error: "read_only m \<Longrightarrow> read_only (with_error e m)"
  unfolding read_only_def with_error_def by (auto split: prod.splits sum.splits) (metis snd_conv)+

lemma read_only_write_access [simp]: "read_only (check_write_access u a e)"
  unfolding check_write_access_def by (intro read_only_sbind read_only_with_error) (simp_all add: read_only_sbind)

lemma read_only_when_some: "(\<And>y. read_only (f y)) \<Longrightarrow> read_only (when_some x f)"
  by (cases x) (simp_all add: when_some_def)

lemma read_only_resolve_labels [simp]: "read_only (resolve_labels pf owner raws)"
  unfolding resolve_labels_def by (simp add: read_only_sbind)

lemma read_only_templates [simp]: "read_only (template_access u a)" "read_only (template_references pf st raws prev)"
  unfolding template_access_def template_references_def check_category_kind_def
  by (auto intro!: read_only_sbind read_only_with_error read_only_when_some)

lemma parse_type_Inr: "parse_type q = Inr ty \<Longrightarrow> ty \<in> {TransactionTypeExpense, TransactionTypeIncome, TransactionTypeTransfer}"
  by (auto simp: parse_type_def split: if_splits)

lemma sbind_unit_Inr_iff:
  "sbind (m :: unit act) f s = (Inr y, s') \<longleftrightarrow> (\<exists>s1. m s = (Inr (), s1) \<and> f () s1 = (Inr y, s'))"
  by (simp add: sbind_Inr_iff)

lemma read_only_for_each: "(\<And>x. read_only (f x)) \<Longrightarrow> read_only (for_each xs f)"
  by (induction xs) (simp_all add: read_only_sbind)

lemma read_only_rejects: "read_only (reject_deleted_parties st)" "read_only (reject_introduced ps st)"
  unfolding reject_deleted_parties_def reject_introduced_def reject_deleted_account_def
  by (intro read_only_for_each, simp add: read_only_sbind)+

lemma get_transaction_Inr:
  assumes "repo_get_transaction i s = (Inr t, s')"
  obtains x where "s' = s" "find_row tx_id i (st_transactions s) = Some x" "x \<in> set (st_transactions s)" "tx_id x = i"
    "t = x\<lparr>tx_labels := []\<rparr>"
proof -
  obtain x where x: "s' = s" "find_row tx_id i (st_transactions s) = Some x" "t = x\<lparr>tx_labels := []\<rparr>"
    using assms by (auto simp: repo_get_transaction_def sbind_Inr_iff gets_iff lift_iff)
  show thesis using that[OF x(1,2) _ _ x(3)] find_row_Some[OF x(2)] by blast
qed

lemma sbindE: "\<lbrakk>sbind m f s = (Inr y, s'); \<And>x s1. \<lbrakk>m s = (Inr x, s1); f x s1 = (Inr y, s')\<rbrakk> \<Longrightarrow> P\<rbrakk> \<Longrightarrow> P"
  by (auto simp: sbind_Inr_iff)

text \<open>The second half of a move: the row takes its place among the day's rows.\<close>

definition take_place :: "ident \<Rightarrow> instant \<Rightarrow> ident \<Rightarrow> transaction \<Rightarrow> ident list act" where
  "take_place acc day anchor t =
     sbind (day_keys acc day) (\<lambda>keys.
       let keys = filter (\<lambda>(j, _). j \<noteq> tx_id t) keys
       in if anchor \<noteq> [] \<and> anchor \<notin> fst ` set keys then fail day_changed
          else
            sbind (split_ties acc (day_order keys)) (\<lambda>(order, split).
            sbind (lift (key_below order anchor)) (\<lambda>k.
            sbind (set_side_key acc (tx_id t) k) (\<lambda>_.
            ret (tx_id t # split)))))"

lemma move_body_take_place:
  "move_body env u i acc day anchor req =
     sbind (check_write_access u acc account_not_available) (\<lambda>_.
     sbind (repo_get_transaction i) (\<lambda>t.
     if \<not> on_account acc t then fail item_not_available
     else if format_date (tx_spent_at t) \<noteq> mv_from_date req then fail day_changed
     else sbind (if mv_from_date req \<noteq> mv_date req then move_to_day env u t day else ret t)
            (\<lambda>t. take_place acc day anchor t)))"
  unfolding move_body_def take_place_def by (rule refl)

lemma move_bodyE:
  assumes "move_body env u i acc day anchor req s = (Inr y, s')"
  obtains x t' s2 where "may_write s u acc" "find_row tx_id i (st_transactions s) = Some x" "on_account acc x"
    "format_date (tx_spent_at x) = mv_from_date req"
    "(if mv_from_date req \<noteq> mv_date req then move_to_day env u (x\<lparr>tx_labels := []\<rparr>) day else ret (x\<lparr>tx_labels := []\<rparr>)) s
       = (Inr t', s2)"
    "take_place acc day anchor t' s2 = (Inr y, s')"
proof -
  obtain s0 where w: "check_write_access u acc account_not_available s = (Inr (), s0)"
    and r: "sbind (repo_get_transaction i) (\<lambda>t.
     if \<not> on_account acc t then fail item_not_available
     else if format_date (tx_spent_at t) \<noteq> mv_from_date req then fail day_changed
     else sbind (if mv_from_date req \<noteq> mv_date req then move_to_day env u t day else ret t) (\<lambda>t. take_place acc day anchor t)) s0 = (Inr y, s')"
    using assms unfolding move_body_take_place sbind_unit_Inr_iff by blast
  from r obtain t s1 where g: "repo_get_transaction i s0 = (Inr t, s1)"
    and r': "(if \<not> on_account acc t then fail item_not_available
     else if format_date (tx_spent_at t) \<noteq> mv_from_date req then fail day_changed
     else sbind (if mv_from_date req \<noteq> mv_date req then move_to_day env u t day else ret t) (\<lambda>t. take_place acc day anchor t)) s1 = (Inr y, s')"
    by (rule sbindE)
  obtain x where x: "s1 = s0" "find_row tx_id i (st_transactions s0) = Some x" "t = x\<lparr>tx_labels := []\<rparr>"
    by (rule get_transaction_Inr[OF g])
  have s1: "s1 = s" "may_write s u acc" using x w by (simp_all add: check_write_access_iff)
  have g: "on_account acc t" "format_date (tx_spent_at t) = mv_from_date req"
    using r' by (auto simp: fail_iff split: if_splits)
  then have "sbind (if mv_from_date req \<noteq> mv_date req then move_to_day env u t day else ret t) (\<lambda>t. take_place acc day anchor t) s1 = (Inr y, s')"
    using r' by simp
  then obtain t' s2 where "(if mv_from_date req \<noteq> mv_date req then move_to_day env u t day else ret t) s1 = (Inr t', s2)"
    "take_place acc day anchor t' s2 = (Inr y, s')" by (rule sbindE)
  note m = this[unfolded x(3) s1(1)]
  show thesis
  proof (rule that[of x t' s2])
    show "on_account acc x" "format_date (tx_spent_at x) = mv_from_date req" using g x(3) by (simp_all add: on_account_def)
  qed (use s1 x m in simp_all)
qed

context store_relation
begin

definition settles :: "'a act \<Rightarrow> bool" where
  "settles m \<longleftrightarrow> (\<forall>s r s'. m s = (r, s') \<longrightarrow> R s s')"

lemma settles_outcome: "\<lbrakk>settles m; m s = (r, s')\<rbrakk> \<Longrightarrow> R s s'"
  by (auto simp: settles_def)

lemma settles_basic: "settles (ret x)" "settles (fail e)"
  by (auto simp: settles_def act_iff refl)

lemma settles_sbind:
  assumes "settles m" "\<And>x. settles (f x)"
  shows "settles (sbind m f)"
  unfolding settles_def
proof (intro allI impI)
  fix s r s' assume e: "sbind m f s = (r, s')"
  obtain r1 s1 where m: "m s = (r1, s1)" by (cases "m s")
  have 1: "R s s1" using settles_outcome[OF assms(1) m] .
  show "R s s'"
  proof (cases r1)
    case (Inl e')
    then show ?thesis using e m 1 by (simp add: sbind_def)
  next
    case (Inr x)
    then have "f x s1 = (r, s')" using e m by (simp add: sbind_def)
    then show ?thesis using settles_outcome[OF assms(2)] 1 trans by blast
  qed
qed

lemma settles_lift: "(\<And>x. r = Inr x \<Longrightarrow> settles (f x)) \<Longrightarrow> settles (sbind (lift r) f)"
  by (cases r) (simp_all add: settles_def sbind_def lift_def refl)

lemma obeys_lift: "(\<And>x. r = Inr x \<Longrightarrow> obeys (f x)) \<Longrightarrow> obeys (sbind (lift r) f)"
  by (cases r) (simp_all add: obeys_def sbind_def lift_def)

lemma settles_if: "\<lbrakk>b \<Longrightarrow> settles m; \<not> b \<Longrightarrow> settles n\<rbrakk> \<Longrightarrow> settles (if b then m else n)"
  by simp

lemma settles_then: "settles m \<Longrightarrow> settles (sbind m (\<lambda>x. ret (g x)))"
  by (intro settles_sbind settles_basic)

end

locale ledger_contract = body: store_relation B + call: store_relation C for B C +
  assumes commit: "B (s\<lparr>st_pending := []\<rparr>) s' \<Longrightarrow> C s (flush s')"
    and call_accounts: "C s s' \<Longrightarrow> map acc_id (st_accounts s') = map acc_id (st_accounts s)"
    and create: "typ' \<in> {TransactionTypeExpense, TransactionTypeIncome, TransactionTypeTransfer} \<Longrightarrow>
      body.obeys (create_body pf env u op typ' a at req rec)"
    and update: "typ' \<in> {TransactionTypeExpense, TransactionTypeIncome, TransactionTypeTransfer} \<Longrightarrow>
      body.obeys (update_body pf env u preserve i typ' a at ureq)"
    and delete: "body.obeys (delete_body env u i)"
    and bulk: "body.obeys (bulk_one pf now u breq new i)"
    and move: "body.obeys (move_body env u i a at anchor mreq)"
    and link: "body.obeys (link_transaction_to_recurring env u i j)"
    and marks: "body.obeys (claim op now)" "body.obeys (mark_handled op now)"
    and templates: "body.obeys (repo_save_recurring rt)" "body.obeys (repo_replace_recurring_labels j ls)"
      "body.obeys (repo_delete_recurring j)"
    and zeroing: "\<lbrakk>acc_id acct \<in> acc_id ` set (st_accounts s); zero_balance c now acct at d s = (Inr w, s')\<rbrakk> \<Longrightarrow> B s s'"
begin

lemma commit_outcome:
  assumes "\<And>x s1. m (s\<lparr>st_pending := []\<rparr>) = (Inr x, s1) \<Longrightarrow> B (s\<lparr>st_pending := []\<rparr>) s1" "with_tx m s = (r, s')"
  shows "C s s'"
proof (cases r)
  case (Inl e)
  then show ?thesis using assms(2) by (simp add: with_tx_Inl_iff call.refl)
next
  case (Inr x)
  then obtain s1 where "m (s\<lparr>st_pending := []\<rparr>) = (Inr x, s1)" "s' = flush s1"
    using assms(2) by (auto simp: with_tx_Inr_iff)
  then show ?thesis using commit assms(1) by blast
qed

lemma settles_with_tx: "body.obeys m \<Longrightarrow> call.settles (with_tx m)"
  unfolding call.settles_def by (blast intro: commit_outcome body.obeys_outcome)

lemma obeys_nested: "body.obeys m \<Longrightarrow> body.obeys (nested m)"
  unfolding body.obeys_def nested_def by (auto split: prod.splits sum.splits)

lemma obeys_reads: "read_only m \<Longrightarrow> body.obeys m"
  by (rule body.obeys_read_only)

lemma templates_read:
  "body.obeys (template_access u a)" "body.obeys (repo_get_recurring i)" "body.obeys (labels_by_recurring i)"
  "body.obeys (template_references pf st raws prev)"
  by (simp_all add: obeys_reads)

lemmas template_rules = body.obeys_rules templates_read templates marks link

lemma post: "body.obeys (post_body pf env u i req)"
  unfolding post_body_def create_transaction_from_recurring_def create_transaction_in_def
  by (intro body.obeys_sbind body.obeys_if body.obeys_basic body.obeys_lift obeys_nested templates_read templates
      create parse_type_Inr)

lemma template_bodies:
  "body.obeys (create_template_body pf env u op st source labels)"
  "body.obeys (update_template_body pf env u i st labels)"
  "body.obeys (skip_body env u i)" "body.obeys (delete_template_body u i)"
  unfolding create_template_body_def update_template_body_def skip_body_def delete_template_body_def Let_def
  by (intro template_rules)+

lemma zero_accounts_settles:
  "acc_id ` set accts \<subseteq> acc_id ` set (st_accounts s) \<Longrightarrow> zero_accounts env accts n s = (r, s') \<Longrightarrow> C s s'"
proof (induction accts arbitrary: n s)
  case Nil
  then show ?case by (simp add: ret_iff call.refl)
next
  case (Cons acct accts)
  let ?m = "zero_balance (ce_correction_id env (acc_id acct)) (ce_zero_now env (acc_id acct)) acct
    (acc_updated acct) correctionAccountDeleted"
  obtain r1 s1 where m: "with_tx ?m s = (r1, s1)" by (cases "with_tx ?m s")
  have 1: "C s s1"
    by (rule commit_outcome[OF _ m]) (rule zeroing, use Cons.prems(1) in simp_all)
  show ?case
  proof (cases r1)
    case (Inl e)
    then show ?thesis using Cons.prems(2) m 1 by (simp add: sbind_def)
  next
    case (Inr w)
    then have "zero_accounts env accts (if w then Suc n else n) s1 = (r, s')"
      using Cons.prems(2) m by (simp add: sbind_def)
    moreover have "acc_id ` set accts \<subseteq> acc_id ` set (st_accounts s1)"
      using Cons.prems(1) arg_cong[OF call_accounts[OF 1], of set] by simp
    ultimately show ?thesis using Cons.IH 1 call.trans by blast
  qed
qed

lemma zero_deleted_settles: "call.settles (zero_deleted_accounts env)"
  unfolding call.settles_def
proof (intro allI impI)
  fix s r s' assume "zero_deleted_accounts env s = (r, s')"
  then have "zero_accounts env (List.sort_key acc_id (filter acc_deleted (st_accounts s))) 0 s = (r, s')"
    by (simp add: zero_deleted_accounts_def repo_list_deleted_accounts_def sbind_def gets_def)
  then show "C s s'" by (intro zero_accounts_settles) auto
qed

lemma perform_settles: "call.settles (ledger_perform pf env u c)"
proof (cases c)
  case (CreateTransaction req)
  then show ?thesis
    by (simp add: create_transaction_def create_transaction_in_def)
      (intro call.settles_then call.settles_lift settles_with_tx create parse_type_Inr)
next
  case (UpdateTransaction req preserve)
  then show ?thesis
    by (simp add: update_transaction_call_def)
      (intro call.settles_then call.settles_lift settles_with_tx update parse_type_Inr)
next
  case (DeleteTransaction q)
  then show ?thesis
    by (simp add: delete_transaction_def) (intro call.settles_then call.settles_lift settles_with_tx delete)
next
  case (BulkUpdateTransactions req)
  show ?thesis
    unfolding BulkUpdateTransactions ledger_perform.simps bulk_update_transactions_def
    by (intro call.settles_then call.settles_lift call.settles_if call.settles_basic settles_with_tx body.obeys_for_each bulk)
next
  case (MoveTransaction req)
  show ?thesis
    unfolding MoveTransaction ledger_perform.simps move_transaction_def Let_def
    by (intro call.settles_then call.settles_lift call.settles_if call.settles_basic settles_with_tx move)
next
  case ZeroDeletedAccounts
  then show ?thesis by (simp add: call.settles_then zero_deleted_settles)
next
  case (CreateRecurring req)
  then show ?thesis
    by (simp add: create_recurring_transaction_def)
      (intro call.settles_then call.settles_lift settles_with_tx template_bodies)
next
  case (UpdateRecurring req)
  then show ?thesis
    by (simp add: update_recurring_transaction_def)
      (intro call.settles_then call.settles_lift settles_with_tx template_bodies)
next
  case (DeleteRecurring q)
  then show ?thesis
    by (simp add: delete_recurring_transaction_def delete_template_body_def[symmetric])
      (intro call.settles_lift settles_with_tx template_bodies)
next
  case (SkipRecurring q)
  then show ?thesis
    by (simp add: skip_recurring_transaction_def skip_body_def[symmetric])
      (intro call.settles_then call.settles_lift settles_with_tx template_bodies)
next
  case (PostRecurring req)
  then show ?thesis
    by (simp add: post_recurring_transaction_def)
      (intro call.settles_then call.settles_lift settles_with_tx post)
qed

lemma history: "ledger_reaches pf s s' \<Longrightarrow> C s s'"
proof (induction rule: ledger_reaches.induct)
  case (more s s1 env u c r s2)
  then show ?case using call.settles_outcome[OF perform_settles] call.trans by blast
qed (rule call.refl)

end

subsection \<open>A concrete history\<close>

definition sample_env :: call_env where
  "sample_env = \<lparr>ce_claim_now = 0, ce_now = 0, ce_zero_now = (\<lambda>_. 0), ce_new_id = ''t1'', ce_correction_id = (\<lambda>a. ''c'' @ a)\<rparr>"

definition sample_account :: account where
  "sample_account = new_account ''acc'' ''ann'' ''USD'' ''Cash'' ''i'' 0"

definition sample_ledger :: store where
  "sample_ledger = empty_store\<lparr>st_accounts := [sample_account, sample_account\<lparr>acc_id := ''savings''\<rparr>],
     st_categories := [category_set_sort_key ''a0'' (new_category ''food'' ''ann'' ''Food'' TypeExpense ''x'' 0)]\<rparr>"

definition lunch :: transaction_request where
  "lunch = \<lparr>tr_id = ''op1'', tr_type = ''expense'', tr_amount = ''12.50'', tr_amount_recipient = None, tr_account = ''acc'',
     tr_recipient = None, tr_category = Some ''food'', tr_date = ''2024-05-17 12:30:00'', tr_description = None, tr_payee = None,
     tr_tag = None, tr_labels = []\<rparr>"

definition with_lunch :: store where
  "with_lunch = snd (create_transaction sample_platform sample_env ''ann'' lunch sample_ledger)"

lemma lunch_created:
  "ledger_perform sample_platform sample_env ''ann'' (CreateTransaction lunch) sample_ledger = (Inr (), with_lunch)"
proof -
  have "\<not> isl (fst (create_transaction sample_platform sample_env ''ann'' lunch sample_ledger))" by code_simp
  then obtain t where "create_transaction sample_platform sample_env ''ann'' lunch sample_ledger = (Inr t, with_lunch)"
    unfolding with_lunch_def
    by (cases "create_transaction sample_platform sample_env ''ann'' lunch sample_ledger"; cases "fst (create_transaction sample_platform sample_env ''ann'' lunch sample_ledger)") auto
  then show ?thesis by (simp add: sbind_def ret_def)
qed

lemma lunch_reached: "ledger_reaches sample_platform sample_ledger with_lunch"
  by (rule ledger_reaches.more[OF ledger_reaches.start lunch_created])

end
