(* ===== verification/Ledger_Typing.thy ===== *)
theory Ledger_Typing
  imports Ledger_Calls
begin

section \<open>Well-typed transactions\<close>

text \<open>
  The typing of the ledger: which rows \<open>buildState\<close>, \<open>checkReferences\<close> and \<open>normalizeTransferAmounts\<close> let through, and that
  every call keeps the stored rows so. The relation \<open>types_kept\<close> interprets \<open>store_relation\<close>, and with \<open>typing_kept\<close>
  the contract \<open>ledger_contract\<close>, which carries it to every history of calls.
\<close>

subsection \<open>Well-typed rows\<close>

definition same_books :: "store \<Rightarrow> store \<Rightarrow> bool" where
  "same_books s s' \<longleftrightarrow>
     st_accounts s' = st_accounts s \<and> st_access s' = st_access s \<and> st_categories s' = st_categories s \<and>
     st_payees s' = st_payees s \<and> st_tags s' = st_tags s \<and> st_labels s' = st_labels s \<and>
     st_folders s' = st_folders s \<and> st_memberships s' = st_memberships s \<and> st_options s' = st_options s"

lemma same_books_refl [simp]: "same_books s s"
  by (simp add: same_books_def)

lemma same_books_trans: "\<lbrakk>same_books s s'; same_books s' s''\<rbrakk> \<Longrightarrow> same_books s s''"
  by (simp add: same_books_def)

text \<open>The classification of a row belongs to the given owner, the category of the row's kind.\<close>

definition classified :: "store \<Rightarrow> ident \<Rightarrow> transaction \<Rightarrow> bool" where
  "classified s owner t \<longleftrightarrow>
     (\<forall>c. tx_category t = Some c \<longrightarrow> (\<exists>r\<in>set (st_categories s). category_id r = c \<and> category_user r = owner \<and>
            category_income r = is_income (tx_type t))) \<and>
     (\<forall>p. tx_payee t = Some p \<longrightarrow> (\<exists>r\<in>set (st_payees s). payee_id r = p \<and> payee_user r = owner)) \<and>
     (\<forall>g. tx_tag t = Some g \<longrightarrow> (\<exists>r\<in>set (st_tags s). tag_id r = g \<and> tag_user r = owner)) \<and>
     (\<forall>l\<in>set (tx_labels t). \<exists>r\<in>set (st_labels s). label_id r = l \<and> label_user r = owner) \<and>
     distinct (tx_labels t) \<and> length (tx_labels t) \<le> 50"

text \<open>The money side: a known type, and for transfers a known recipient and the amount it receives, the same amount
  when both accounts are in one currency.\<close>

definition booked :: "store \<Rightarrow> account \<Rightarrow> transaction \<Rightarrow> bool" where
  "booked s acc t \<longleftrightarrow>
     tx_type t \<in> {TransactionTypeExpense, TransactionTypeIncome, TransactionTypeTransfer} \<and>
     (is_transfer (tx_type t) \<longrightarrow>
        (\<exists>r acc'. tx_recipient t = Some r \<and> find_row acc_id r (st_accounts s) = Some acc' \<and>
           tx_amount_recipient t \<noteq> None \<and>
           (acc_currency acc' = acc_currency acc \<longrightarrow> tx_amount_recipient t = Some (tx_amount t))))"

definition keyed :: "transaction \<Rightarrow> bool" where
  "keyed t \<longleftrightarrow> valid_key (tx_sort_key t) \<and>
     (case tx_recipient_sort_key t of None \<Rightarrow> \<not> is_transfer (tx_type t) | Some k \<Rightarrow> is_transfer (tx_type t) \<and> valid_key k)"

definition typed_row :: "store \<Rightarrow> transaction \<Rightarrow> bool" where
  "typed_row s t \<longleftrightarrow> transaction_shape t \<and> keyed t \<and>
     (\<exists>acc. find_row acc_id (tx_account t) (st_accounts s) = Some acc \<and> booked s acc t \<and> classified s (acc_user acc) t)"

definition ledger_ok :: "store \<Rightarrow> bool" where
  "ledger_ok s \<longleftrightarrow> distinct (map tx_id (st_transactions s)) \<and> (\<forall>t\<in>set (st_transactions s). typed_row s t)"

lemma typed_row_cong: "same_books s s' \<Longrightarrow> typed_row s' t = typed_row s t"
  by (simp add: same_books_def typed_row_def booked_def classified_def)

subsection \<open>States that passed the checks\<close>

lemma type_values: "is_transfer TransactionTypeTransfer" "\<not> is_transfer TransactionTypeExpense"
  "\<not> is_transfer TransactionTypeIncome"
  by (simp_all add: is_transfer_def transaction_type_defs)

lemma build_state_Inr:
  assumes "build_state pf i u ty a req at now = Inr st"
  shows "tx_id st = i \<and> tx_user st = u \<and> tx_type st = ty \<and> tx_account st = a \<and> tx_spent_at st = at \<and> tx_labels st = [] \<and>
    tx_created st = now \<and> tx_updated st = now \<and> tx_sort_key st = [] \<and> tx_recipient_sort_key st = None \<and> tx_recurring st = None \<and>
    tx_description st = or_empty (tr_description req) \<and> tx_amount st = to_string (new_decimal (tr_amount req)) \<and>
    (if is_transfer ty then tx_recipient st \<noteq> None \<and> tx_category st = None \<and> tx_payee st = None \<and> tx_tag st = None
     else tx_recipient st = None \<and> tx_amount_recipient st = None)"
proof (cases "is_transfer ty")
  case True
  then show ?thesis using assms by (auto simp: build_state_def Let_def split: if_splits)
next
  case False
  then show ?thesis using assms by (auto simp: build_state_def Let_def)
qed

text \<open>What the checks of a create or an update establish of the state they let through.\<close>

definition admitted :: "store \<Rightarrow> ident \<Rightarrow> transaction option \<Rightarrow> new_state \<Rightarrow> bool" where
  "admitted s user prev st \<longleftrightarrow>
     (\<exists>acc. find_row acc_id (tx_account st) (st_accounts s) = Some acc \<and> booked s acc st \<and>
        (\<forall>r. tx_recipient st = Some r \<longrightarrow> may_write s user r) \<and>
        (if is_transfer (tx_type st)
         then tx_category st = None \<and> tx_payee st = None \<and> tx_tag st = None \<and> tx_labels st = []
         else tx_recipient st = None \<and> tx_amount_recipient st = None) \<and>
        (\<forall>c. tx_category st = Some c \<longrightarrow> (\<exists>r\<in>set (st_categories s). category_id r = c \<and> category_user r = acc_user acc \<and>
            (kept_category prev st c \<or> category_income r = is_income (tx_type st)))) \<and>
        (\<forall>p. tx_payee st = Some p \<longrightarrow> (\<exists>r\<in>set (st_payees s). payee_id r = p \<and> payee_user r = acc_user acc)) \<and>
        (\<forall>g. tx_tag st = Some g \<longrightarrow> (\<exists>r\<in>set (st_tags s). tag_id r = g \<and> tag_user r = acc_user acc)) \<and>
        (\<forall>l\<in>set (tx_labels st). \<exists>r\<in>set (st_labels s). label_id r = l \<and> label_user r = acc_user acc) \<and>
        distinct (tx_labels st) \<and> length (tx_labels st) \<le> 50)"

lemma self_update:
  "\<exists>ar. st = st\<lparr>tx_amount_recipient := ar\<rparr>" "\<exists>ls. st = st\<lparr>tx_labels := ls\<rparr> \<and> ls = tx_labels st"
  by (rule exI[of _ "tx_amount_recipient st"], simp, rule exI[of _ "tx_labels st"], simp)

lemma normalize_Inr:
  assumes "normalize_transfer_amounts st s = (Inr st', s')"
  shows "s' = s \<and> (\<exists>ar. st' = st\<lparr>tx_amount_recipient := ar\<rparr>) \<and>
    (if is_transfer (tx_type st) \<and> tx_recipient st \<noteq> None
     then \<exists>acc acc'. find_row acc_id (tx_account st) (st_accounts s) = Some acc \<and>
       find_row acc_id (the (tx_recipient st)) (st_accounts s) = Some acc' \<and> tx_amount_recipient st' \<noteq> None \<and>
       (acc_currency acc' = acc_currency acc \<longrightarrow> tx_amount_recipient st' = Some (tx_amount st))
     else st' = st)"
proof (cases "tx_recipient st")
  case None
  then show ?thesis using assms by (auto simp: normalize_transfer_amounts_def act_iff intro: self_update)
next
  case (Some r)
  show ?thesis
  proof (cases "is_transfer (tx_type st)")
    case False
    then show ?thesis using Some assms by (auto simp: normalize_transfer_amounts_def act_iff intro: self_update)
  next
    case tr: True
    obtain acc acc' where a: "find_row acc_id (tx_account st) (st_accounts s) = Some acc"
      "find_row acc_id r (st_accounts s) = Some acc'"
      and st': "(if acc_currency acc = acc_currency acc' then ret (st\<lparr>tx_amount_recipient := Some (tx_amount st)\<rparr>)
          else if tx_amount_recipient st = None then fail (blank_value ''amountRecipient'') else ret st) s = (Inr st', s')"
      using Some tr assms
      by (auto simp: normalize_transfer_amounts_def account_currency_def sbind_Inr_iff ret_iff with_error_Inr repo_get_account_iff)
    show ?thesis
    proof (cases "acc_currency acc = acc_currency acc'")
      case True
      then show ?thesis using st' a Some tr by (auto simp: ret_iff)
    next
      case False
      then show ?thesis using st' a Some tr by (auto simp: act_iff intro: self_update split: if_splits)
    qed
  qed
qed

lemma check_references_Inr:
  assumes "check_references pf u st raws prev s = (Inr st', s')"
  shows "s' = s \<and> (\<exists>acc. find_row acc_id (tx_account st) (st_accounts s) = Some acc \<and>
    (\<forall>r. tx_recipient st = Some r \<longrightarrow> may_write s u r) \<and>
    (\<forall>c. tx_category st = Some c \<longrightarrow> (\<exists>r\<in>set (st_categories s). category_id r = c \<and> category_user r = acc_user acc \<and>
       (kept_category prev st c \<or> category_income r = is_income (tx_type st)))) \<and>
    (\<forall>p. tx_payee st = Some p \<longrightarrow> (\<exists>r\<in>set (st_payees s). payee_id r = p \<and> payee_user r = acc_user acc)) \<and>
    (\<forall>g. tx_tag st = Some g \<longrightarrow> (\<exists>r\<in>set (st_tags s). tag_id r = g \<and> tag_user r = acc_user acc)) \<and>
    (\<exists>ls. st' = st\<lparr>tx_labels := ls\<rparr> \<and>
      (if is_transfer (tx_type st) then ls = tx_labels st
       else (\<forall>l\<in>set ls. \<exists>r\<in>set (st_labels s). label_id r = l \<and> label_user r = acc_user acc) \<and> distinct ls \<and> length ls \<le> 50 \<and>
         resolve_labels pf (acc_user acc) raws s = (Inr ls, s))))"
proof -
  obtain s1 s2 s3 s4 s5 owner where
    1: "when_some (tx_recipient st) (\<lambda>r. check_write_access u r account_not_available) s = (Inr (), s1)" and
    2: "account_owner (tx_account st) s1 = (Inr owner, s2)" and
    3: "when_some (tx_category st) (check_category owner st prev) s2 = (Inr (), s3)" and
    4: "when_some (tx_payee st) (require_available_entity payee_id repo_list_payees owner) s3 = (Inr (), s4)" and
    5: "when_some (tx_tag st) (require_available_entity tag_id repo_list_tags owner) s4 = (Inr (), s5)" and
    6: "(if \<not> is_transfer (tx_type st) then sbind (resolve_labels pf owner raws) (\<lambda>ids. ret (st\<lparr>tx_labels := ids\<rparr>))
         else ret st) s5 = (Inr st', s')"
    using assms unfolding check_references_def sbind_unit_Inr_iff by (auto simp: sbind_Inr_iff with_error_Inr)
  have s1: "s1 = s" "\<forall>r. tx_recipient st = Some r \<longrightarrow> may_write s u r"
    using 1 by (auto simp: when_some_iff check_write_access_iff split: if_splits)
  obtain acc where s2: "s2 = s" "find_row acc_id (tx_account st) (st_accounts s) = Some acc" "acc_user acc = owner"
    using 2 s1(1) by (auto simp: account_owner_Inr)
  have s3: "s3 = s" "\<forall>c. tx_category st = Some c \<longrightarrow> (\<exists>r\<in>set (st_categories s). category_id r = c \<and> category_user r = owner \<and>
       (kept_category prev st c \<or> category_income r = is_income (tx_type st)))"
    using 3 s2(1) check_category_Inr[of owner st prev _ s "()" s3] by (auto simp: when_some_iff split: if_splits)
  have s4: "s4 = s" "\<forall>p. tx_payee st = Some p \<longrightarrow> (\<exists>r\<in>set (st_payees s). payee_id r = p \<and> payee_user r = owner)"
    using 4 s3(1) require_available_payee[of owner _ s "()" s4] by (auto simp: when_some_iff split: if_splits)
  have s5: "s5 = s" "\<forall>g. tx_tag st = Some g \<longrightarrow> (\<exists>r\<in>set (st_tags s). tag_id r = g \<and> tag_user r = owner)"
    using 5 s4(1) require_available_tag[of owner _ s "()" s5] by (auto simp: when_some_iff split: if_splits)
  have 7: "s' = s \<and> (\<exists>ls. st' = st\<lparr>tx_labels := ls\<rparr> \<and>
      (if is_transfer (tx_type st) then ls = tx_labels st
       else (\<forall>l\<in>set ls. \<exists>r\<in>set (st_labels s). label_id r = l \<and> label_user r = owner) \<and> distinct ls \<and> length ls \<le> 50 \<and>
         resolve_labels pf owner raws s = (Inr ls, s)))"
  proof (cases "is_transfer (tx_type st)")
    case True
    then show ?thesis using 6 s5(1) self_update(2)[of st] by (auto simp: ret_iff)
  next
    case False
    then obtain ls where r: "resolve_labels pf owner raws s = (Inr ls, s')" "st' = st\<lparr>tx_labels := ls\<rparr>"
      using 6 s5(1) by (auto simp: sbind_Inr_iff ret_iff)
    from resolve_labels_Inr[OF r(1)] r False show ?thesis by auto
  qed
  from s1(2) s2(2) s3(2) s4(2) s5(2) 7 show ?thesis unfolding s2(3)[symmetric] by blast
qed

lemma may_write_cong: "same_books s s' \<Longrightarrow> may_write s' u i = may_write s u i"
  by (simp add: same_books_def may_write_def write_grant_def)

lemma admitted_cong: "same_books s s' \<Longrightarrow> admitted s' u prev st = admitted s u prev st"
  unfolding admitted_def may_write_cong by (simp add: same_books_def booked_def)

lemma admitted_checks:
  assumes ty: "ty \<in> {TransactionTypeExpense, TransactionTypeIncome, TransactionTypeTransfer}"
    and b: "build_state pf i u ty a req at now = Inr st0"
    and n: "normalize_transfer_amounts (st0\<lparr>tx_recurring := rec\<rparr>) s = (Inr st1, s1)"
    and c: "check_references pf u st1 raws prev s1 = (Inr st, s2)"
  shows "s1 = s \<and> s2 = s \<and> admitted s u prev st \<and> tx_id st = i \<and> tx_user st = u \<and> tx_type st = ty \<and> tx_account st = a \<and>
    tx_spent_at st = at \<and> tx_created st = now \<and> tx_updated st = now \<and> tx_recurring st = rec \<and> tx_sort_key st = [] \<and>
    tx_recipient_sort_key st = None \<and> tx_description st = or_empty (tr_description req) \<and>
    tx_amount st = to_string (new_decimal (tr_amount req)) \<and>
    (\<not> is_transfer ty \<longrightarrow> (\<exists>acc. find_row acc_id a (st_accounts s) = Some acc \<and>
       resolve_labels pf (acc_user acc) raws s = (Inr (tx_labels st), s)))"
proof -
  note b' = build_state_Inr[OF b] and n' = normalize_Inr[OF n]
  have s1: "s1 = s" using n' by blast
  obtain ar where st1: "st1 = st0\<lparr>tx_recurring := rec, tx_amount_recipient := ar\<rparr>" using n' by auto
  note c' = check_references_Inr[OF c[unfolded s1]]
  obtain acc ls where acc: "find_row acc_id (tx_account st1) (st_accounts s) = Some acc" and st: "st = st1\<lparr>tx_labels := ls\<rparr>"
    and ls: "if is_transfer (tx_type st1) then ls = tx_labels st1
       else (\<forall>l\<in>set ls. \<exists>r\<in>set (st_labels s). label_id r = l \<and> label_user r = acc_user acc) \<and> distinct ls \<and> length ls \<le> 50 \<and>
         resolve_labels pf (acc_user acc) raws s = (Inr ls, s)"
    and refs: "\<forall>r. tx_recipient st1 = Some r \<longrightarrow> may_write s u r"
      "\<forall>c. tx_category st1 = Some c \<longrightarrow> (\<exists>r\<in>set (st_categories s). category_id r = c \<and> category_user r = acc_user acc \<and>
         (kept_category prev st1 c \<or> category_income r = is_income (tx_type st1)))"
      "\<forall>p. tx_payee st1 = Some p \<longrightarrow> (\<exists>r\<in>set (st_payees s). payee_id r = p \<and> payee_user r = acc_user acc)"
      "\<forall>g. tx_tag st1 = Some g \<longrightarrow> (\<exists>r\<in>set (st_tags s). tag_id r = g \<and> tag_user r = acc_user acc)"
    using c' by blast
  have sel: "tx_recipient st = tx_recipient st1" "tx_category st = tx_category st1" "tx_payee st = tx_payee st1"
    "tx_tag st = tx_tag st1" "tx_type st = tx_type st1" "tx_account st = tx_account st1" "tx_labels st = ls"
    "tx_amount_recipient st = tx_amount_recipient st1" "kept_category prev st = kept_category prev st1"
    by (simp_all add: st kept_category_def fun_eq_iff split: option.split)
  have sel1: "tx_recipient st1 = tx_recipient st0" "tx_category st1 = tx_category st0" "tx_payee st1 = tx_payee st0"
    "tx_tag st1 = tx_tag st0" "tx_type st1 = ty" "tx_account st1 = a" "tx_labels st1 = []"
    using b' by (simp_all add: st1)
  have bk: "booked s acc st"
  proof (cases "is_transfer ty")
    case True
    then obtain r acc' where "tx_recipient st1 = Some r" "find_row acc_id r (st_accounts s) = Some acc'"
      "tx_amount_recipient st1 \<noteq> None" "acc_currency acc' = acc_currency acc \<longrightarrow> tx_amount_recipient st1 = Some (tx_amount st0)"
      using b' n' acc st1 by auto
    then show ?thesis using ty b' st1 st by (auto simp: booked_def)
  next
    case False
    then show ?thesis using ty b' st1 st by (auto simp: booked_def)
  qed
  have ar: "\<not> is_transfer ty \<longrightarrow> tx_amount_recipient st1 = None" using b' n' by auto
  have cls: "if is_transfer (tx_type st1)
      then tx_category st1 = None \<and> tx_payee st1 = None \<and> tx_tag st1 = None \<and> ls = []
      else tx_recipient st1 = None \<and> tx_amount_recipient st1 = None"
    using b' ar ls by (simp add: sel1 split: if_splits)
  have lab: "(\<forall>l\<in>set ls. \<exists>r\<in>set (st_labels s). label_id r = l \<and> label_user r = acc_user acc) \<and> distinct ls \<and> length ls \<le> 50"
    using ls cls by (auto split: if_splits)
  have "admitted s u prev st"
    unfolding admitted_def sel using acc bk refs cls lab by blast
  then show ?thesis using s1 c' b' ls acc by (simp add: st st1)
qed

subsection \<open>Writing a row with its labels\<close>

definition kept_over :: "transaction \<Rightarrow> transaction \<Rightarrow> transaction" where
  "kept_over t x = t\<lparr>tx_user := tx_user x, tx_created := tx_created x, tx_recurring := tx_recurring x\<rparr>"

definition write_row :: "transaction \<Rightarrow> transaction list \<Rightarrow> transaction list" where
  "write_row t txs =
     (if tx_id t \<in> tx_id ` set txs then map (\<lambda>x. if tx_id x = tx_id t then kept_over t x else x) txs else txs @ [t])"

lemma insert_labels: "distinct (ks @ ls) \<Longrightarrow> foldl insert_label ks ls = ks @ ls"
  by (induction ls arbitrary: ks) (auto simp: insert_label_def)

lemma relabel_put:
  "map (\<lambda>x. if tx_id x = tx_id t then x\<lparr>tx_labels := tx_labels t\<rparr> else x) (put_transaction t txs) = write_row t txs"
proof -
  have 1: "(stored_over t x)\<lparr>tx_labels := tx_labels t\<rparr> = kept_over t x" "tx_id (stored_over t x) = tx_id t" for x
    by (simp_all add: stored_over_def kept_over_def)
  have 2: "map (\<lambda>x. if tx_id x = tx_id t then x\<lparr>tx_labels := tx_labels t\<rparr> else x) txs = txs" if "tx_id t \<notin> tx_id ` set txs"
    using that by (intro map_idI) (auto simp: image_iff)
  show ?thesis using 2 by (simp add: put_transaction_def write_row_def 1 comp_def if_distrib cong: if_cong)
qed

lemma save_pending:
  "repo_save_transaction t s = (Inr t', s') \<Longrightarrow>
     placed t t' \<and> (\<exists>pend. s' = s\<lparr>st_transactions := put_transaction t' (st_transactions s), st_pending := pend\<rparr>)"
  by (blast dest: save_transaction_Inr)

lemma map_row_pending:
  assumes "sbind (bump_where c) (\<lambda>_. map_transaction i f) s = (Inr x, s')"
  shows "\<exists>pend. s' = s\<lparr>st_transactions := map (\<lambda>x. if tx_id x = i then f x else x) (st_transactions s), st_pending := pend\<rparr>"
proof -
  have "s' = s\<lparr>st_pending := st_pending s @ touched c (st_transactions s),
      st_transactions := map (\<lambda>x. if tx_id x = i then f x else x) (st_transactions s)\<rparr>"
    using assms by (auto simp: map_transaction_def sbind_Inr_iff bump_where_iff update_store_iff)
  then show ?thesis by (intro exI[of _ "st_pending s @ touched c (st_transactions s)"]) simp
qed

lemma save_label_Inr:
  assumes "sbind (repo_save_transaction t) (\<lambda>t. sbind (repo_replace_labels (tx_id t) (tx_labels t)) (\<lambda>_. f t)) s = (Inr x, s')"
    and "distinct (tx_labels t)"
  obtains t' pend where "placed t t'"
    "f t' (s\<lparr>st_transactions := write_row t' (st_transactions s), st_pending := pend\<rparr>) = (Inr x, s')"
proof -
  obtain t' s1 s2 where 1: "repo_save_transaction t s = (Inr t', s1)"
    and 2: "repo_replace_labels (tx_id t') (tx_labels t') s1 = (Inr (), s2)" and 3: "f t' s2 = (Inr x, s')"
    using assms(1) by (auto simp: sbind_Inr_iff)
  from save_pending[OF 1] obtain pend where p: "placed t t'"
    and s1: "s1 = s\<lparr>st_transactions := put_transaction t' (st_transactions s), st_pending := pend\<rparr>" by blast
  have l: "foldl insert_label [] (tx_labels t') = tx_labels t'" using insert_labels[of "[]" "tx_labels t'"] assms(2) p by simp
  obtain pend' where "s2 = s\<lparr>st_transactions := write_row t' (st_transactions s), st_pending := pend'\<rparr>"
    using map_row_pending[OF 2[unfolded repo_replace_labels_def]] unfolding l s1 by (auto simp: relabel_put)
  then show ?thesis using that[OF p] 3 by simp
qed

lemma row_exists: "find_row rid i xs = Some r \<Longrightarrow> i \<in> rid ` set xs"
  using find_row_Some by fastforce

lemma set_write_row:
  assumes "x \<in> set (write_row t txs)"
  shows "(x \<in> set txs \<and> tx_id x \<noteq> tx_id t) \<or> x = t \<or> (\<exists>y\<in>set txs. tx_id y = tx_id t \<and> x = kept_over t y)"
proof (cases "tx_id t \<in> tx_id ` set txs")
  case True
  then obtain y where "y \<in> set txs" "x = (if tx_id y = tx_id t then kept_over t y else y)"
    using assms by (auto simp: write_row_def)
  then show ?thesis by (cases "tx_id y = tx_id t") auto
next
  case False
  then have "tx_id y \<noteq> tx_id t" if "y \<in> set txs" for y using that by (metis imageI)
  then show ?thesis using assms False by (auto simp: write_row_def)
qed

lemma ids_write_row: "distinct (map tx_id txs) \<Longrightarrow> distinct (map tx_id (write_row t txs))"
proof (cases "tx_id t \<in> tx_id ` set txs")
  case True
  have "map tx_id (write_row t txs) = map tx_id txs" using True by (simp add: write_row_def kept_over_def)
  then show "distinct (map tx_id txs) \<Longrightarrow> distinct (map tx_id (write_row t txs))" by simp
qed (simp add: write_row_def)

lemma typed_kept_over: "typed_row s (kept_over t x) = typed_row s t"
  by (simp add: typed_row_def kept_over_def transaction_shape_def keyed_def booked_def classified_def split: option.split)

lemma ledger_ok_write:
  assumes "ledger_ok s" "typed_row s t" "same_books s s'" "st_transactions s' = write_row t (st_transactions s)"
  shows "ledger_ok s'"
  using assms unfolding ledger_ok_def
  by (auto simp: ids_write_row typed_row_cong typed_kept_over dest!: set_write_row)

subsection \<open>Corrections\<close>

lemma from_scaled_value [simp]: "amount_value (dvalue (from_scaled n)) = n"
  by (rule normalize_from_scaled[of n]) (simp add: amount_value_def new_decimal_plain)

lemma keyed_placed:
  assumes "placed t t'" "tx_sort_key t = [] \<or> valid_key (tx_sort_key t)"
    and "\<And>k. tx_recipient_sort_key t = Some k \<Longrightarrow> valid_key k" "is_transfer (tx_type t) \<Longrightarrow> tx_recipient t \<noteq> None"
  shows "keyed t'"
proof -
  obtain k rk where t': "t' = t\<lparr>tx_sort_key := k, tx_recipient_sort_key := rk\<rparr>"
    and k: "if tx_sort_key t = [] then valid_key k else k = tx_sort_key t"
    and rk: "if is_transfer (tx_type t) \<and> tx_recipient t \<noteq> None
      then (if tx_recipient_sort_key t = None then \<exists>k'. rk = Some k' \<and> valid_key k' else rk = tx_recipient_sort_key t)
      else rk = None"
    using assms(1) unfolding placed_def by blast
  show ?thesis
  proof (cases "is_transfer (tx_type t)")
    case True
    then obtain k' where "rk = Some k'" "valid_key k'"
      using rk assms(3,4) by (cases "tx_recipient_sort_key t") auto
    then show ?thesis using True k assms(2) by (auto simp: keyed_def t' split: if_splits)
  next
    case False
    then show ?thesis using rk k assms(2) by (auto simp: keyed_def t' split: if_splits)
  qed
qed

lemma recipient_key_placed: "placed t t' \<Longrightarrow> \<not> is_transfer (tx_type t) \<Longrightarrow> tx_recipient_sort_key t' = None"
  unfolding placed_def by (elim exE conjE) simp

lemma admitted_typed_new:
  assumes "admitted s u None st" "placed (new_transaction st) t" "tx_sort_key st = []" "tx_recipient_sort_key st = None"
  shows "typed_row s t"
proof -
  obtain acc where a: "find_row acc_id (tx_account st) (st_accounts s) = Some acc" "booked s acc st"
    and shape: "if is_transfer (tx_type st)
         then tx_category st = None \<and> tx_payee st = None \<and> tx_tag st = None \<and> tx_labels st = []
         else tx_recipient st = None \<and> tx_amount_recipient st = None"
    and cl: "classified s (acc_user acc) st"
    using assms(1) unfolding admitted_def classified_def kept_category_def option.case by blast
  have "keyed t" by (rule keyed_placed[OF assms(2)]) (use assms a in \<open>auto simp: new_transaction_def booked_def\<close>)
  moreover have "transaction_shape t"
    using shape recipient_key_placed[OF assms(2)] assms(2) by (auto simp: transaction_shape_def new_transaction_def split: if_splits)
  moreover have "booked s acc t" "classified s (acc_user acc) t" "tx_account t = tx_account st"
    using a cl assms(2) by (simp_all add: booked_def classified_def new_transaction_def)
  ultimately show ?thesis using a(1) by (auto simp: typed_row_def)
qed

lemma update_transaction_sel:
  "tx_id (update_transaction st now t) = tx_id t" "tx_user (update_transaction st now t) = tx_user t"
  "tx_type (update_transaction st now t) = tx_type st" "tx_account (update_transaction st now t) = tx_account st"
  "tx_amount (update_transaction st now t) = tx_amount st" "tx_spent_at (update_transaction st now t) = tx_spent_at st"
  "tx_recurring (update_transaction st now t) = tx_recurring t" "tx_created (update_transaction st now t) = tx_created t"
  "tx_recipient (update_transaction st now t) = (if is_transfer (tx_type st) then tx_recipient st else None)"
  "tx_amount_recipient (update_transaction st now t) = (if is_transfer (tx_type st) then tx_amount_recipient st else None)"
  "tx_category (update_transaction st now t) = (if is_transfer (tx_type st) then None else tx_category st)"
  "tx_payee (update_transaction st now t) = (if is_transfer (tx_type st) then None else tx_payee st)"
  "tx_tag (update_transaction st now t) = (if is_transfer (tx_type st) then None else tx_tag st)"
  "tx_labels (update_transaction st now t) = (if is_transfer (tx_type st) then [] else tx_labels st)"
  "tx_sort_key (update_transaction st now t) =
     (if same_date (tx_spent_at t) (tx_spent_at st) \<and> tx_account t = tx_account st then tx_sort_key t else [])"
  "tx_recipient_sort_key (update_transaction st now t) =
     (if same_date (tx_spent_at t) (tx_spent_at st) \<and> is_transfer (tx_type st) \<and> tx_recipient t = tx_recipient st
      then tx_recipient_sort_key t else None)"
  by (auto simp: update_transaction_def Let_def same_opt_id_iff)

lemma admitted_typed_update:
  assumes ad: "admitted s u (Some t) st" and p: "placed (update_transaction st now t) t'"
    and old: "typed_row s x" "t = x\<lparr>tx_labels := []\<rparr>" and cats: "distinct (map category_id (st_categories s))"
  shows "typed_row s t'"
proof -
  obtain acc where a: "find_row acc_id (tx_account st) (st_accounts s) = Some acc" "booked s acc st"
    and shape: "if is_transfer (tx_type st)
         then tx_category st = None \<and> tx_payee st = None \<and> tx_tag st = None \<and> tx_labels st = []
         else tx_recipient st = None \<and> tx_amount_recipient st = None"
    and cat: "\<forall>c. tx_category st = Some c \<longrightarrow> (\<exists>r\<in>set (st_categories s). category_id r = c \<and> category_user r = acc_user acc \<and>
            (kept_category (Some t) st c \<or> category_income r = is_income (tx_type st)))"
    and rest: "(\<forall>p. tx_payee st = Some p \<longrightarrow> (\<exists>r\<in>set (st_payees s). payee_id r = p \<and> payee_user r = acc_user acc)) \<and>
        (\<forall>g. tx_tag st = Some g \<longrightarrow> (\<exists>r\<in>set (st_tags s). tag_id r = g \<and> tag_user r = acc_user acc)) \<and>
        (\<forall>l\<in>set (tx_labels st). \<exists>r\<in>set (st_labels s). label_id r = l \<and> label_user r = acc_user acc) \<and>
        distinct (tx_labels st) \<and> length (tx_labels st) \<le> 50"
    using ad unfolding admitted_def by blast
  have kx: "keyed x" "transaction_shape x" and cx: "\<forall>c. tx_category x = Some c \<longrightarrow>
      (\<exists>r\<in>set (st_categories s). category_id r = c \<and> category_income r = is_income (tx_type x))"
    using old(1) by (auto simp: typed_row_def classified_def)
  have "category_income r = is_income (tx_type st)" if "r \<in> set (st_categories s)" "kept_category (Some t) st (category_id r)" for r
  proof -
    have "tx_category x = Some (category_id r)" "tx_type x = tx_type st" using that(2) old(2) by (auto simp: kept_category_def)
    with cx obtain r' where "r' \<in> set (st_categories s)" "category_id r' = category_id r"
      "category_income r' = is_income (tx_type st)" by auto
    then show ?thesis using that(1) cats by (metis distinct_map inj_on_def)
  qed
  then have cat': "\<forall>c. tx_category st = Some c \<longrightarrow> (\<exists>r\<in>set (st_categories s). category_id r = c \<and>
      category_user r = acc_user acc \<and> category_income r = is_income (tx_type st))"
    using cat by blast
  have "classified s (acc_user acc) t'"
    using cat' rest p by (simp add: classified_def update_transaction_sel)
  moreover have "booked s acc t'" using a(2) p by (auto simp: booked_def update_transaction_sel)
  moreover have "keyed t'"
    by (rule keyed_placed[OF p])
      (use kx(1) old(2) a(2) in \<open>auto simp: update_transaction_sel keyed_def booked_def split: if_splits option.splits\<close>)
  moreover have "transaction_shape t'"
    using p shape recipient_key_placed[OF p] by (auto simp: transaction_shape_def update_transaction_sel)
  moreover have "find_row acc_id (tx_account t') (st_accounts s) = Some acc"
    using a(1) p by (simp add: update_transaction_sel)
  ultimately show ?thesis unfolding typed_row_def by blast
qed

subsection \<open>Every call keeps the ledger well typed\<close>

definition types_kept :: "store \<Rightarrow> store \<Rightarrow> bool" where
  "types_kept s s' \<longleftrightarrow> same_books s s' \<and>
     (distinct (map category_id (st_categories s)) \<and> ledger_ok s \<longrightarrow> ledger_ok s')"

interpretation ty: store_relation types_kept
proof
  fix s s' s'' assume "types_kept s s'" "types_kept s' s''"
  then show "types_kept s s''" by (auto simp: types_kept_def same_books_def)
qed (simp add: types_kept_def)

lemma types_rest: "\<lbrakk>same_books s s'; st_transactions s' = st_transactions s\<rbrakk> \<Longrightarrow> types_kept s s'"
  by (simp add: types_kept_def ledger_ok_def typed_row_cong)

lemma types_rows:
  assumes "same_books s s'" "st_transactions s' = map f (st_transactions s)"
    and "\<And>x. tx_id (f x) = tx_id x" "\<And>x. typed_row s x \<Longrightarrow> typed_row s (f x)"
  shows "types_kept s s'"
  using assms by (auto simp: types_kept_def ledger_ok_def typed_row_cong comp_def)

lemma types_map:
  assumes "\<And>x. tx_id (f x) = tx_id x" "\<And>s x. typed_row s x \<Longrightarrow> typed_row s (f x)"
  shows "ty.obeys (sbind (bump_where c) (\<lambda>_. map_transaction i f))"
  unfolding ty.obeys_def
proof (intro allI impI)
  fix s x s' assume "sbind (bump_where c) (\<lambda>_. map_transaction i f) s = (Inr x, s')"
  from map_row_pending[OF this] obtain pend where
    "s' = s\<lparr>st_transactions := map (\<lambda>x. if tx_id x = i then f x else x) (st_transactions s), st_pending := pend\<rparr>" by blast
  then show "types_kept s s'"
    using assms by (intro types_rows[of s s' "\<lambda>x. if tx_id x = i then f x else x"]) (simp_all add: same_books_def)
qed

lemma types_link: "ty.obeys (repo_link_recurring i r now)"
  unfolding repo_link_recurring_def
  by (rule types_map) (simp_all add: typed_row_def transaction_shape_def keyed_def booked_def classified_def cong: option.case_cong)

lemma types_set_side_key:
  assumes "valid_key k"
  shows "ty.obeys (set_side_key a i k)"
  unfolding set_side_key_def
proof (rule types_map)
  fix s x assume "typed_row s x"
  then show "typed_row s (x\<lparr>tx_sort_key := if tx_account x = a then k else tx_sort_key x,
      tx_recipient_sort_key := if tx_account x \<noteq> a \<and> tx_recipient x = Some a then Some k else tx_recipient_sort_key x\<rparr>)"
    using assms
    by (auto simp: typed_row_def transaction_shape_def keyed_def booked_def classified_def split: option.splits if_splits)
qed simp

lemma types_delete: "ty.obeys (repo_delete_transaction i)"
  unfolding ty.obeys_def
proof (intro allI impI)
  fix s x s' assume "repo_delete_transaction i s = (Inr x, s')"
  then have "s' = s\<lparr>st_pending := st_pending s @ touched (\<lambda>x. tx_id x = i) (st_transactions s),
      st_transactions := delete_row tx_id i (st_transactions s)\<rparr>"
    by (auto simp: repo_delete_transaction_def act_iff)
  then have b: "same_books s s'" and t: "st_transactions s' = delete_row tx_id i (st_transactions s)"
    by (simp_all add: same_books_def)
  have "distinct (map tx_id (delete_row tx_id i xs))" if "distinct (map tx_id xs)" for xs :: "transaction list"
    using that unfolding delete_row_def by (rule distinct_map_filter)
  then show "types_kept s s'"
    using b t unfolding types_kept_def ledger_ok_def by (auto simp: typed_row_cong delete_row_def)
qed

lemma types_append:
  assumes "same_books s s'" "st_transactions s' = st_transactions s @ [t]" "tx_id t \<notin> tx_id ` set (st_transactions s)"
    and "typed_row s t"
  shows "types_kept s s'"
  using assms by (auto simp: types_kept_def ledger_ok_def typed_row_cong)

lemma save_correction_Inr:
  assumes "save_correction c s = (Inr x, s')"
  obtains k pend where "valid_key k" "co_id c \<notin> tx_id ` set (st_transactions s)"
    "s' = s\<lparr>st_transactions := st_transactions s @ [correction_row c k], st_pending := pend\<rparr>"
proof -
  obtain k s1 where o: "order_top (co_account c) (co_spent_at c) s = (Inr k, s1)"
    and r: "sbind (insert_transaction (correction_row c k)) (\<lambda>_. bump [co_account c]) s1 = (Inr x, s')"
    using assms by (auto simp: save_correction_def sbind_Inr_iff)
  have k: "valid_key k" "s1 = s" using order_top_Inr[OF o] by auto
  have "tx_id (correction_row c k) = co_id c" by (simp add: correction_row_def)
  then have "co_id c \<notin> tx_id ` set (st_transactions s)"
    "s' = s\<lparr>st_transactions := st_transactions s @ [correction_row c k],
      st_pending := st_pending s @ filter (\<lambda>i. i \<noteq> []) [co_account c]\<rparr>"
    using r k(2) by (auto simp: insert_transaction_def bump_def act_iff split: if_splits)
  then show thesis using that k(1) by blast
qed

lemma types_zero_balance:
  assumes z: "zero_balance c now acct at d s = (Inr w, s')" and a: "find_row acc_id (acc_id acct) (st_accounts s) \<noteq> None"
  shows "types_kept s s'"
proof (cases w)
  case no: False
  then have "s' = s" using z by (auto simp: zero_balance_def Let_def act_iff repo_balance_def split: if_splits)
  then show ?thesis by (simp add: ty.refl)
next
  case yes: True
  obtain corr where co: "save_correction corr s = (Inr (), s')" "co_account corr = acc_id acct" "co_type corr \<in> {0, 1}"
    using z yes by (auto simp: zero_balance_def Let_def sbind_Inr_iff ret_iff repo_balance_def gets_def split: if_splits)
  obtain k where k: "valid_key k" and n: "co_id corr \<notin> tx_id ` set (st_transactions s)"
    and s': "same_books s s'" "st_transactions s' = st_transactions s @ [correction_row corr k]"
    by (rule save_correction_Inr[OF co(1)]) (simp add: same_books_def)
  have "typed_row s (correction_row corr k)"
    using a co k by (auto simp: typed_row_def transaction_shape_def keyed_def booked_def classified_def correction_row_def
        is_transfer_def transaction_type_defs)
  then show ?thesis using n by (intro types_append[OF s']) (simp_all add: correction_row_def)
qed

lemma types_zero_deleted: "ty.obeys (zero_deleted env i at d)"
  unfolding ty.obeys_def
proof (intro allI impI)
  fix s x s' assume "zero_deleted env i at d s = (Inr x, s')"
  then obtain acct w s1 where a: "find_row acc_id i (st_accounts s) = Some acct"
    and z: "(if \<not> acc_deleted acct then ret False
       else zero_balance (ce_correction_id env i) (ce_zero_now env i) acct at d) s = (Inr w, s')"
    by (auto simp: zero_deleted_def zero_if_deleted_def act_iff)
  have i: "acc_id acct = i" using find_row_Some[OF a] by simp
  show "types_kept s s'"
  proof (cases "acc_deleted acct")
    case True
    then show ?thesis using z types_zero_balance a i by auto
  next
    case False
    then show ?thesis using z by (simp add: ret_iff ty.refl)
  qed
qed

lemma types_marks: "ty.obeys (claim i now)" "ty.obeys (mark_handled i now)"
  unfolding ty.obeys_def claim_def mark_handled_def
  by (auto simp: act_iff same_books_def intro!: types_rest split: option.splits)

lemma typed_flush: "typed_row (flush s) t = typed_row s t"
proof -
  have "find_row acc_id i (map (bump_account P) xs) = map_option (bump_account P) (find_row acc_id i xs)" for i P xs
    by (induction xs) (simp_all add: find_row_def)
  then have f: "find_row acc_id i (st_accounts (flush s)) =
      map_option (bump_account (set (st_pending s))) (find_row acc_id i (st_accounts s))" for i
    by (simp add: flush_accounts)
  have cur: "acc_currency (bump_account P a) = acc_currency a" for P a by (simp add: bump_account_def)
  have "booked (flush s) (bump_account P acc) t = booked s acc t" for P acc
    unfolding booked_def f map_option_eq_Some by (auto simp: cur)
  moreover have "classified (flush s) owner t = classified s owner t" for owner by (simp add: classified_def)
  ultimately show ?thesis unfolding typed_row_def f map_option_eq_Some by auto
qed

lemma types_reads [obeys_intro]:
  "ty.obeys (account_owner a)" "ty.obeys (repo_get_account a)" "ty.obeys (repo_get_transaction i)"
  "ty.obeys (labels_by_transaction i)" "ty.obeys (day_keys a day)" "ty.obeys (account_is_deleted a)"
  "ty.obeys (has_write_grant a u)"
  by (simp_all add: ty.obeys_read_only)

lemmas [obeys_intro] = ty.obeys_rules types_zero_deleted types_delete types_marks types_link

lemma types_checks [obeys_intro]:
  "ty.obeys (check_write_access u a e)" "ty.obeys (reject_deleted_parties st)" "ty.obeys (reject_introduced ps st)"
  "ty.obeys (zero_parties env ps at ps' at')"
  unfolding check_write_access_def reject_deleted_parties_def reject_deleted_account_def reject_introduced_def zero_parties_def
  by (intro obeys_intro)+

lemma types_between: "(\<And>k. valid_key k \<Longrightarrow> ty.obeys (f k)) \<Longrightarrow> ty.obeys (sbind (lift (between p n)) f)"
  by (rule ty.obeys_lift) (blast dest: between_Inr)

lemma types_split_run [obeys_intro]: "ty.obeys (split_run a high prev rows)"
proof (induction a high prev rows rule: split_run.induct)
  case (2 a high prev r rs)
  show ?case unfolding split_run.simps by (intro types_between ty.obeys_rules types_set_side_key 2)
qed (simp add: obeys_intro)

lemma types_split_ties [obeys_intro]: "ty.obeys (split_ties a rows)"
proof (induction a rows rule: split_ties.induct)
  case (2 a r rs)
  then show ?case by (auto simp: Let_def intro!: obeys_intro)
qed (simp add: obeys_intro)

lemma key_below_Inr: "key_below day anchor = Inr k \<Longrightarrow> valid_key k"
proof -
  have "valid_key k" if "key_below_row rows a = Inr k" for rows a
    using that by (induction rows a rule: key_below_row.induct) (auto dest: between_Inr split: if_splits)
  then show "key_below day anchor = Inr k \<Longrightarrow> valid_key k"
    by (auto simp: key_below_def dest: between_Inr split: if_splits)
qed

subsection \<open>Bodies that save a row\<close>

lemma types_write:
  assumes "same_books s s1" "st_transactions s1 = write_row t (st_transactions s)" "typed_row s t" "types_kept s1 s'"
  shows "types_kept s s'"
proof -
  have "types_kept s s1" using assms(1-3) ledger_ok_write by (auto simp: types_kept_def)
  then show ?thesis using ty.trans assms(4) by blast
qed

lemma new_transaction_labels [simp]: "tx_labels (new_transaction st) = tx_labels st"
  by (simp add: new_transaction_def)

lemma create_bodyE:
  assumes kind: "typ' \<in> {TransactionTypeExpense, TransactionTypeIncome, TransactionTypeTransfer}"
    and run: "create_body pf env u op typ' a at req rec s = (Inr x, s')"
  obtains st s1 pend where "may_write s u a" "claim op (ce_claim_now env) s = (Inr False, s1)" "admitted s u None st"
    "placed (new_transaction st) x" "tx_id st = ce_new_id env" "tx_recurring st = rec" "tx_account st = a" "tx_type st = typ'"
    "tx_spent_at st = at" "tx_amount st = to_string (new_decimal (tr_amount req))" "tx_sort_key st = []"
    "tx_recipient_sort_key st = None" "reject_deleted_parties st s1 = (Inr (), s1)"
    "mark_handled op (ce_now env) (s1\<lparr>st_transactions := write_row x (st_transactions s), st_pending := pend\<rparr>) = (Inr (), s')"
proof -
  obtain al s0 s1 st0 st1 st s2 s3 s4 where w: "check_write_access u a account_not_available s = (Inr (), s0)"
    and cl: "claim op (ce_claim_now env) s0 = (Inr al, s1)" and al: "\<not> al"
    and b: "build_state pf (ce_new_id env) u typ' a req at (ce_now env) = Inr st0"
    and n: "normalize_transfer_amounts (st0\<lparr>tx_recurring := rec\<rparr>) s1 = (Inr st1, s2)"
    and c: "check_references pf u st1 (tr_labels req) None s2 = (Inr st, s3)"
    and r: "reject_deleted_parties st s3 = (Inr (), s4)"
    and save: "sbind (repo_save_transaction (new_transaction st)) (\<lambda>t. sbind (repo_replace_labels (tx_id t) (tx_labels t))
       (\<lambda>_. sbind (mark_handled op (ce_now env)) (\<lambda>_. ret t))) s4 = (Inr x, s')"
    using run unfolding create_body_def by (auto simp: sbind_Inr_iff lift_iff fail_iff split: if_splits)
  note ck = admitted_checks[OF kind b n c]
  have s0: "s0 = s" "may_write s u a" using w by (simp_all add: check_write_access_iff)
  have cl': "claim op (ce_claim_now env) s = (Inr False, s1)" using cl al s0(1) by simp
  have s4: "s4 = s1" using read_only_outcome[OF read_only_rejects(1) r] ck by simp
  have same: "same_books s s1" "st_transactions s1 = st_transactions s" using cl' by (auto simp: claim_False same_books_def)
  have dist: "distinct (tx_labels (new_transaction st))" using ck by (auto simp: admitted_def)
  show thesis
  proof (rule save_label_Inr[OF save dist])
    fix t' pend
    assume p: "placed (new_transaction st) t'"
      and f: "sbind (mark_handled op (ce_now env)) (\<lambda>_. ret t')
        (s4\<lparr>st_transactions := write_row t' (st_transactions s4), st_pending := pend\<rparr>) = (Inr x, s')"
    have "mark_handled op (ce_now env) (s1\<lparr>st_transactions := write_row t' (st_transactions s), st_pending := pend\<rparr>) = (Inr (), s')"
      and x: "t' = x" using f same(2) by (auto simp: sbind_Inr_iff ret_iff s4)
    then show thesis
      using that[of s1 st pend] s0(2) cl' p ck r s4 admitted_cong[OF same(1)] by simp
  qed
qed

lemma types_create:
  assumes kind: "typ' \<in> {TransactionTypeExpense, TransactionTypeIncome, TransactionTypeTransfer}"
  shows "ty.obeys (create_body pf env u op typ' a at req rec)"
  unfolding ty.obeys_def
proof (intro allI impI)
  fix s x s' assume "create_body pf env u op typ' a at req rec s = (Inr x, s')"
  then show "types_kept s s'"
  proof (rule create_bodyE[OF kind])
    fix st and s1 :: store and pend
    let ?s2 = "s1\<lparr>st_transactions := write_row x (st_transactions s), st_pending := pend\<rparr>"
    assume cl: "claim op (ce_claim_now env) s = (Inr False, s1)" and ad: "admitted s u None st"
      and p: "placed (new_transaction st) x" "tx_sort_key st = []" "tx_recipient_sort_key st = None"
      and mk: "mark_handled op (ce_now env) ?s2 = (Inr (), s')"
    have "types_kept ?s2 s'" by (rule ty.obeys_outcome[OF types_marks(2) mk])
    moreover have "same_books s ?s2" using cl by (auto simp: claim_False same_books_def)
    ultimately show ?thesis using admitted_typed_new[OF ad p] by (intro types_write[of s ?s2 x]) simp_all
  qed
qed

lemma types_write_if:
  assumes "same_books s s1" "st_transactions s1 = write_row t (st_transactions s)" "types_kept s1 s'"
    and "distinct (map category_id (st_categories s)) \<Longrightarrow> ledger_ok s \<Longrightarrow> typed_row s t"
  shows "types_kept s s'"
proof -
  have "types_kept s s1" using assms(1,2,4) ledger_ok_write by (auto simp: types_kept_def)
  then show ?thesis using ty.trans assms(3) by blast
qed

lemma types_put:
  assumes sb: "same_books s s1" and txs: "st_transactions s1 = put_transaction t (st_transactions s)"
    and x: "find_row tx_id (tx_id t) (st_transactions s) = Some x"
    and t: "distinct (map category_id (st_categories s)) \<Longrightarrow> ledger_ok s \<Longrightarrow> typed_row s (t\<lparr>tx_labels := tx_labels x\<rparr>)"
  shows "types_kept s s1"
  unfolding types_kept_def
proof (intro conjI impI, rule sb)
  assume ok: "distinct (map category_id (st_categories s)) \<and> ledger_ok s"
  let ?f = "\<lambda>y. if tx_id y = tx_id t then stored_over t y else y"
  have d: "distinct (map tx_id (st_transactions s))" using ok by (simp add: ledger_ok_def)
  have e: "st_transactions s1 = map ?f (st_transactions s)" using txs row_exists[OF x] by (simp add: put_transaction_def)
  have "tx_id (?f y) = tx_id y" for y by (simp add: stored_over_def)
  then have ids: "map tx_id (map ?f (st_transactions s)) = map tx_id (st_transactions s)" by simp
  have "typed_row s (?f y)" if y: "y \<in> set (st_transactions s)" for y
  proof (cases "tx_id y = tx_id t")
    case True
    then have "y = x" using find_row_unique[OF d y True] x by simp
    moreover have "stored_over t x = kept_over (t\<lparr>tx_labels := tx_labels x\<rparr>) x" by (simp add: stored_over_def kept_over_def)
    ultimately show ?thesis using t ok True typed_kept_over by simp
  next
    case False
    then show ?thesis using ok y by (simp add: ledger_ok_def)
  qed
  then have "\<forall>z\<in>set (map ?f (st_transactions s)). typed_row s z" unfolding set_map by blast
  then show "ledger_ok s1" unfolding ledger_ok_def e ids typed_row_cong[OF sb] using d by blast
qed

lemma typed_relabel:
  assumes "typed_row s t" "typed_row s x" "tx_account t = tx_account x" "is_transfer (tx_type t) = is_transfer (tx_type x)"
  shows "typed_row s (t\<lparr>tx_labels := tx_labels x\<rparr>)"
proof -
  obtain acc where a: "find_row acc_id (tx_account x) (st_accounts s) = Some acc" "booked s acc t"
    "classified s (acc_user acc) t" "classified s (acc_user acc) x"
    using assms(1-3) by (auto simp: typed_row_def)
  have "classified s (acc_user acc) (t\<lparr>tx_labels := tx_labels x\<rparr>)" using a(3,4) by (simp add: classified_def)
  moreover have "booked s acc (t\<lparr>tx_labels := tx_labels x\<rparr>)" using a(2) by (simp add: booked_def)
  moreover have "keyed (t\<lparr>tx_labels := tx_labels x\<rparr>)"
    using assms(1) by (simp add: typed_row_def keyed_def cong: option.case_cong)
  moreover have "transaction_shape (t\<lparr>tx_labels := tx_labels x\<rparr>)"
    using assms by (auto simp: typed_row_def transaction_shape_def split: if_splits)
  ultimately show ?thesis using a(1) assms(3) by (simp add: typed_row_def)
qed

lemma update_transaction_id [simp]: "tx_id (update_transaction st now t) = tx_id t"
  by (simp add: update_transaction_def Let_def)

lemma update_bodyE:
  assumes kind: "typ' \<in> {TransactionTypeExpense, TransactionTypeIncome, TransactionTypeTransfer}"
    and run: "update_body pf env u preserve i typ' a at req s = (Inr y, s')"
  obtains x st pend where "find_row tx_id i (st_transactions s) = Some x" "admitted s u (Some (x\<lparr>tx_labels := []\<rparr>)) st"
    "placed (update_transaction st (ce_now env) (x\<lparr>tx_labels := []\<rparr>)) y"
    "zero_parties env (party_set x) (tx_spent_at x) (party_set y) (tx_spent_at y)
       (s\<lparr>st_transactions := write_row y (st_transactions s), st_pending := pend\<rparr>) = (Inr (), s')"
proof -
  obtain s0 t s1 s1b raws s2 st0 st1 s3 st s4 s5 where w: "check_write_access u a account_not_available s = (Inr (), s0)"
    and g: "repo_get_transaction i s0 = (Inr t, s1)"
    and w': "check_write_access u (tx_account t) item_not_available s1 = (Inr (), s1b)"
    and l: "(if preserve then labels_by_transaction i else ret (tr_labels req)) s1b = (Inr raws, s2)"
    and b: "build_state pf i u typ' a req at (ce_now env) = Inr st0"
    and n: "normalize_transfer_amounts st0 s2 = (Inr st1, s3)"
    and c: "check_references pf u st1 raws (Some t) s3 = (Inr st, s4)"
    and r: "reject_introduced (party_set t) st s4 = (Inr (), s5)"
    and save: "sbind (repo_save_transaction (update_transaction st (ce_now env) t)) (\<lambda>t'. sbind (repo_replace_labels (tx_id t') (tx_labels t'))
       (\<lambda>_. sbind (zero_parties env (party_set t) (tx_spent_at t) (party_set t') (tx_spent_at t')) (\<lambda>_. ret t'))) s5 = (Inr y, s')"
    using run unfolding update_body_def by (auto simp: sbind_Inr_iff lift_iff)
  obtain x where x: "s1 = s0" "find_row tx_id i (st_transactions s0) = Some x" "t = x\<lparr>tx_labels := []\<rparr>"
    by (rule get_transaction_Inr[OF g])
  have s2: "s2 = s" "s1 = s" "s0 = s" using w w' x(1) l
    by (auto simp: check_write_access_iff labels_by_transaction_def gets_iff ret_iff split: if_splits)
  have b': "st0\<lparr>tx_recurring := None\<rparr> = st0" using build_state_Inr[OF b] by (cases st0) simp
  note ck = admitted_checks[OF kind b, of None, unfolded b', OF n c]
  have s5: "s5 = s" using read_only_outcome[OF read_only_rejects(2) r] ck s2 by simp
  have dist: "distinct (tx_labels (update_transaction st (ce_now env) t))" using ck by (auto simp: admitted_def update_transaction_sel)
  show thesis
  proof (rule save_label_Inr[OF save dist])
    fix t' pend
    assume p: "placed (update_transaction st (ce_now env) t) t'"
      and f: "sbind (zero_parties env (party_set t) (tx_spent_at t) (party_set t') (tx_spent_at t')) (\<lambda>_. ret t')
        (s5\<lparr>st_transactions := write_row t' (st_transactions s5), st_pending := pend\<rparr>) = (Inr y, s')"
    have y: "t' = y" and "zero_parties env (party_set t) (tx_spent_at t) (party_set t') (tx_spent_at t')
        (s\<lparr>st_transactions := write_row t' (st_transactions s), st_pending := pend\<rparr>) = (Inr (), s')"
      using f by (auto simp: sbind_Inr_iff ret_iff s5)
    moreover have "party_set t = party_set x" "tx_spent_at t = tx_spent_at x" by (simp_all add: x(3) party_set_def)
    ultimately show thesis using that[of x st pend] ck p x s2 by simp
  qed
qed

lemma types_update:
  assumes kind: "typ' \<in> {TransactionTypeExpense, TransactionTypeIncome, TransactionTypeTransfer}"
  shows "ty.obeys (update_body pf env u preserve i typ' a at req)"
  unfolding ty.obeys_def
proof (intro allI impI)
  fix s y s' assume "update_body pf env u preserve i typ' a at req s = (Inr y, s')"
  then show "types_kept s s'"
  proof (rule update_bodyE[OF kind])
    fix x :: transaction and st pend
    let ?s1 = "s\<lparr>st_transactions := write_row y (st_transactions s), st_pending := pend\<rparr>"
    assume x: "find_row tx_id i (st_transactions s) = Some x" and ad: "admitted s u (Some (x\<lparr>tx_labels := []\<rparr>)) st"
      and p: "placed (update_transaction st (ce_now env) (x\<lparr>tx_labels := []\<rparr>)) y"
      and z: "zero_parties env (party_set x) (tx_spent_at x) (party_set y) (tx_spent_at y) ?s1 = (Inr (), s')"
    have "typed_row s y" if "distinct (map category_id (st_categories s))" "ledger_ok s"
      using admitted_typed_update[OF ad p _ refl that(1)] that(2) find_row_Some[OF x] by (auto simp: ledger_ok_def)
    moreover have "types_kept ?s1 s'" by (rule ty.obeys_outcome[OF types_checks(4) z])
    ultimately show ?thesis by (intro types_write_if[of s ?s1 y s']) (simp_all add: same_books_def)
  qed
qed

lemma save_row_types:
  assumes save: "repo_save_transaction (update_transaction st now t) s = (Inr t', s')"
    and x: "find_row tx_id (tx_id t) (st_transactions s) = Some x"
    and typed: "\<And>t'. \<lbrakk>placed (update_transaction st now t) t'; distinct (map category_id (st_categories s)); ledger_ok s\<rbrakk> \<Longrightarrow>
      typed_row s (t'\<lparr>tx_labels := tx_labels x\<rparr>)"
  shows "types_kept s s'"
proof -
  obtain pend where p: "placed (update_transaction st now t) t'"
    and s': "s' = s\<lparr>st_transactions := put_transaction t' (st_transactions s), st_pending := pend\<rparr>"
    using save_pending[OF save] by blast
  show ?thesis
    by (rule types_put[of s s' t' x]) (use p x typed[OF p] in \<open>simp_all add: s' same_books_def\<close>)
qed

lemma types_bulk_one: "ty.obeys (bulk_one pf now u req new i)"
  unfolding ty.obeys_def
proof (intro allI impI)
  fix s y s'
  assume "bulk_one pf now u req new i s = (Inr y, s')"
  then obtain t s1 s2 where g: "repo_get_transaction i s = (Inr t, s1)"
    and w: "check_write_access u (tx_account t) item_not_available s1 = (Inr (), s2)"
    and rest: "(if is_transfer (tx_type t)
     then if cc_category new \<noteq> None \<or> cc_payee new \<noteq> None \<or> cc_tag new \<noteq> None \<or>
             bu_clear_category req \<or> bu_clear_payee req \<or> bu_clear_tag req
          then fail (ValidationError (''transaction '' @ i @ '' is a transfer and cannot carry a category, payee, or tag'') [] [])
          else ret ()
     else
       sbind (check_references pf u (bulk_state req new now t) [] (Some t)) (\<lambda>st.
       sbind (repo_save_transaction (update_transaction st now t)) (\<lambda>_. ret ()))) s2 = (Inr (), s')"
    unfolding bulk_one_def by (auto simp: sbind_Inr_iff)
  obtain x where x: "s1 = s" "find_row tx_id i (st_transactions s) = Some x" "x \<in> set (st_transactions s)" "tx_id x = i"
    "t = x\<lparr>tx_labels := []\<rparr>" by (rule get_transaction_Inr[OF g])
  have s2: "s2 = s" using w x(1) by (simp add: check_write_access_iff)
  show "types_kept s s'"
  proof (cases "is_transfer (tx_type t)")
    case True
    then show ?thesis using rest s2 by (auto simp: ret_iff fail_iff ty.refl split: if_splits)
  next
    case nt: False
    let ?st = "bulk_state req new now t"
    obtain st s3 t' where c: "check_references pf u ?st [] (Some t) s = (Inr st, s3)"
      and save: "repo_save_transaction (update_transaction st now t) s3 = (Inr t', s')"
      using rest nt s2 by (auto simp: sbind_Inr_iff ret_iff)
    have sel: "tx_type ?st = tx_type x" "tx_account ?st = tx_account x" "tx_recipient ?st = None" "tx_amount_recipient ?st = None"
      using x(5) by (simp_all add: bulk_state_def)
    note c' = check_references_Inr[OF c]
    have s3: "s3 = s" using c' by blast
    have ntx: "\<not> is_transfer (tx_type x)" using nt x(5) by simp
    show ?thesis
    proof (rule save_row_types[of st now t s t' s' x])
      show "repo_save_transaction (update_transaction st now t) s = (Inr t', s')" using save s3 by simp
      show "find_row tx_id (tx_id t) (st_transactions s) = Some x" using x by simp
      fix t'' assume p: "placed (update_transaction st now t) t''"
        and d: "distinct (map category_id (st_categories s))" and ok: "ledger_ok s"
      have tx: "typed_row s x" using ok x(3) by (simp add: ledger_ok_def)
      obtain acc ls where a: "find_row acc_id (tx_account x) (st_accounts s) = Some acc" and st: "st = ?st\<lparr>tx_labels := ls\<rparr>"
        and refs: "\<forall>c. tx_category ?st = Some c \<longrightarrow> (\<exists>r\<in>set (st_categories s). category_id r = c \<and> category_user r = acc_user acc \<and>
           (kept_category (Some t) ?st c \<or> category_income r = is_income (tx_type ?st)))"
          "\<forall>p. tx_payee ?st = Some p \<longrightarrow> (\<exists>r\<in>set (st_payees s). payee_id r = p \<and> payee_user r = acc_user acc)"
          "\<forall>g. tx_tag ?st = Some g \<longrightarrow> (\<exists>r\<in>set (st_tags s). tag_id r = g \<and> tag_user r = acc_user acc)"
          "(\<forall>l\<in>set ls. \<exists>r\<in>set (st_labels s). label_id r = l \<and> label_user r = acc_user acc)" "distinct ls" "length ls \<le> 50"
        using c' ntx unfolding sel by auto
      have bk: "booked s acc st" using tx a ntx by (auto simp: booked_def typed_row_def st sel)
      have k: "kept_category (Some t) (?st\<lparr>tx_labels := ls\<rparr>) = kept_category (Some t) ?st"
        by (simp add: kept_category_def fun_eq_iff)
      have ad: "admitted s u (Some t) st"
        unfolding admitted_def using a bk[unfolded st] ntx refs by (simp add: st sel k)
      have t'': "typed_row s t''" by (rule admitted_typed_update[OF ad p tx x(5) d])
      show "typed_row s (t''\<lparr>tx_labels := tx_labels x\<rparr>)"
        by (rule typed_relabel[OF t'' tx]) (use p in \<open>simp_all add: update_transaction_sel st sel\<close>)
    qed
  qed
qed

lemma moved_state_sel [simp]:
  "tx_type (moved_state day t) = tx_type t" "tx_account (moved_state day t) = tx_account t"
  "tx_recipient (moved_state day t) = tx_recipient t" "tx_amount (moved_state day t) = tx_amount t"
  "tx_amount_recipient (moved_state day t) = tx_amount_recipient t" "tx_category (moved_state day t) = tx_category t"
  "tx_payee (moved_state day t) = tx_payee t" "tx_tag (moved_state day t) = tx_tag t"
  "tx_labels (moved_state day t) = tx_labels t"
  by (simp_all add: moved_state_def split: prod.split)

lemma types_move_to_day:
  assumes m: "move_to_day env u t day s = (Inr y, s')"
    and x: "find_row tx_id (tx_id t) (st_transactions s) = Some x" "t = x\<lparr>tx_labels := []\<rparr>"
  shows "types_kept s s'"
proof -
  obtain s2 s3 t' where
    w: "with_error cannot_move (for_each (party_set t) (\<lambda>p. check_write_access u p account_not_available)) s = (Inr (), s2)"
    and save: "repo_save_transaction (update_transaction (moved_state day t) (ce_now env) t) s2 = (Inr t', s3)"
    and z: "for_each (party_set t') (\<lambda>p. zero_deleted env p (tx_spent_at t') correctionEditedTx) s3 = (Inr (), s')"
    using m unfolding move_to_day_def by (auto simp: sbind_Inr_iff ret_iff)
  have "read_only (with_error cannot_move (for_each (party_set t) (\<lambda>p. check_write_access u p account_not_available)))"
    by (intro read_only_with_error read_only_for_each read_only_write_access)
  from read_only_outcome[OF this w] have s2: "s2 = s" .
  have "types_kept s s3"
  proof (rule save_row_types[OF save[unfolded s2]])
    show "find_row tx_id (tx_id t) (st_transactions s) = Some x" by (rule x(1))
    fix t'' assume p: "placed (update_transaction (moved_state day t) (ce_now env) t) t''" and ok: "ledger_ok s"
    have tx: "typed_row s x" using ok find_row_Some[OF x(1)] by (auto simp: ledger_ok_def)
    obtain acc where a: "find_row acc_id (tx_account x) (st_accounts s) = Some acc" "booked s acc x" "classified s (acc_user acc) x"
      and kx: "keyed x" "transaction_shape x" using tx by (auto simp: typed_row_def)
    have "keyed t''"
      by (rule keyed_placed[OF p])
        (use kx a(2) in \<open>auto simp: update_transaction_sel x(2) keyed_def booked_def split: if_splits option.splits\<close>)
    moreover have "transaction_shape t''"
      using kx(2) p recipient_key_placed[OF p] by (auto simp: transaction_shape_def update_transaction_sel x(2))
    moreover have "booked s acc t''" using a(2) p by (auto simp: booked_def update_transaction_sel x(2))
    moreover have "classified s (acc_user acc) t''" using a(3) p by (auto simp: classified_def update_transaction_sel x(2))
    ultimately have "typed_row s t''" using a(1) p by (auto simp: typed_row_def update_transaction_sel x(2))
    then show "typed_row s (t''\<lparr>tx_labels := tx_labels x\<rparr>)"
      using p by (intro typed_relabel[OF _ tx]) (simp_all add: update_transaction_sel x(2))
  qed
  moreover have "ty.obeys (for_each (party_set t') (\<lambda>p. zero_deleted env p (tx_spent_at t') correctionEditedTx))"
    by (intro obeys_intro)
  then have "types_kept s3 s'" using z unfolding ty.obeys_def by (elim allE impE)
  ultimately show "types_kept s s'" by (rule ty.trans)
qed

lemma types_take_place: "ty.obeys (take_place acc day anchor t)"
  unfolding take_place_def Let_def
  by (intro obeys_intro ty.obeys_lift types_set_side_key) (auto dest: key_below_Inr)

lemma types_move: "ty.obeys (move_body env u i acc day anchor req)"
  unfolding ty.obeys_def
proof (intro allI impI)
  fix s y s'
  assume "move_body env u i acc day anchor req s = (Inr y, s')"
  then show "types_kept s s'"
  proof (rule move_bodyE)
    fix x t' :: transaction and s2
    let ?t = "x\<lparr>tx_labels := []\<rparr>"
    assume x: "find_row tx_id i (st_transactions s) = Some x"
      and m: "(if mv_from_date req \<noteq> mv_date req then move_to_day env u ?t day else ret ?t) s = (Inr t', s2)"
      and p: "take_place acc day anchor t' s2 = (Inr y, s')"
    have "find_row tx_id (tx_id ?t) (st_transactions s) = Some x" using x find_row_Some[OF x] by simp
    then have "types_kept s s2"
      using m types_move_to_day[OF _ _ refl] by (auto simp: ret_iff ty.refl split: if_splits)
    then show ?thesis using ty.trans ty.obeys_outcome[OF types_take_place p] by blast
  qed
qed

lemma types_link_call: "ty.obeys (link_transaction_to_recurring env u i r)"
  unfolding link_transaction_to_recurring_def by (intro obeys_intro)

lemma types_delete_body: "ty.obeys (delete_body env u i)"
  unfolding delete_body_def by (intro obeys_intro)

subsection \<open>The typing contract\<close>

definition typing_kept :: "store \<Rightarrow> store \<Rightarrow> bool" where
  "typing_kept s s' \<longleftrightarrow> st_categories s' = st_categories s \<and> map acc_id (st_accounts s') = map acc_id (st_accounts s) \<and>
     (distinct (map category_id (st_categories s)) \<and> ledger_ok s \<longrightarrow> ledger_ok s')"

lemma types_template_rows:
  "ty.obeys (repo_save_recurring rt)" "ty.obeys (repo_replace_recurring_labels j ls)" "ty.obeys (repo_delete_recurring j)"
proof -
  show "ty.obeys (repo_save_recurring rt)" "ty.obeys (repo_replace_recurring_labels j ls)"
    unfolding repo_save_recurring_def repo_replace_recurring_labels_def
    by (intro ty.obeys_update types_rest; simp add: same_books_def)+
  show "ty.obeys (repo_delete_recurring j)"
    unfolding ty.obeys_def
  proof (intro allI impI)
    fix s x s' assume "repo_delete_recurring j s = (Inr x, s')"
    then have s': "s' = s\<lparr>st_pending := st_pending s @ touched (\<lambda>x. tx_recurring x = Some j) (st_transactions s),
        st_recurring := delete_row rt_id j (st_recurring s),
        st_transactions := map (\<lambda>t. t\<lparr>tx_recurring := set_none j (tx_recurring t)\<rparr>) (st_transactions s)\<rparr>"
      by (simp add: repo_delete_recurring_def sbind_Inr_iff bump_where_iff update_store_iff)
    show "types_kept s s'"
      by (rule types_rows[of s s' "\<lambda>t. t\<lparr>tx_recurring := set_none j (tx_recurring t)\<rparr>"])
        (simp_all add: s' same_books_def typed_row_def transaction_shape_def keyed_def booked_def classified_def
          cong: option.case_cong)
  qed
qed

interpretation typing: ledger_contract types_kept typing_kept
proof unfold_locales
  fix s s' assume k: "types_kept (s\<lparr>st_pending := []\<rparr>) s'"
  have p: "ledger_ok (s\<lparr>st_pending := []\<rparr>) = ledger_ok s"
    unfolding ledger_ok_def using typed_row_cong[of "s\<lparr>st_pending := []\<rparr>" s] by (simp add: same_books_def)
  show "typing_kept s (flush s')"
    using k p by (auto simp: types_kept_def typing_kept_def same_books_def ledger_ok_def typed_flush flush_accounts)
next
  fix acct c now at d w and s s' :: store
  assume "acc_id acct \<in> acc_id ` set (st_accounts s)" "zero_balance c now acct at d s = (Inr w, s')"
  then show "types_kept s s'" by (intro types_zero_balance) (auto simp: find_row_None)
qed (auto simp: typing_kept_def intro: types_create types_update types_delete_body types_bulk_one types_move types_link_call
    types_marks types_template_rows)

text \<open>C1: whatever sequence of ledger calls users make (creating, updating, deleting, re-classifying in bulk, moving,
  posting templates, zeroing deleted accounts), every stored transaction stays well typed: ids are unique, the account
  exists, transfers carry a known recipient and the amount it receives (the same amount within one currency) and no
  classification, other transactions no recipient, the category, payee, tag and labels belong to the owner of the account
  and the category has the kind of the transaction, at most 50 labels, and both lists a row is in have a valid sort key.\<close>

theorem ledger_well_typed:
  assumes "ledger_reaches pf s s'" "distinct (map category_id (st_categories s))" "ledger_ok s"
  shows "ledger_ok s'"
  using typing.history[OF assms(1)] assms(2,3) by (simp add: typing_kept_def)

lemma sample_ledger_ok: "ledger_ok sample_ledger" "distinct (map category_id (st_categories sample_ledger))"
  by (simp_all add: ledger_ok_def sample_ledger_def empty_store_def)

theorem ledger_well_typed_witness:
  "ledger_ok with_lunch \<and> map tx_amount (st_transactions with_lunch) = [''12.5''] \<and>
   map tx_category (st_transactions with_lunch) = [Some ''food'']"
proof -
  have "map tx_amount (st_transactions with_lunch) = [''12.5'']" "map tx_category (st_transactions with_lunch) = [Some ''food'']"
    by code_simp+
  then show ?thesis using ledger_well_typed[OF lunch_reached sample_ledger_ok(2,1)] by simp
qed

end
