(* ===== verification/Ledger_Revisions.thy ===== *)
theory Ledger_Revisions
  imports Ledger_Typing
begin

section \<open>Revisions\<close>

text \<open>
  The revision of an account tells its readers whether its list changed: \<open>queued\<close> and \<open>revised\<close> interpret the contract
  \<open>ledger_contract\<close>.
\<close>

definition revised_account :: "store \<Rightarrow> store \<Rightarrow> account \<Rightarrow> account \<Rightarrow> bool" where
  "revised_account s s' x y \<longleftrightarrow> acc_id y = acc_id x \<and> acc_revision x \<le> acc_revision y \<and>
     (acc_id x \<noteq> [] \<and> filter (on_account (acc_id x)) (st_transactions s') \<noteq> filter (on_account (acc_id x)) (st_transactions s) \<longrightarrow>
        acc_revision x < acc_revision y)"

definition revised :: "store \<Rightarrow> store \<Rightarrow> bool" where
  "revised s s' \<longleftrightarrow> list_all2 (revised_account s s') (st_accounts s) (st_accounts s')"

interpretation rv: store_relation revised
proof
  fix s show "revised s s" by (simp add: revised_def list_all2_same revised_account_def)
next
  fix s s' s'' assume "revised s s'" "revised s' s''"
  then show "revised s s''" unfolding revised_def
    by (rule list_all2_trans[rotated]) (auto simp: revised_account_def)
qed

lemma queued_mapped:
  assumes "\<And>x. tx_account (f x) = tx_account x" "\<And>x. tx_recipient (f x) = tx_recipient x" "\<And>x. \<not> c x \<Longrightarrow> f x = x"
    and s': "st_transactions s' = map f (st_transactions s)" "st_accounts s' = st_accounts s"
      "st_pending s' = st_pending s @ touched c (st_transactions s)"
  shows "queued s s'"
proof -
  have "filter (on_account a) (map f (st_transactions s)) = filter (on_account a) (st_transactions s)"
    if "a \<noteq> []" "a \<notin> accounts_of c (st_transactions s)" for a
  proof (rule filter_map_id)
    fix x assume x: "x \<in> set (st_transactions s)" "on_account a x \<or> on_account a (f x)"
    then have "on_account a x" using assms(1,2) by (simp add: on_account_def)
    then have "\<not> c x" using that x(1) by (auto simp: accounts_of_def on_account_def)
    then show "f x = x" by (rule assms(3))
  qed
  then show ?thesis by (auto simp: queued_def s')
qed

lemma queued_templates:
  "qd.obeys (repo_save_recurring rt)" "qd.obeys (repo_replace_recurring_labels j ls)" "qd.obeys (repo_delete_recurring j)"
proof -
  show "qd.obeys (repo_save_recurring rt)" "qd.obeys (repo_replace_recurring_labels j ls)"
    unfolding repo_save_recurring_def repo_replace_recurring_labels_def
    by (intro qd.obeys_update queued_rest; simp)+
  show "qd.obeys (repo_delete_recurring j)"
    unfolding qd.obeys_def
  proof (intro allI impI)
    fix s x s' assume "repo_delete_recurring j s = (Inr x, s')"
    then have s': "s' = s\<lparr>st_pending := st_pending s @ touched (\<lambda>x. tx_recurring x = Some j) (st_transactions s),
        st_recurring := delete_row rt_id j (st_recurring s),
        st_transactions := map (\<lambda>t. t\<lparr>tx_recurring := set_none j (tx_recurring t)\<rparr>) (st_transactions s)\<rparr>"
      by (simp add: repo_delete_recurring_def sbind_Inr_iff bump_where_iff update_store_iff)
    show "queued s s'"
      by (rule queued_mapped[of "\<lambda>t. t\<lparr>tx_recurring := set_none j (tx_recurring t)\<rparr>" "\<lambda>x. tx_recurring x = Some j"])
        (simp_all add: s' set_none_def)
  qed
qed

lemma queued_link_call: "qd.obeys (link_transaction_to_recurring env u i r)"
  unfolding link_transaction_to_recurring_def by (intro obeys_intro)

lemma queued_zero_step: "zero_balance c now acct at d s = (Inr w, s') \<Longrightarrow> queued s s'"
  by (rule qd.obeys_outcome[OF queued_zero(1)])

interpretation revisions: ledger_contract queued revised
proof unfold_locales
  fix s s' assume q: "queued (s\<lparr>st_pending := []\<rparr>) s'"
  have "revised_account s (flush s') x (bump_account (set (st_pending s')) x)" for x
    using q by (auto simp: revised_account_def queued_def bump_account_def)
  then have "list_all2 (revised_account s (flush s')) (st_accounts s) (map (bump_account (set (st_pending s'))) (st_accounts s))"
    by (simp add: list_all2_conv_all_nth)
  then show "revised s (flush s')" using q by (simp add: revised_def flush_accounts queued_def)
next
  fix s s' assume "revised s s'"
  then show "map acc_id (st_accounts s') = map acc_id (st_accounts s)"
    unfolding revised_def by (induction rule: list_all2_induct) (simp_all add: revised_account_def)
qed (rule queued_bodies queued_link_call queued_marks queued_templates queued_zero_step; assumption?)+

lemma list_all2_find:
  "\<lbrakk>list_all2 P xs ys; \<And>x y. P x y \<Longrightarrow> rid y = rid x; find_row rid i xs = Some x; find_row rid i ys = Some y\<rbrakk> \<Longrightarrow> P x y \<and> rid x = i"
  by (induction xs ys rule: list_all2_induct) (auto simp: find_row_def split: if_splits)

lemma balance_on_account:
  assumes "filter (on_account a) txs' = filter (on_account a) txs"
  shows "filter (\<lambda>t. tx_account t = a \<and> P t) txs' = filter (\<lambda>t. tx_account t = a \<and> P t) txs"
    "filter (\<lambda>t. tx_recipient t = Some a \<and> P t) txs' = filter (\<lambda>t. tx_recipient t = Some a \<and> P t) txs"
proof -
  have f: "filter Q txs' = filter Q txs" if "\<And>t. Q t \<Longrightarrow> on_account a t" for Q
  proof -
    have "filter Q zs = filter Q (filter (on_account a) zs)" for zs
      unfolding filter_filter using that by (intro filter_cong) auto
    then show ?thesis using assms by metis
  qed
  show "filter (\<lambda>t. tx_account t = a \<and> P t) txs' = filter (\<lambda>t. tx_account t = a \<and> P t) txs"
    "filter (\<lambda>t. tx_recipient t = Some a \<and> P t) txs' = filter (\<lambda>t. tx_recipient t = Some a \<and> P t) txs"
    by (rule f; simp add: on_account_def)+
qed

text \<open>C5: over any history of ledger calls by any users, an account whose revision is the same at the end as at the
  beginning has the same list of transactions, in the same order, and the same balance at every instant; so a client
  that keeps what it read under a revision never shows a stale list.\<close>

theorem same_revision_same_list:
  assumes "ledger_reaches pf s s'" "find_row acc_id a (st_accounts s) = Some x" "find_row acc_id a (st_accounts s') = Some y"
    and "a \<noteq> []" "acc_revision y = acc_revision x"
  shows "fst (list_by_account a s') = fst (list_by_account a s) \<and> fst (repo_balance a before s') = fst (repo_balance a before s)"
proof -
  have r: "list_all2 (revised_account s s') (st_accounts s) (st_accounts s')"
    using revisions.history[OF assms(1)] by (simp add: revised_def)
  have "revised_account s s' x y \<and> acc_id x = a"
    by (rule list_all2_find[OF r _ assms(2,3)]) (simp add: revised_account_def)
  then have f: "filter (on_account a) (st_transactions s') = filter (on_account a) (st_transactions s)"
    using assms(4,5) by (auto simp: revised_account_def)
  then show ?thesis
    by (simp add: list_by_account_def gets_def repo_balance_def Let_def balance_on_account[OF f] conj_assoc conj_commute[of "_ < before"])
qed

theorem same_revision_same_list_witness:
  "fst (list_by_account ''acc'' with_lunch) \<noteq> fst (list_by_account ''acc'' sample_ledger) \<and>
   map acc_revision (st_accounts sample_ledger) = [0, 0] \<and> map acc_revision (st_accounts with_lunch) = [1, 0] \<and>
   fst (list_by_account ''savings'' with_lunch) = fst (list_by_account ''savings'' sample_ledger)"
proof -
  have "fst (list_by_account ''acc'' with_lunch) \<noteq> fst (list_by_account ''acc'' sample_ledger)"
    "map acc_revision (st_accounts sample_ledger) = [0, 0]" "map acc_revision (st_accounts with_lunch) = [1, 0]"
    "map_option acc_revision (find_row acc_id ''savings'' (st_accounts with_lunch)) = Some 0"
    "map_option acc_revision (find_row acc_id ''savings'' (st_accounts sample_ledger)) = Some 0"
    by code_simp+
  then show ?thesis using same_revision_same_list[OF lunch_reached, of "''savings''"] by auto
qed

end
