(* ===== verification/Ledger_Moves.thy ===== *)
theory Ledger_Moves
  imports Ledger_Typing
begin

section \<open>Moving a transaction\<close>

text \<open>
  The abstract state of an account's day is the list of its transactions from the top down; a move takes one out and puts it
  back directly under its anchor. The concrete state are the sort keys of both sides of every row. \<open>day_list\<close> is the
  abstraction, and the refinement goes through the pairs of id and key a day holds.
\<close>

subsection \<open>Sorted lists of pairs\<close>

lemma sorted_unique:
  assumes "\<And>x y. R x y \<Longrightarrow> \<not> R y x"
  shows "\<lbrakk>sorted_wrt R xs; sorted_wrt R ys; set xs = set ys\<rbrakk> \<Longrightarrow> xs = ys"
proof (induction xs arbitrary: ys)
  case (Cons x xs)
  then obtain y ys' where ys: "ys = y # ys'" by (cases ys) auto
  have "x = y"
  proof (rule ccontr)
    assume "x \<noteq> y"
    then have "y \<in> set xs" "x \<in> set ys'" using Cons.prems(3) ys by auto
    then show False using Cons.prems(1,2) ys assms by auto
  qed
  moreover have "x \<notin> set xs" "y \<notin> set ys'" using Cons.prems(1,2) ys assms by auto
  ultimately have "set xs = set ys'" using Cons.prems(3) ys by auto
  then show ?case using Cons.IH[of ys'] Cons.prems(1,2) ys \<open>x = y\<close> by simp
qed simp

lemma insort_wrt:
  "\<lbrakk>sorted_wrt (\<lambda>a b. f a < f b \<or> f a = f b \<and> R b a) zs; \<forall>z\<in>set zs. R z y\<rbrakk> \<Longrightarrow>
     sorted_wrt (\<lambda>a b. (f a :: 'b::linorder) < f b \<or> f a = f b \<and> R b a) (insort_key f y zs)"
  by (induction zs) (force simp: set_insort_key)+

lemma sort_desc_wrt:
  "sorted_wrt R xs \<Longrightarrow> sorted_wrt (\<lambda>a b. (f b :: 'b::linorder) < f a \<or> f a = f b \<and> R a b) (sort_desc f xs)"
proof (induction xs rule: rev_induct)
  case (snoc y xs)
  then have "sorted_wrt (\<lambda>a b. f a < f b \<or> f a = f b \<and> R b a) (sort_key f (rev xs))"
    by (simp add: sort_desc_def sorted_wrt_rev sorted_wrt_append eq_commute)
  moreover have "\<forall>z\<in>set (sort_key f (rev xs)). R z y" using snoc.prems by (simp add: sorted_wrt_append)
  ultimately have "sorted_wrt (\<lambda>a b. f a < f b \<or> f a = f b \<and> R b a) (insort_key f y (sort_key f (rev xs)))"
    by (rule insort_wrt)
  then show ?case by (simp add: sort_desc_def sorted_wrt_rev eq_commute)
qed (simp add: sort_desc_def)

lemma set_sort_desc [simp]: "set (sort_desc f xs) = set xs"
  by (simp add: sort_desc_def)

definition listed :: "ident \<times> key \<Rightarrow> ident \<times> key \<Rightarrow> bool" where
  "listed p q \<longleftrightarrow> snd q < snd p \<or> snd p = snd q \<and> fst p < fst q"

lemma listed_asym: "listed p q \<Longrightarrow> \<not> listed q p"
  by (auto simp: listed_def)

lemma listed_unique: "\<lbrakk>sorted_wrt listed xs; sorted_wrt listed ys; set xs = set ys\<rbrakk> \<Longrightarrow> xs = ys"
  by (rule sorted_unique[of listed]) (use listed_asym in blast)+

subsection \<open>The abstraction\<close>

definition day_list :: "ident \<Rightarrow> instant \<Rightarrow> store \<Rightarrow> ident list" where
  "day_list a day s =
     (case fst (list_by_account a s) of
        Inl _ \<Rightarrow> [] | Inr ts \<Rightarrow> map tx_id (filter (\<lambda>t. in_day day (tx_spent_at t)) ts))"

definition on_day :: "ident \<Rightarrow> instant \<Rightarrow> transaction \<Rightarrow> bool" where
  "on_day a day t \<longleftrightarrow> on_account a t \<and> in_day day (tx_spent_at t)"

definition places :: "ident \<Rightarrow> instant \<Rightarrow> store \<Rightarrow> (ident \<times> key) set" where
  "places a day s = (\<lambda>t. (tx_id t, side_key a t)) ` {t \<in> set (st_transactions s). on_day a day t}"

lemma day_list_pairs:
  assumes d: "distinct (map tx_id (st_transactions s))"
  shows "\<exists>ps. sorted_wrt listed ps \<and> set ps = places a day s \<and> day_list a day s = map fst ps"
proof -
  let ?rows = "filter (on_account a) (st_transactions s)"
  let ?l = "sort_desc (\<lambda>t. t_days (tx_spent_at t)) (sort_desc (side_key a) (List.sort_key tx_id ?rows))"
  have "distinct (map tx_id ?rows)" using d by (rule distinct_map_filter)
  then have "distinct (map tx_id (List.sort_key tx_id ?rows))" by (simp add: distinct_map)
  then have "sorted_wrt (<) (map tx_id (List.sort_key tx_id ?rows))" by (simp add: strict_sorted_iff)
  then have "sorted_wrt (\<lambda>t u. tx_id t < tx_id u) (List.sort_key tx_id ?rows)" by (simp add: sorted_wrt_map)
  note sorted_wrt_filter[OF sort_desc_wrt[OF sort_desc_wrt[OF this], of "\<lambda>t. t_days (tx_spent_at t)" "side_key a"],
      of "\<lambda>t. in_day day (tx_spent_at t)"]
  then have "sorted_wrt listed (map (\<lambda>t. (tx_id t, side_key a t)) (filter (\<lambda>t. in_day day (tx_spent_at t)) ?l))"
    unfolding sorted_wrt_map by (rule sorted_wrt_mono_rel[rotated]) (auto simp: in_day_iff listed_def)
  moreover have "set (map (\<lambda>t. (tx_id t, side_key a t)) (filter (\<lambda>t. in_day day (tx_spent_at t)) ?l)) = places a day s"
    by (auto simp: places_def on_day_def)
  moreover have "day_list a day s = map fst (map (\<lambda>t. (tx_id t, side_key a t)) (filter (\<lambda>t. in_day day (tx_spent_at t)) ?l))"
    by (simp add: day_list_def list_by_account_def gets_def comp_def)
  ultimately show ?thesis by blast
qed

lemma day_listI:
  assumes d: "distinct (map tx_id (st_transactions s))" and ps: "sorted_wrt listed ps" "set ps = places a day s"
  shows "day_list a day s = map fst ps"
proof -
  obtain qs where "sorted_wrt listed qs" "set qs = places a day s" "day_list a day s = map fst qs"
    using day_list_pairs[OF d] by blast
  then show ?thesis using listed_unique[of qs ps] ps by simp
qed

lemma day_list_cong:
  assumes "distinct (map tx_id (st_transactions s))" "distinct (map tx_id (st_transactions s'))"
    and "{p \<in> places a day s'. P (fst p)} = {p \<in> places a day s. P (fst p)}"
  shows "filter P (day_list a day s') = filter P (day_list a day s)"
proof -
  obtain ps where ps: "sorted_wrt listed ps" "set ps = places a day s" "day_list a day s = map fst ps"
    using day_list_pairs[OF assms(1)] by blast
  obtain qs where qs: "sorted_wrt listed qs" "set qs = places a day s'" "day_list a day s' = map fst qs"
    using day_list_pairs[OF assms(2)] by blast
  have "filter (P \<circ> fst) qs = filter (P \<circ> fst) ps"
    by (rule listed_unique[OF sorted_wrt_filter[OF qs(1)] sorted_wrt_filter[OF ps(1)]]) (use ps(2) qs(2) assms(3) in simp)
  then show ?thesis by (simp add: ps(3) qs(3) filter_map)
qed

lemma day_list_places:
  "\<lbrakk>distinct (map tx_id (st_transactions s)); distinct (map tx_id (st_transactions s')); places a day s' = places a day s\<rbrakk> \<Longrightarrow>
     day_list a day s' = day_list a day s"
  using day_list_cong[of s s' a day "\<lambda>_. True"] by simp

subsection \<open>Rewriting keys\<close>

definition rekeyed :: "(ident \<rightharpoonup> key) \<Rightarrow> (ident \<times> key) set \<Rightarrow> (ident \<times> key) set" where
  "rekeyed m ps = (\<lambda>(j, l). (j, case m j of None \<Rightarrow> l | Some k \<Rightarrow> k)) ` ps"

lemma rekeyed_empty [simp]: "rekeyed Map.empty ps = ps"
  by (simp add: rekeyed_def case_prod_unfold)

lemma rekeyed_twice: "rekeyed m2 (rekeyed m1 ps) = rekeyed (m1 ++ m2) ps"
  unfolding rekeyed_def image_image by (intro image_cong) (auto simp: map_add_def split: option.splits)

lemma rekeyed_other:
  assumes "i \<notin> fst ` A"
  shows "rekeyed [i \<mapsto> k] A = A"
proof -
  have "(case p of (j, l) \<Rightarrow> (j, case [i \<mapsto> k] j of None \<Rightarrow> l | Some k \<Rightarrow> k)) = p" if "p \<in> A" for p
    using that assms by (cases p) (auto simp: image_iff)
  then have "rekeyed [i \<mapsto> k] A = (\<lambda>p. p) ` A" unfolding rekeyed_def by (intro image_cong) simp_all
  then show ?thesis by simp
qed

lemma image_filter_conv: "(\<And>t. P (f t) = P t) \<Longrightarrow> {t \<in> f ` A. P t} = f ` {t \<in> A. P t}"
  by auto

lemma places_set_side_key:
  assumes "set_side_key a i k s = (Inr x, s')"
  shows "places a day s' = rekeyed [i \<mapsto> k] (places a day s) \<and> map tx_id (st_transactions s') = map tx_id (st_transactions s)"
proof -
  let ?f = "\<lambda>x. if tx_id x = i then x\<lparr>tx_sort_key := if tx_account x = a then k else tx_sort_key x,
      tx_recipient_sort_key := if tx_account x \<noteq> a \<and> tx_recipient x = Some a then Some k else tx_recipient_sort_key x\<rparr> else x"
  obtain pend where s': "s' = s\<lparr>st_transactions := map ?f (st_transactions s), st_pending := pend\<rparr>"
    using map_row_pending[OF assms[unfolded set_side_key_def]] by blast
  have f: "tx_id (?f t) = tx_id t" "on_day a day (?f t) = on_day a day t" for t
    by (simp_all add: on_day_def on_account_def)
  have k: "side_key a (?f t) = (if tx_id t = i then k else side_key a t)" if "on_day a day t" for t
    using that by (auto simp: on_day_def on_account_def side_key_def)
  have "{t \<in> set (st_transactions s'). on_day a day t} = ?f ` {t \<in> set (st_transactions s). on_day a day t}"
    using image_filter_conv[of "on_day a day" ?f "set (st_transactions s)", OF f(2)] by (simp add: s')
  then have "places a day s' = (\<lambda>t. (tx_id (?f t), side_key a (?f t))) ` {t \<in> set (st_transactions s). on_day a day t}"
    by (simp only: places_def image_image)
  also have "\<dots> = rekeyed [i \<mapsto> k] (places a day s)"
    unfolding places_def rekeyed_def image_image by (intro image_cong) (simp_all only: f k mem_Collect_eq, auto)
  finally show ?thesis using s' f(1) by (simp add: comp_def)
qed

definition pair :: "placed_row \<Rightarrow> ident \<times> key" where
  "pair r = (pl_id r, pl_key r)"

lemma pair_sel [simp]: "fst (pair r) = pl_id r" "snd (pair r) = pl_key r" "fst \<circ> pair = pl_id"
  by (simp_all add: pair_def comp_def)

lemma split_run_spec:
  assumes "split_run a high prev rows s = (Inr rs, s')" "high \<noteq> []" "distinct (map pl_id rows)"
  shows "map pl_id rs = map pl_id rows \<and> sorted_wrt (<) (prev # map pl_key rs) \<and> (\<forall>r\<in>set rs. pl_key r < high) \<and>
    places a day s' = rekeyed (map_of (map pair rs)) (places a day s) \<and>
    map tx_id (st_transactions s') = map tx_id (st_transactions s)"
  using assms
proof (induction a high prev rows arbitrary: s rs rule: split_run.induct)
  case (1 a high prev)
  then show ?case by (simp add: ret_iff)
next
  case (2 a high prev r rows)
  obtain k s1 s2 rs' where b: "between prev high = Inr k" and k: "set_side_key a (pl_id r) k s = (Inr (), s1)"
    and run: "split_run a high k rows s1 = (Inr rs', s')" and rs: "rs = r\<lparr>pl_key := k\<rparr> # rs'"
    using 2(2) by (auto simp: sbind_Inr_iff lift_iff ret_iff)
  have ih: "map pl_id rs' = map pl_id rows" "sorted_wrt (<) (k # map pl_key rs')" "\<forall>r\<in>set rs'. pl_key r < high"
    "places a day s' = rekeyed (map_of (map pair rs')) (places a day s1)"
    "map tx_id (st_transactions s') = map tx_id (st_transactions s1)"
    using 2(1)[OF run 2(3)] 2(4) by auto
  have bt: "prev < k" "k < high" using between_Inr[OF b] 2(3) by auto
  have "pl_id r \<notin> dom (map_of (map pair rs'))"
    using 2(4) ih(1) by (simp add: dom_map_of_conv_image_fst image_image flip: set_map)
  then have m: "[pl_id r \<mapsto> k] ++ map_of (map pair rs') = map_of (map pair rs)"
    by (auto simp: rs pair_def map_add_def fun_eq_iff domIff split: option.split)
  have p: "places a day s' = rekeyed (map_of (map pair rs)) (places a day s)"
    unfolding ih(4) conjunct1[OF places_set_side_key[OF k, of day]] rekeyed_twice m ..
  have rest: "map pl_id rs = map pl_id (r # rows)" "sorted_wrt (<) (prev # map pl_key rs)" "\<forall>r\<in>set rs. pl_key r < high"
    using ih(1-3) bt by (auto simp: rs)
  have "map tx_id (st_transactions s') = map tx_id (st_transactions s)"
    using ih(5) places_set_side_key[OF k, of day] by simp
  with p rest show ?case by blast
qed


lemma rekeyed_own:
  assumes "inj_on fst ps" "\<And>i k. m i = Some k \<Longrightarrow> (i, k) \<in> ps"
  shows "rekeyed m ps = ps"
proof -
  have "(case p of (j, l) \<Rightarrow> (j, case m j of None \<Rightarrow> l | Some k \<Rightarrow> k)) = p" if p: "p \<in> ps" for p
  proof (cases "m (fst p)")
    case (Some k)
    then have "(fst p, k) = p" using inj_onD[OF assms(1) _ assms(2)[OF Some] p] by simp
    then show ?thesis using Some by (cases p) simp
  qed (simp add: case_prod_unfold)
  then have "rekeyed m ps = (\<lambda>p. p) ` ps" unfolding rekeyed_def by (intro image_cong) simp_all
  then show ?thesis by simp
qed

lemma rekeyed_fst: "fst ` rekeyed m ps = fst ` ps"
  unfolding rekeyed_def image_image by (intro image_cong) (simp_all add: case_prod_unfold)

lemma rekeyed_inj: "inj_on fst ps \<Longrightarrow> inj_on fst (rekeyed m ps)"
  unfolding rekeyed_def inj_on_def by (auto simp: case_prod_unfold)

lemma rekeyed_cover:
  assumes "inj_on fst ps" "fst ` set qs \<subseteq> fst ` ps" "distinct (map fst qs)"
  shows "rekeyed (map_of qs) ps = set qs \<union> {p \<in> ps. fst p \<notin> fst ` set qs}"
proof -
  have "p \<in> rekeyed (map_of qs) ps \<longleftrightarrow> p \<in> set qs \<or> p \<in> ps \<and> fst p \<notin> fst ` set qs" for p
  proof (cases "fst p \<in> fst ` set qs")
    case True
    then obtain k where k: "map_of qs (fst p) = Some k" by (metis map_of_eq_None_iff not_None_eq)
    obtain l where "(fst p, l) \<in> ps" using True assms(2) by force
    then have "(fst p, k) \<in> rekeyed (map_of qs) ps" using k unfolding rekeyed_def by force
    moreover have "k' = k" if "(fst p, k') \<in> rekeyed (map_of qs) ps" for k' using k that by (auto simp: rekeyed_def)
    ultimately have "p \<in> rekeyed (map_of qs) ps \<longleftrightarrow> snd p = k" by (metis prod.collapse)
    moreover have "p \<in> set qs \<longleftrightarrow> snd p = k" using map_of_eq_Some_iff[OF assms(3), of "fst p" "snd p"] k by auto
    ultimately show ?thesis using True by blast
  next
    case False
    then have "map_of qs (fst p) = None" by (simp add: map_of_eq_None_iff)
    then show ?thesis using False by (cases p) (force simp: rekeyed_def)
  qed
  then show ?thesis by blast
qed

lemma set_dropWhile_keys:
  assumes "sorted_wrt (\<lambda>x y. pl_key y \<le> pl_key x) (r # rs)"
  shows "first_key (dropWhile (\<lambda>x. pl_key x = pl_key r) rs) = [] \<and> dropWhile (\<lambda>x. pl_key x = pl_key r) rs = [] \<or>
    first_key (dropWhile (\<lambda>x. pl_key x = pl_key r) rs) < pl_key r"
  using assms
proof (induction rs)
  case (Cons x rs)
  then show ?case by (cases "pl_key x = pl_key r") (auto simp: first_key_def)
qed (simp add: first_key_def)

lemma cover_join:
  assumes "inj_on fst ps" "q \<in> ps" "fst q \<notin> fst ` A" "fst q \<notin> fst ` B" "fst ` A \<inter> fst ` B = {}"
  shows "B \<union> {p \<in> A \<union> {p \<in> ps. fst p \<notin> fst ` A}. fst p \<notin> fst ` B} =
    insert q (A \<union> B) \<union> {p \<in> ps. fst p \<notin> fst ` insert q (A \<union> B)}"
proof -
  have "p = q" if "p \<in> ps" "fst p = fst q" for p using assms(1,2) that by (simp add: inj_on_def)
  then show ?thesis using assms(2-5) by auto
qed

lemma split_ties_spec:
  assumes "split_ties a rows s = (Inr (out, ids), s')" "sorted_wrt (\<lambda>x y. pl_key y \<le> pl_key x) rows"
    "distinct (map pl_id rows)" "\<forall>r\<in>set rows. pl_key r \<noteq> []" "set (map pair rows) \<subseteq> places a day s"
    "inj_on fst (places a day s)"
  shows "map pl_id out = map pl_id rows \<and> first_key out = first_key rows \<and> sorted_wrt (\<lambda>x y. pl_key y < pl_key x) out \<and>
    places a day s' = rekeyed (map_of (map pair out)) (places a day s) \<and>
    map tx_id (st_transactions s') = map tx_id (st_transactions s) \<and> (\<forall>r\<in>set out. pl_key r \<noteq> [])"
  using assms
proof (induction a rows arbitrary: s out ids rule: split_ties.induct)
  case (1 a)
  then show ?case by (simp add: ret_iff first_key_def)
next
  case (2 a r rs)
  let ?P = "places a day s"
  define tied where "tied = takeWhile (\<lambda>x. pl_key x = pl_key r) rs"
  define rest where "rest = dropWhile (\<lambda>x. pl_key x = pl_key r) rs"
  have rs: "rs = tied @ rest" by (simp add: tied_def rest_def)
  obtain split s1 rest' ids' where run: "split_run a (pl_key r) (first_key rest) (rev tied) s = (Inr split, s1)"
    and more: "split_ties a rest s1 = (Inr (rest', ids'), s')" and out: "out = r # rev split @ rest'"
    using 2(2) by (auto simp: Let_def tied_def rest_def sbind_Inr_iff ret_iff)
  have d: "distinct (map pl_id (r # tied @ rest))" using 2(4) rs by simp
  have dr: "distinct (map pl_id (rev tied))" "pl_key r \<noteq> []" using d 2(5) by (simp_all add: rev_map[symmetric])
  have run': "map pl_id split = rev (map pl_id tied)" "sorted_wrt (<) (first_key rest # map pl_key split)"
    "\<forall>x\<in>set split. pl_key x < pl_key r" "places a day s1 = rekeyed (map_of (map pair split)) ?P"
    "map tx_id (st_transactions s1) = map tx_id (st_transactions s)"
    using split_run_spec[OF run dr(2,1), of day] by (simp_all add: rev_map[symmetric])
  have ids: "pl_id ` set split = pl_id ` set tied" using arg_cong[OF run'(1), of set] by simp
  have fst_split: "fst ` set (map pair split) = pl_id ` set split" by (simp add: image_image)
  have dsplit: "distinct (map fst (map pair split))" using d run'(1) by simp
  have "fst ` set (map pair split) \<subseteq> fst ` ?P"
    using 2(6) rs by (simp add: image_image ids) (metis (no_types, lifting) image_mono image_subset_iff pair_sel(1) subset_iff rev_image_eqI)
  note cov = rekeyed_cover[OF 2(7) this dsplit]
  have sub: "set (map pair rest) \<subseteq> places a day s1"
  proof
    fix p assume "p \<in> set (map pair rest)"
    then obtain x where x: "p = pair x" "x \<in> set rest" by auto
    have "pl_id x \<notin> pl_id ` set tied" using d x(2) by auto
    moreover have "p \<in> ?P" using 2(6) rs x by auto
    ultimately show "p \<in> places a day s1" unfolding run'(4) cov fst_split ids by (simp add: x(1))
  qed
  have ih: "map pl_id rest' = map pl_id rest" "first_key rest' = first_key rest"
    "sorted_wrt (\<lambda>x y. pl_key y < pl_key x) rest'" "places a day s' = rekeyed (map_of (map pair rest')) (places a day s1)"
    "map tx_id (st_transactions s') = map tx_id (st_transactions s1)" "\<forall>r\<in>set rest'. pl_key r \<noteq> []"
    using 2(1)[OF tied_def rest_def, of s1] 2(3,5) rs d sub rekeyed_inj[OF 2(7)] more run'(4)
    by (auto simp: sorted_wrt_append)
  have first: "\<forall>x\<in>set rest'. pl_key x \<le> first_key rest"
    using ih(2,3) by (cases rest') (auto simp: first_key_def)
  have strict: "sorted_wrt (\<lambda>x y. pl_key y < pl_key x) out"
  proof -
    have "sorted_wrt (\<lambda>x y. pl_key y < pl_key x) (rev split)"
      using run'(2) by (simp add: sorted_wrt_rev sorted_wrt_map)
    moreover have "pl_key y < pl_key x" if "x \<in> set split" "y \<in> set rest'" for x y
      using that first run'(2) by (auto intro: le_less_trans)
    moreover have "pl_key y < pl_key r" if "y \<in> set rest'" for y
    proof -
      have "rest \<noteq> []" using that ih(1) by auto
      then have "first_key rest < pl_key r" using set_dropWhile_keys[OF 2(3)] rest_def by auto
      then show ?thesis using that first by auto
    qed
    ultimately show ?thesis using ih(3) run'(3) by (auto simp: out sorted_wrt_append)
  qed
  have ids_out: "map pl_id out = map pl_id (r # rs)" using ih(1) run'(1) by (simp add: out rs rev_map[symmetric])
  have fst_rest: "fst ` set (map pair rest') = pl_id ` set rest" using arg_cong[OF ih(1), of set] by (simp add: image_image)
  have "places a day s' = set (map pair rest') \<union> {p \<in> set (map pair split) \<union> {p \<in> ?P. fst p \<notin> fst ` set (map pair split)}.
      fst p \<notin> fst ` set (map pair rest')}"
  proof -
    have "fst ` set (map pair rest') \<subseteq> fst ` places a day s1"
      unfolding fst_rest using image_mono[OF sub, of fst] by (simp add: image_image)
    moreover have "distinct (map fst (map pair rest'))" using d ih(1) by simp
    moreover have "inj_on fst (places a day s1)" unfolding run'(4) by (rule rekeyed_inj[OF 2(7)])
    ultimately show ?thesis unfolding ih(4) using rekeyed_cover run'(4) cov by simp
  qed
  also have "\<dots> = insert (pair r) (set (map pair split) \<union> set (map pair rest')) \<union>
      {p \<in> ?P. fst p \<notin> fst ` insert (pair r) (set (map pair split) \<union> set (map pair rest'))}"
  proof (rule cover_join[OF 2(7)])
    show "pair r \<in> ?P" using 2(6) by simp
    show "fst (pair r) \<notin> fst ` set (map pair split)" "fst (pair r) \<notin> fst ` set (map pair rest')"
      "fst ` set (map pair split) \<inter> fst ` set (map pair rest') = {}"
      unfolding fst_split fst_rest ids using d by auto
  qed
  also have "insert (pair r) (set (map pair split) \<union> set (map pair rest')) = set (map pair out)" by (auto simp: out)
  also have "set (map pair out) \<union> {p \<in> ?P. fst p \<notin> fst ` set (map pair out)} = rekeyed (map_of (map pair out)) ?P"
  proof (rule rekeyed_cover[OF 2(7), symmetric])
    have "pl_id ` set out = pl_id ` set (r # rs)" using arg_cong[OF ids_out, of set] by (simp only: set_map)
    then have "fst ` set (map pair out) = fst ` set (map pair (r # rs))" by (simp add: image_image)
    then show "fst ` set (map pair out) \<subseteq> fst ` ?P" using image_mono[OF 2(6), of fst] by simp
    show "distinct (map fst (map pair out))" using ids_out 2(4) by simp
  qed
  finally have "places a day s' = rekeyed (map_of (map pair out)) ?P" .
  moreover note ids_out
  moreover have "first_key out = first_key (r # rs)" by (simp add: out first_key_def)
  moreover have "\<forall>x\<in>set out. pl_key x \<noteq> []" using dr(2) ih(6) run'(2) by (auto simp: out)
  ultimately show ?case using strict ih(5) run'(5) by simp
qed

subsection \<open>The keys of a day\<close>

lemma fold_update_distinct:
  "distinct (map fst acc @ map fst rows) \<Longrightarrow>
     fold (\<lambda>(i, k). AList.update i (g k)) rows acc = acc @ map (\<lambda>(i, k). (i, g k)) rows"
proof (induction rows arbitrary: acc)
  case (Cons p rows)
  obtain i k where p: "p = (i, k)" by (cases p)
  have "AList.update i v al = al @ [(i, v)]" if "i \<notin> fst ` set al" for v and al :: "('a \<times> 'b) list"
    using that by (induction al) auto
  then have "AList.update i (g k) acc = acc @ [(i, g k)]" using Cons.prems p by auto
  then show ?case using Cons.IH[of "acc @ [(i, g k)]"] Cons.prems p by (simp add: case_prod_unfold)
qed simp

definition one_sided :: "ident \<Rightarrow> store \<Rightarrow> bool" where
  "one_sided a s \<longleftrightarrow> (\<forall>t\<in>set (st_transactions s). tx_account t = a \<longrightarrow> tx_recipient t \<noteq> Some a)"

lemma day_keys_places:
  assumes d: "distinct (map tx_id (st_transactions s))" and o: "one_sided a s" and k: "day_keys a day s = (Inr keys, s')"
  shows "s' = s \<and> distinct (map fst keys) \<and> set keys = places a day s"
proof -
  let ?txs = "st_transactions s"
  let ?A = "filter (\<lambda>t. tx_account t = a \<and> in_day day (tx_spent_at t)) ?txs"
  let ?B = "filter (\<lambda>t. tx_recipient t = Some a \<and> in_day day (tx_spent_at t)) ?txs"
  let ?g = "\<lambda>k. case k of None \<Rightarrow> [] | Some k' \<Rightarrow> k'"
  have inj: "inj_on tx_id (set ?txs)" using d by (simp add: distinct_map)
  have "tx_id t \<noteq> tx_id u" if "t \<in> set ?A" "u \<in> set ?B" for t u
  proof
    assume "tx_id t = tx_id u"
    then have "t = u" using inj that by (auto simp: inj_on_def)
    then show False using that o by (auto simp: one_sided_def)
  qed
  then have "tx_id ` set ?A \<inter> tx_id ` set ?B = {}" by blast
  moreover have "distinct (map tx_id ?A)" "distinct (map tx_id ?B)" using d by (simp_all only: distinct_map_filter)
  ultimately have ds: "distinct (map fst (side_rows a day ?txs))"
    by (simp add: side_rows_def comp_def)
  have keys: "keys = map (\<lambda>(i, k). (i, ?g k)) (side_rows a day ?txs)" "s' = s"
    using k fold_update_distinct[of "[]" "side_rows a day ?txs" ?g] ds by (auto simp: day_keys_def gets_iff)
  have A: "(tx_id t, side_key a t) = (tx_id t, tx_sort_key t)" if "t \<in> set ?A" for t using that by (simp add: side_key_def)
  have B: "(tx_id t, side_key a t) = (tx_id t, ?g (tx_recipient_sort_key t))" if "t \<in> set ?B" for t
    using that o by (auto simp: side_key_def one_sided_def)
  have "set keys = (\<lambda>t. (tx_id t, tx_sort_key t)) ` set ?A \<union> (\<lambda>t. (tx_id t, ?g (tx_recipient_sort_key t))) ` set ?B"
    by (simp only: keys side_rows_def map_append map_map set_append set_map comp_def prod.case option.case)
  also have "\<dots> = (\<lambda>t. (tx_id t, side_key a t)) ` set ?A \<union> (\<lambda>t. (tx_id t, side_key a t)) ` set ?B"
    using A B by (intro arg_cong2[where f = "(\<union>)"] image_cong) simp_all
  also have "\<dots> = places a day s" unfolding places_def image_Un[symmetric]
    by (rule arg_cong[where f = "image _"]) (auto simp: on_day_def on_account_def)
  finally show ?thesis using ds keys by (simp add: comp_def case_prod_unfold)
qed

lemma places_inj: "distinct (map tx_id (st_transactions s)) \<Longrightarrow> inj_on fst (places a day s)"
  by (auto simp: places_def inj_on_def distinct_map)

lemma day_order_listed:
  assumes "distinct (map fst keys)"
  shows "sorted_wrt listed (map pair (day_order keys)) \<and> set (map pair (day_order keys)) = set keys \<and>
    distinct (map pl_id (day_order keys))"
proof -
  let ?rows = "map (\<lambda>(i, k). \<lparr>pl_id = i, pl_key = k\<rparr>) keys"
  have ids: "map pl_id ?rows = map fst keys" by (simp add: comp_def case_prod_unfold)
  have srt: "distinct (map f xs) \<Longrightarrow> distinct (map f (List.sort_key f xs))" for f :: "placed_row \<Rightarrow> ident" and xs
    by (simp add: distinct_map)
  have "distinct (map pl_id ?rows)" unfolding ids by (rule assms)
  then have "distinct (map pl_id (List.sort_key pl_id ?rows))" by (rule srt)
  then have "distinct (map pl_id (day_order keys))" "sorted_wrt (<) (map pl_id (List.sort_key pl_id ?rows))"
    unfolding day_order_def by (simp_all add: strict_sorted_iff) (simp add: distinct_map sort_desc_def)
  note dd = this
  then have "sorted_wrt (\<lambda>x y. pl_id x < pl_id y) (List.sort_key pl_id ?rows)" unfolding sorted_wrt_map by simp
  from sort_desc_wrt[OF this, of pl_key] have "sorted_wrt listed (map pair (day_order keys))"
    unfolding day_order_def sorted_wrt_map by (rule sorted_wrt_mono_rel[rotated]) (auto simp: listed_def)
  moreover have "pair \<lparr>pl_id = i, pl_key = k\<rparr> = (i, k)" for i k by (simp add: pair_def)
  then have "set (map pair (day_order keys)) = set keys"
    by (simp add: day_order_def image_image case_prod_unfold)
  ultimately show ?thesis using dd(1) by blast
qed

lemma listedI: "snd q < snd p \<Longrightarrow> listed p q"
  by (simp add: listed_def)

subsection \<open>Under the anchor\<close>

fun insert_under :: "ident \<Rightarrow> ident \<Rightarrow> ident list \<Rightarrow> ident list" where
  "insert_under anchor i [] = [i]"
| "insert_under anchor i (x # xs) = (if x = anchor then x # i # xs else x # insert_under anchor i xs)"

definition move_under :: "ident \<Rightarrow> ident \<Rightarrow> ident list \<Rightarrow> ident list" where
  "move_under anchor i xs =
     (let others = filter (\<lambda>x. x \<noteq> i) xs in if anchor = [] then i # others else insert_under anchor i others)"

lemma key_below_row_listed:
  assumes "key_below_row rows anchor = Inr k" "sorted_wrt (\<lambda>x y. pl_key y < pl_key x) rows" "\<forall>r\<in>set rows. pl_key r \<noteq> []"
  shows "\<exists>ps. sorted_wrt listed ps \<and> set ps = insert (i, k) (set (map pair rows)) \<and>
    map fst ps = insert_under anchor i (map pl_id rows) \<and> k < first_key rows"
  using assms
proof (induction rows anchor rule: key_below_row.induct)
  case (2 r rs anchor)
  show ?case
  proof (cases "pl_id r = anchor")
    case True
    then have b: "between (first_key rs) (pl_key r) = Inr k" using 2(2) by simp
    have k: "first_key rs < k" "k < pl_key r" using between_Inr[OF b] 2(4) by auto
    have rs: "sorted_wrt listed (map pair rs)"
      using 2(3) by (auto simp: sorted_wrt_map listed_def elim!: sorted_wrt_mono_rel[rotated])
    have lt: "pl_key x < k" if "x \<in> set rs" for x
    proof -
      have "pl_key x \<le> first_key rs" using that 2(3) by (cases rs) (auto simp: first_key_def)
      then show ?thesis using k(1) by simp
    qed
    show ?thesis
      by (rule exI[of _ "pair r # (i, k) # map pair rs"])
        (use True rs lt k(2) 2(3) in \<open>auto simp: first_key_def intro!: listedI intro: less_trans\<close>)
  next
    case False
    obtain ps where ps: "sorted_wrt listed ps" "set ps = insert (i, k) (set (map pair rs))"
      "map fst ps = insert_under anchor i (map pl_id rs)" "k < first_key rs"
      using 2(1)[OF False] 2(2-4) False by auto
    have "rs \<noteq> []" using ps(4) by (auto simp: first_key_def)
    then have "first_key rs < pl_key r" using 2(3) by (cases rs) (auto simp: first_key_def)
    then have "k < pl_key r" using ps(4) by simp
    then show ?thesis
      by (intro exI[of _ "pair r # ps"]) (use False ps 2(3) in \<open>auto simp: first_key_def intro!: listedI\<close>)
  qed
qed simp

lemma key_below_listed:
  assumes "key_below rows anchor = Inr k" "sorted_wrt (\<lambda>x y. pl_key y < pl_key x) rows" "\<forall>r\<in>set rows. pl_key r \<noteq> []"
  shows "\<exists>ps. sorted_wrt listed ps \<and> set ps = insert (i, k) (set (map pair rows)) \<and>
    map fst ps = (if anchor = [] then i # map pl_id rows else insert_under anchor i (map pl_id rows))"
proof (cases "anchor = []")
  case True
  then have b: "between (first_key rows) [] = Inr k" using assms(1) by (simp add: key_below_def)
  have "pl_key x \<le> first_key rows" if "x \<in> set rows" for x using that assms(2) by (cases rows) (auto simp: first_key_def)
  then have "pl_key x < k" if "x \<in> set rows" for x using that between_Inr[OF b] by (auto intro: le_less_trans)
  moreover have "sorted_wrt listed (map pair rows)"
    using assms(2) by (auto simp: sorted_wrt_map listed_def elim!: sorted_wrt_mono_rel[rotated])
  ultimately show ?thesis using True by (intro exI[of _ "(i, k) # map pair rows"]) (auto intro!: listedI)
next
  case False
  then show ?thesis using key_below_row_listed[of rows anchor k i] assms by (auto simp: key_below_def)
qed

subsection \<open>Taking a place\<close>

lemma take_place_spec:
  assumes run: "take_place a day anchor t s = (Inr y, s')" and d: "distinct (map tx_id (st_transactions s))"
    and o: "one_sided a s" and ne: "\<forall>p\<in>places a day s. snd p \<noteq> []" and t: "(tx_id t, k0) \<in> places a day s"
  shows "day_list a day s' = move_under anchor (tx_id t) (day_list a day s)"
proof -
  let ?i = "tx_id t" and ?P = "places a day s"
  obtain keys0 where dk: "day_keys a day s = (Inr keys0, s)"
    by (simp add: day_keys_def gets_def)
  let ?keys = "filter (\<lambda>(j, _). j \<noteq> ?i) keys0" and ?rows = "day_order (filter (\<lambda>(j, _). j \<noteq> ?i) keys0)"
  have keys0: "distinct (map fst keys0)" "set keys0 = ?P" using day_keys_places[OF d o dk] by auto
  have keys: "distinct (map fst ?keys)" "set ?keys = {p \<in> ?P. fst p \<noteq> ?i}"
    using keys0 by (auto simp: distinct_map_filter)
  obtain out ids s1 k s2 where st: "split_ties a ?rows s = (Inr (out, ids), s1)" and kb: "key_below out anchor = Inr k"
    and sk: "set_side_key a ?i k s1 = (Inr (), s2)" and s': "s' = s2"
    using run dk by (auto simp: take_place_def sbind_Inr_iff Let_def lift_iff ret_iff fail_iff split: if_splits prod.splits)
  note ro = day_order_listed[OF keys(1)]
  have rows: "set (map pair ?rows) = {p \<in> ?P. fst p \<noteq> ?i}" using ro keys(2) by simp
  have inj: "inj_on fst ?P" by (rule places_inj[OF d])
  have dr: "distinct (map pl_id ?rows)" using ro by blast
  have lst: "sorted_wrt listed (map pair ?rows)" using ro by blast
  have desc: "sorted_wrt (\<lambda>x y. pl_key y \<le> pl_key x) ?rows"
    using lst unfolding sorted_wrt_map by (rule sorted_wrt_mono_rel[rotated]) (auto simp: listed_def)
  have nr: "\<forall>r\<in>set ?rows. pl_key r \<noteq> []"
  proof
    fix r assume "r \<in> set ?rows"
    then have "pair r \<in> ?P" using rows by auto
    then show "pl_key r \<noteq> []" using ne by fastforce
  qed
  have sub: "set (map pair ?rows) \<subseteq> ?P" unfolding rows by blast
  have sp: "map pl_id out = map pl_id ?rows" "sorted_wrt (\<lambda>x y. pl_key y < pl_key x) out" "\<forall>r\<in>set out. pl_key r \<noteq> []"
    "places a day s1 = rekeyed (map_of (map pair out)) ?P" "map tx_id (st_transactions s1) = map tx_id (st_transactions s)"
    using split_ties_spec[OF st desc dr nr sub inj] by auto
  have fst_out: "fst ` set (map pair out) = {j \<in> fst ` ?P. j \<noteq> ?i}"
  proof -
    have "fst ` set (map pair out) = pl_id ` set ?rows" using arg_cong[OF sp(1), of set] by (simp add: image_image)
    also have "\<dots> = fst ` set (map pair ?rows)" by (simp add: image_image)
    finally show ?thesis unfolding rows by force
  qed
  have only: "p = (?i, k0)" if "p \<in> ?P" "fst p = ?i" for p using inj_onD[OF inj _ that(1) t] that(2) by simp
  have "places a day s1 = set (map pair out) \<union> {p \<in> ?P. fst p \<notin> fst ` set (map pair out)}"
    unfolding sp(4) by (rule rekeyed_cover[OF inj]) (use fst_out sp(1) dr in auto)
  also have "{p \<in> ?P. fst p \<notin> fst ` set (map pair out)} = {p \<in> ?P. fst p = ?i}" unfolding fst_out by blast
  also have "{p \<in> ?P. fst p = ?i} = {(?i, k0)}"
  proof (rule set_eqI)
    fix p show "p \<in> {p \<in> ?P. fst p = ?i} \<longleftrightarrow> p \<in> {(?i, k0)}"
      unfolding mem_Collect_eq singleton_iff using only[of p] t by (metis fst_conv)
  qed
  finally have p1: "places a day s1 = insert (?i, k0) (set (map pair out))" by simp
  have "places a day s' = rekeyed [?i \<mapsto> k] (places a day s1)" and ids: "map tx_id (st_transactions s') = map tx_id (st_transactions s1)"
    using places_set_side_key[OF sk] s' by auto
  moreover have "rekeyed [?i \<mapsto> k] (set (map pair out)) = set (map pair out)"
    by (rule rekeyed_other) (simp only: fst_out, blast)
  moreover have "rekeyed [?i \<mapsto> k] (insert (?i, k0) A) = insert (?i, k) (rekeyed [?i \<mapsto> k] A)" for A
    by (simp add: rekeyed_def)
  ultimately have p2: "places a day s' = insert (?i, k) (set (map pair out))"
    unfolding p1 by (simp only:)
  obtain ps where ps: "sorted_wrt listed ps" "set ps = insert (?i, k) (set (map pair out))"
    "map fst ps = (if anchor = [] then ?i # map pl_id out else insert_under anchor ?i (map pl_id out))"
    using key_below_listed[OF kb sp(2,3)] by blast
  have "distinct (map tx_id (st_transactions s'))" using ids sp(5) d by simp
  from day_listI[OF this ps(1)] have new: "day_list a day s' = map fst ps" using ps(2) p2 by simp
  note ro0 = day_order_listed[OF keys0(1)]
  have "day_list a day s = map fst (map pair (day_order keys0))"
    using day_listI[OF d, of "map pair (day_order keys0)" a day] ro0 keys0(2) by simp
  moreover have "filter (\<lambda>p. fst p \<noteq> ?i) (map pair (day_order keys0)) = map pair ?rows"
    by (rule listed_unique[OF sorted_wrt_filter lst]) (use ro0 rows keys0(2) in auto)
  ultimately have "filter (\<lambda>j. j \<noteq> ?i) (day_list a day s) = map fst (map pair ?rows)"
    by (metis (no_types, lifting) filter_map comp_def filter_cong)
  then have "filter (\<lambda>j. j \<noteq> ?i) (day_list a day s) = map pl_id out" by (simp add: sp(1))
  then show ?thesis by (simp add: new ps(3) move_under_def)
qed

subsection \<open>The other account of a transfer\<close>

definition others_kept :: "ident \<Rightarrow> store \<Rightarrow> store \<Rightarrow> bool" where
  "others_kept a s s' \<longleftrightarrow> map tx_id (st_transactions s') = map tx_id (st_transactions s) \<and>
     (\<forall>b day. b \<noteq> a \<longrightarrow> places b day s' = places b day s)"

interpretation ot: store_relation "others_kept a" for a
  by unfold_locales (auto simp: others_kept_def)

lemma others_set_side_key [obeys_intro]: "ot.obeys a (set_side_key a i k)"
  unfolding ot.obeys_def
proof (intro allI impI)
  fix s x s' assume run: "set_side_key a i k s = (Inr x, s')"
  let ?f = "\<lambda>x. if tx_id x = i then x\<lparr>tx_sort_key := if tx_account x = a then k else tx_sort_key x,
      tx_recipient_sort_key := if tx_account x \<noteq> a \<and> tx_recipient x = Some a then Some k else tx_recipient_sort_key x\<rparr> else x"
  obtain pend where s': "s' = s\<lparr>st_transactions := map ?f (st_transactions s), st_pending := pend\<rparr>"
    using map_row_pending[OF run[unfolded set_side_key_def]] by blast
  have "places b day s' = places b day s" if "b \<noteq> a" for b day
  proof -
    have f: "tx_id (?f t) = tx_id t" "on_day b day (?f t) = on_day b day t" for t
      by (simp_all add: on_day_def on_account_def)
    have k: "side_key b (?f t) = side_key b t" if "on_day b day t" for t
      using that \<open>b \<noteq> a\<close> by (auto simp: on_day_def on_account_def side_key_def)
    have "{t \<in> set (st_transactions s'). on_day b day t} = ?f ` {t \<in> set (st_transactions s). on_day b day t}"
      using image_filter_conv[of "on_day b day" ?f "set (st_transactions s)", OF f(2)] by (simp add: s')
    then have "places b day s' = (\<lambda>t. (tx_id (?f t), side_key b (?f t))) ` {t \<in> set (st_transactions s). on_day b day t}"
      by (simp only: places_def image_image)
    also have "\<dots> = places b day s"
      unfolding places_def by (intro image_cong) (simp_all only: f k mem_Collect_eq)
    finally show ?thesis .
  qed
  then show "others_kept a s s'" by (simp add: others_kept_def s' comp_def if_distrib cong: if_cong)
qed

lemma others_day_keys [obeys_intro]: "ot.obeys a (day_keys b day)"
  by (simp add: ot.obeys_read_only)

lemmas [obeys_intro] = ot.obeys_rules

lemma others_split_run [obeys_intro]: "ot.obeys a (split_run a high prev rows)"
  by (induction a high prev rows rule: split_run.induct) (auto intro!: obeys_intro)

lemma others_split_ties [obeys_intro]: "ot.obeys a (split_ties a rows)"
proof (induction a rows rule: split_ties.induct)
  case (2 a r rs)
  then show ?case by (auto simp: Let_def intro!: obeys_intro)
qed (simp add: obeys_intro)

lemma others_take_place: "ot.obeys a (take_place a day anchor t)"
  unfolding take_place_def Let_def by (intro obeys_intro)

subsection \<open>To another day\<close>

lemma zero_alive:
  assumes "zero_deleted env p at d s = (Inr x, s')" "\<forall>acc\<in>set (st_accounts s). acc_deleted acc \<longrightarrow> acc_id acc \<noteq> p"
  shows "s' = s"
proof -
  obtain acct w where a: "find_row acc_id p (st_accounts s) = Some acct"
    and z: "(if \<not> acc_deleted acct then ret False
       else zero_balance (ce_correction_id env p) (ce_zero_now env p) acct at d) s = (Inr w, s')"
    using assms(1) by (auto simp: zero_deleted_def zero_if_deleted_def act_iff)
  have "\<not> acc_deleted acct" using find_row_Some[OF a] assms(2) by auto
  then show ?thesis using z by (simp add: ret_iff)
qed

lemma zero_all_alive:
  assumes "for_each ps (\<lambda>p. zero_deleted env p at d) s = (Inr x, s')"
    and "\<forall>p\<in>set ps. \<forall>acc\<in>set (st_accounts s). acc_deleted acc \<longrightarrow> acc_id acc \<noteq> p"
  shows "s' = s"
  using assms
proof (induction ps)
  case (Cons p ps)
  then obtain s1 where "zero_deleted env p at d s = (Inr (), s1)" "for_each ps (\<lambda>p. zero_deleted env p at d) s1 = (Inr x, s')"
    by (auto simp: sbind_Inr_iff)
  then show ?case using zero_alive[of env p at d s "()" s1] Cons by auto
qed (simp add: ret_iff)

lemma moved_spent: "t_days (tx_spent_at (moved_state day t)) = t_days day"
proof -
  obtain y m d where td: "t_date day = (y, m, d)" using prod_cases3 by blast
  obtain hh mi ss where tc: "t_clock (tx_spent_at t) = (hh, mi, ss)" using prod_cases3 by blast
  have "days_of y m d = t_days day" using civil_of_days_valid(2) td by (simp add: t_date_def)
  then show ?thesis using t_clock_go_date(1)[OF t_clock_bounds[OF tc], of 0 y m d] td tc by (simp add: moved_state_def)
qed

lemma move_to_day_rows:
  assumes run: "move_to_day env u t day s = (Inr t', s')" and x: "find_row tx_id (tx_id t) (st_transactions s) = Some x"
    "t = x\<lparr>tx_labels := []\<rparr>"
    and alive: "\<forall>p\<in>set (party_set x). \<forall>acc\<in>set (st_accounts s). acc_deleted acc \<longrightarrow> acc_id acc \<noteq> p"
    and shape: "transaction_shape x"
  shows "st_transactions s' = map (\<lambda>y. if tx_id y = tx_id t then stored_over t' y else y) (st_transactions s) \<and>
    tx_id t' = tx_id x \<and> tx_account t' = tx_account x \<and> tx_recipient t' = tx_recipient x \<and> t_days (tx_spent_at t') = t_days day"
proof -
  obtain s2 s3 where
    w: "with_error cannot_move (for_each (party_set t) (\<lambda>p. check_write_access u p account_not_available)) s = (Inr (), s2)"
    and save: "repo_save_transaction (update_transaction (moved_state day t) (ce_now env) t) s2 = (Inr t', s3)"
    and z: "for_each (party_set t') (\<lambda>p. zero_deleted env p (tx_spent_at t') correctionEditedTx) s3 = (Inr (), s')"
    using run unfolding move_to_day_def by (auto simp: sbind_Inr_iff ret_iff)
  have "read_only (with_error cannot_move (for_each (party_set t) (\<lambda>p. check_write_access u p account_not_available)))"
    by (intro read_only_with_error read_only_for_each read_only_write_access)
  from read_only_outcome[OF this w] have s2: "s2 = s" .
  obtain pend where p: "placed (update_transaction (moved_state day t) (ce_now env) t) t'"
    and s3: "s3 = s\<lparr>st_transactions := put_transaction t' (st_transactions s), st_pending := pend\<rparr>"
    using save_pending[OF save[unfolded s2]] by blast
  have t': "tx_id t' = tx_id x" "tx_account t' = tx_account x" "tx_recipient t' = tx_recipient x"
    "t_days (tx_spent_at t') = t_days day"
    using p shape moved_spent[of day t] by (auto simp: update_transaction_sel x(2) transaction_shape_def split: if_splits)
  have "party_set t' = party_set x" using t'(2,3) by (simp add: party_set_def)
  then have "s' = s3" using zero_all_alive[OF z] alive by (simp add: s3)
  moreover have "tx_id t' \<in> tx_id ` set (st_transactions s)" using row_exists[OF x(1)] t'(1) x(2) by simp
  ultimately show ?thesis using t' x(2) by (simp add: s3 put_transaction_def)
qed

lemma rekeyed_row_places:
  assumes "st_transactions s' = map (\<lambda>y. if tx_id y = i then f y else y) (st_transactions s)" "\<And>y. tx_id y = i \<Longrightarrow> tx_id (f y) = i"
  shows "{p \<in> places a day s'. fst p \<noteq> i} = {p \<in> places a day s. fst p \<noteq> i}"
proof -
  have "{p \<in> places a day s. fst p \<noteq> i} = (\<lambda>t. (tx_id t, side_key a t)) ` {t \<in> set (st_transactions s). tx_id t \<noteq> i \<and> on_day a day t}"
    for s
  proof -
    have "{p \<in> f ` A. fst p \<noteq> i} = f ` {t \<in> A. fst (f t) \<noteq> i}" for f :: "transaction \<Rightarrow> ident \<times> key" and A by blast
    then show ?thesis unfolding places_def by (simp add: conj_ac)
  qed
  moreover have "{t \<in> set (st_transactions s'). tx_id t \<noteq> i \<and> on_day a day t} = {t \<in> set (st_transactions s). tx_id t \<noteq> i \<and> on_day a day t}"
    using assms(2) unfolding assms(1) by (auto split: if_splits)
  ultimately show ?thesis by simp
qed

lemma places_nonempty: "ledger_ok s \<Longrightarrow> \<forall>p\<in>places a day s. snd p \<noteq> []"
  by (auto simp: places_def ledger_ok_def typed_row_def keyed_def transaction_shape_def on_day_def on_account_def side_key_def
      split: option.splits if_splits)

lemma day_list_flush [simp]: "day_list a day (flush s) = day_list a day s"
  by (simp add: day_list_def list_by_account_def gets_def)

lemma move_body_spec:
  assumes run: "move_body env u i a day anchor req s = (Inr y, s')"
    and day: "parse_date (mv_date req) = Some day" and ok: "ledger_ok s" "distinct (map category_id (st_categories s))"
    and o: "one_sided a s"
    and years: "\<forall>t\<in>set (st_transactions s). 0 \<le> fst (t_date (tx_spent_at t)) \<and> fst (t_date (tx_spent_at t)) < 10000"
    and alive: "\<forall>t\<in>set (st_transactions s). tx_id t = i \<longrightarrow>
      (\<forall>p\<in>set (party_set t). \<forall>acc\<in>set (st_accounts s). acc_deleted acc \<longrightarrow> acc_id acc \<noteq> p)"
  shows "day_list a day s' = move_under anchor i (day_list a day s) \<and>
    (mv_from_date req = mv_date req \<longrightarrow> (\<forall>b d. b \<noteq> a \<longrightarrow> day_list b d s' = day_list b d s))"
proof (rule move_bodyE[OF run])
  fix x t' :: transaction and s2
  let ?t = "x\<lparr>tx_labels := []\<rparr>"
  assume x: "find_row tx_id i (st_transactions s) = Some x" and on: "on_account a x"
    and fmt: "format_date (tx_spent_at x) = mv_from_date req"
    and m: "(if mv_from_date req \<noteq> mv_date req then move_to_day env u ?t day else ret ?t) s = (Inr t', s2)"
    and tp: "take_place a day anchor t' s2 = (Inr y, s')"
  have xs: "x \<in> set (st_transactions s)" "tx_id x = i" using find_row_Some[OF x] by auto
  have d: "distinct (map tx_id (st_transactions s))" and tx: "typed_row s x" using ok xs(1) by (auto simp: ledger_ok_def)
  have 2: "tx_id t' = i \<and> ledger_ok s2 \<and> one_sided a s2 \<and> (\<exists>k. (i, k) \<in> places a day s2) \<and>
      {p \<in> places a day s2. fst p \<noteq> i} = {p \<in> places a day s. fst p \<noteq> i} \<and> (mv_from_date req = mv_date req \<longrightarrow> s2 = s)"
  proof (cases "mv_from_date req = mv_date req")
    case True
    then have s2: "s2 = s" "t' = ?t" using m by (simp_all add: ret_iff)
    obtain yy mm dd where td: "t_date (tx_spent_at x) = (yy, mm, dd)" using prod_cases3 by blast
    have "day = t_days (tx_spent_at x) * day_ns"
      using parse_date_format[OF td] years xs(1) td fmt True day by fastforce
    then have "in_day day (tx_spent_at x)" by (simp add: in_day_iff)
    then have "(i, side_key a x) \<in> places a day s" using xs on by (auto simp: places_def on_day_def)
    then show ?thesis using s2 ok o xs(2) by auto
  next
    case False
    then have mv: "move_to_day env u ?t day s = (Inr t', s2)" using m by simp
    have fx: "find_row tx_id (tx_id ?t) (st_transactions s) = Some x" using x xs(2) by simp
    have rows: "st_transactions s2 = map (\<lambda>y. if tx_id y = i then stored_over t' y else y) (st_transactions s)"
      and t': "tx_id t' = i" "tx_account t' = tx_account x" "tx_recipient t' = tx_recipient x" "t_days (tx_spent_at t') = t_days day"
      using move_to_day_rows[OF mv fx refl] alive xs tx by (auto simp: typed_row_def)
    have "ledger_ok s2" using types_move_to_day[OF mv fx refl] ok by (simp add: types_kept_def)
    moreover have "one_sided a s2"
      using o xs(1) unfolding one_sided_def rows by (auto simp: stored_over_def t' split: if_splits)
    moreover have "stored_over t' x \<in> set (st_transactions s2)" unfolding rows using xs by (auto intro!: rev_image_eqI[OF xs(1)])
    then have "(i, side_key a (stored_over t' x)) \<in> places a day s2"
      using on t' by (auto simp: places_def on_day_def on_account_def in_day_iff stored_over_def intro!: rev_image_eqI)
    moreover have "{p \<in> places a day s2. fst p \<noteq> i} = {p \<in> places a day s. fst p \<noteq> i}"
      by (rule rekeyed_row_places[OF rows]) (simp add: stored_over_def t')
    ultimately show ?thesis using False t'(1) by blast
  qed
  have d2: "distinct (map tx_id (st_transactions s2))" using 2 by (simp add: ledger_ok_def)
  obtain k where "(tx_id t', k) \<in> places a day s2" using 2 by blast
  then have "day_list a day s' = move_under anchor (tx_id t') (day_list a day s2)"
    using take_place_spec[OF tp d2 _ places_nonempty] 2 by blast
  also have "\<dots> = move_under anchor i (day_list a day s)"
    using day_list_cong[OF d d2, of a day "\<lambda>j. j \<noteq> i"] 2 by (simp add: move_under_def)
  finally have 3: "day_list a day s' = move_under anchor i (day_list a day s)" .
  have ot: "others_kept a s2 s'" by (rule ot.obeys_outcome[OF others_take_place tp])
  then have "distinct (map tx_id (st_transactions s'))" using d2 by (simp add: others_kept_def)
  then have "day_list b e s' = day_list b e s2" if "b \<noteq> a" for b e
    using day_list_places[OF d2, of s' b e] ot that by (simp add: others_kept_def)
  then show ?thesis using 3 2 by auto
qed

text \<open>C4: moving a transaction implements the move of an element of a list. On the list of the account's day (the rows of
  \<open>list_by_account\<close> of that day, from the top), a successful \<open>MoveTransaction\<close> takes the row out, if it is there, and
  puts it directly under the anchor, or on top without one, every other row keeping its place, whatever ties among the keys
  had to be split; a move within the day leaves every list of every other account as it is. Transfers of the account to
  itself are excluded, so are years outside 0 to 9999 and rows on a deleted account, whose balance the move corrects with a
  further row.\<close>

theorem move_refines_list_move:
  assumes "move_transaction pf env u req s = (Inr ids, s')" "pf_uuid pf (mv_id req) = Some i" "pf_uuid pf (mv_account req) = Some a"
    and "parse_date (mv_date req) = Some day" "ledger_ok s" "distinct (map category_id (st_categories s))" "one_sided a s"
    and "\<forall>t\<in>set (st_transactions s). 0 \<le> fst (t_date (tx_spent_at t)) \<and> fst (t_date (tx_spent_at t)) < 10000"
    and "\<forall>t\<in>set (st_transactions s). tx_id t = i \<longrightarrow>
      (\<forall>p\<in>set (party_set t). \<forall>acc\<in>set (st_accounts s). acc_deleted acc \<longrightarrow> acc_id acc \<noteq> p)"
  shows "day_list a day s' = move_under (or_empty (mv_above req)) i (day_list a day s) \<and>
    (mv_from_date req = mv_date req \<longrightarrow> (\<forall>b d. b \<noteq> a \<longrightarrow> day_list b d s' = day_list b d s))"
proof -
  let ?s = "s\<lparr>st_pending := []\<rparr>"
  obtain s1 where b: "move_body env u i a day (or_empty (mv_above req)) req ?s = (Inr ids, s1)" and s': "s' = flush s1"
    using assms(1-4) by (auto simp: move_transaction_def Let_def sbind_Inr_iff lift_iff parse_id_def with_tx_Inr_iff fail_iff
        split: if_splits)
  have "ledger_ok ?s = ledger_ok s" unfolding ledger_ok_def using typed_row_cong[of ?s s] by (simp add: same_books_def)
  moreover have "day_list b e ?s = day_list b e s" for b e by (simp add: day_list_def list_by_account_def gets_def)
  ultimately show ?thesis
    using move_body_spec[OF b assms(4)] assms(5-9) by (simp add: s' one_sided_def)
qed

lemmas [code] = in_day_iff

definition coffee :: transaction_request where
  "coffee = lunch\<lparr>tr_id := ''op2'', tr_amount := ''3'', tr_date := ''2024-05-17 15:00:00''\<rparr>"

definition coffee_env :: call_env where
  "coffee_env = sample_env\<lparr>ce_new_id := ''t2''\<rparr>"

definition two_rows :: store where
  "two_rows = snd (ledger_perform sample_platform coffee_env ''ann'' (CreateTransaction coffee) with_lunch)"

definition coffee_below :: move_transaction_request where
  "coffee_below = \<lparr>mv_id = ''t2'', mv_account = ''acc'', mv_from_date = ''2024-05-17'', mv_date = ''2024-05-17'', mv_above = Some ''t1''\<rparr>"

definition may_17 :: instant where
  "may_17 = go_date 2024 5 17 0 0 0 0"

lemma two_rows_ok: "ledger_ok two_rows" "distinct (map category_id (st_categories two_rows))"
proof -
  have "ledger_reaches sample_platform with_lunch two_rows"
    unfolding two_rows_def by (rule ledger_reaches.more[OF ledger_reaches.start, of _ coffee_env "''ann''" "CreateTransaction coffee" _ "fst (ledger_perform sample_platform coffee_env ''ann'' (CreateTransaction coffee) with_lunch)"]) simp
  from typing.history[OF this] typing.history[OF lunch_reached] sample_ledger_ok
  show "ledger_ok two_rows" "distinct (map category_id (st_categories two_rows))"
    by (simp_all add: typing_kept_def)
qed

theorem move_refines_list_move_witness:
  "\<exists>ids s'. move_transaction sample_platform coffee_env ''ann'' coffee_below two_rows = (Inr ids, s') \<and>
     day_list ''acc'' may_17 two_rows = [''t2'', ''t1''] \<and> day_list ''acc'' may_17 s' = [''t1'', ''t2'']"
proof -
  let ?m = "move_transaction sample_platform coffee_env ''ann'' coffee_below two_rows"
  have "\<not> isl (fst ?m)" by code_simp
  then obtain ids s' where m: "?m = (Inr ids, s')" by (cases ?m; cases "fst ?m") auto
  have l: "day_list ''acc'' may_17 two_rows = [''t2'', ''t1'']" by code_simp
  have 1: "pf_uuid sample_platform (mv_id coffee_below) = Some ''t2''" "pf_uuid sample_platform (mv_account coffee_below) = Some ''acc''"
    "parse_date (mv_date coffee_below) = Some may_17" "or_empty (mv_above coffee_below) = ''t1''" by code_simp+
  have 2: "one_sided ''acc'' two_rows" 
      "\<forall>t\<in>set (st_transactions two_rows). 0 \<le> fst (t_date (tx_spent_at t)) \<and> fst (t_date (tx_spent_at t)) < 10000"
      "\<forall>t\<in>set (st_transactions two_rows). tx_id t = ''t2'' \<longrightarrow>
      (\<forall>p\<in>set (party_set t). \<forall>acc\<in>set (st_accounts two_rows). acc_deleted acc \<longrightarrow> acc_id acc \<noteq> p)" by code_simp+
  from move_refines_list_move[OF m 1(1-3) two_rows_ok 2] show ?thesis
    using m l 1(4) by (simp add: move_under_def)
qed

end
