(* ===== verification/Account_Requests.thy ===== *)
theory Account_Requests
  imports Ledger_Requests
begin

section \<open>Requests of the account module\<close>

text \<open>
  \<open>internal/model/account_dto.go\<close>: the request records with their \<open>Validate\<close> methods and the account as the module
  shows it. A request with one field is that field; a \<open>vo.FlexString\<close> is its string. The owner, currency and user
  embeds of a result are the ids they are looked up by.
\<close>

record create_account_request =
  car_id :: string
  car_name :: string
  car_currency :: string
  car_balance :: string
  car_icon :: string
  car_folder :: string

definition validate_create_account :: "create_account_request \<Rightarrow> unit result" where
  "validate_create_account r =
     check_not_blank [(''id'', car_id r), (''name'', car_name r), (''currencyId'', car_currency r), (''icon'', car_icon r)]"

record update_account_request =
  uar_id :: string
  uar_name :: string
  uar_balance :: string
  uar_icon :: string
  uar_currency :: "string option"
  uar_updated :: string

definition validate_update_account :: "update_account_request \<Rightarrow> unit result" where
  "validate_update_account r =
     check_not_blank [(''id'', uar_id r), (''name'', uar_name r), (''icon'', uar_icon r), (''updatedAt'', uar_updated r)]"

definition validate_delete_account :: "string \<Rightarrow> unit result" where
  "validate_delete_account i = check_not_blank [(''id'', i)]"

record move_account_request =
  mar_id :: string
  mar_after :: "string option"
  mar_folder :: "string option"

definition check_opt_id :: "(string \<Rightarrow> ident option) \<Rightarrow> string option \<Rightarrow> unit result" where
  "check_opt_id uuid q = (case q of None \<Rightarrow> Inr () | Some v \<Rightarrow> rbind (parse_id uuid v) (\<lambda>_. Inr ()))"

definition validate_move_account :: "(string \<Rightarrow> ident option) \<Rightarrow> move_account_request \<Rightarrow> unit result" where
  "validate_move_account uuid r =
     rbind (parse_id uuid (mar_id r)) (\<lambda>_. rbind (check_opt_id uuid (mar_after r)) (\<lambda>_. check_opt_id uuid (mar_folder r)))"

definition validate_create_folder :: "string \<Rightarrow> unit result" where
  "validate_create_folder name = check_not_blank [(''name'', name)]"

record update_folder_request =
  ufr_id :: string
  ufr_name :: string

definition validate_update_folder :: "update_folder_request \<Rightarrow> unit result" where
  "validate_update_folder r = check_not_blank [(''id'', ufr_id r), (''name'', ufr_name r)]"

definition validate_hide_folder :: "string \<Rightarrow> unit result" where
  "validate_hide_folder i = check_not_blank [(''id'', i)]"

definition validate_show_folder :: "string \<Rightarrow> unit result" where
  "validate_show_folder i = check_not_blank [(''id'', i)]"

record replace_folder_request =
  rfr_id :: string
  rfr_replace :: string

definition validate_replace_folder :: "replace_folder_request \<Rightarrow> unit result" where
  "validate_replace_folder r = check_not_blank [(''id'', rfr_id r), (''replaceId'', rfr_replace r)]"

record move_folder_request =
  mfr_id :: string
  mfr_after :: "string option"

definition validate_move_account_folder :: "(string \<Rightarrow> ident option) \<Rightarrow> move_folder_request \<Rightarrow> unit result" where
  "validate_move_account_folder uuid r = rbind (parse_id uuid (mfr_id r)) (\<lambda>_. check_opt_id uuid (mfr_after r))"

record grant_access_request =
  gar_account :: string
  gar_user :: string
  gar_role :: string

definition validate_grant_access :: "grant_access_request \<Rightarrow> unit result" where
  "validate_grant_access r = check_not_blank [(''accountId'', gar_account r), (''userId'', gar_user r), (''role'', gar_role r)]"

record accept_access_request =
  aar_account :: string
  aar_folder :: string

definition validate_accept_access :: "accept_access_request \<Rightarrow> unit result" where
  "validate_accept_access r = check_not_blank [(''accountId'', aar_account r)]"

definition validate_decline_access :: "string \<Rightarrow> unit result" where
  "validate_decline_access i = check_not_blank [(''accountId'', i)]"

record revoke_access_request =
  var_account :: string
  var_user :: string

definition validate_revoke_access :: "revoke_access_request \<Rightarrow> unit result" where
  "validate_revoke_access r = check_not_blank [(''accountId'', var_account r), (''userId'', var_user r)]"

subsection \<open>Results\<close>

record shared_access =
  sa_user :: ident
  sa_role :: string
  sa_accepted :: int

record account_result =
  ar_id :: ident
  ar_owner :: ident
  ar_folder :: "ident option"
  ar_name :: string
  ar_position :: nat
  ar_currency :: ident
  ar_balance :: string
  ar_type :: int
  ar_icon :: string
  ar_shared :: "shared_access list"
  ar_revision :: int
  ar_count :: int

record folder_result =
  fr_id :: ident
  fr_name :: string
  fr_position :: nat
  fr_visible :: int

end
