(* ===== verification/Account_Repos.thy ===== *)
theory Account_Repos
  imports Ledger_Service Account_Requests
begin

section \<open>Repositories of the account module\<close>

text \<open>
  \<open>internal/account/repo\<close> over the tables of \<open>Store\<close>: accounts, the per-user places of \<open>accounts_options\<close>, the grants of
  \<open>accounts_access\<close>, the folders and their members, and the two questions other features answer for the module, whether
  two users are connected and whether a currency may be used. An upsert leaves the columns the query does not set: the owner,
  the creation time and the revision of a stored account. A Go map of members by folder is the list of its rows, read in
  the order of the table.
\<close>

subsection \<open>Accounts\<close>

definition account_over :: "account \<Rightarrow> account \<Rightarrow> account" where
  "account_over a x = a\<lparr>acc_user := acc_user x, acc_created := acc_created x, acc_revision := acc_revision x\<rparr>"

definition put_account :: "account \<Rightarrow> account list \<Rightarrow> account list" where
  "put_account a accs =
     (if acc_id a \<in> acc_id ` set accs then map (\<lambda>x. if acc_id x = acc_id a then account_over a x else x) accs
      else accs @ [a\<lparr>acc_revision := 0\<rparr>])"

definition repo_save_account :: "account \<Rightarrow> unit act" where
  "repo_save_account a = update_store (\<lambda>s. s\<lparr>st_accounts := put_account a (st_accounts s)\<rparr>)"

definition available_to :: "store \<Rightarrow> ident \<Rightarrow> account \<Rightarrow> bool" where
  "available_to s user a \<longleftrightarrow> \<not> acc_deleted a \<and>
     (acc_user a = user \<or> (\<exists>g\<in>set (st_access s). aa_account g = acc_id a \<and> aa_user g = user \<and> aa_accepted g))"

definition repo_list_available :: "ident \<Rightarrow> account list act" where
  "repo_list_available user =
     gets (\<lambda>s. List.sort_key (\<lambda>a. (acc_created a, acc_id a)) (filter (available_to s user) (st_accounts s)))"

definition repo_count_available :: "ident \<Rightarrow> nat act" where
  "repo_count_available user = gets (\<lambda>s. length (filter (available_to s user) (st_accounts s)))"

definition repo_ids_by_owner :: "ident \<Rightarrow> ident list act" where
  "repo_ids_by_owner user = gets (\<lambda>s. sort (map acc_id (filter (\<lambda>a. acc_user a = user) (st_accounts s))))"

definition repo_account_revision :: "ident \<Rightarrow> int act" where
  "repo_account_revision i =
     sbind (gets (find_row acc_id i \<circ> st_accounts)) (\<lambda>r.
       lift (rbind (row_or_not_found ''Account not found'' r) (\<lambda>a. Inr (acc_revision a))))"

definition repo_transactions_count :: "ident \<Rightarrow> int act" where
  "repo_transactions_count i =
     gets (\<lambda>s. int (length (filter (\<lambda>t. tx_account t = i) (st_transactions s))) +
               int (length (filter (\<lambda>t. tx_recipient t = Some i) (st_transactions s))))"

subsection \<open>Places\<close>

definition repo_sort_keys :: "ident \<Rightarrow> (ident \<times> key) list act" where
  "repo_sort_keys user =
     gets (\<lambda>s. map (\<lambda>r. (ao_account r, ao_key r)) (filter (\<lambda>r. ao_user r = user) (st_options s)))"

definition put_option :: "account_option \<Rightarrow> account_option list \<Rightarrow> account_option list" where
  "put_option r rows =
     (if \<exists>x\<in>set rows. ao_account x = ao_account r \<and> ao_user x = ao_user r
      then map (\<lambda>x. if ao_account x = ao_account r \<and> ao_user x = ao_user r
                    then x\<lparr>ao_key := ao_key r, ao_updated := ao_updated r\<rparr> else x) rows
      else rows @ [r])"

definition repo_save_sort_key :: "ident \<Rightarrow> ident \<Rightarrow> key \<Rightarrow> instant \<Rightarrow> unit act" where
  "repo_save_sort_key account user k now = update_store (\<lambda>s. s\<lparr>st_options :=
     put_option \<lparr>ao_account = account, ao_user = user, ao_key = k, ao_created = now, ao_updated = now\<rparr> (st_options s)\<rparr>)"

definition repo_delete_option :: "ident \<Rightarrow> ident \<Rightarrow> unit act" where
  "repo_delete_option account user = update_store (\<lambda>s. s\<lparr>st_options :=
     filter (\<lambda>r. \<not> (ao_account r = account \<and> ao_user r = user)) (st_options s)\<rparr>)"

subsection \<open>Grants\<close>

definition repo_get_access :: "ident \<Rightarrow> ident \<Rightarrow> account_access act" where
  "repo_get_access account user =
     sbind (gets (\<lambda>s. find (\<lambda>g. aa_account g = account \<and> aa_user g = user) (st_access s))) (\<lambda>g.
       lift (row_or_not_found ''AccountAccess not found'' g))"

definition put_access :: "account_access \<Rightarrow> account_access list \<Rightarrow> account_access list" where
  "put_access g rows =
     (if \<exists>x\<in>set rows. aa_account x = aa_account g \<and> aa_user x = aa_user g
      then map (\<lambda>x. if aa_account x = aa_account g \<and> aa_user x = aa_user g
                    then x\<lparr>aa_role := aa_role g, aa_accepted := aa_accepted g, aa_updated := aa_updated g\<rparr> else x) rows
      else rows @ [g])"

definition repo_save_access :: "account_access \<Rightarrow> unit act" where
  "repo_save_access g = update_store (\<lambda>s. s\<lparr>st_access := put_access g (st_access s)\<rparr>)"

definition repo_delete_access :: "ident \<Rightarrow> ident \<Rightarrow> unit act" where
  "repo_delete_access account user = update_store (\<lambda>s. s\<lparr>st_access :=
     filter (\<lambda>g. \<not> (aa_account g = account \<and> aa_user g = user)) (st_access s)\<rparr>)"

definition repo_access_by_account :: "ident \<Rightarrow> account_access list act" where
  "repo_access_by_account account = gets (\<lambda>s. filter (\<lambda>g. aa_account g = account) (st_access s))"

definition repo_access_received :: "ident \<Rightarrow> account_access list act" where
  "repo_access_received user = gets (\<lambda>s. filter (\<lambda>g. aa_user g = user) (st_access s))"

definition repo_access_pending :: "ident \<Rightarrow> account_access list act" where
  "repo_access_pending user =
     gets (\<lambda>s. List.sort_key (\<lambda>g. (aa_created g, aa_account g))
       (filter (\<lambda>g. aa_user g = user \<and> \<not> aa_accepted g \<and>
                  (\<exists>a\<in>set (st_accounts s). acc_id a = aa_account g \<and> \<not> acc_deleted a)) (st_access s)))"

definition repo_access_issued :: "ident \<Rightarrow> account_access list act" where
  "repo_access_issued user =
     gets (\<lambda>s. filter (\<lambda>g. \<exists>a\<in>set (st_accounts s). acc_id a = aa_account g \<and> acc_user a = user) (st_access s))"

subsection \<open>Folders and their members\<close>

definition repo_get_folder :: "ident \<Rightarrow> account_folder act" where
  "repo_get_folder i =
     sbind (gets (find_row fd_id i \<circ> st_folders)) (\<lambda>r. lift (row_or_not_found ''Folder not found'' r))"

definition repo_list_folders :: "ident \<Rightarrow> account_folder list act" where
  "repo_list_folders user = gets (\<lambda>s. filter (\<lambda>f. fd_user f = user) (st_folders s))"

definition repo_count_folders :: "ident \<Rightarrow> nat act" where
  "repo_count_folders user = gets (\<lambda>s. length (filter (\<lambda>f. fd_user f = user) (st_folders s)))"

definition folder_over :: "account_folder \<Rightarrow> account_folder \<Rightarrow> account_folder" where
  "folder_over f x = f\<lparr>fd_user := fd_user x, fd_created := fd_created x\<rparr>"

definition put_folder :: "account_folder \<Rightarrow> account_folder list \<Rightarrow> account_folder list" where
  "put_folder f fs =
     (if fd_id f \<in> fd_id ` set fs then map (\<lambda>x. if fd_id x = fd_id f then folder_over f x else x) fs else fs @ [f])"

definition repo_save_folder :: "account_folder \<Rightarrow> unit act" where
  "repo_save_folder f = update_store (\<lambda>s. s\<lparr>st_folders := put_folder f (st_folders s)\<rparr>)"

text \<open>The schema removes the members of a deleted folder.\<close>

definition repo_delete_folder :: "ident \<Rightarrow> unit act" where
  "repo_delete_folder i = update_store (\<lambda>s. s\<lparr>st_folders := delete_row fd_id i (st_folders s),
     st_memberships := filter (\<lambda>(f, _). f \<noteq> i) (st_memberships s)\<rparr>)"

definition repo_memberships :: "ident \<Rightarrow> (ident \<times> ident) list act" where
  "repo_memberships user =
     gets (\<lambda>s. filter (\<lambda>(f, _). \<exists>fd\<in>set (st_folders s). fd_id fd = f \<and> fd_user fd = user) (st_memberships s))"

definition members_of :: "(ident \<times> ident) list \<Rightarrow> ident \<Rightarrow> ident list" where
  "members_of rows f = map snd (filter (\<lambda>r. fst r = f) rows)"

definition repo_folder_accounts :: "ident \<Rightarrow> ident list act" where
  "repo_folder_accounts f = gets (\<lambda>s. members_of (st_memberships s) f)"

definition repo_add_member :: "ident \<Rightarrow> ident \<Rightarrow> unit act" where
  "repo_add_member f a = update_store (\<lambda>s. s\<lparr>st_memberships :=
     (if (f, a) \<in> set (st_memberships s) then st_memberships s else st_memberships s @ [(f, a)])\<rparr>)"

definition repo_remove_member :: "ident \<Rightarrow> ident \<Rightarrow> unit act" where
  "repo_remove_member f a = update_store (\<lambda>s. s\<lparr>st_memberships := filter (\<lambda>r. r \<noteq> (f, a)) (st_memberships s)\<rparr>)"

subsection \<open>Connections and currencies\<close>

definition are_connected :: "ident \<Rightarrow> ident \<Rightarrow> bool act" where
  "are_connected a b = (if a = b then ret False else gets (\<lambda>s. b \<in> set (map snd (filter (\<lambda>c. fst c = a) (st_connections s)))))"

definition currency_not_available :: go_error where
  "currency_not_available = field_validation ''currencyId'' ''Currency is not available'' ''currency.not_available''"

definition ensure_usable :: "ident \<Rightarrow> ident \<Rightarrow> unit act" where
  "ensure_usable user currency =
     sbind (gets (find_row cur_id currency \<circ> st_currencies)) (\<lambda>row.
       (case row of
          None \<Rightarrow> fail (NotFoundError ''Currency not found'')
        | Some c \<Rightarrow>
            if cur_deleted c then fail currency_not_available
            else if cur_user c = None \<or> cur_user c = Some user then ret ()
            else fail currency_not_available))"

end
