(* ===== verification/Account_Service.thy ===== *)
theory Account_Service
  imports Account_Repos
begin

section \<open>The account service\<close>

text \<open>
  \<open>internal/account\<close>: creating, updating, deleting and moving accounts, the folders of a user and the handshake that shares
  an account (grant, accept, decline, revoke), each with the whole body of its database transaction, and the lists the
  module shows. Zeroing deleted accounts (\<open>zero.go\<close>) is in \<open>Ledger_Service\<close>.

  The environment of a call holds the readings of the clock, the fresh ids and the caller's time zone as the offset from
  UTC at an instant. The reads after a write answer with ids where the code embeds users and currencies; the lookups of those
  embeds cannot miss, the schema keeps their rows.
\<close>

record account_env =
  ae_claim_now :: instant
  ae_now :: instant
  ae_folder_now :: instant
  ae_local_now :: instant
  ae_balance_now :: instant
  ae_key_now :: instant
  ae_new_id :: ident
  ae_correction_id :: ident
  ae_folder_id :: ident
  ae_zone :: "instant \<Rightarrow> int"

definition access_denied :: go_error where
  "access_denied = AccessDeniedError ''Access denied'' [] 0"

text \<open>\<open>errors.As(err, &notFound)\<close>: a missing row takes another branch, any other error is returned.\<close>

definition on_not_found :: "'a act \<Rightarrow> (go_error \<Rightarrow> 'b act) \<Rightarrow> ('a \<Rightarrow> 'b act) \<Rightarrow> 'b act" where
  "on_not_found m missing found s =
     (case m s of
        (Inr x, s') \<Rightarrow> found x s'
      | (Inl e, s') \<Rightarrow> if as_not_found e \<noteq> None then missing e s' else (Inl e, s'))"

subsection \<open>The caller's day\<close>

definition tomorrow_in :: "(instant \<Rightarrow> int) \<Rightarrow> instant \<Rightarrow> instant" where
  "tomorrow_in zone now = (case t_date (now + zone now) of (y, m, d) \<Rightarrow> add_date (go_date y m d 0 0 0 0) 0 0 1)"

definition wall_clock_in :: "(instant \<Rightarrow> int) \<Rightarrow> instant \<Rightarrow> instant" where
  "wall_clock_in zone now =
     (case (t_date (now + zone now), t_clock (now + zone now)) of ((y, m, d), (h, mi, sec)) \<Rightarrow> go_date y m d h mi sec 0)"

definition balance_before :: "account_env \<Rightarrow> instant" where
  "balance_before env = tomorrow_in (ae_zone env) (ae_balance_now env)"

definition local_now :: "account_env \<Rightarrow> instant" where
  "local_now env = wall_clock_in (ae_zone env) (ae_local_now env)"

subsection \<open>Checks\<close>

definition new_account_name :: "string \<Rightarrow> string result" where
  "new_account_name v =
     (let n = rune_count v in
      if n < 3 \<or> 64 < n
      then Inl (ValidationError ''Account name must be 3-64 characters'' []
             [\<lparr>fe_key = ''name'', fe_message = ''Account name must be 3-64 characters'', fe_code = ''account.name_length''\<rparr>])
      else Inr v)"

definition new_folder_name :: "string \<Rightarrow> string result" where
  "new_folder_name v =
     (let n = rune_count v in
      if n < 3 \<or> 64 < n
      then Inl (ValidationError ''Folder name must be 3-64 characters'' []
             [\<lparr>fe_key = ''name'', fe_message = ''Folder name must be 3-64 characters'', fe_code = ''common.folder_name_length''\<rparr>])
      else Inr v)"

definition new_account_icon :: "string \<Rightarrow> string result" where
  "new_account_icon v =
     (if v = [] then Inl (ValidationError ''Icon value must not be empty'' []
           [\<lparr>fe_key = ''icon'', fe_message = ''Icon value must not be empty'', fe_code = ''common.icon_required''\<rparr>])
      else Inr v)"

definition require_owner_admin :: "ident \<Rightarrow> ident \<Rightarrow> unit act" where
  "require_owner_admin user account =
     sbind (repo_get_account account) (\<lambda>acct.
       if acc_user acct = user then ret ()
       else on_not_found (repo_get_access account user) (\<lambda>_. fail access_denied) (\<lambda>g.
         if aa_accepted g \<and> aa_role g = RoleAdmin then ret () else fail access_denied))"

subsection \<open>Lists\<close>

definition to_folder_result :: "account_folder \<Rightarrow> folder_result" where
  "to_folder_result f =
     \<lparr>fr_id = fd_id f, fr_name = fd_name f, fr_position = 0, fr_visible = (if fd_visible f then 1 else 0)\<rparr>"

definition sorted_folders :: "ident \<Rightarrow> account_folder list act" where
  "sorted_folders user = sbind (repo_list_folders user) (\<lambda>fs. ret (ordered fd_sort_key fd_id fs))"

definition position_in :: "('a \<Rightarrow> ident) \<Rightarrow> ident \<Rightarrow> 'a list \<Rightarrow> nat" where
  "position_in rid i xs = (case map_of (zip (map rid xs) [0..<length xs]) i of Some n \<Rightarrow> n | None \<Rightarrow> 0)"

definition folder_index :: "ident \<Rightarrow> ident \<Rightarrow> nat act" where
  "folder_index user i = sbind (sorted_folders user) (\<lambda>fs. ret (position_in fd_id i fs))"

definition key_in :: "(ident \<times> key) list \<Rightarrow> ident \<Rightarrow> key" where
  "key_in keys i = (case map_of (rev keys) i of Some k \<Rightarrow> k | None \<Rightarrow> [])"

definition account_index :: "ident \<Rightarrow> ident \<Rightarrow> nat act" where
  "account_index user i =
     sbind (repo_list_available user) (\<lambda>accts.
     sbind (repo_sort_keys user) (\<lambda>keys.
     ret (position_in acc_id i (ordered (\<lambda>a. key_in keys (acc_id a)) acc_id accts))))"

definition shared_access_for :: "ident \<Rightarrow> shared_access list act" where
  "shared_access_for account =
     sbind (repo_access_by_account account) (\<lambda>grants.
       ret (map (\<lambda>g. \<lparr>sa_user = aa_user g, sa_role = account_role_alias (aa_role g),
                      sa_accepted = (if aa_accepted g then 1 else 0)\<rparr>) grants))"

definition build_account_result ::
  "account \<Rightarrow> string \<Rightarrow> account_folder list \<Rightarrow> (ident \<times> ident) list \<Rightarrow> account_result act" where
  "build_account_result acct balance folders rows =
     sbind (shared_access_for (acc_id acct)) (\<lambda>shared.
       ret \<lparr>ar_id = acc_id acct, ar_owner = acc_user acct,
            ar_folder = map_option fd_id (find (\<lambda>f. acc_id acct \<in> set (members_of rows (fd_id f))) folders),
            ar_name = acc_name acct, ar_position = 0, ar_currency = acc_currency acct,
            ar_balance = to_string (new_decimal balance), ar_type = acc_type acct, ar_icon = acc_icon acct,
            ar_shared = shared, ar_revision = acc_revision acct, ar_count = 0\<rparr>)"

fun build_items ::
  "instant \<Rightarrow> account_folder list \<Rightarrow> (ident \<times> ident) list \<Rightarrow> nat \<Rightarrow> account list \<Rightarrow> account_result list act" where
  "build_items before folders rows n [] = ret []"
| "build_items before folders rows n (a # accts) =
     sbind (repo_balance (acc_id a) before) (\<lambda>bal.
     sbind (repo_transactions_count (acc_id a)) (\<lambda>count.
     sbind (build_account_result a bal folders rows) (\<lambda>item.
     sbind (build_items before folders rows (Suc n) accts) (\<lambda>items.
     ret (item\<lparr>ar_count := count, ar_position := n\<rparr> # items)))))"

fun build_pending :: "account_access list \<Rightarrow> account_result list act" where
  "build_pending [] = ret []"
| "build_pending (g # gs) =
     sbind (repo_get_account (aa_account g)) (\<lambda>acct.
     sbind (build_account_result acct ''0'' [] []) (\<lambda>item.
     sbind (build_pending gs) (\<lambda>items. ret (item # items))))"

definition build_account_list :: "account_env \<Rightarrow> ident \<Rightarrow> bool \<Rightarrow> account_result list act" where
  "build_account_list env user reversed =
     sbind (repo_list_available user) (\<lambda>accts.
     sbind (sorted_folders user) (\<lambda>folders.
     sbind (repo_memberships user) (\<lambda>rows.
     sbind (repo_sort_keys user) (\<lambda>keys.
     sbind (build_items (balance_before env) folders rows 0 (ordered (\<lambda>a. key_in keys (acc_id a)) acc_id accts)) (\<lambda>items.
     sbind (repo_access_pending user) (\<lambda>grants.
     sbind (build_pending grants) (\<lambda>pending.
     ret ((if reversed then rev items else items) @ pending))))))))"

definition get_account_list :: "account_env \<Rightarrow> ident \<Rightarrow> account_result list act" where
  "get_account_list env user = build_account_list env user True"

definition available_account_ids :: "ident \<Rightarrow> ident list act" where
  "available_account_ids user = sbind (repo_list_available user) (\<lambda>accts. ret (map acc_id accts))"

definition visible_account_ids :: "ident \<Rightarrow> ident list act" where
  "visible_account_ids user =
     sbind (repo_list_available user) (\<lambda>accts.
     sbind (repo_list_folders user) (\<lambda>folders.
     sbind (repo_memberships user) (\<lambda>rows.
     ret (filter (\<lambda>i. \<not> (\<exists>f\<in>set folders. \<not> fd_visible f \<and> i \<in> set (members_of rows (fd_id f)))) (map acc_id accts)))))"

definition number_folders :: "account_folder list \<Rightarrow> folder_result list" where
  "number_folders fs = map (\<lambda>(n, f). (to_folder_result f)\<lparr>fr_position := n\<rparr>) (enumerate 0 fs)"

definition get_folder_list :: "ident \<Rightarrow> folder_result list act" where
  "get_folder_list user = sbind (repo_list_folders user) (\<lambda>fs. ret (number_folders (ordered fd_sort_key fd_id fs)))"

subsection \<open>Folders\<close>

definition account_folder_item :: "account_folder \<Rightarrow> item" where
  "account_folder_item f = \<lparr>item_id = fd_id f, item_key = fd_sort_key f\<rparr>"

definition folder_exists :: go_error where
  "folder_exists = ValidationError ''Folder already exists.'' ''account.folder_already_exists'' []"

definition create_folder_tx :: "account_env \<Rightarrow> ident \<Rightarrow> string \<Rightarrow> account_folder act" where
  "create_folder_tx env user name =
     sbind (repo_list_folders user) (\<lambda>fs.
       if \<exists>f\<in>set fs. fd_name f = name then fail folder_exists
       else
         sbind (lift (append_key (List.sort_key fd_sort_key fs) account_folder_item GrowsUp)) (\<lambda>k.
         let f = account_folder_set_sort_key k (new_account_folder (ae_folder_id env) user name (ae_folder_now env)) in
         sbind (repo_save_folder f) (\<lambda>_. ret f)))"

definition create_folder :: "account_env \<Rightarrow> ident \<Rightarrow> string \<Rightarrow> folder_result act" where
  "create_folder env user req_name =
     sbind (lift (new_folder_name req_name)) (\<lambda>name.
     sbind (with_tx (create_folder_tx env user name)) (\<lambda>created.
     sbind (folder_index user (fd_id created)) (\<lambda>idx.
     ret ((to_folder_result created)\<lparr>fr_position := idx\<rparr>))))"

definition update_folder_body :: "account_env \<Rightarrow> ident \<Rightarrow> ident \<Rightarrow> string \<Rightarrow> account_folder act" where
  "update_folder_body env user i name =
     sbind (repo_get_folder i) (\<lambda>f.
       if fd_user f \<noteq> user then fail access_denied
       else
         sbind (repo_list_folders user) (\<lambda>fs.
           if \<exists>other\<in>set fs. fd_name other = name \<and> fd_id other \<noteq> i then fail folder_exists
           else
             let f' = account_folder_update_name name (ae_now env) f in
             sbind (repo_save_folder f') (\<lambda>_. ret f')))"

definition update_folder :: "platform \<Rightarrow> account_env \<Rightarrow> ident \<Rightarrow> update_folder_request \<Rightarrow> folder_result act" where
  "update_folder pf env user req =
     sbind (lift (parse_id (pf_uuid pf) (ufr_id req))) (\<lambda>i.
     sbind (lift (new_folder_name (ufr_name req))) (\<lambda>name.
     sbind (with_tx (update_folder_body env user i name)) (\<lambda>updated.
     sbind (folder_index user (fd_id updated)) (\<lambda>idx.
     ret ((to_folder_result updated)\<lparr>fr_position := idx\<rparr>)))))"

definition toggle_body :: "account_env \<Rightarrow> ident \<Rightarrow> ident \<Rightarrow> bool \<Rightarrow> unit act" where
  "toggle_body env user i visible =
     sbind (repo_get_folder i) (\<lambda>f.
       if fd_user f \<noteq> user then fail access_denied
       else repo_save_folder (if visible then make_visible (ae_now env) f else make_invisible (ae_now env) f))"

definition toggle_visibility :: "platform \<Rightarrow> account_env \<Rightarrow> ident \<Rightarrow> string \<Rightarrow> bool \<Rightarrow> unit act" where
  "toggle_visibility pf env user raw visible =
     sbind (lift (parse_id (pf_uuid pf) raw)) (\<lambda>i. with_tx (toggle_body env user i visible))"

definition hide_folder :: "platform \<Rightarrow> account_env \<Rightarrow> ident \<Rightarrow> string \<Rightarrow> unit act" where
  "hide_folder pf env user raw = toggle_visibility pf env user raw False"

definition show_folder :: "platform \<Rightarrow> account_env \<Rightarrow> ident \<Rightarrow> string \<Rightarrow> unit act" where
  "show_folder pf env user raw = toggle_visibility pf env user raw True"

definition replace_folder_body :: "ident \<Rightarrow> ident \<Rightarrow> ident \<Rightarrow> unit act" where
  "replace_folder_body user i replace_id =
     sbind (repo_get_folder i) (\<lambda>f.
       if fd_user f \<noteq> user then fail access_denied
       else
         sbind (repo_get_folder replace_id) (\<lambda>r.
           if fd_user r \<noteq> user then fail access_denied
           else
             sbind (repo_folder_accounts i) (\<lambda>accounts.
             sbind (for_each accounts (\<lambda>a. repo_add_member replace_id a)) (\<lambda>_.
             repo_delete_folder i))))"

definition replace_folder :: "platform \<Rightarrow> ident \<Rightarrow> replace_folder_request \<Rightarrow> unit act" where
  "replace_folder pf user req =
     sbind (lift (parse_id (pf_uuid pf) (rfr_id req))) (\<lambda>i.
     sbind (lift (parse_id (pf_uuid pf) (rfr_replace req))) (\<lambda>replace_id.
     with_tx (replace_folder_body user i replace_id)))"

definition move_folder_body :: "account_env \<Rightarrow> ident \<Rightarrow> ident \<Rightarrow> string \<Rightarrow> folder_result list act" where
  "move_folder_body env user i after =
     sbind (sorted_folders user) (\<lambda>fs.
     sbind (lift (move_within fs i after account_folder_item GrowsUp)) (\<lambda>moved.
     sbind (case moved of
              None \<Rightarrow> ret ()
            | Some (f, k) \<Rightarrow> repo_save_folder (account_folder_update_sort_key k (ae_now env) f)) (\<lambda>_.
     sbind (sorted_folders user) (\<lambda>refreshed. ret (number_folders refreshed)))))"

definition move_folder :: "platform \<Rightarrow> account_env \<Rightarrow> ident \<Rightarrow> move_folder_request \<Rightarrow> folder_result list act" where
  "move_folder pf env user req =
     sbind (lift (parse_id (pf_uuid pf) (mfr_id req))) (\<lambda>i.
     with_tx (move_folder_body env user i (or_empty (mfr_after req))))"

definition default_folder_name :: string where
  "default_folder_name = ''General''"

definition default_folder_or :: "account_env \<Rightarrow> ident \<Rightarrow> go_error \<Rightarrow> ident act" where
  "default_folder_or env user when_has_folders =
     sbind (repo_count_folders user) (\<lambda>count.
       if 0 < count then fail when_has_folders
       else sbind (create_folder_tx env user default_folder_name) (\<lambda>f. ret (fd_id f)))"

definition resolve_account_folder :: "platform \<Rightarrow> account_env \<Rightarrow> ident \<Rightarrow> string \<Rightarrow> ident act" where
  "resolve_account_folder pf env user raw =
     (if trim_space raw = [] then default_folder_or env user (blank_value ''folderId'')
      else
        sbind (lift (parse_id (pf_uuid pf) raw)) (\<lambda>folder_id.
        on_not_found (repo_get_folder folder_id) (\<lambda>e. default_folder_or env user e) (\<lambda>f.
          if fd_user f \<noteq> user then fail access_denied else ret folder_id)))"

subsection \<open>Create\<close>

definition correction_type :: "decimal \<Rightarrow> int" where
  "correction_type balance = (if is_negative balance then 0 else 1)"

definition next_account_key :: "ident \<Rightarrow> key act" where
  "next_account_key user =
     sbind (repo_sort_keys user) (\<lambda>keys.
       let last_key = foldr max (map snd keys) [] in
       if last_key = [] then ret (seed GrowsUp) else lift (between last_key []))"

definition create_account_body ::
  "platform \<Rightarrow> account_env \<Rightarrow> ident \<Rightarrow> ident \<Rightarrow> string \<Rightarrow> ident \<Rightarrow> string \<Rightarrow> decimal \<Rightarrow> string \<Rightarrow>
   (account \<times> account_correction option) act" where
  "create_account_body pf env user op name currency icon balance folder =
     sbind (claim op (ae_claim_now env)) (\<lambda>already.
     if already then fail operation_locked
     else
       sbind (next_account_key user) (\<lambda>k.
       let acct = new_account (ae_new_id env) user currency name icon (ae_now env) in
       sbind (repo_save_account acct) (\<lambda>_.
       sbind (repo_save_sort_key (ae_new_id env) user k (ae_now env)) (\<lambda>_.
       sbind (resolve_account_folder pf env user folder) (\<lambda>folder_id.
       sbind (repo_add_member folder_id (ae_new_id env)) (\<lambda>_.
       sbind (if is_zero balance then ret None
              else
                let corr = \<lparr>co_id = ae_correction_id env, co_user = user, co_account = ae_new_id env, co_description = [],
                            co_type = correction_type balance, co_amount = to_string (abs_decimal balance),
                            co_spent_at = local_now env, co_created = ae_now env\<rparr>
                in sbind (save_correction corr) (\<lambda>_. ret (Some corr))) (\<lambda>corr.
       sbind (mark_handled op (ae_now env)) (\<lambda>_. ret (acct, corr)))))))))"

definition account_item_of :: "account_env \<Rightarrow> ident \<Rightarrow> account \<Rightarrow> account_result act" where
  "account_item_of env user acct =
     sbind (sorted_folders user) (\<lambda>folders.
     sbind (repo_memberships user) (\<lambda>rows.
     sbind (repo_balance (acc_id acct) (balance_before env)) (\<lambda>bal.
     sbind (build_account_result acct bal folders rows) (\<lambda>item.
     sbind (repo_account_revision (acc_id acct)) (\<lambda>rev.
     sbind (repo_transactions_count (acc_id acct)) (\<lambda>count.
     sbind (account_index user (acc_id acct)) (\<lambda>idx.
     ret (item\<lparr>ar_revision := rev, ar_count := count, ar_position := idx\<rparr>))))))))"

definition create_account ::
  "platform \<Rightarrow> account_env \<Rightarrow> ident \<Rightarrow> create_account_request \<Rightarrow> (account_result \<times> account_correction option) act" where
  "create_account pf env user req =
     sbind (lift (parse_id (pf_uuid pf) (car_id req))) (\<lambda>op.
     sbind (lift (new_account_name (car_name req))) (\<lambda>name.
     sbind (lift (parse_id (pf_uuid pf) (car_currency req))) (\<lambda>currency.
     sbind (ensure_usable user currency) (\<lambda>_.
     sbind (lift (new_account_icon (car_icon req))) (\<lambda>icon.
     sbind (with_tx (create_account_body pf env user op name currency icon (new_decimal (car_balance req)) (car_folder req)))
       (\<lambda>(acct, corr).
     sbind (account_item_of env user acct) (\<lambda>item. ret (item, corr))))))))"

subsection \<open>Update\<close>

definition correctionComment :: string where
  "correctionComment = ''Balance adjustment''"

definition update_account_body ::
  "account_env \<Rightarrow> ident \<Rightarrow> ident \<Rightarrow> string \<Rightarrow> string \<Rightarrow> ident option \<Rightarrow> instant \<Rightarrow> decimal \<Rightarrow>
   (account \<times> account_correction option) act" where
  "update_account_body env user i name icon currency updated_at requested =
     sbind (require_owner_admin user i) (\<lambda>_.
     sbind (repo_get_account i) (\<lambda>acct.
     sbind (case currency of
              None \<Rightarrow> ret ()
            | Some c \<Rightarrow> if c = acc_currency acct then ret () else ensure_usable (acc_user acct) c) (\<lambda>_.
     let now = ae_now env;
         acct = account_update_icon icon now (account_update_name name now acct);
         acct = (case currency of None \<Rightarrow> acct | Some c \<Rightarrow> account_update_currency c now acct)
     in
     sbind (repo_save_account acct) (\<lambda>_.
     sbind (repo_balance i (balance_before env)) (\<lambda>actual.
     let diff = sub_decimal (new_decimal actual) requested in
     sbind (if is_zero diff then ret None
            else
              let corr = \<lparr>co_id = ae_correction_id env, co_user = user, co_account = i, co_description = correctionComment,
                          co_type = (if is_negative diff then 1 else 0), co_amount = to_string (abs_decimal diff),
                          co_spent_at = updated_at, co_created = now\<rparr>
              in sbind (save_correction corr) (\<lambda>_. ret (Some corr))) (\<lambda>corr.
     ret (acct, corr)))))))"

definition parse_updated_at :: "string \<Rightarrow> instant result" where
  "parse_updated_at v =
     (case parse_layout v of
        Some t \<Rightarrow> Inr t
      | None \<Rightarrow> Inl (ValidationError ''Invalid updatedAt'' []
           [\<lparr>fe_key = ''updatedAt'', fe_message = ''Invalid date format, expected Y-m-d H:i:s'',
             fe_code = ''common.invalid_datetime_format''\<rparr>]))"

definition update_account ::
  "platform \<Rightarrow> account_env \<Rightarrow> ident \<Rightarrow> update_account_request \<Rightarrow> (account_result \<times> account_correction option) act" where
  "update_account pf env user req =
     sbind (lift (parse_id (pf_uuid pf) (uar_id req))) (\<lambda>i.
     sbind (lift (new_account_name (uar_name req))) (\<lambda>name.
     sbind (lift (new_account_icon (uar_icon req))) (\<lambda>icon.
     sbind (lift (parse_opt_id pf (uar_currency req))) (\<lambda>currency.
     sbind (lift (parse_updated_at (uar_updated req))) (\<lambda>updated_at.
     sbind (with_tx (update_account_body env user i name icon currency updated_at (new_decimal (uar_balance req))))
       (\<lambda>(acct, corr).
     sbind (account_item_of env user acct) (\<lambda>item. ret (item, corr))))))))"

subsection \<open>Sharing\<close>

definition parse_access_id :: "platform \<Rightarrow> string \<Rightarrow> string \<Rightarrow> ident result" where
  "parse_access_id pf field q =
     (case pf_uuid pf q of
        Some i \<Rightarrow> Inr i
      | None \<Rightarrow> Inl (field_validation field ''This is not a valid UUID.'' ''common.invalid_uuid''))"

definition unwind_grant :: "ident \<Rightarrow> ident \<Rightarrow> unit act" where
  "unwind_grant account affected =
     sbind (repo_memberships affected) (\<lambda>rows.
     sbind (for_each (remdups (map fst rows)) (\<lambda>f.
              if account \<in> set (members_of rows f) then repo_remove_member f account else ret ())) (\<lambda>_.
     sbind (repo_delete_option account affected) (\<lambda>_.
     repo_delete_access account affected)))"

definition grant_body :: "instant \<Rightarrow> ident \<Rightarrow> ident \<Rightarrow> ident \<Rightarrow> role \<Rightarrow> unit act" where
  "grant_body now user account affected role =
     sbind (require_owner_admin user account) (\<lambda>_.
     sbind (repo_get_account account) (\<lambda>acct.
     if acc_deleted acct then fail (NotFoundError ''Account not found'')
     else
       on_not_found (repo_get_access account affected)
         (\<lambda>_. repo_save_access (new_account_access account affected role now))
         (\<lambda>g. repo_save_access (account_access_update_role role now g))))"

definition grant_access :: "platform \<Rightarrow> account_env \<Rightarrow> ident \<Rightarrow> grant_access_request \<Rightarrow> unit act" where
  "grant_access pf env user req =
     sbind (lift (parse_access_id pf ''accountId'' (gar_account req))) (\<lambda>account.
     sbind (lift (parse_access_id pf ''userId'' (gar_user req))) (\<lambda>affected.
     sbind (lift (role_from_alias (gar_role req))) (\<lambda>role.
     sbind (are_connected user affected) (\<lambda>connected.
     if \<not> connected then fail access_denied
     else with_tx (grant_body (ae_now env) user account affected role)))))"

definition accept_body :: "platform \<Rightarrow> account_env \<Rightarrow> ident \<Rightarrow> ident \<Rightarrow> string \<Rightarrow> unit act" where
  "accept_body pf env user account folder =
     on_not_found (repo_get_access account user) (\<lambda>_. fail access_denied) (\<lambda>g.
     if aa_accepted g then fail access_denied
     else
       sbind (repo_get_account account) (\<lambda>acct.
       if acc_deleted acct then fail (NotFoundError ''Account not found'')
       else
         sbind (resolve_account_folder pf env user folder) (\<lambda>folder_id.
         sbind (repo_save_access (account_access_accept (ae_now env) g)) (\<lambda>_.
         sbind (next_account_key user) (\<lambda>k.
         sbind (repo_save_sort_key account user k (ae_now env)) (\<lambda>_.
         repo_add_member folder_id account))))))"

definition accept_access :: "platform \<Rightarrow> account_env \<Rightarrow> ident \<Rightarrow> accept_access_request \<Rightarrow> unit act" where
  "accept_access pf env user req =
     sbind (lift (parse_access_id pf ''accountId'' (aar_account req))) (\<lambda>account.
     with_tx (accept_body pf env user account (aar_folder req)))"

definition decline_access :: "platform \<Rightarrow> ident \<Rightarrow> string \<Rightarrow> unit act" where
  "decline_access pf user raw =
     sbind (lift (parse_access_id pf ''accountId'' raw)) (\<lambda>account.
     with_tx (on_not_found (repo_get_access account user) (\<lambda>_. fail access_denied) (\<lambda>_. unwind_grant account user)))"

definition revoke_body :: "ident \<Rightarrow> ident \<Rightarrow> ident \<Rightarrow> unit act" where
  "revoke_body user account affected =
     sbind (require_owner_admin user account) (\<lambda>_.
     sbind (repo_get_access account affected) (\<lambda>_.
     unwind_grant account affected))"

definition revoke_access :: "platform \<Rightarrow> ident \<Rightarrow> revoke_access_request \<Rightarrow> unit act" where
  "revoke_access pf user req =
     sbind (lift (parse_access_id pf ''accountId'' (var_account req))) (\<lambda>account.
     sbind (lift (parse_access_id pf ''userId'' (var_user req))) (\<lambda>affected.
     with_tx (revoke_body user account affected)))"

definition revoke_own_access :: "ident \<Rightarrow> ident \<Rightarrow> unit act" where
  "revoke_own_access user account =
     with_tx (sbind (repo_get_access account user) (\<lambda>_. unwind_grant account user))"

definition revoke_access_between :: "ident \<Rightarrow> ident \<Rightarrow> unit act" where
  "revoke_access_between a b =
     sbind (repo_access_received a) (\<lambda>received.
     sbind (for_each received (\<lambda>g.
              sbind (repo_get_account (aa_account g)) (\<lambda>acct.
                if acc_user acct = b then unwind_grant (aa_account g) (aa_user g) else ret ()))) (\<lambda>_.
     sbind (repo_access_issued a) (\<lambda>issued.
     for_each issued (\<lambda>g. if aa_user g = b then unwind_grant (aa_account g) (aa_user g) else ret ()))))"

subsection \<open>Delete\<close>

definition delete_account_body :: "account_env \<Rightarrow> account \<Rightarrow> unit act" where
  "delete_account_body env acct =
     sbind (zero_balance (ae_correction_id env) (ae_now env) acct (local_now env) correctionAccountDeleted) (\<lambda>_.
     repo_save_account (account_delete (ae_now env) acct))"

definition delete_account :: "platform \<Rightarrow> account_env \<Rightarrow> ident \<Rightarrow> string \<Rightarrow> unit act" where
  "delete_account pf env user raw =
     sbind (lift (parse_id (pf_uuid pf) raw)) (\<lambda>i.
     sbind (repo_get_account i) (\<lambda>acct.
     if acc_user acct = user then with_tx (delete_account_body env acct)
     else
       on_not_found (repo_get_access i user) (\<lambda>_. fail access_denied) (\<lambda>_. revoke_own_access user i)))"

subsection \<open>Move\<close>

definition set_account_folder :: "ident \<Rightarrow> ident \<Rightarrow> ident option \<Rightarrow> unit act" where
  "set_account_folder user account target =
     sbind (repo_list_folders user) (\<lambda>folders.
     sbind (repo_memberships user) (\<lambda>rows.
     for_each folders (\<lambda>f.
       let contains = account \<in> set (members_of rows (fd_id f)); wanted = (target = Some (fd_id f)) in
       if wanted \<and> \<not> contains then repo_add_member (fd_id f) account
       else if \<not> wanted \<and> contains then repo_remove_member (fd_id f) account
       else ret ())))"

definition rekeyed :: "(ident \<Rightarrow> key option) \<Rightarrow> item \<Rightarrow> item" where
  "rekeyed changed it = (case changed (item_id it) of None \<Rightarrow> it | Some k \<Rightarrow> it\<lparr>item_key := k\<rparr>)"

text \<open>Accounts with no row of their own get keys first, in the order the list shows them.\<close>

definition give_keys :: "account_env \<Rightarrow> ident \<Rightarrow> item list \<Rightarrow> item list act" where
  "give_keys env user items =
     (if items \<noteq> [] \<and> item_key (hd items) = []
      then
        sbind (lift (resequence items (map item_id items) (\<lambda>i. i) GrowsUp)) (\<lambda>changed.
        sbind (for_each items (\<lambda>it.
                 case changed (item_id it) of
                   None \<Rightarrow> ret ()
                 | Some k \<Rightarrow> repo_save_sort_key (item_id it) user k (ae_now env))) (\<lambda>_.
        ret (map (rekeyed changed) items)))
      else ret items)"

definition reorder_account :: "account_env \<Rightarrow> ident \<Rightarrow> ident \<Rightarrow> string \<Rightarrow> account list \<Rightarrow> unit act" where
  "reorder_account env user account after accts =
     sbind (repo_sort_keys user) (\<lambda>keys.
     let items = ordered item_key item_id (map (\<lambda>a. \<lparr>item_id = acc_id a, item_key = key_in keys (acc_id a)\<rparr>) accts) in
     sbind (give_keys env user items) (\<lambda>items.
     sbind (lift (move_within items account after (\<lambda>i. i) GrowsUp)) (\<lambda>moved.
     (case moved of
        None \<Rightarrow> ret ()
      | Some (_, k) \<Rightarrow> repo_save_sort_key account user k (ae_key_now env)))))"

definition move_account_body ::
  "account_env \<Rightarrow> ident \<Rightarrow> ident \<Rightarrow> ident option \<Rightarrow> string \<Rightarrow> account_result list act" where
  "move_account_body env user account target after =
     sbind (repo_list_available user) (\<lambda>accts.
     sbind (if account \<in> acc_id ` set accts
            then sbind (set_account_folder user account target) (\<lambda>_. reorder_account env user account after accts)
            else ret ()) (\<lambda>_.
     build_account_list env user False))"

definition parse_some :: "platform \<Rightarrow> string option \<Rightarrow> ident option result" where
  "parse_some pf q = (case q of None \<Rightarrow> Inr None | Some v \<Rightarrow> rbind (parse_id (pf_uuid pf) v) (\<lambda>i. Inr (Some i)))"

definition move_account :: "platform \<Rightarrow> account_env \<Rightarrow> ident \<Rightarrow> move_account_request \<Rightarrow> account_result list act" where
  "move_account pf env user req =
     sbind (lift (parse_id (pf_uuid pf) (mar_id req))) (\<lambda>i.
     sbind (lift (parse_some pf (mar_folder req))) (\<lambda>target.
     with_tx (move_account_body env user i target (or_empty (mar_after req)))))"

end
