(* ===== verification/Ledger_Posting.thy ===== *)
theory Ledger_Posting
  imports Ledger_Typing
begin

section \<open>Operation ids and posting\<close>

text \<open>
  What the transaction service leaves alone (\<open>framed\<close>), that an operation id stays claimed over every history
  (\<open>claims_kept\<close>, an interpretation of \<open>ledger_contract\<close>) and what follows for retried requests: neither a second
  transaction nor a second step of the schedule.
\<close>

definition framed :: "store \<Rightarrow> store \<Rightarrow> bool" where
  "framed s s' \<longleftrightarrow> same_books s s' \<and> st_recurring s' = st_recurring s \<and>
     op_id ` set (st_operations s) \<subseteq> op_id ` set (st_operations s')"

interpretation fr: store_relation framed
  by unfold_locales (auto simp: framed_def same_books_def)

lemma framed_same: "\<lbrakk>same_books s s'; st_recurring s' = st_recurring s; st_operations s' = st_operations s\<rbrakk> \<Longrightarrow> framed s s'"
  by (simp add: framed_def)

lemma framed_rows [obeys_intro]:
  "fr.obeys (repo_replace_labels i ls)" "fr.obeys (repo_link_recurring i r now)" "fr.obeys (set_side_key a i k)"
  "fr.obeys (repo_save_transaction t)" "fr.obeys (repo_delete_transaction i)" "fr.obeys (save_correction c)"
proof -
  have "fr.obeys (sbind (bump_where c) (\<lambda>_. map_transaction i f))" for c i f
    unfolding fr.obeys_def by (auto simp: same_books_def intro!: framed_same dest!: map_row_pending)
  then show "fr.obeys (repo_replace_labels i ls)" "fr.obeys (repo_link_recurring i r now)" "fr.obeys (set_side_key a i k)"
    unfolding repo_replace_labels_def repo_link_recurring_def set_side_key_def by simp_all
  show "fr.obeys (repo_save_transaction t)"
    unfolding fr.obeys_def by (auto simp: same_books_def intro!: framed_same dest!: save_pending)
  show "fr.obeys (repo_delete_transaction i)"
    unfolding fr.obeys_def repo_delete_transaction_def by (auto simp: act_iff same_books_def intro!: framed_same)
  show "fr.obeys (save_correction c)"
    unfolding fr.obeys_def by (auto simp: same_books_def intro!: framed_same elim!: save_correction_Inr)
qed

lemma claim_Inr:
  "claim i now s = (Inr already, s') \<Longrightarrow>
     i \<in> op_id ` set (st_operations s') \<and> (already \<longleftrightarrow> i \<in> op_id ` set (st_operations s)) \<and> framed s s'"
  by (cases "find_row op_id i (st_operations s)")
    (auto simp: claim_def act_iff framed_def same_books_def find_row_None dest: find_row_Some)

lemma framed_marks [obeys_intro]: "fr.obeys (claim i now)" "fr.obeys (mark_handled i now)"
proof -
  have "op_id ` set (map (\<lambda>o'. if op_id o' = i then o'\<lparr>op_handled := True, op_updated := now\<rparr> else o') ops) = op_id ` set ops"
    for ops unfolding set_map image_image by (intro image_cong) simp_all
  note ids = this
  show "fr.obeys (claim i now)" unfolding fr.obeys_def by (auto dest: claim_Inr)
  show "fr.obeys (mark_handled i now)"
    unfolding mark_handled_def by (intro fr.obeys_update) (simp add: framed_def same_books_def ids del: set_map)
qed

lemma framed_reads [obeys_intro]:
  "fr.obeys (account_owner a)" "fr.obeys (repo_get_account a)" "fr.obeys (repo_get_transaction i)"
  "fr.obeys (labels_by_transaction i)" "fr.obeys (day_keys a day)" "fr.obeys label_owners" "fr.obeys (repo_balance a b)"
  "fr.obeys (account_currency a)" "fr.obeys (account_is_deleted a)" "fr.obeys (repo_list_categories u)"
  "fr.obeys (repo_list_payees u)" "fr.obeys (repo_list_tags u)" "fr.obeys (has_write_grant a u)"
  by (simp_all add: fr.obeys_read_only)

lemmas [obeys_intro] = fr.obeys_rules

lemma framed_checks [obeys_intro]:
  "fr.obeys (check_write_access u a e)" "fr.obeys (reject_deleted_parties st)" "fr.obeys (reject_introduced ps st)"
  "fr.obeys (normalize_transfer_amounts st)" "fr.obeys (check_references pf u st raws prev)"
  unfolding check_write_access_def reject_deleted_parties_def reject_deleted_account_def reject_introduced_def
    normalize_transfer_amounts_def check_references_def check_category_def find_entity_def
    require_available_entity_def resolve_labels_def
  by (intro obeys_intro)+

lemma framed_zero [obeys_intro]: "fr.obeys (zero_balance c now acct at d)" "fr.obeys (zero_deleted env a at d)"
  "fr.obeys (zero_parties env ps at ps' at')"
  unfolding zero_parties_def zero_deleted_def zero_if_deleted_def zero_balance_def Let_def by (intro obeys_intro)+

lemma framed_split_run [obeys_intro]: "fr.obeys (split_run a high prev rows)"
  by (induction a high prev rows rule: split_run.induct) (auto intro!: obeys_intro)

lemma framed_split_ties [obeys_intro]: "fr.obeys (split_ties a rows)"
proof (induction a rows rule: split_ties.induct)
  case (2 a r rs)
  then show ?case by (auto simp: Let_def intro!: obeys_intro)
qed (simp add: obeys_intro)

lemma framed_bodies:
  "fr.obeys (create_body pf env user op ty acc at req rec)"
  "fr.obeys (update_body pf env user preserve i ty acc at ureq)"
  "fr.obeys (delete_body env user i)"
  "fr.obeys (bulk_one pf now user breq new i)"
  "fr.obeys (move_body env user i acc day anchor mreq)"
  "fr.obeys (link_transaction_to_recurring env user i j)"
  unfolding create_body_def update_body_def delete_body_def bulk_one_def move_body_def move_to_day_def
    link_transaction_to_recurring_def Let_def
  by (intro obeys_intro)+

subsection \<open>The claims contract\<close>

definition claims_kept :: "store \<Rightarrow> store \<Rightarrow> bool" where
  "claims_kept s s' \<longleftrightarrow> op_id ` set (st_operations s) \<subseteq> op_id ` set (st_operations s') \<and>
     map acc_id (st_accounts s') = map acc_id (st_accounts s)"

interpretation ck: store_relation claims_kept
  by unfold_locales (auto simp: claims_kept_def)

lemma claims_framed: "fr.obeys m \<Longrightarrow> ck.obeys m"
  by (auto simp: fr.obeys_def ck.obeys_def framed_def claims_kept_def same_books_def)

lemma claims_templates:
  "ck.obeys (repo_save_recurring rt)" "ck.obeys (repo_replace_recurring_labels j ls)" "ck.obeys (repo_delete_recurring j)"
  unfolding ck.obeys_def claims_kept_def repo_save_recurring_def repo_replace_recurring_labels_def repo_delete_recurring_def
  by (auto simp: act_iff)

interpretation claims: ledger_contract claims_kept claims_kept
proof unfold_locales
  fix s s' assume "claims_kept (s\<lparr>st_pending := []\<rparr>) s'"
  then show "claims_kept s (flush s')" by (simp add: claims_kept_def flush_accounts comp_def)
next
  fix acct c now at d w and s s' :: store assume "zero_balance c now acct at d s = (Inr w, s')"
  then show "claims_kept s s'" using ck.obeys_outcome[OF claims_framed[OF framed_zero(1)]] by blast
qed (simp_all add: claims_framed framed_bodies framed_marks claims_templates, simp add: claims_kept_def)

subsection \<open>Posting a template\<close>

lemma create_body_claims:
  assumes "create_body pf env u op typ' a at req rec s = (Inr t, s')"
  shows "op \<notin> op_id ` set (st_operations s)"
proof -
  obtain s1 where "claim op (ce_claim_now env) s = (Inr False, s1)"
    using assms by (auto simp: create_body_def sbind_Inr_iff check_write_access_iff fail_iff split: if_splits)
  then show ?thesis by (simp add: claim_False)
qed

text \<open>The body of a create that succeeded, in the transaction it ran in.\<close>

lemma create_in_Inr:
  assumes "create_transaction_in run pf env u req rec s = (Inr t, s')"
  obtains op typ' a at where "pf_uuid pf (tr_id req) = Some op"
    "typ' \<in> {TransactionTypeExpense, TransactionTypeIncome, TransactionTypeTransfer}"
    "run (create_body pf env u op typ' a at req rec) s = (Inr t, s')"
  using assms by (auto simp: create_transaction_in_def sbind_Inr_iff lift_iff parse_id_def dest!: parse_type_Inr split: option.splits)

lemma nested_Inr: "nested m s = (Inr x, s') \<longleftrightarrow> m s = (Inr x, s')"
  by (auto simp: nested_def split: prod.splits sum.splits)

lemma create_again:
  assumes "pf_uuid pf (tr_id req) = Some op" "op \<in> op_id ` set (st_operations s)"
  shows "\<exists>e. create_transaction pf env u req s = (Inl e, s)"
proof -
  obtain r s' where c: "create_transaction pf env u req s = (r, s')" by (cases "create_transaction pf env u req s")
  show ?thesis
  proof (cases r)
    case (Inl e)
    then show ?thesis using c
      by (auto simp: create_transaction_def create_transaction_in_def sbind_Inl_iff lift_iff with_tx_Inl_iff)
  next
    case (Inr t)
    obtain op' typ' a at where "pf_uuid pf (tr_id req) = Some op'"
      "with_tx (create_body pf env u op' typ' a at req None) s = (Inr t, s')"
      by (rule create_in_Inr[OF c[unfolded create_transaction_def Inr]])
    then have False using assms create_body_claims by (fastforce simp: with_tx_Inr_iff)
    then show ?thesis ..
  qed
qed

lemma post_again:
  assumes "pf_uuid pf (pr_id req) = Some op" "op \<in> op_id ` set (st_operations s)"
  shows "\<exists>e. post_recurring_transaction pf env u req s = (Inl e, s)"
proof -
  obtain r s' where p: "post_recurring_transaction pf env u req s = (r, s')" by (cases "post_recurring_transaction pf env u req s")
  show ?thesis
  proof (cases r)
    case (Inl e)
    then show ?thesis using p by (auto simp: post_recurring_transaction_def sbind_Inl_iff lift_iff with_tx_Inl_iff)
  next
    case (Inr y)
    then obtain i s1 where b: "post_body pf env u i req (s\<lparr>st_pending := []\<rparr>) = (Inr y, s1)"
      using p by (auto simp: post_recurring_transaction_def sbind_Inr_iff lift_iff with_tx_Inr_iff)
    then obtain rt s2 s3 s4 labels t s5 where g: "repo_get_recurring i (s\<lparr>st_pending := []\<rparr>) = (Inr rt, s2)"
      and a: "template_access u (rt_account rt) s2 = (Inr (), s3)"
      and l: "(if pr_labels req = None then labels_by_recurring i else ret (tr_labels (post_create_request req))) s3 = (Inr labels, s4)"
      and c: "create_transaction_in nested pf env u ((post_create_request req)\<lparr>tr_labels := labels\<rparr>) (Some i) s4 = (Inr t, s5)"
      unfolding post_body_def create_transaction_from_recurring_def by (auto simp: sbind_Inr_iff)
    have "s2 = s\<lparr>st_pending := []\<rparr>" using g by (auto simp: repo_get_recurring_def sbind_Inr_iff gets_iff lift_iff)
    moreover have "s3 = s2" using a by (simp add: template_access_def check_write_access_iff)
    moreover have "s4 = s3" using l by (auto simp: labels_by_recurring_def gets_iff ret_iff split: if_splits)
    ultimately have "op \<in> op_id ` set (st_operations s4)" using assms(2) by simp
    then have known: "op \<in> op_id ` set (st_operations s4)" .
    obtain op' typ' a' at where o: "pf_uuid pf (tr_id ((post_create_request req)\<lparr>tr_labels := labels\<rparr>)) = Some op'"
      and n: "nested (create_body pf env u op' typ' a' at ((post_create_request req)\<lparr>tr_labels := labels\<rparr>) (Some i)) s4 = (Inr t, s5)"
      by (rule create_in_Inr[OF c])
    have "op' = op" using o assms(1) by (simp add: post_create_request_def)
    then have False using create_body_claims[OF n[unfolded nested_Inr]] known by simp
    then show ?thesis ..
  qed
qed

text \<open>C12: a successful post of a template appends one transaction, marked with the template, and advances the schedule of
  that template by one occurrence, nothing else of the two tables; and from then on, after any history of ledger calls by
  any users, a post with the same operation id fails and changes nothing, so a retried request neither creates a second
  transaction nor skips an occurrence.\<close>

theorem posting_happens_once:
  assumes post: "post_recurring_transaction pf env u req s = (Inr (t, rt'), s1)"
    and new: "ce_new_id env \<notin> tx_id ` set (st_transactions s)"
  shows "\<exists>i x. pf_uuid pf (pr_recurring req) = Some i \<and> find_row rt_id i (st_recurring s) = Some x \<and>
      rt' = advance (ce_now env) (recurring_from_state (x\<lparr>rt_labels := []\<rparr>)) \<and>
      st_recurring s1 = map (\<lambda>y. if rt_id y = i then template_over rt' y else y) (st_recurring s) \<and>
      st_transactions s1 = st_transactions s @ [t] \<and> tx_recurring t = Some i \<and> tx_id t = ce_new_id env \<and>
      (\<forall>s2 env' u' req'. ledger_reaches pf s1 s2 \<and> pf_uuid pf (pr_id req') = pf_uuid pf (pr_id req) \<longrightarrow>
         (\<exists>e. post_recurring_transaction pf env' u' req' s2 = (Inl e, s2)))"
proof -
  obtain i s0 where i: "pf_uuid pf (pr_recurring req) = Some i"
    and b: "post_body pf env u i req (s\<lparr>st_pending := []\<rparr>) = (Inr (t, rt'), s0)" and s1: "s1 = flush s0"
    using post by (auto simp: post_recurring_transaction_def sbind_Inr_iff lift_iff with_tx_Inr_iff parse_id_def split: option.splits)
  then obtain rt s2 s3 s4 labels s5 where g: "repo_get_recurring i (s\<lparr>st_pending := []\<rparr>) = (Inr rt, s2)"
    and a: "template_access u (rt_account rt) s2 = (Inr (), s3)"
    and l: "(if pr_labels req = None then labels_by_recurring i else ret (tr_labels (post_create_request req))) s3 = (Inr labels, s4)"
    and c: "create_transaction_in nested pf env u ((post_create_request req)\<lparr>tr_labels := labels\<rparr>) (Some i) s4 = (Inr t, s5)"
    and v: "repo_save_recurring (advance (ce_now env) rt) s5 = (Inr (), s0)" and rt': "rt' = advance (ce_now env) rt"
    unfolding post_body_def create_transaction_from_recurring_def by (auto simp: sbind_Inr_iff ret_iff)
  obtain x where x: "find_row rt_id i (st_recurring s) = Some x" "rt = recurring_from_state (x\<lparr>rt_labels := []\<rparr>)"
    "s2 = s\<lparr>st_pending := []\<rparr>" using g by (auto simp: repo_get_recurring_def sbind_Inr_iff gets_iff lift_iff)
  have s4: "s4 = s\<lparr>st_pending := []\<rparr>" using x(3) a l
    by (auto simp: template_access_def check_write_access_iff labels_by_recurring_def gets_iff ret_iff split: if_splits)
  obtain op typ' a' at where o: "pf_uuid pf (tr_id ((post_create_request req)\<lparr>tr_labels := labels\<rparr>)) = Some op"
    and kind: "typ' \<in> {TransactionTypeExpense, TransactionTypeIncome, TransactionTypeTransfer}"
    and n: "create_body pf env u op typ' a' at ((post_create_request req)\<lparr>tr_labels := labels\<rparr>) (Some i) s4 = (Inr t, s5)"
    by (rule create_in_Inr[OF c[unfolded nested_Inr]]) (simp add: nested_Inr)
  have fr: "framed s4 s5" by (rule fr.obeys_outcome[OF framed_bodies(1) n])
  have t: "st_transactions s5 = write_row t (st_transactions s4) \<and> tx_id t = ce_new_id env \<and> tx_recurring t = Some i \<and>
      op \<in> op_id ` set (st_operations s5)"
  proof (rule create_bodyE[OF kind n])
    fix st and s1' :: store and pend
    let ?s = "s1'\<lparr>st_transactions := write_row t (st_transactions s4), st_pending := pend\<rparr>"
    assume cl: "claim op (ce_claim_now env) s4 = (Inr False, s1')" and p: "placed (new_transaction st) t"
      and st: "tx_id st = ce_new_id env" "tx_recurring st = Some i"
      and mk: "mark_handled op (ce_now env) ?s = (Inr (), s5)"
    have "framed ?s s5" by (rule fr.obeys_outcome[OF framed_marks(2) mk])
    then have "op \<in> op_id ` set (st_operations s5)" using claim_Inr[OF cl] by (auto simp: framed_def)
    moreover have "st_transactions s5 = st_transactions ?s" using mk by (simp add: mark_handled_def update_store_iff)
    ultimately show ?thesis using p st by (simp add: new_transaction_def)
  qed
  have rid: "rt_id rt' = i" using find_row_Some[OF x(1)]
    by (simp add: rt' x(2) advance_def recurring_from_state_def recurring_from_def normalize_recurring_def)
  have s5: "st_recurring s5 = st_recurring s" using fr s4 by (simp add: framed_def)
  have s0: "s0 = s5\<lparr>st_recurring := map (\<lambda>y. if rt_id y = i then template_over rt' y else y) (st_recurring s)\<rparr>"
    using v rid row_exists[OF x(1)] by (simp add: repo_save_recurring_def update_store_iff s5 rt'[symmetric])
  have op: "pf_uuid pf (pr_id req) = Some op" using o by (simp add: post_create_request_def)
  have "\<exists>e. post_recurring_transaction pf env' u' req' s2' = (Inl e, s2')"
    if "ledger_reaches pf s1 s2'" "pf_uuid pf (pr_id req') = pf_uuid pf (pr_id req)" for s2' env' u' req'
  proof (rule post_again)
    show "pf_uuid pf (pr_id req') = Some op" using that(2) op by simp
    show "op \<in> op_id ` set (st_operations s2')"
      using claims.history[OF that(1)] t by (auto simp: claims_kept_def s1 s0)
  qed
  moreover have "st_transactions s1 = st_transactions s @ [t]"
    using t new by (simp add: s1 s0 s4 write_row_def)
  ultimately show ?thesis
    using i x rt' t by (intro exI[of _ i] exI[of _ x]) (simp add: s1 s0)
qed

definition rent_due :: store where
  "rent_due = sample_ledger\<lparr>st_recurring := [
     \<lparr>rt_id = ''r1'', rt_user = ''ann'', rt_type = TransactionTypeExpense, rt_account = ''acc'', rt_recipient = None,
      rt_amount = ''900'', rt_category = Some ''food'', rt_payee = None, rt_tag = None, rt_labels = [], rt_description = ''Rent'',
      rt_schedule = RecurringScheduleWeekly, rt_next_payment = go_date 2024 1 31 0 0 0 0, rt_scheduled_day = 31,
      rt_created = 0, rt_updated = 0\<rparr>]\<rparr>"

definition pay_rent :: post_recurring_request where
  "pay_rent = \<lparr>pr_recurring = ''r1'', pr_id = ''op7'', pr_type = ''expense'', pr_amount = ''900'', pr_amount_recipient = None,
     pr_account = ''acc'', pr_recipient = None, pr_category = None, pr_payee = None, pr_tag = None, pr_description = None,
     pr_date = ''2024-01-31 09:00:00'', pr_labels = None\<rparr>"

theorem posting_happens_once_witness:
  "\<exists>t rt' s1 e. post_recurring_transaction sample_platform sample_env ''ann'' pay_rent rent_due = (Inr (t, rt'), s1) \<and>
     rt_next_payment rt' = go_date 2024 2 7 0 0 0 0 \<and> map tx_recurring (st_transactions s1) = [Some ''r1''] \<and>
     post_recurring_transaction sample_platform sample_env ''ann'' pay_rent s1 = (Inl e, s1)"
proof -
  let ?p = "post_recurring_transaction sample_platform sample_env ''ann'' pay_rent rent_due"
  have ok: "\<not> isl (fst ?p)" and d: "map_option (rt_next_payment \<circ> snd) (case fst ?p of Inl e \<Rightarrow> None | Inr y \<Rightarrow> Some y) = Some (go_date 2024 2 7 0 0 0 0)"
    by code_simp+
  obtain t rt' s1 where p: "?p = (Inr (t, rt'), s1)" using ok by (cases ?p; cases "fst ?p") auto
  have "ce_new_id sample_env \<notin> tx_id ` set (st_transactions rent_due)" by code_simp
  from posting_happens_once[OF p this] obtain i where "st_transactions s1 = st_transactions rent_due @ [t]" "tx_recurring t = Some i"
    "pf_uuid sample_platform (pr_recurring pay_rent) = Some i"
    and again: "\<exists>e. post_recurring_transaction sample_platform sample_env ''ann'' pay_rent s1 = (Inl e, s1)"
    using ledger_reaches.start by blast
  moreover have "st_transactions rent_due = []" "pf_uuid sample_platform (pr_recurring pay_rent) = Some ''r1''" by code_simp+
  moreover have "rt_next_payment rt' = go_date 2024 2 7 0 0 0 0" using d p by simp
  ultimately show ?thesis using p by auto
qed

end
