(* ===== verification/Act_Outcomes.thy ===== *)
theory Act_Outcomes
  imports Account_Service Ledger_Posting
begin

section \<open>What holds after a successful action\<close>

text \<open>
  \<open>after m Q s\<close>: when \<open>m\<close> succeeds from \<open>s\<close>, \<open>Q\<close> holds of its result and of the database it leaves. The equations
  \<open>after_simps\<close> turn that into a condition on \<open>s\<close>, from the last statement of a use case back to its first; the rules
  for the calls of the account module follow.
\<close>

named_theorems after_simps "the condition on the database before an action"

definition after :: "'a act \<Rightarrow> ('a \<Rightarrow> store \<Rightarrow> bool) \<Rightarrow> store \<Rightarrow> bool" where
  "after m Q s \<longleftrightarrow> (\<forall>x s'. m s = (Inr x, s') \<longrightarrow> Q x s')"

lemma afterD: "\<lbrakk>after m Q s; m s = (Inr x, s')\<rbrakk> \<Longrightarrow> Q x s'"
  by (auto simp: after_def)

lemma after_mono: "\<lbrakk>after m Q s; \<And>x s'. Q x s' \<Longrightarrow> Q' x s'\<rbrakk> \<Longrightarrow> after m Q' s"
  by (auto simp: after_def)

lemma after_basic [after_simps]:
  "after (ret x) Q s \<longleftrightarrow> Q x s" "after (fail e) Q s" "after (lift r) Q s \<longleftrightarrow> (\<forall>x. r = Inr x \<longrightarrow> Q x s)"
  "after (gets f) R s \<longleftrightarrow> R (f s) s"
  by (auto simp: after_def act_iff)

lemma after_update [after_simps]: "after (update_store g) Q s \<longleftrightarrow> Q () (g s)"
  by (auto simp: after_def act_iff)

lemma after_sbind [after_simps]: "after (sbind m f) Q s \<longleftrightarrow> after m (\<lambda>x. after (f x) Q) s"
  by (fastforce simp: after_def sbind_Inr_iff)

lemma after_if [after_simps]: "after (if b then m else n) Q s \<longleftrightarrow> (if b then after m Q s else after n Q s)"
  by simp

lemma after_option [after_simps]:
  "after (case q of None \<Rightarrow> m | Some x \<Rightarrow> f x) Q s \<longleftrightarrow> (case q of None \<Rightarrow> after m Q s | Some x \<Rightarrow> after (f x) Q s)"
  by (simp split: option.split)

lemma after_with_tx [after_simps]: "after (with_tx m) Q s \<longleftrightarrow> after m (\<lambda>x s'. Q x (flush s')) (s\<lparr>st_pending := []\<rparr>)"
  by (auto simp: after_def with_tx_Inr_iff)

lemma after_for_each:
  assumes "I s" "\<And>x s. \<lbrakk>x \<in> set xs; I s\<rbrakk> \<Longrightarrow> after (f x) (\<lambda>_. I) s"
  shows "after (for_each xs f) (\<lambda>_. I) s"
  using assms
proof (induction xs arbitrary: s)
  case (Cons x xs)
  have "after (f x) (\<lambda>_. I) s" using Cons.prems by simp
  moreover have "after (for_each xs f) (\<lambda>_. I) s1" if "I s1" for s1 using Cons.IH[OF that] Cons.prems(2) by simp
  ultimately show ?case by (auto simp: after_simps intro: after_mono)
qed (simp add: after_simps)

lemma after_read_only: "\<lbrakk>read_only m; \<And>x. Q x s\<rbrakk> \<Longrightarrow> after m Q s"
  by (auto simp: after_def dest: read_only_outcome)

lemma after_not_found:
  "after (on_not_found m missing found) Q s \<longleftrightarrow> after m (\<lambda>x. after (found x) Q) s \<and>
     (\<forall>e s1. m s = (Inl e, s1) \<and> as_not_found e \<noteq> None \<longrightarrow> after (missing e) Q s1)"
  by (auto simp: after_def on_not_found_def split: prod.splits sum.splits if_splits)

subsection \<open>Rows that are there\<close>

lemma after_row:
  "after (sbind (gets (find_row rid i \<circ> tab)) (\<lambda>r. lift (row_or_not_found msg r))) Q s \<longleftrightarrow>
     (\<forall>x. find_row rid i (tab s) = Some x \<longrightarrow> Q x s)"
  by (cases "find_row rid i (tab s)") (auto simp: after_simps row_or_not_found_def)

lemma after_get_account [after_simps]:
  "after (repo_get_account i) Q s \<longleftrightarrow> (\<forall>a. find_row acc_id i (st_accounts s) = Some a \<longrightarrow> Q a s)"
  unfolding repo_get_account_def by (rule after_row)

lemma after_get_folder [after_simps]:
  "after (repo_get_folder i) Q s \<longleftrightarrow> (\<forall>f. find_row fd_id i (st_folders s) = Some f \<longrightarrow> Q f s)"
  unfolding repo_get_folder_def by (rule after_row)

definition find_grant :: "store \<Rightarrow> ident \<Rightarrow> ident \<Rightarrow> account_access option" where
  "find_grant s account user = find (\<lambda>g. aa_account g = account \<and> aa_user g = user) (st_access s)"

lemma find_grant_Some: "find_grant s a u = Some g \<Longrightarrow> g \<in> set (st_access s) \<and> aa_account g = a \<and> aa_user g = u"
  by (auto simp: find_grant_def find_Some_iff)

lemma find_grant_None: "find_grant s a u = None \<longleftrightarrow> (\<forall>g\<in>set (st_access s). \<not> (aa_account g = a \<and> aa_user g = u))"
  by (auto simp: find_grant_def find_None_iff)

lemma repo_get_access_outcome:
  "repo_get_access a u s = (case find_grant s a u of None \<Rightarrow> Inl (NotFoundError ''AccountAccess not found'') | Some g \<Rightarrow> Inr g, s)"
  by (simp add: repo_get_access_def find_grant_def sbind_def gets_def lift_def row_or_not_found_def split: option.split)

lemma after_get_access [after_simps]:
  "after (repo_get_access a u) Q s \<longleftrightarrow> (\<forall>g. find_grant s a u = Some g \<longrightarrow> Q g s)"
  by (auto simp: after_def repo_get_access_outcome split: option.splits)

lemma after_access_or [after_simps]:
  "after (on_not_found (repo_get_access a u) missing found) Q s \<longleftrightarrow>
     (case find_grant s a u of None \<Rightarrow> after (missing (NotFoundError ''AccountAccess not found'')) Q s | Some g \<Rightarrow> after (found g) Q s)"
  by (auto simp: after_not_found after_get_access repo_get_access_outcome as_not_found_def split: option.splits)

lemma after_folder_or [after_simps]:
  "after (on_not_found (repo_get_folder i) missing found) Q s \<longleftrightarrow>
     (case find_row fd_id i (st_folders s) of None \<Rightarrow> after (missing (NotFoundError ''Folder not found'')) Q s
      | Some f \<Rightarrow> after (found f) Q s)"
proof -
  have "repo_get_folder i s = (case find_row fd_id i (st_folders s) of None \<Rightarrow> Inl (NotFoundError ''Folder not found'') | Some f \<Rightarrow> Inr f, s)"
    by (simp add: repo_get_folder_def sbind_def gets_def lift_def row_or_not_found_def split: option.split)
  then show ?thesis by (auto simp: after_not_found after_get_folder as_not_found_def split: option.splits)
qed

lemma read_only_owner_admin: "read_only (require_owner_admin u a)"
proof -
  have "snd (on_not_found (repo_get_access a u) (\<lambda>_. fail access_denied) (\<lambda>g.
      if aa_accepted g \<and> aa_role g = RoleAdmin then ret () else fail access_denied) s) = s" for s
    by (auto simp: on_not_found_def repo_get_access_outcome fail_def ret_def split: option.split)
  then have "read_only (on_not_found (repo_get_access a u) (\<lambda>_. fail access_denied) (\<lambda>g.
      if aa_accepted g \<and> aa_role g = RoleAdmin then ret () else fail access_denied))" by (simp add: read_only_def)
  then show ?thesis unfolding require_owner_admin_def repo_get_account_def by (intro read_only_sbind) simp_all
qed

text \<open>Whom \<open>requireOwnerAdmin\<close> lets through: the owner and the holder of an accepted admin grant.\<close>

definition manages :: "store \<Rightarrow> ident \<Rightarrow> ident \<Rightarrow> bool" where
  "manages s user account \<longleftrightarrow> (\<exists>a. find_row acc_id account (st_accounts s) = Some a \<and>
     (acc_user a = user \<or> (\<exists>g. find_grant s account user = Some g \<and> aa_accepted g \<and> aa_role g = RoleAdmin)))"

lemma after_owner_admin [after_simps]:
  "after (require_owner_admin u a) Q s \<longleftrightarrow> (manages s u a \<longrightarrow> Q () s)"
  unfolding require_owner_admin_def manages_def by (auto simp: after_simps split: if_splits option.splits)

end
