(* ===== verification/Ledger_Templates.thy ===== *)
theory Ledger_Templates
  imports Act_Outcomes
begin

section \<open>Templates over a history\<close>

text \<open>
  The templates of the ledger stay well formed over every history of its calls: what each statement of the recurring
  service does to the table (\<open>internal/recurring\<close>, \<open>internal/model/recurring.go\<close>), and that the transaction service
  leaves the table alone (\<open>framed\<close>).
\<close>

definition template_ok :: "recurring \<Rightarrow> bool" where
  "template_ok rt \<longleftrightarrow> rt_type rt \<in> {TransactionTypeExpense, TransactionTypeIncome, TransactionTypeTransfer} \<and>
     (if is_transfer (rt_type rt)
      then rt_recipient rt \<noteq> None \<and> rt_category rt = None \<and> rt_payee rt = None \<and> rt_tag rt = None \<and> rt_labels rt = []
      else rt_recipient rt = None) \<and>
     parse_recurring_schedule (rt_schedule rt) \<noteq> None \<and> 1 \<le> rt_scheduled_day rt \<and> rt_scheduled_day rt \<le> 31 \<and>
     distinct (rt_labels rt)"

definition templates_ok :: "store \<Rightarrow> bool" where
  "templates_ok s \<longleftrightarrow> distinct (map rt_id (st_recurring s)) \<and> (\<forall>rt\<in>set (st_recurring s). template_ok rt)"

lemma templates_ok_cong: "st_recurring s' = st_recurring s \<Longrightarrow> templates_ok s' = templates_ok s"
  by (simp add: templates_ok_def)

lemma templates_okI:
  "\<lbrakk>distinct (map rt_id rows); \<And>x. x \<in> set rows \<Longrightarrow> template_ok x\<rbrakk> \<Longrightarrow> templates_ok (s\<lparr>st_recurring := rows\<rparr>)"
  by (simp add: templates_ok_def)

lemma templates_ok_tables [simp]: "templates_ok (flush s) = templates_ok s" "templates_ok (s\<lparr>st_pending := p\<rparr>) = templates_ok s"
  "templates_ok (s\<lparr>st_transactions := ts\<rparr>) = templates_ok s"
  by (simp_all add: templates_ok_def)

subsection \<open>The values the service builds\<close>

definition state_ok :: "recurring_new_state \<Rightarrow> bool" where
  "state_ok st \<longleftrightarrow> rt_type st \<in> {TransactionTypeExpense, TransactionTypeIncome, TransactionTypeTransfer} \<and>
     parse_recurring_schedule (rt_schedule st) \<noteq> None \<and> (is_transfer (rt_type st) \<longrightarrow> rt_recipient st \<noteq> None)"

lemma t_day_bounds: "1 \<le> t_day t" "t_day t \<le> 31"
  using t_days_month(2,3)[of t] month_length_bounds(2)[of "month_index t"] by simp_all

lemma schedule_parsed: "parse_recurring_schedule q = Some x \<Longrightarrow> parse_recurring_schedule x \<noteq> None"
  by (auto simp: parse_recurring_schedule_def split: if_splits)

lemma rbindE: "\<lbrakk>rbind m f = Inr y; \<And>x. \<lbrakk>m = Inr x; f x = Inr y\<rbrakk> \<Longrightarrow> P\<rbrakk> \<Longrightarrow> P"
  by (cases m) simp_all

lemma build_state_ok: "build_template_state pf req = Inr st \<Longrightarrow> state_ok st"
proof -
  assume b: "build_template_state pf req = Inr st"
  let ?st = "\<lambda>ty acc sc nx rc c p g. \<lparr>rt_id = [], rt_user = [], rt_type = ty, rt_account = acc, rt_recipient = rc,
            rt_amount = to_string (new_decimal (rr_amount req)), rt_category = c, rt_payee = p, rt_tag = g,
            rt_labels = [], rt_description = or_empty (rr_description req), rt_schedule = sc,
            rt_next_payment = nx, rt_scheduled_day = 0, rt_created = 0, rt_updated = 0\<rparr>"
  obtain ty acc sc nx rc where ty: "parse_type (rr_type req) = Inr ty"
    and c: "(case parse_recurring_schedule (rr_schedule req) of Some s \<Rightarrow> Inr s
            | None \<Rightarrow> Inl (ValidationError ''Validation failed'' [] [invalid_choice_field ''schedule''])) = Inr sc"
    and r: "(if is_transfer ty \<and> rc = None then Inl (blank_value ''accountRecipientId'')
     else rbind (parse_opt_id pf (rr_category req)) (\<lambda>c. rbind (parse_opt_id pf (rr_payee req)) (\<lambda>p.
       rbind (parse_opt_id pf (rr_tag req)) (\<lambda>g. Inr (?st ty acc sc nx rc c p g))))) = Inr st"
    using b unfolding build_template_state_def by (elim rbindE) (rule that)
  have sc: "parse_recurring_schedule (rr_schedule req) = Some sc" using c by (simp split: option.splits)
  have tr: "\<not> (is_transfer ty \<and> rc = None)" using r by (rule contrapos_pn) simp
  obtain c p g where st: "?st ty acc sc nx rc c p g = st"
    using r unfolding if_not_P[OF tr] by (elim rbindE) (drule sum.inject(2)[THEN iffD1], rule that)
  show ?thesis using parse_type_Inr[OF ty] schedule_parsed[OF sc] tr by (simp add: st[symmetric] state_ok_def)
qed

text \<open>A template without its labels, which are a table of their own.\<close>

definition bare_ok :: "recurring \<Rightarrow> bool" where
  "bare_ok rt \<longleftrightarrow> template_ok (rt\<lparr>rt_labels := []\<rparr>)"

lemma bare_template: "template_ok rt \<Longrightarrow> bare_ok rt"
  by (simp add: bare_ok_def template_ok_def split: if_splits)

lemma bare_normalized:
  assumes "state_ok rt" "1 \<le> rt_scheduled_day rt" "rt_scheduled_day rt \<le> 31"
  shows "bare_ok (normalize_recurring rt)"
  using assms by (cases "is_transfer (rt_type rt)") (simp_all add: bare_ok_def template_ok_def state_ok_def normalize_recurring_def)

lemma bare_new: "state_ok st \<Longrightarrow> bare_ok (new_recurring_transaction st)"
proof -
  assume st: "state_ok st"
  let ?x = "st\<lparr>rt_scheduled_day := t_day (rt_next_payment st)\<rparr>"
  have "bare_ok (normalize_recurring ?x)"
    using st t_day_bounds by (intro bare_normalized) (simp_all add: state_ok_def)
  moreover have "bare_ok (new_recurring_transaction st) = bare_ok (normalize_recurring ?x)"
    by (cases "is_transfer (rt_type st)")
      (simp_all add: new_recurring_transaction_def recurring_from_def Let_def normalize_recurring_def bare_ok_def template_ok_def)
  ultimately show ?thesis by simp
qed

lemma bare_update:
  assumes "state_ok st" "bare_ok rt"
  shows "bare_ok (recurring_update st now rt)"
proof -
  let ?d = "if rt_next_payment st \<noteq> rt_next_payment rt then t_day (rt_next_payment st) else rt_scheduled_day rt"
  have "1 \<le> ?d" "?d \<le> 31" using assms(2) t_day_bounds by (auto simp: bare_ok_def template_ok_def)
  then have n: "bare_ok (normalize_recurring (st\<lparr>rt_scheduled_day := ?d\<rparr>))"
    using assms(1) by (intro bare_normalized) (simp_all add: state_ok_def)
  then show ?thesis
    by (cases "is_transfer (rt_type st)"; cases "rt_next_payment st = rt_next_payment rt")
      (simp_all add: recurring_update_def normalize_recurring_def bare_ok_def template_ok_def Let_def)
qed

lemma bare_advance [simp]: "bare_ok (advance now rt) = bare_ok rt"
  by (simp add: advance_def bare_ok_def template_ok_def)

lemma template_from_row:
  assumes "template_ok x"
  shows "recurring_from_state (x\<lparr>rt_labels := []\<rparr>) = x\<lparr>rt_labels := []\<rparr>"
  using assms by (cases "is_transfer (rt_type x)") (simp_all add: template_ok_def recurring_from_state_def recurring_from_def normalize_recurring_def)

lemma kept_ids:
  "rt_id (new_recurring_transaction st) = rt_id st" "rt_id (recurring_update st now rt) = rt_id rt"
  "rt_id (advance now rt) = rt_id rt" "rt_type (advance now rt) = rt_type rt"
  by (simp_all add: new_recurring_transaction_def recurring_from_def recurring_update_def advance_def normalize_recurring_def Let_def)

lemma transfer_labels:
  "is_transfer (rt_type (new_recurring_transaction st)) \<Longrightarrow> rt_labels (new_recurring_transaction st) = []"
  "is_transfer (rt_type (recurring_update st now rt)) \<Longrightarrow> rt_labels (recurring_update st now rt) = []"
  by (auto simp: new_recurring_transaction_def recurring_from_def recurring_update_def normalize_recurring_def Let_def split: if_splits)

subsection \<open>The statements\<close>

lemma template_over_ok:
  assumes "bare_ok t" "template_ok x" "is_transfer (rt_type t) \<Longrightarrow> is_transfer (rt_type x)"
  shows "template_ok (template_over t x)"
  using assms by (auto simp: template_over_def bare_ok_def template_ok_def split: if_splits)

lemma distinct_labels: "distinct (foldl insert_label [] ls)"
proof -
  have "distinct ks \<Longrightarrow> distinct (foldl insert_label ks ls)" for ks
    by (induction ls arbitrary: ks) (simp_all add: insert_label_def)
  then show ?thesis by simp
qed

lemma labelled_ok: "\<lbrakk>bare_ok y; is_transfer (rt_type y) \<Longrightarrow> ls = []\<rbrakk> \<Longrightarrow> template_ok (y\<lparr>rt_labels := foldl insert_label [] ls\<rparr>)"
  using distinct_labels[of ls] by (cases "is_transfer (rt_type y)") (simp_all add: bare_ok_def template_ok_def)

lemma bare_copies [simp]: "bare_ok (template_over t x) = bare_ok t" "bare_ok (t\<lparr>rt_labels := l\<rparr>) = bare_ok t"
  "rt_type (template_over t x) = rt_type t" "rt_id (template_over t x) = rt_id t"
  by (simp_all add: bare_ok_def template_ok_def template_over_def)

text \<open>A row saved and its labels replaced, as creating and updating do.\<close>

lemma after_saved:
  assumes s: "templates_ok s" and t: "bare_ok t" "is_transfer (rt_type t) \<Longrightarrow> ls = []"
    and Q: "\<And>s'. templates_ok s' \<Longrightarrow> Q () s'"
  shows "after (repo_save_recurring t) (\<lambda>_. after (repo_replace_recurring_labels (rt_id t) ls) Q) s"
proof -
  let ?rows = "if rt_id t \<in> rt_id ` set (st_recurring s)
      then map (\<lambda>x. if rt_id x = rt_id t then template_over t x else x) (st_recurring s) else st_recurring s @ [t\<lparr>rt_labels := []\<rparr>]"
  let ?rows' = "map (\<lambda>x. if rt_id x = rt_id t then x\<lparr>rt_labels := foldl insert_label [] ls\<rparr> else x) ?rows"
  have ids: "map rt_id (map (\<lambda>x. if rt_id x = j then f x else x) xs) = map rt_id xs" if "\<And>x. rt_id x = j \<Longrightarrow> rt_id (f x) = j" for j f xs
    using that by (simp add: comp_def)
  have "map rt_id ?rows' = map rt_id ?rows" by (rule ids) simp
  moreover have "distinct (map rt_id ?rows)"
  proof (cases "rt_id t \<in> rt_id ` set (st_recurring s)")
    case True
    have "map rt_id (map (\<lambda>x. if rt_id x = rt_id t then template_over t x else x) (st_recurring s)) = map rt_id (st_recurring s)"
      by (rule ids) simp
    then show ?thesis using True s by (simp only: templates_ok_def if_True)
  qed (use s in \<open>simp add: templates_ok_def\<close>)
  ultimately have "distinct (map rt_id ?rows')" by (simp only:)
  moreover have "template_ok x" if "x \<in> set ?rows'" for x
  proof -
    have row: "bare_ok y \<and> rt_type y = rt_type t \<or> template_ok y \<and> rt_id y \<noteq> rt_id t" if y: "y \<in> set ?rows" for y
    proof (cases "rt_id t \<in> rt_id ` set (st_recurring s)")
      case True
      then show ?thesis using y s t(1) by (auto simp: templates_ok_def)
    next
      case False
      then have "\<forall>y\<in>set (st_recurring s). rt_id y \<noteq> rt_id t" by (metis imageI)
      then show ?thesis using y s t(1) False by (auto simp: templates_ok_def)
    qed
    from that obtain y where x: "x = (if rt_id y = rt_id t then y\<lparr>rt_labels := foldl insert_label [] ls\<rparr> else y)" and y: "y \<in> set ?rows"
      unfolding set_map by (rule imageE)
    show ?thesis
    proof (cases "rt_id y = rt_id t")
      case True
      then have "bare_ok y" "rt_type y = rt_type t" using row[OF y] by blast+
      then show ?thesis using labelled_ok[of y ls] t(2) x True by simp
    next
      case False
      then show ?thesis using row[OF y] x y s by (auto simp: templates_ok_def split: if_splits)
    qed
  qed
  ultimately have "templates_ok (s\<lparr>st_recurring := ?rows'\<rparr>)" by (rule templates_okI)
  then have "Q () (s\<lparr>st_recurring := ?rows'\<rparr>)" by (rule Q)
  then show ?thesis by (simp add: repo_save_recurring_def repo_replace_recurring_labels_def after_update)
qed

text \<open>A row advanced and saved, as skipping and posting do: its labels stay.\<close>

lemma after_advanced:
  assumes s: "templates_ok s" and x: "find_row rt_id i (st_recurring s) = Some x"
    and Q: "\<And>s'. templates_ok s' \<Longrightarrow> Q () s'"
  shows "after (repo_save_recurring (advance now (x\<lparr>rt_labels := []\<rparr>))) Q s"
proof -
  let ?t = "advance now (x\<lparr>rt_labels := []\<rparr>)"
  let ?rows = "map (\<lambda>y. if rt_id y = rt_id x then template_over ?t y else y) (st_recurring s)"
  note xs = find_row_Some[OF x]
  have ok: "template_ok x" using s xs by (simp add: templates_ok_def)
  have "map rt_id ?rows = map rt_id (st_recurring s)" by (simp add: comp_def kept_ids)
  then have "distinct (map rt_id ?rows)" using s by (simp only: templates_ok_def)
  moreover have "template_ok z" if "z \<in> set ?rows" for z
  proof -
    from that obtain y where y: "z = (if rt_id y = rt_id x then template_over ?t y else y)" "y \<in> set (st_recurring s)"
      unfolding set_map by (rule imageE)
    show ?thesis
    proof (cases "rt_id y = rt_id x")
      case True
      then have "y = x" using y(2) xs s by (auto simp: templates_ok_def distinct_map inj_on_def)
      moreover have "template_ok (template_over ?t x)"
        using ok by (intro template_over_ok) (simp_all add: bare_template kept_ids)
      ultimately show ?thesis using y(1) True by simp
    qed (use y s in \<open>simp add: templates_ok_def\<close>)
  qed
  ultimately have "templates_ok (s\<lparr>st_recurring := ?rows\<rparr>)" by (rule templates_okI)
  then have "Q () (s\<lparr>st_recurring := ?rows\<rparr>)" by (rule Q)
  moreover have "rt_id x \<in> rt_id ` set (st_recurring s)" using xs by auto
  ultimately show ?thesis by (simp add: repo_save_recurring_def after_update kept_ids)
qed

lemma after_deleted: "templates_ok s \<Longrightarrow> after (repo_delete_recurring i) (\<lambda>_. templates_ok) s"
  unfolding repo_delete_recurring_def by (auto simp: after_def act_iff templates_ok_def delete_row_def distinct_map_filter)

subsection \<open>The bodies\<close>

lemma framed_recurring: "framed s s' \<Longrightarrow> st_recurring s' = st_recurring s"
  by (simp add: framed_def)

lemma after_framed: "\<lbrakk>fr.obeys m; \<And>x s'. templates_ok s' \<Longrightarrow> Q x s'; templates_ok s\<rbrakk> \<Longrightarrow> after m Q s"
  using templates_ok_cong unfolding after_def by (blast dest: fr.obeys_outcome framed_recurring)

lemma after_get_recurring:
  "after (repo_get_recurring i) Q s \<longleftrightarrow> (\<forall>x. find_row rt_id i (st_recurring s) = Some x \<longrightarrow> Q (recurring_from_state (x\<lparr>rt_labels := []\<rparr>)) s)"
  by (cases "find_row rt_id i (st_recurring s)") (auto simp: repo_get_recurring_def after_simps row_or_not_found_def)

lemma after_references:
  assumes "state_ok st" "\<And>st'. \<lbrakk>state_ok st'; rt_id st' = rt_id st\<rbrakk> \<Longrightarrow> Q st' s"
  shows "after (template_references pf st raws prev) Q s"
proof -
  have "state_ok x \<and> rt_id x = rt_id st \<and> s' = s" if "template_references pf st raws prev s = (Inr x, s')" for x s'
  proof -
    have "s' = s" by (rule read_only_outcome[OF read_only_templates(2) that])
    moreover have "x = st \<or> (\<exists>ls. x = st\<lparr>rt_labels := ls\<rparr>)"
      using that unfolding template_references_def by (cases "is_transfer (rt_type st)") (auto simp: ret_iff elim!: sbindE)
    ultimately show ?thesis using assms(1) by (auto simp: state_ok_def)
  qed
  then show ?thesis using assms(2) by (auto simp: after_def)
qed

lemma create_template_ok:
  assumes "state_ok st" "templates_ok s"
  shows "after (create_template_body pf env user op st source labels) (\<lambda>_. templates_ok) s"
proof -
  have link: "after (when_some source (\<lambda>i. link_transaction_to_recurring env user i j)) (\<lambda>_. after (mark_handled op now) (\<lambda>_. after (ret x) (\<lambda>_. templates_ok))) s"
    if "templates_ok s" for j x s now
    by (rule after_framed[OF fr.obeys_when_some[OF framed_bodies(6)] _ that], rule after_framed[OF framed_marks(2)])
      (simp_all add: after_simps)
  have saved: "after (repo_save_recurring (new_recurring_transaction st')) (\<lambda>_.
      after (repo_replace_recurring_labels (rt_id (new_recurring_transaction st')) (rt_labels (new_recurring_transaction st'))) (\<lambda>_.
      after (when_some source (\<lambda>i. link_transaction_to_recurring env user i (rt_id (new_recurring_transaction st')))) (\<lambda>_.
      after (mark_handled op (ce_now env)) (\<lambda>_. after (ret (new_recurring_transaction st')) (\<lambda>_. templates_ok))))) s"
    if "state_ok st'" "templates_ok s" for st' s
    by (rule after_saved[OF that(2) bare_new[OF that(1)] transfer_labels(1) link])
  have refs: "after (template_references pf (st\<lparr>rt_id := i, rt_user := user, rt_created := now\<rparr>) labels None)
      (\<lambda>st'. after (let created = new_recurring_transaction st' in
       sbind (repo_save_recurring created) (\<lambda>_.
       sbind (repo_replace_recurring_labels (rt_id created) (rt_labels created)) (\<lambda>_.
       sbind (when_some source (\<lambda>i. link_transaction_to_recurring env user i (rt_id created))) (\<lambda>_.
       sbind (mark_handled op (ce_now env)) (\<lambda>_. ret created))))) (\<lambda>_. templates_ok)) s"
    if "templates_ok s" for i now s
    unfolding Let_def after_sbind
    by (rule after_references) (use assms(1) that saved in \<open>simp_all add: state_ok_def\<close>)
  show ?thesis
    unfolding create_template_body_def after_sbind
    by (rule after_read_only[OF read_only_templates(1)], rule after_framed[OF framed_marks(1) _ assms(2)])
      (use refs in \<open>simp add: after_simps\<close>)
qed

lemma update_template_ok:
  assumes "state_ok st" "templates_ok s"
  shows "after (update_template_body pf env user i st labels) (\<lambda>_. templates_ok) s"
proof -
  have refs: "after (template_references pf st labels (Some rt)) (\<lambda>st'. after (let rt' = recurring_update st' (ce_now env) rt in
     sbind (repo_save_recurring rt') (\<lambda>_.
     sbind (repo_replace_recurring_labels (rt_id rt') (rt_labels rt')) (\<lambda>_. ret rt'))) (\<lambda>_. templates_ok)) s"
    if "bare_ok rt" for rt
    unfolding Let_def after_sbind
    by (rule after_references[OF assms(1)], rule after_saved[OF assms(2) bare_update[OF _ that] transfer_labels(2)])
      (simp_all add: after_simps)
  have access: "read_only (if b then template_access u a else ret ())" for b u a by simp
  have "bare_ok (recurring_from_state (x\<lparr>rt_labels := []\<rparr>))" if "find_row rt_id i (st_recurring s) = Some x" for x
    using find_row_Some[OF that] assms(2) template_from_row[of x] bare_template[of x] by (simp add: templates_ok_def)
  then show ?thesis
    unfolding update_template_body_def after_sbind after_get_recurring
    by (intro allI impI after_read_only[OF read_only_templates(1)] after_read_only[OF access] refs)
qed

lemma after_advanced_later:
  assumes "templates_ok s" "find_row rt_id i (st_recurring s) = Some x" "st_recurring s' = st_recurring s"
  shows "after (repo_save_recurring (advance now (recurring_from_state (x\<lparr>rt_labels := []\<rparr>)))) (\<lambda>_. templates_ok) s'"
proof -
  have x: "template_ok x" using find_row_Some[OF assms(2)] assms(1) by (simp add: templates_ok_def)
  have s': "templates_ok s'" "find_row rt_id i (st_recurring s') = Some x"
    using templates_ok_cong[OF assms(3)] assms(1,2) by (simp_all only: assms(3))
  show ?thesis unfolding template_from_row[OF x] by (rule after_advanced[OF s'])
qed

lemma skip_ok: "templates_ok s \<Longrightarrow> after (skip_body env user i) (\<lambda>_. templates_ok) s"
proof -
  assume s: "templates_ok s"
  let ?t = "\<lambda>x. recurring_from_state (x\<lparr>rt_labels := []\<rparr>)"
  have "after (sbind (repo_save_recurring (advance (ce_now env) (?t x))) (\<lambda>_. sbind (labels_by_recurring j) (\<lambda>ids. ret (y ids))))
      (\<lambda>_. templates_ok) s" if x: "find_row rt_id i (st_recurring s) = Some x" for x j y
    unfolding after_sbind[of "repo_save_recurring _"]
    by (rule after_mono[OF after_advanced_later[OF s x refl]], rule after_read_only, rule read_only_sbind) simp_all
  then show ?thesis
    unfolding skip_body_def after_sbind[of "repo_get_recurring i"] after_get_recurring after_sbind[of "template_access _ _"]
    by (intro allI impI after_read_only[OF read_only_templates(1)])
qed

lemma delete_template_ok: "templates_ok s \<Longrightarrow> after (delete_template_body user i) (\<lambda>_. templates_ok) s"
  unfolding delete_template_body_def after_sbind after_get_recurring
  by (intro allI impI after_read_only[OF read_only_templates(1)] after_deleted)

lemma framed_nested: "fr.obeys m \<Longrightarrow> fr.obeys (nested m)"
  unfolding fr.obeys_def nested_def by (auto split: prod.splits sum.splits)

lemma framed_create_in: "fr.obeys (create_transaction_from_recurring pf env u req i)"
  unfolding create_transaction_from_recurring_def create_transaction_in_def
  by (intro fr.obeys_lift framed_nested framed_bodies)

lemma post_ok: "templates_ok s \<Longrightarrow> after (post_body pf env user i req) (\<lambda>_. templates_ok) s"
proof -
  assume s: "templates_ok s"
  let ?t = "\<lambda>x. recurring_from_state (x\<lparr>rt_labels := []\<rparr>)"
  have reads: "read_only (if b then labels_by_recurring j else ret ls)" for b j ls by simp
  have "after (sbind (create_transaction_from_recurring pf env user r i) (\<lambda>t. sbind
      (repo_save_recurring (advance (ce_now env) (?t x))) (\<lambda>_. ret (y t)))) (\<lambda>_. templates_ok) s"
    if x: "find_row rt_id i (st_recurring s) = Some x" for x r and y :: "transaction \<Rightarrow> transaction \<times> recurring"
    unfolding after_sbind[of "create_transaction_from_recurring pf env user r i"]
      after_def[of "create_transaction_from_recurring pf env user r i"]
  proof (intro allI impI)
    fix t s' assume "create_transaction_from_recurring pf env user r i s = (Inr t, s')"
    then have e: "st_recurring s' = st_recurring s" by (intro framed_recurring fr.obeys_outcome[OF framed_create_in])
    show "after (sbind (repo_save_recurring (advance (ce_now env) (?t x))) (\<lambda>_. ret (y t))) (\<lambda>_. templates_ok) s'"
      unfolding after_sbind by (rule after_mono[OF after_advanced_later[OF s x e]]) (simp add: after_basic)
  qed
  then show ?thesis
    unfolding post_body_def after_sbind[of "repo_get_recurring i"] after_get_recurring after_sbind[of "template_access _ _"]
      after_sbind[of "if _ then _ else _"]
    by (intro allI impI after_read_only[OF read_only_templates(1)] after_read_only[OF reads])
qed

subsection \<open>The calls\<close>

definition templates_kept :: "store \<Rightarrow> store \<Rightarrow> bool" where
  "templates_kept s s' \<longleftrightarrow> (templates_ok s \<longrightarrow> templates_ok s')"

interpretation tk: store_relation templates_kept
  by unfold_locales (auto simp: templates_kept_def)

lemma settles_body: "(\<And>s. templates_ok s \<Longrightarrow> after m (\<lambda>_. templates_ok) s) \<Longrightarrow> tk.settles (with_tx m)"
proof -
  assume ok: "\<And>s. templates_ok s \<Longrightarrow> after m (\<lambda>_. templates_ok) s"
  have "templates_ok s'" if s: "templates_ok s" and e: "with_tx m s = (r, s')" for s r s'
  proof (cases r)
    case (Inl x)
    then show ?thesis using s e by (simp add: with_tx_Inl_iff)
  next
    case (Inr x)
    then obtain s1 where m: "m (s\<lparr>st_pending := []\<rparr>) = (Inr x, s1)" "s' = flush s1" using e by (auto simp: with_tx_Inr_iff)
    have "templates_ok s1" by (rule afterD[OF ok m(1)]) (simp add: s)
    then show ?thesis by (simp add: m(2))
  qed
  then show ?thesis by (auto simp: tk.settles_def templates_kept_def)
qed

lemma settles_framed: "fr.obeys m \<Longrightarrow> tk.settles (with_tx m)"
  by (rule settles_body) (rule after_framed)

lemma settles_reads: "read_only m \<Longrightarrow> tk.settles m"
  by (auto simp: tk.settles_def templates_kept_def dest: read_only_outcome)

lemma zero_accounts_settle: "tk.settles (zero_accounts env accts n)"
  by (induction accts arbitrary: n) (simp_all add: tk.settles_basic tk.settles_sbind settles_framed framed_zero(1) del: split_paired_All)

lemma bulk_obeys: "fr.obeys (for_each ids (bulk_one pf now u breq new))"
  by (intro fr.obeys_for_each framed_bodies)

lemmas call_rules = tk.settles_then tk.settles_lift tk.settles_if tk.settles_basic settles_framed framed_bodies bulk_obeys

lemma templates_settle: "tk.settles (ledger_perform pf env u c)"
proof (cases c)
  case (CreateTransaction req)
  show ?thesis unfolding CreateTransaction ledger_perform.simps create_transaction_def create_transaction_in_def by (intro call_rules)
next
  case (UpdateTransaction req preserve)
  show ?thesis unfolding UpdateTransaction ledger_perform.simps update_transaction_call_def by (intro call_rules)
next
  case (DeleteTransaction q)
  show ?thesis unfolding DeleteTransaction ledger_perform.simps delete_transaction_def by (intro call_rules)
next
  case (BulkUpdateTransactions req)
  show ?thesis unfolding BulkUpdateTransactions ledger_perform.simps bulk_update_transactions_def by (intro call_rules)
next
  case (MoveTransaction req)
  show ?thesis unfolding MoveTransaction ledger_perform.simps move_transaction_def Let_def by (intro call_rules)
next
  case ZeroDeletedAccounts
  show ?thesis unfolding ZeroDeletedAccounts ledger_perform.simps zero_deleted_accounts_def repo_list_deleted_accounts_def
    by (intro tk.settles_then tk.settles_sbind settles_reads zero_accounts_settle) simp
next
  case (CreateRecurring req)
  show ?thesis unfolding CreateRecurring ledger_perform.simps create_recurring_transaction_def
    by (intro tk.settles_then tk.settles_lift settles_body create_template_ok build_state_ok)
next
  case (UpdateRecurring req)
  show ?thesis unfolding UpdateRecurring ledger_perform.simps update_recurring_transaction_def
    by (intro tk.settles_then tk.settles_lift settles_body update_template_ok build_state_ok)
next
  case (DeleteRecurring q)
  show ?thesis unfolding DeleteRecurring ledger_perform.simps delete_recurring_transaction_def delete_template_body_def[symmetric]
    by (intro tk.settles_lift settles_body delete_template_ok)
next
  case (SkipRecurring q)
  show ?thesis unfolding SkipRecurring ledger_perform.simps skip_recurring_transaction_def skip_body_def[symmetric]
    by (intro tk.settles_then tk.settles_lift settles_body skip_ok)
next
  case (PostRecurring req)
  show ?thesis unfolding PostRecurring ledger_perform.simps post_recurring_transaction_def
    by (intro tk.settles_then tk.settles_lift settles_body post_ok)
qed

text \<open>C39: over any history of ledger calls by any users, whatever their outcomes, the stored templates stay well formed:
  ids are unique, the type is one of the three, a transfer has a recipient account and no category, payee, tag or label,
  any other template has no recipient, the schedule is one of the five, the scheduled day lies between 1 and 31, and no
  label is set twice.
\<close>
theorem templates_stay_well_formed:
  assumes "ledger_reaches pf s s'" "templates_ok s"
  shows "templates_ok s'"
  using assms
proof (induction rule: ledger_reaches.induct)
  case (more s s1 env u c r s2)
  then show ?case using tk.settles_outcome[OF templates_settle more.hyps(2)] by (simp add: templates_kept_def)
qed simp

text \<open>A weekly transfer is set up by a request that names a category and a label; the template drops them.\<close>

definition save_weekly :: recurring_request where
  "save_weekly = \<lparr>rr_id = ''op3'', rr_type = ''transfer'', rr_amount = ''50'', rr_account = ''acc'', rr_recipient = Some ''savings'',
     rr_category = Some ''food'', rr_payee = None, rr_tag = None, rr_description = None, rr_schedule = ''weekly'',
     rr_next_payment = ''2024-02-29 09:00:00'', rr_source = None, rr_labels = [''l1'']\<rparr>"

definition weekly_state :: recurring where
  "weekly_state = \<lparr>rt_id = [], rt_user = [], rt_type = TransactionTypeTransfer, rt_account = ''acc'', rt_recipient = Some ''savings'',
     rt_amount = ''50'', rt_category = Some ''food'', rt_payee = None, rt_tag = None, rt_labels = [], rt_description = [],
     rt_schedule = RecurringScheduleWeekly, rt_next_payment = go_date 2024 2 29 9 0 0 0, rt_scheduled_day = 0,
     rt_created = 0, rt_updated = 0\<rparr>"

lemma weekly_saved:
  obtains t s1 where "create_recurring_transaction sample_platform sample_env ''ann'' save_weekly rent_due = (Inr t, s1)"
    "map rt_id (st_recurring s1) = [''r1'', ''t1'']" "map rt_category (st_recurring s1) = [Some ''food'', None]"
proof -
  have state: "build_template_state sample_platform save_weekly = Inr weekly_state" by code_simp
  have calls: "parse_id (pf_uuid sample_platform) (rr_id save_weekly) = Inr ''op3''" "rt_type weekly_state = TransactionTypeTransfer"
    "parse_opt_id sample_platform (rr_source save_weekly) = Inr None"
    "template_access ''ann'' (rt_account weekly_state) rent_due = (Inr (), rent_due)"
    "claim ''op3'' 0 rent_due = (Inr False, rent_due\<lparr>st_operations := [\<lparr>op_id = ''op3'', op_handled = False, op_created = 0, op_updated = 0\<rparr>]\<rparr>)"
    by code_simp+
  have start: "rent_due\<lparr>st_pending := []\<rparr> = rent_due" "ce_now sample_env = 0" "ce_new_id sample_env = ''t1''"
    by (simp_all add: rent_due_def sample_ledger_def empty_store_def sample_env_def)
  obtain x where x: "st_recurring rent_due = [x]" "rt_id x = ''r1''" "rt_category x = Some ''food''"
    by (simp add: rent_due_def sample_ledger_def)
  have "\<exists>t s1. create_recurring_transaction sample_platform sample_env ''ann'' save_weekly rent_due = (Inr t, s1) \<and>
     map rt_id (st_recurring s1) = [''r1'', ''t1''] \<and> map rt_category (st_recurring s1) = [Some ''food'', None]"
    by (simp add: create_recurring_transaction_def create_template_body_def state calls start x lift_def sbind_def with_tx_def
      template_references_def is_transfer_def ret_def repo_save_recurring_def repo_replace_recurring_labels_def mark_handled_def
      update_store_def when_some_def Let_def kept_ids new_recurring_transaction_def recurring_from_def normalize_recurring_def)
  then show thesis by (elim exE conjE) (rule that)
qed

theorem templates_stay_well_formed_witness:
  "\<exists>t s1. create_recurring_transaction sample_platform sample_env ''ann'' save_weekly rent_due = (Inr t, s1) \<and>
     map rt_id (st_recurring s1) = [''r1'', ''t1''] \<and> map rt_category (st_recurring s1) = [Some ''food'', None] \<and> templates_ok s1"
proof -
  obtain t s1 where c: "create_recurring_transaction sample_platform sample_env ''ann'' save_weekly rent_due = (Inr t, s1)"
    and rows: "map rt_id (st_recurring s1) = [''r1'', ''t1'']" "map rt_category (st_recurring s1) = [Some ''food'', None]"
    by (rule weekly_saved)
  have p: "ledger_perform sample_platform sample_env ''ann'' (CreateRecurring save_weekly) rent_due = (Inr (), s1)"
    by (simp add: sbind_def ret_def c)
  have "templates_ok rent_due" by code_simp
  then have "templates_ok s1"
    by (rule templates_stay_well_formed[OF ledger_reaches.more[OF ledger_reaches.start p]])
  then show ?thesis using c rows by (intro exI[of _ t] exI[of _ s1] conjI)
qed

end
