(* ===== verification/Account_Sharing.thy ===== *)
theory Account_Sharing
  imports Act_Outcomes
begin

section \<open>Who an account is placed for\<close>

text \<open>
  Folders, places and grants over histories of calls. \<open>desk_ok\<close> says that only the owner of an account and the holders of
  an accepted grant have it in a folder or a place for it in their list, that folder names are unique per user and that
  every key a list is sorted by is well formed.
\<close>

definition holds_account :: "store \<Rightarrow> ident \<Rightarrow> ident \<Rightarrow> bool" where
  "holds_account s user account \<longleftrightarrow>
     (account, user) \<in> (\<lambda>a. (acc_id a, acc_user a)) ` set (st_accounts s) \<or>
     (\<exists>g\<in>set (st_access s). aa_account g = account \<and> aa_user g = user \<and> aa_accepted g)"

definition key_ok :: "key \<Rightarrow> bool" where
  "key_ok k \<longleftrightarrow> k = [] \<or> valid_key k"

definition rows_unique :: "store \<Rightarrow> bool" where
  "rows_unique s \<longleftrightarrow> distinct (map acc_id (st_accounts s)) \<and> distinct (map fd_id (st_folders s)) \<and>
     distinct (map (\<lambda>f. (fd_user f, fd_name f)) (st_folders s)) \<and> distinct (st_memberships s) \<and>
     distinct (map (\<lambda>r. (ao_account r, ao_user r)) (st_options s)) \<and>
     distinct (map (\<lambda>g. (aa_account g, aa_user g)) (st_access s))"

definition places_held :: "store \<Rightarrow> bool" where
  "places_held s \<longleftrightarrow>
     (\<forall>(f, a)\<in>set (st_memberships s). \<exists>fd\<in>set (st_folders s). fd_id fd = f \<and> holds_account s (fd_user fd) a) \<and>
     (\<forall>r\<in>set (st_options s). holds_account s (ao_user r) (ao_account r))"

definition desk_keys :: "store \<Rightarrow> bool" where
  "desk_keys s \<longleftrightarrow> (\<forall>r\<in>set (st_options s). key_ok (ao_key r)) \<and> (\<forall>f\<in>set (st_folders s). key_ok (fd_sort_key f))"

definition desk_ok :: "store \<Rightarrow> bool" where
  "desk_ok s \<longleftrightarrow> rows_unique s \<and> places_held s \<and> desk_keys s"

lemmas desk_defs = desk_ok_def rows_unique_def places_held_def desk_keys_def

subsection \<open>The tables a desk is made of\<close>

definition owners :: "account list \<Rightarrow> (ident \<times> ident) list" where
  "owners accs = map (\<lambda>a. (acc_id a, acc_user a)) accs"

definition same_desk :: "store \<Rightarrow> store \<Rightarrow> bool" where
  "same_desk s s' \<longleftrightarrow> owners (st_accounts s') = owners (st_accounts s) \<and> st_access s' = st_access s \<and>
     st_folders s' = st_folders s \<and> st_memberships s' = st_memberships s \<and> st_options s' = st_options s"

lemma owners_ids: "map fst (owners accs) = map acc_id accs"
  by (simp add: owners_def comp_def)

lemma holds_owners: "holds_account s user account \<longleftrightarrow> (account, user) \<in> set (owners (st_accounts s)) \<or>
     (\<exists>g\<in>set (st_access s). aa_account g = account \<and> aa_user g = user \<and> aa_accepted g)"
  by (simp add: holds_account_def owners_def)

lemma same_desk_holds: "same_desk s s' \<Longrightarrow> holds_account s' u a = holds_account s u a"
  by (simp add: holds_owners same_desk_def)

lemma same_desk_ok:
  assumes "same_desk s s'"
  shows "desk_ok s' = desk_ok s"
proof -
  have "map acc_id (st_accounts s') = map acc_id (st_accounts s)"
    using assms by (simp add: same_desk_def flip: owners_ids)
  then show ?thesis using assms same_desk_holds[OF assms] by (simp add: desk_defs same_desk_def)
qed

interpretation sd: store_relation same_desk
  by unfold_locales (auto simp: same_desk_def)

lemma owners_bump: "owners (map (bump_account ids) accs) = owners accs"
  by (simp add: owners_def comp_def)

lemma same_desk_flush: "same_desk s (flush s)" "same_desk s (s\<lparr>st_pending := p\<rparr>)"
  by (simp_all add: same_desk_def flush_accounts owners_bump)

lemma same_books_desk: "same_books s s' \<Longrightarrow> same_desk s s'"
  by (simp add: same_books_def same_desk_def)

lemma after_same_desk: "\<lbrakk>sd.obeys m; \<And>x s'. same_desk s s' \<Longrightarrow> Q x s'\<rbrakk> \<Longrightarrow> after m Q s"
  unfolding after_def sd.obeys_def by blast

lemma desk_framed: "fr.obeys m \<Longrightarrow> sd.obeys m"
  unfolding fr.obeys_def sd.obeys_def framed_def by (blast intro: same_books_desk)

subsection \<open>Writes\<close>

lemma owners_put_known:
  "acc_id a \<in> acc_id ` set accs \<Longrightarrow> owners (put_account a accs) = owners accs"
  by (auto simp: owners_def put_account_def account_over_def)

lemma put_account_new: "acc_id a \<notin> acc_id ` set accs \<Longrightarrow> put_account a accs = accs @ [a\<lparr>acc_revision := 0\<rparr>]"
  by (simp add: put_account_def)

lemma desk_new_account:
  assumes "desk_ok s" "acc_id a \<notin> acc_id ` set (st_accounts s)"
  shows "desk_ok (s\<lparr>st_accounts := put_account a (st_accounts s)\<rparr>)"
proof -
  have "holds_account (s\<lparr>st_accounts := put_account a (st_accounts s)\<rparr>) u i" if "holds_account s u i" for u i
    using that by (auto simp: holds_account_def put_account_new[OF assms(2)])
  then show ?thesis using assms by (fastforce simp: desk_defs put_account_new)
qed

lemma desk_known_account:
  assumes "desk_ok s" "acc_id a \<in> acc_id ` set (st_accounts s)"
  shows "desk_ok (s\<lparr>st_accounts := put_account a (st_accounts s)\<rparr>)"
proof -
  have "same_desk s (s\<lparr>st_accounts := put_account a (st_accounts s)\<rparr>)"
    by (simp add: same_desk_def owners_put_known[OF assms(2)])
  then show ?thesis using assms(1) same_desk_ok by blast
qed

lemma desk_add_member:
  assumes "desk_ok s" "fd \<in> set (st_folders s)" "fd_id fd = f" "holds_account s (fd_user fd) a"
  shows "desk_ok (s\<lparr>st_memberships := (if (f, a) \<in> set (st_memberships s) then st_memberships s else st_memberships s @ [(f, a)])\<rparr>)"
proof -
  have "holds_account (s\<lparr>st_memberships := m\<rparr>) u i = holds_account s u i" for m u i by (simp add: holds_account_def)
  then show ?thesis using assms by (auto simp: desk_defs)
qed

lemma desk_remove_member: "desk_ok s \<Longrightarrow> desk_ok (s\<lparr>st_memberships := filter P (st_memberships s)\<rparr>)"
proof -
  have "holds_account (s\<lparr>st_memberships := m\<rparr>) u i = holds_account s u i" for m u i by (simp add: holds_account_def)
  then show "desk_ok s \<Longrightarrow> desk_ok (s\<lparr>st_memberships := filter P (st_memberships s)\<rparr>)" by (auto simp: desk_defs)
qed

lemma distinct_map_filter: "distinct (map f xs) \<Longrightarrow> distinct (map f (filter P xs))"
  by (induction xs) auto

lemma put_option_pairs:
  "map (\<lambda>r. (ao_account r, ao_user r)) (put_option r rows) =
     (if \<exists>x\<in>set rows. ao_account x = ao_account r \<and> ao_user x = ao_user r then map (\<lambda>r. (ao_account r, ao_user r)) rows
      else map (\<lambda>r. (ao_account r, ao_user r)) rows @ [(ao_account r, ao_user r)])"
  by (auto simp: put_option_def)

lemma put_option_cases:
  assumes "x \<in> set (put_option r rows)"
  shows "x = r \<or> (\<exists>y\<in>set rows. ao_account x = ao_account y \<and> ao_user x = ao_user y \<and>
     (ao_key x = ao_key y \<or> ao_key x = ao_key r))"
proof (cases "\<exists>x\<in>set rows. ao_account x = ao_account r \<and> ao_user x = ao_user r")
  case True
  then obtain y where "y \<in> set rows" "x = (if ao_account y = ao_account r \<and> ao_user y = ao_user r
      then y\<lparr>ao_key := ao_key r, ao_updated := ao_updated r\<rparr> else y)" using assms by (auto simp: put_option_def)
  then have "y \<in> set rows" "ao_account x = ao_account y" "ao_user x = ao_user y" "ao_key x = ao_key y \<or> ao_key x = ao_key r" by auto
  then show ?thesis by blast
next
  case False
  then have "put_option r rows = rows @ [r]" by (simp only: put_option_def if_False)
  then show ?thesis using assms by auto
qed

lemma desk_save_key:
  assumes "desk_ok s" "holds_account s (ao_user r) (ao_account r)" "key_ok (ao_key r)"
  shows "desk_ok (s\<lparr>st_options := put_option r (st_options s)\<rparr>)"
proof -
  have h: "holds_account (s\<lparr>st_options := m\<rparr>) u i = holds_account s u i" for m u i by (simp add: holds_account_def)
  have d: "distinct (map (\<lambda>r. (ao_account r, ao_user r)) (put_option r (st_options s)))"
    using assms(1) unfolding put_option_pairs by (auto simp: desk_defs)
  have "holds_account s (ao_user x) (ao_account x) \<and> key_ok (ao_key x)" if "x \<in> set (put_option r (st_options s))" for x
    using put_option_cases[OF that] assms by (auto simp: desk_defs)
  then show ?thesis using assms(1) d by (auto simp: desk_defs h)
qed

lemma put_access_pairs:
  "map (\<lambda>g. (aa_account g, aa_user g)) (put_access g rows) =
     (if \<exists>x\<in>set rows. aa_account x = aa_account g \<and> aa_user x = aa_user g then map (\<lambda>g. (aa_account g, aa_user g)) rows
      else map (\<lambda>g. (aa_account g, aa_user g)) rows @ [(aa_account g, aa_user g)])"
  by (auto simp: put_access_def)

text \<open>A saved grant never takes back an acceptance.\<close>

lemma desk_save_access:
  assumes "desk_ok s" "\<And>x. \<lbrakk>x \<in> set (st_access s); aa_account x = aa_account g; aa_user x = aa_user g; aa_accepted x\<rbrakk> \<Longrightarrow> aa_accepted g"
  shows "desk_ok (s\<lparr>st_access := put_access g (st_access s)\<rparr>)"
    "\<And>u a. holds_account s u a \<Longrightarrow> holds_account (s\<lparr>st_access := put_access g (st_access s)\<rparr>) u a"
proof -
  have k: "\<exists>y\<in>set (put_access g (st_access s)). aa_account y = aa_account x \<and> aa_user y = aa_user x \<and> aa_accepted y"
    if "x \<in> set (st_access s)" "aa_accepted x" for x
  proof (cases "aa_account x = aa_account g \<and> aa_user x = aa_user g")
    case True
    let ?y = "x\<lparr>aa_role := aa_role g, aa_accepted := aa_accepted g, aa_updated := aa_updated g\<rparr>"
    have "?y \<in> set (put_access g (st_access s))" using that(1) True by (auto simp: put_access_def)
    moreover have "aa_account ?y = aa_account x" "aa_user ?y = aa_user x" "aa_accepted ?y"
      using that True assms(2)[OF that(1)] by simp_all
    ultimately show ?thesis by (intro bexI[of _ ?y] conjI)
  next
    case False
    then have "x \<in> set (put_access g (st_access s))" using that(1) by (auto simp: put_access_def)
    then show ?thesis using that(2) by (intro bexI[of _ x]) simp_all
  qed
  show h: "holds_account (s\<lparr>st_access := put_access g (st_access s)\<rparr>) u a" if held: "holds_account s u a" for u a
  proof (cases "(a, u) \<in> set (owners (st_accounts s))")
    case True
    then show ?thesis by (simp add: holds_owners)
  next
    case False
    then obtain x where "x \<in> set (st_access s)" "aa_account x = a" "aa_user x = u" "aa_accepted x"
      using held by (auto simp: holds_owners)
    with k[of x] show ?thesis by (auto simp: holds_owners)
  qed
  have d: "distinct (map (\<lambda>g. (aa_account g, aa_user g)) (put_access g (st_access s)))"
    using assms(1) unfolding put_access_pairs by (auto simp: desk_defs)
  show "desk_ok (s\<lparr>st_access := put_access g (st_access s)\<rparr>)"
    unfolding desk_ok_def
  proof (intro conjI)
    let ?s = "s\<lparr>st_access := put_access g (st_access s)\<rparr>"
    show "rows_unique ?s" using assms(1) d by (simp add: desk_ok_def rows_unique_def)
    show "desk_keys ?s" using assms(1) by (simp add: desk_ok_def desk_keys_def)
    have p: "places_held s" using assms(1) by (simp add: desk_ok_def)
    show "places_held ?s" unfolding places_held_def
    proof (intro conjI ballI; (simp only: split_paired_all case_prod_conv)?)
      fix r assume "r \<in> set (st_options ?s)"
      then show "holds_account ?s (ao_user r) (ao_account r)" using p h by (simp add: places_held_def)
    next
      fix f a assume "(f, a) \<in> set (st_memberships ?s)"
      then obtain fd where "fd \<in> set (st_folders s)" "fd_id fd = f" "holds_account s (fd_user fd) a"
        using p by (auto simp: places_held_def)
      then show "\<exists>fd\<in>set (st_folders ?s). fd_id fd = f \<and> holds_account ?s (fd_user fd) a" using h by auto
    qed
  qed
qed

subsection \<open>Folders\<close>

lemma put_folder_new: "fd_id f \<notin> fd_id ` set fs \<Longrightarrow> put_folder f fs = fs @ [f]"
  by (simp add: put_folder_def)

lemma put_folder_known: "fd_id f \<in> fd_id ` set fs \<Longrightarrow>
    put_folder f fs = map (\<lambda>x. if fd_id x = fd_id f then folder_over f x else x) fs"
  by (simp add: put_folder_def)

lemma put_folder_ids: "fd_id f \<in> fd_id ` set fs \<Longrightarrow> map (\<lambda>x. (fd_id x, fd_user x)) (put_folder f fs) = map (\<lambda>x. (fd_id x, fd_user x)) fs"
  by (auto simp: put_folder_known folder_over_def)

lemma folder_owner_cong:
  assumes "map (\<lambda>x. (fd_id x, fd_user x)) fs' = map (\<lambda>x. (fd_id x, fd_user x)) fs"
  shows "(\<exists>fd\<in>set fs'. fd_id fd = f \<and> P (fd_user fd)) = (\<exists>fd\<in>set fs. fd_id fd = f \<and> P (fd_user fd))"
proof -
  have e: "(\<exists>fd\<in>set fs. fd_id fd = f \<and> P (fd_user fd)) = (\<exists>p\<in>set (map (\<lambda>x. (fd_id x, fd_user x)) fs). fst p = f \<and> P (snd p))" for fs
    by simp
  show ?thesis unfolding e assms ..
qed

text \<open>A folder saved under an id that exists keeps its owner; its name must be free among the owner's other folders.\<close>

lemma desk_save_folder:
  assumes ok: "desk_ok s" and f: "fd_id f \<in> fd_id ` set (st_folders s)" "key_ok (fd_sort_key f)"
    and free: "\<And>x y. \<lbrakk>x \<in> set (st_folders s); fd_id x = fd_id f; y \<in> set (st_folders s); fd_id y \<noteq> fd_id f; fd_user y = fd_user x\<rbrakk>
      \<Longrightarrow> fd_name y \<noteq> fd_name f"
  shows "desk_ok (s\<lparr>st_folders := put_folder f (st_folders s)\<rparr>)"
  unfolding desk_ok_def
proof (intro conjI)
  let ?s = "s\<lparr>st_folders := put_folder f (st_folders s)\<rparr>" and ?g = "\<lambda>x. if fd_id x = fd_id f then folder_over f x else x"
  note ids = put_folder_ids[OF f(1)]
  have i: "map fd_id (put_folder f (st_folders s)) = map fd_id (st_folders s)"
    using arg_cong[OF ids, of "map fst"] by (simp add: comp_def)
  have h: "holds_account ?s u a = holds_account s u a" for u a by (simp add: holds_account_def)
  have d: "distinct (map fd_id (st_folders s))" "distinct (map (\<lambda>f. (fd_user f, fd_name f)) (st_folders s))"
    using ok by (simp_all add: desk_defs)
  have "inj_on (\<lambda>x. (fd_user (?g x), fd_name (?g x))) (set (st_folders s))"
  proof (rule inj_onI)
    fix x y assume xy: "x \<in> set (st_folders s)" "y \<in> set (st_folders s)"
      and e: "(fd_user (?g x), fd_name (?g x)) = (fd_user (?g y), fd_name (?g y))"
    have i1: "x = y" if "fd_id x = fd_id y" using d(1) that xy by (simp add: distinct_map inj_on_def)
    have i2: "x = y" if "fd_user x = fd_user y" "fd_name x = fd_name y"
      using d(2) that xy unfolding distinct_map inj_on_def by simp
    show "x = y"
    proof (cases "fd_id x = fd_id f"; cases "fd_id y = fd_id f")
      assume "fd_id x = fd_id f" "fd_id y = fd_id f" then show ?thesis using i1 by simp
    next
      assume "fd_id x = fd_id f" "fd_id y \<noteq> fd_id f"
      then show ?thesis using e free[OF xy(1) _ xy(2)] by (simp add: folder_over_def)
    next
      assume "fd_id x \<noteq> fd_id f" "fd_id y = fd_id f"
      then show ?thesis using e free[OF xy(2) _ xy(1)] by (simp add: folder_over_def)
    next
      assume "fd_id x \<noteq> fd_id f" "fd_id y \<noteq> fd_id f"
      then show ?thesis using e i2 by simp
    qed
  qed
  then have "distinct (map (\<lambda>f. (fd_user f, fd_name f)) (put_folder f (st_folders s)))"
    using d(1) unfolding put_folder_known[OF f(1)] map_map comp_def by (auto simp: distinct_map)
  then show "rows_unique ?s" using ok i by (simp add: desk_ok_def rows_unique_def)
  show "places_held ?s"
    using ok unfolding desk_ok_def places_held_def h
    by (simp add: folder_owner_cong[OF ids, of _ "\<lambda>u. holds_account s u _"])
  show "desk_keys ?s" using ok f(2) by (auto simp: desk_defs put_folder_known[OF f(1)] folder_over_def)
qed

lemma desk_new_folder:
  assumes ok: "desk_ok s" and f: "fd_id f \<notin> fd_id ` set (st_folders s)" "key_ok (fd_sort_key f)"
    and free: "\<And>y. \<lbrakk>y \<in> set (st_folders s); fd_user y = fd_user f\<rbrakk> \<Longrightarrow> fd_name y \<noteq> fd_name f"
  shows "desk_ok (s\<lparr>st_folders := put_folder f (st_folders s)\<rparr>)"
proof -
  have h: "holds_account (s\<lparr>st_folders := m\<rparr>) u i = holds_account s u i" for m u i by (simp add: holds_account_def)
  show ?thesis using ok f free by (fastforce simp: desk_defs h put_folder_new)
qed

lemma desk_delete_folder:
  assumes ok: "desk_ok s"
  shows "desk_ok (s\<lparr>st_folders := delete_row fd_id i (st_folders s), st_memberships := filter (\<lambda>(f, _). f \<noteq> i) (st_memberships s)\<rparr>)"
proof -
  have h: "holds_account (s\<lparr>st_folders := m, st_memberships := n\<rparr>) u i = holds_account s u i" for m n u i by (simp add: holds_account_def)
  show ?thesis using ok by (fastforce simp: desk_defs h delete_row_def distinct_map_filter)
qed

end
