(* ===== verification/Account_Calls.thy ===== *)
theory Account_Calls
  imports Account_Sharing
begin

section \<open>The calls of the account module\<close>

text \<open>
  What the bodies of the account module keep of \<open>desk_ok\<close>, statement by statement: the keys and folders they resolve, creating,
  updating and deleting an account, granting, accepting, declining and revoking a share. \<open>detached\<close> is the database after a
  share has been unwound.
\<close>

subsection \<open>Parts of the bodies\<close>

lemma after_next_key: "(\<And>k. valid_key k \<Longrightarrow> Q k s) \<Longrightarrow> after (next_account_key u) Q s"
  using validate_seed[of GrowsUp] unfolding next_account_key_def repo_sort_keys_def
  by (auto simp: after_simps Let_def dest: between_Inr)

lemma append_key_Inr: "append_key items f g = Inr k \<Longrightarrow> valid_key k"
  using validate_seed[of g] by (auto simp: append_key_def dest: between_Inr split: if_splits)

lemma after_create_folder:
  assumes "desk_ok s" "ae_folder_id env \<notin> fd_id ` set (st_folders s)"
    and "\<And>f. \<lbrakk>desk_ok (s\<lparr>st_folders := st_folders s @ [f]\<rparr>); fd_user f = u\<rbrakk> \<Longrightarrow> Q f (s\<lparr>st_folders := st_folders s @ [f]\<rparr>)"
  shows "after (create_folder_tx env u nm) Q s"
proof -
  have "Q f (s\<lparr>st_folders := put_folder f (st_folders s)\<rparr>)"
    if "\<forall>g\<in>{f \<in> set (st_folders s). fd_user f = u}. fd_name g \<noteq> nm" "valid_key k"
      "f = account_folder_set_sort_key k (new_account_folder (ae_folder_id env) u nm (ae_folder_now env))" for k f
  proof -
    have i: "fd_id f \<notin> fd_id ` set (st_folders s)" and f: "fd_user f = u" "fd_name f = nm" "fd_sort_key f = k"
      using assms(2) that(3) by (simp_all add: account_folder_set_sort_key_def new_account_folder_def)
    have "desk_ok (s\<lparr>st_folders := put_folder f (st_folders s)\<rparr>)"
      by (rule desk_new_folder[OF assms(1) i]) (use f that in \<open>auto simp: key_ok_def\<close>)
    then show ?thesis using assms(3) f(1) by (simp add: put_folder_new[OF i])
  qed
  then show ?thesis
    unfolding create_folder_tx_def repo_list_folders_def repo_save_folder_def Let_def
    by (auto simp: after_simps dest: append_key_Inr)
qed

lemma folder_found: "find_row fd_id i (st_folders s) = Some f \<Longrightarrow> f \<in> set (st_folders s) \<and> fd_id f = i"
  by (rule find_row_Some)

text \<open>\<open>resolveAccountFolder\<close> gives a folder of the user, the first one ever included.\<close>

lemma after_resolve_folder:
  assumes ok: "desk_ok s" and fresh: "ae_folder_id env \<notin> fd_id ` set (st_folders s)"
    and old: "\<And>f. \<lbrakk>f \<in> set (st_folders s); fd_user f = u\<rbrakk> \<Longrightarrow> Q (fd_id f) s"
    and new: "\<And>f. \<lbrakk>desk_ok (s\<lparr>st_folders := st_folders s @ [f]\<rparr>); fd_user f = u\<rbrakk> \<Longrightarrow> Q (fd_id f) (s\<lparr>st_folders := st_folders s @ [f]\<rparr>)"
  shows "after (resolve_account_folder pf env u raw) Q s"
proof -
  have d: "after (default_folder_or env u e) Q s" for e
    unfolding default_folder_or_def repo_count_folders_def
    by (simp add: after_simps, rule impI, rule after_create_folder[OF ok fresh]) (simp add: after_simps new)
  show ?thesis
    unfolding resolve_account_folder_def
    by (auto simp: d old after_if after_sbind after_basic after_folder_or dest: folder_found split: option.split)
qed

lemma holds_mono_member [simp]:
  "holds_account (s\<lparr>st_folders := fs\<rparr>) u a = holds_account s u a"
  "holds_account (s\<lparr>st_options := os\<rparr>) u a = holds_account s u a"
  "holds_account (s\<lparr>st_memberships := ms\<rparr>) u a = holds_account s u a"
  by (simp_all add: holds_account_def)

lemma after_add_member:
  assumes "desk_ok s" "f \<in> set (st_folders s)" "holds_account s (fd_user f) a"
    and "\<And>ms. desk_ok (s\<lparr>st_memberships := ms\<rparr>) \<Longrightarrow> Q () (s\<lparr>st_memberships := ms\<rparr>)"
  shows "after (repo_add_member (fd_id f) a) Q s"
  unfolding repo_add_member_def after_update
  by (rule assms(4)[OF desk_add_member[OF assms(1,2) refl assms(3)]])

lemma after_save_key:
  assumes "desk_ok s" "holds_account s u a" "valid_key k"
    and "\<And>os. desk_ok (s\<lparr>st_options := os\<rparr>) \<Longrightarrow> Q () (s\<lparr>st_options := os\<rparr>)"
  shows "after (repo_save_sort_key a u k now) Q s"
  unfolding repo_save_sort_key_def after_update
  by (rule assms(4)[OF desk_save_key[OF assms(1)]]) (use assms(2,3) in \<open>simp_all add: key_ok_def\<close>)

lemma same_desk_steps:
  "sd.obeys (claim i now)" "sd.obeys (mark_handled i now)" "sd.obeys (save_correction c)"
  "sd.obeys (zero_balance c' now acct at d)"
  by (intro desk_framed framed_marks framed_rows framed_zero)+

lemma desk_to_end: "\<lbrakk>sd.obeys m; desk_ok s\<rbrakk> \<Longrightarrow> after m (\<lambda>_. desk_ok) s"
  by (rule after_same_desk) (simp_all add: same_desk_ok)

lemma same_desk_ids:
  assumes "same_desk s s'"
  shows "acc_id ` set (st_accounts s') = acc_id ` set (st_accounts s)" "st_folders s' = st_folders s"
proof -
  have "map fst (owners (st_accounts s')) = map fst (owners (st_accounts s))" using assms by (simp add: same_desk_def)
  then have "set (map acc_id (st_accounts s')) = set (map acc_id (st_accounts s))" unfolding owners_ids by simp
  then show "acc_id ` set (st_accounts s') = acc_id ` set (st_accounts s)" by simp
  show "st_folders s' = st_folders s" using assms by (simp add: same_desk_def)
qed

lemma after_seq: "\<lbrakk>after m R s; \<And>x s'. R x s' \<Longrightarrow> after (f x) Q s'\<rbrakk> \<Longrightarrow> after (sbind m f) Q s"
  by (auto simp: after_def sbind_Inr_iff)

lemma after_unless: "(\<not> b \<Longrightarrow> after m Q s) \<Longrightarrow> after (if b then fail e else m) Q s"
  by (simp add: after_basic)

subsection \<open>Creating an account\<close>

text \<open>The conditions between the statements of \<open>create_account_body\<close>.\<close>

definition fresh_in :: "account_env \<Rightarrow> store \<Rightarrow> bool" where
  "fresh_in env s \<longleftrightarrow> ae_new_id env \<notin> acc_id ` set (st_accounts s) \<and> ae_folder_id env \<notin> fd_id ` set (st_folders s)"

definition desk_fresh :: "account_env \<Rightarrow> store \<Rightarrow> bool" where
  "desk_fresh env s \<longleftrightarrow> desk_ok s \<and> fresh_in env s"

definition desk_holding :: "account_env \<Rightarrow> ident \<Rightarrow> ident \<Rightarrow> store \<Rightarrow> bool" where
  "desk_holding env u a s \<longleftrightarrow> desk_ok s \<and> ae_folder_id env \<notin> fd_id ` set (st_folders s) \<and> holds_account s u a"

definition desk_folder :: "ident \<Rightarrow> ident \<Rightarrow> ident \<Rightarrow> store \<Rightarrow> bool" where
  "desk_folder u a f s \<longleftrightarrow> desk_ok s \<and> holds_account s u a \<and> (\<exists>fd\<in>set (st_folders s). fd_id fd = f \<and> fd_user fd = u)"

lemma step_same_desk: "\<lbrakk>sd.obeys m; desk_fresh env s\<rbrakk> \<Longrightarrow> after m (\<lambda>_. desk_fresh env) s"
  by (rule after_same_desk) (auto simp: desk_fresh_def fresh_in_def same_desk_ok same_desk_ids)

lemma step_next_key: "P s \<Longrightarrow> after (next_account_key u) (\<lambda>k s. valid_key k \<and> P s) s"
  by (rule after_next_key) simp

lemma step_new_account:
  assumes "valid_key k \<and> desk_fresh env s" "acc_id a = ae_new_id env" "acc_user a = u"
  shows "after (repo_save_account a) (\<lambda>_ s. valid_key k \<and> desk_holding env u (ae_new_id env) s) s"
proof -
  have f: "acc_id a \<notin> acc_id ` set (st_accounts s)" using assms by (simp add: desk_fresh_def fresh_in_def)
  have "desk_ok (s\<lparr>st_accounts := put_account a (st_accounts s)\<rparr>)"
    using assms(1) by (intro desk_new_account f) (simp add: desk_fresh_def)
  moreover have "holds_account (s\<lparr>st_accounts := put_account a (st_accounts s)\<rparr>) u (ae_new_id env)"
    using assms(2,3) by (simp add: holds_account_def put_account_new[OF f])
  ultimately show ?thesis
    using assms(1) by (simp add: repo_save_account_def after_update desk_holding_def desk_fresh_def fresh_in_def)
qed

lemma step_save_key: "valid_key k \<and> desk_holding env u a s \<Longrightarrow> after (repo_save_sort_key a u k now) (\<lambda>_. desk_holding env u a) s"
  by (rule after_save_key[of s u a k]) (simp_all add: desk_holding_def)

lemma step_resolve: "desk_holding env u a s \<Longrightarrow> after (resolve_account_folder pf env u raw) (\<lambda>f. desk_folder u a f) s"
  by (rule after_resolve_folder[of s env u]) (auto simp: desk_holding_def desk_folder_def)

lemma step_add_member: "desk_folder u a f s \<Longrightarrow> after (repo_add_member f a) (\<lambda>_. desk_ok) s"
  unfolding desk_folder_def using after_add_member[of s _ a "\<lambda>_. desk_ok"] by blast

lemma step_correction: "desk_ok s \<Longrightarrow> after (if b then ret None else sbind (save_correction c) (\<lambda>_. ret (Some c))) (\<lambda>_. desk_ok) s"
  by (cases b) (simp_all add: after_basic after_seq[OF desk_to_end[OF same_desk_steps(3)]])

lemma after_create_account_body:
  assumes "desk_fresh env s"
  shows "after (create_account_body pf env u op nm cur ic bal folder) (\<lambda>_. desk_ok) s"
  unfolding create_account_body_def Let_def
  apply (rule after_seq, rule step_same_desk[OF same_desk_steps(1) assms], rule after_unless)
  apply (rule after_seq, erule step_next_key, rule after_seq, erule step_new_account)
  apply (simp add: new_account_def, simp add: new_account_def)
  apply (rule after_seq, erule step_save_key, rule after_seq, erule step_resolve, rule after_seq, erule step_add_member)
  apply (rule after_seq, erule step_correction, rule after_seq, erule desk_to_end[OF same_desk_steps(2)])
  apply (simp add: after_simps)
  done

subsection \<open>Updating, deleting and moving an account\<close>

lemma known_account: "find_row acc_id i (st_accounts s) = Some a \<Longrightarrow> i \<in> acc_id ` set (st_accounts s) \<and> acc_id a = i"
  by (auto dest: find_row_Some)

lemma desk_known_save: "\<lbrakk>desk_ok s; acc_id a \<in> acc_id ` set (st_accounts s)\<rbrakk> \<Longrightarrow> after (repo_save_account a) (\<lambda>_. desk_ok) s"
  unfolding repo_save_account_def after_update by (rule desk_known_account)

lemma account_mutators [simp]:
  "acc_id (account_update_name nm now a) = acc_id a" "acc_id (account_update_icon ic now a) = acc_id a"
  "acc_id (account_update_currency c now a) = acc_id a" "acc_id (account_delete now a) = acc_id a"
  "acc_user (account_update_name nm now a) = acc_user a" "acc_user (account_update_icon ic now a) = acc_user a"
  "acc_user (account_update_currency c now a) = acc_user a" "acc_user (account_delete now a) = acc_user a"
  by (simp_all add: account_update_name_def account_update_icon_def account_update_currency_def account_delete_def)

lemma read_only_ensure_usable: "read_only (ensure_usable u c)"
  unfolding ensure_usable_def by (auto intro!: atomic_intro split: option.split)

lemma step_read: "\<lbrakk>read_only m; P s\<rbrakk> \<Longrightarrow> after m (\<lambda>_. P) s"
  by (rule after_read_only)

definition desk_row :: "ident \<Rightarrow> account \<Rightarrow> store \<Rightarrow> bool" where
  "desk_row i a s \<longleftrightarrow> desk_ok s \<and> find_row acc_id i (st_accounts s) = Some a"

lemma step_get_account: "desk_ok s \<Longrightarrow> after (repo_get_account i) (desk_row i) s"
  by (simp add: after_get_account desk_row_def)

lemma step_save_row: "\<lbrakk>desk_row i a s; acc_id a' = acc_id a\<rbrakk> \<Longrightarrow> after (repo_save_account a') (\<lambda>_. desk_ok) s"
  unfolding desk_row_def using known_account[of i s a] by (auto intro!: desk_known_save)

lemma after_update_account_body:
  assumes ok: "desk_ok s"
  shows "after (update_account_body env u i nm ic cur at req) (\<lambda>_. desk_ok) s"
  unfolding update_account_body_def Let_def
  apply (rule after_seq, rule step_read[of _ desk_ok, OF read_only_owner_admin ok], rule after_seq, erule step_get_account)
  apply (rule after_seq, rule step_read[where P = "desk_row i a" for a])
  apply (force intro!: atomic_intro read_only_ensure_usable split: option.split, assumption)
  apply (rule after_seq, erule step_save_row, simp split: option.split)
  apply (rule after_seq, rule step_read[where P = desk_ok], simp, assumption)
  apply (rule after_seq, erule step_correction, simp add: after_basic)
  done

lemma after_delete_account_body:
  assumes ok: "desk_row i a s"
  shows "after (delete_account_body env a) (\<lambda>_. desk_ok) s"
proof -
  have row: "desk_ok s" "find_row acc_id i (st_accounts s) = Some a" using ok by (simp_all add: desk_row_def)
  show ?thesis
    unfolding delete_account_body_def after_sbind
  proof (rule after_same_desk[OF same_desk_steps(4)])
    fix s' assume e: "same_desk s s'"
    show "after (repo_save_account (account_delete (ae_now env) a)) (\<lambda>_. desk_ok) s'"
      using same_desk_ok[OF e] same_desk_ids(1)[OF e] row known_account[OF row(2)] by (intro desk_known_save) auto
  qed
qed

subsection \<open>Sharing\<close>

text \<open>What \<open>unwindGrant\<close> leaves: nothing of the account on the user's side, the rest as before.\<close>

definition detached :: "ident \<Rightarrow> ident \<Rightarrow> store \<Rightarrow> store" where
  "detached account user s = s\<lparr>
     st_memberships := filter (\<lambda>(f, a). \<not> (a = account \<and> (\<exists>fd\<in>set (st_folders s). fd_id fd = f \<and> fd_user fd = user))) (st_memberships s),
     st_options := filter (\<lambda>r. \<not> (ao_account r = account \<and> ao_user r = user)) (st_options s),
     st_access := filter (\<lambda>g. \<not> (aa_account g = account \<and> aa_user g = user)) (st_access s)\<rparr>"

lemma remove_members:
  "for_each fs (\<lambda>f. if P f then repo_remove_member f a else ret ()) s =
     (Inr (), s\<lparr>st_memberships := filter (\<lambda>(f, x). \<not> (x = a \<and> f \<in> set fs \<and> P f)) (st_memberships s)\<rparr>)"
proof (induction fs arbitrary: s)
  case Nil
  then show ?case by (simp add: ret_def)
next
  case (Cons f fs)
  show ?case
  proof (cases "P f")
    case True
    have "filter (\<lambda>(g, x). \<not> (x = a \<and> g \<in> set fs \<and> P g)) (filter (\<lambda>r. r \<noteq> (f, a)) (st_memberships s)) =
        filter (\<lambda>(g, x). \<not> (x = a \<and> g \<in> set (f # fs) \<and> P g)) (st_memberships s)"
      unfolding filter_filter using True by (intro filter_cong) auto
    then show ?thesis using True by (simp add: sbind_def repo_remove_member_def update_store_def Cons.IH del: list.set)
  next
    case False
    then have "filter (\<lambda>(g, x). \<not> (x = a \<and> g \<in> set fs \<and> P g)) (st_memberships s) =
        filter (\<lambda>(g, x). \<not> (x = a \<and> g \<in> set (f # fs) \<and> P g)) (st_memberships s)"
      by (intro filter_cong) auto
    then show ?thesis using False by (simp add: Cons.IH del: list.set)
  qed
qed

lemma unwind_grant_detaches: "unwind_grant account user s = (Inr (), detached account user s)"
proof -
  let ?own = "\<lambda>f. \<exists>fd\<in>set (st_folders s). fd_id fd = f \<and> fd_user fd = user"
  let ?rows = "filter (\<lambda>(f, _). ?own f) (st_memberships s)"
  have "filter (\<lambda>(f, x). \<not> (x = account \<and> f \<in> set (remdups (map fst ?rows)) \<and> account \<in> set (members_of ?rows f))) (st_memberships s) =
      filter (\<lambda>(f, a). \<not> (a = account \<and> ?own f)) (st_memberships s)"
    by (rule filter_cong) (auto simp: members_of_def image_iff)
  then show ?thesis
    by (simp add: unwind_grant_def sbind_def repo_memberships_def gets_def remove_members repo_delete_option_def
        repo_delete_access_def update_store_def detached_def del: set_remdups)
qed

lemma detached_holds: "holds_account s u a \<Longrightarrow> (a, u) \<noteq> (account, user) \<Longrightarrow> holds_account (detached account user s) u a"
  by (auto simp: holds_account_def detached_def)

lemma desk_detached: "desk_ok s \<Longrightarrow> desk_ok (detached account user s)"
proof -
  assume ok: "desk_ok s"
  let ?s = "detached account user s"
  have sel: "st_accounts ?s = st_accounts s" "st_folders ?s = st_folders s"
    "st_options ?s = filter (\<lambda>r. \<not> (ao_account r = account \<and> ao_user r = user)) (st_options s)"
    "st_access ?s = filter (\<lambda>g. \<not> (aa_account g = account \<and> aa_user g = user)) (st_access s)" by (simp_all add: detached_def)
  have 1: "rows_unique ?s" using ok unfolding desk_ok_def rows_unique_def sel by (simp add: detached_def distinct_map_filter)
  have 2: "desk_keys ?s" using ok unfolding desk_ok_def desk_keys_def sel by simp
  have p: "places_held s" using ok by (simp add: desk_ok_def)
  have 3: "places_held ?s" unfolding places_held_def
  proof (intro conjI ballI; (simp only: split_paired_all case_prod_conv)?)
    fix r assume "r \<in> set (st_options ?s)"
    then show "holds_account ?s (ao_user r) (ao_account r)"
      using p unfolding sel by (auto simp: places_held_def intro: detached_holds)
  next
    fix f a assume fa: "(f, a) \<in> set (st_memberships ?s)"
    then obtain fd where fd: "fd \<in> set (st_folders s)" "fd_id fd = f" "holds_account s (fd_user fd) a"
      using p by (auto simp: places_held_def detached_def)
    moreover have "(a, fd_user fd) \<noteq> (account, user)" using fa fd(1,2) by (auto simp: detached_def)
    ultimately show "\<exists>fd\<in>set (st_folders ?s). fd_id fd = f \<and> holds_account ?s (fd_user fd) a"
      unfolding sel using detached_holds by blast
  qed
  show ?thesis using 1 2 3 by (simp add: desk_ok_def)
qed

lemma step_unwind: "desk_ok s \<Longrightarrow> after (unwind_grant account user) (\<lambda>_. desk_ok) s"
  by (simp add: after_def unwind_grant_detaches desk_detached)

lemma step_owner_admin: "desk_ok s \<Longrightarrow> after (require_owner_admin u a) (\<lambda>_. desk_ok) s"
  by (rule step_read[OF read_only_owner_admin])

lemma step_save_access:
  assumes "desk_ok s" "\<And>x. \<lbrakk>x \<in> set (st_access s); aa_account x = aa_account g; aa_user x = aa_user g; aa_accepted x\<rbrakk> \<Longrightarrow> aa_accepted g"
  shows "after (repo_save_access g) (\<lambda>_. desk_ok) s"
  unfolding repo_save_access_def after_update by (rule desk_save_access(1)[OF assms])

lemma grant_unique:
  assumes "desk_ok s" "find_grant s a u = Some g" "x \<in> set (st_access s)" "aa_account x = a" "aa_user x = u"
  shows "x = g"
proof -
  have "inj_on (\<lambda>g. (aa_account g, aa_user g)) (set (st_access s))"
    using assms(1) by (simp add: desk_ok_def rows_unique_def distinct_map)
  then show ?thesis using find_grant_Some[OF assms(2)] assms(3-5) by (auto dest!: inj_onD)
qed

lemma after_grant_body:
  assumes ok: "desk_ok s"
  shows "after (grant_body now u account affected role) (\<lambda>_. desk_ok) s"
  unfolding grant_body_def
proof (rule after_seq, rule step_owner_admin[OF ok], rule after_seq, erule step_get_account, rule after_unless)
  fix a s' assume "desk_row account a s'"
  then have ok': "desk_ok s'" by (simp add: desk_row_def)
  have new: "after (repo_save_access (new_account_access account affected role now)) (\<lambda>_. desk_ok) s'"
    if "find_grant s' account affected = None"
    using that by (intro step_save_access ok') (auto simp: find_grant_None new_account_access_def)
  have old: "after (repo_save_access (account_access_update_role role now g)) (\<lambda>_. desk_ok) s'"
    if g: "find_grant s' account affected = Some g" for g
  proof (rule step_save_access[OF ok'])
    have sel: "aa_account (account_access_update_role role now g) = account" "aa_user (account_access_update_role role now g) = affected"
      "aa_accepted (account_access_update_role role now g) = aa_accepted g"
      using find_grant_Some[OF g] by (simp_all add: account_access_update_role_def)
    fix x assume x: "x \<in> set (st_access s')" "aa_account x = aa_account (account_access_update_role role now g)"
      "aa_user x = aa_user (account_access_update_role role now g)" "aa_accepted x"
    have "x = g" by (rule grant_unique[OF ok' g x(1)]) (use x(2,3) sel in simp_all)
    then show "aa_accepted (account_access_update_role role now g)" using x(4) sel(3) by simp
  qed
  show "after (on_not_found (repo_get_access account affected) (\<lambda>_. repo_save_access (new_account_access account affected role now))
      (\<lambda>g. repo_save_access (account_access_update_role role now g))) (\<lambda>_. desk_ok) s'"
    using new old by (simp add: after_access_or split: option.split)
qed

definition desk_grant :: "account_env \<Rightarrow> ident \<Rightarrow> ident \<Rightarrow> account_access \<Rightarrow> store \<Rightarrow> bool" where
  "desk_grant env a u g s \<longleftrightarrow> desk_ok s \<and> ae_folder_id env \<notin> fd_id ` set (st_folders s) \<and> find_grant s a u = Some g"

definition desk_offered :: "ident \<Rightarrow> ident \<Rightarrow> account_access \<Rightarrow> ident \<Rightarrow> store \<Rightarrow> bool" where
  "desk_offered a u g f s \<longleftrightarrow> desk_ok s \<and> find_grant s a u = Some g \<and> (\<exists>fd\<in>set (st_folders s). fd_id fd = f \<and> fd_user fd = u)"

lemma find_grant_folders [simp]: "find_grant (s\<lparr>st_folders := fs\<rparr>) a u = find_grant s a u"
  by (simp add: find_grant_def)

lemma step_offer: "desk_grant env a u g s \<Longrightarrow> after (resolve_account_folder pf env u raw) (\<lambda>f. desk_offered a u g f) s"
  by (rule after_resolve_folder[of s env u]) (auto simp: desk_grant_def desk_offered_def)

lemma put_access_accepted:
  assumes "x \<in> set rows" "aa_account x = aa_account g \<and> aa_user x = aa_user g" "aa_accepted g"
  shows "\<exists>y\<in>set (put_access g rows). aa_account y = aa_account g \<and> aa_user y = aa_user g \<and> aa_accepted y"
proof -
  let ?f = "\<lambda>x. x\<lparr>aa_role := aa_role g, aa_accepted := aa_accepted g, aa_updated := aa_updated g\<rparr>"
  have "put_access g rows = map (\<lambda>x. if aa_account x = aa_account g \<and> aa_user x = aa_user g then ?f x else x) rows"
    unfolding put_access_def using assms(1,2) by (intro if_P) blast
  moreover have "?f x = (\<lambda>x. if aa_account x = aa_account g \<and> aa_user x = aa_user g then ?f x else x) x"
    by (simp only: assms(2) simp_thms if_True)
  ultimately have "?f x \<in> set (put_access g rows)" using assms(1) by (simp only: set_map) (rule image_eqI)
  then show ?thesis using assms(2,3) by (intro bexI[of _ "?f x"]) simp_all
qed

lemma step_accept:
  assumes "desk_offered a u g f s"
  shows "after (repo_save_access (account_access_accept now g)) (\<lambda>_. desk_folder u a f) s"
proof -
  let ?g = "account_access_accept now g" and ?s = "s\<lparr>st_access := put_access (account_access_accept now g) (st_access s)\<rparr>"
  have ok: "desk_ok s" and g: "g \<in> set (st_access s)" "aa_account g = a" "aa_user g = u"
    using assms find_grant_Some[of s a u g] by (simp_all add: desk_offered_def)
  have k: "aa_account ?g = a" "aa_user ?g = u" "aa_accepted ?g" using g by (simp_all add: account_access_accept_def)
  have "desk_ok ?s" by (rule desk_save_access(1)[OF ok]) (simp add: k)
  moreover have "holds_account ?s u a"
    using put_access_accepted[of g "st_access s" ?g] g k by (auto simp: holds_account_def)
  ultimately show ?thesis using assms by (simp add: repo_save_access_def after_update desk_folder_def desk_offered_def)
qed

lemma step_place: "valid_key k \<and> desk_folder u a f s \<Longrightarrow> after (repo_save_sort_key a u k now) (\<lambda>_. desk_folder u a f) s"
  by (rule after_save_key[of s u a k]) (auto simp: desk_folder_def)

lemma after_accept_body:
  assumes "desk_ok s" "ae_folder_id env \<notin> fd_id ` set (st_folders s)"
  shows "after (accept_body pf env u account folder) (\<lambda>_. desk_ok) s"
proof -
  have "after (sbind (repo_get_account account) (\<lambda>acct.
       if acc_deleted acct then fail (NotFoundError ''Account not found'')
       else
         sbind (resolve_account_folder pf env u folder) (\<lambda>folder_id.
         sbind (repo_save_access (account_access_accept (ae_now env) g)) (\<lambda>_.
         sbind (next_account_key u) (\<lambda>k.
         sbind (repo_save_sort_key account u k (ae_now env)) (\<lambda>_.
         repo_add_member folder_id account)))))) (\<lambda>_. desk_ok) s" if "find_grant s account u = Some g" for g
    apply (rule after_seq[where R = "\<lambda>_. desk_grant env account u g"])
     apply (simp add: after_get_account desk_grant_def assms that)
    apply (rule after_unless, rule after_seq, erule step_offer, rule after_seq, erule step_accept)
    apply (rule after_seq, erule step_next_key, rule after_seq, erule step_place, erule step_add_member)
    done
  then show ?thesis
    unfolding accept_body_def by (auto simp: after_access_or after_basic split: option.split)
qed

lemma step_get_access: "desk_ok s \<Longrightarrow> after (repo_get_access a u) (\<lambda>_. desk_ok) s"
  by (simp add: after_get_access)

lemma after_decline_body:
  "desk_ok s \<Longrightarrow> after (on_not_found (repo_get_access a u) (\<lambda>_. fail access_denied) (\<lambda>_. unwind_grant a u)) (\<lambda>_. desk_ok) s"
  by (simp add: after_access_or after_basic step_unwind split: option.split)

lemma after_revoke_bodies:
  assumes "desk_ok s"
  shows "after (revoke_body u a affected) (\<lambda>_. desk_ok) s"
    "after (sbind (repo_get_access a u) (\<lambda>_. unwind_grant a u)) (\<lambda>_. desk_ok) s"
    "after (revoke_access_between b c) (\<lambda>_. desk_ok) s"
proof -
  show "after (revoke_body u a affected) (\<lambda>_. desk_ok) s" unfolding revoke_body_def
    by (rule after_seq, rule step_owner_admin[OF assms], rule after_seq, erule step_get_access, erule step_unwind)
  show "after (sbind (repo_get_access a u) (\<lambda>_. unwind_grant a u)) (\<lambda>_. desk_ok) s"
    by (rule after_seq, rule step_get_access[OF assms], erule step_unwind)
  have 1: "after (sbind (repo_get_account (aa_account g)) (\<lambda>acct. if acc_user acct = c then unwind_grant (aa_account g) (aa_user g) else ret ()))
      (\<lambda>_. desk_ok) t" if "desk_ok t" for g t
    using that by (simp add: after_sbind after_get_account after_basic step_unwind)
  have 2: "after (if aa_user g = c then unwind_grant (aa_account g) (aa_user g) else ret ()) (\<lambda>_. desk_ok) t" if "desk_ok t" for g t
    using that by (simp add: after_basic step_unwind)
  show "after (revoke_access_between b c) (\<lambda>_. desk_ok) s"
    unfolding revoke_access_between_def repo_access_received_def repo_access_issued_def
    apply (rule after_seq[where R = "\<lambda>_. desk_ok"], simp add: after_basic assms)
    apply (rule after_seq, rule after_for_each[where I = desk_ok], assumption, rule 1, assumption)
    apply (rule after_seq[where R = "\<lambda>_. desk_ok"], simp add: after_basic)
    apply (rule after_for_each[where I = desk_ok], assumption, rule 2, assumption)
    done
qed

end
