(* ===== verification/Ledger_Zeroing.thy ===== *)
theory Ledger_Zeroing
  imports Ledger_Posting
begin

section \<open>Deleted accounts stay at zero\<close>

text \<open>
  Deleting an account books its balance off, and every later change of one of its rows is followed by a correction. The
  balance is \<open>funds\<close>, the sum that \<open>repo_balance\<close> prints, over all rows before \<open>all_time_balance_bound\<close>.
\<close>

subsection \<open>What a row brings to an account\<close>

definition flow :: "ident \<Rightarrow> transaction \<Rightarrow> int" where
  "flow a t =
     (if tx_account t = a then (if tx_type t = 1 then amount_value (tx_amount t)
        else if tx_type t = 0 \<or> tx_type t = 2 then - amount_value (tx_amount t) else 0) else 0) +
     (if tx_recipient t = Some a \<and> tx_type t = 2
      then (case tx_amount_recipient t of None \<Rightarrow> 0 | Some v \<Rightarrow> amount_value v) else 0)"

definition funds_before :: "instant \<Rightarrow> ident \<Rightarrow> store \<Rightarrow> int" where
  "funds_before before a s = sum_list (map (flow a) (filter (\<lambda>t. tx_spent_at t < before) (st_transactions s)))"

definition funds :: "ident \<Rightarrow> store \<Rightarrow> int" where
  "funds a s = sum_list (map (flow a) (filter (\<lambda>t. tx_spent_at t < all_time_balance_bound) (st_transactions s)))"

lemma flow_off: "\<not> on_account a t \<Longrightarrow> flow a t = 0"
  by (simp add: flow_def on_account_def)

lemma repo_balance_before: "repo_balance a before s = (Inr (to_string (from_scaled (funds_before before a s))), s)"
proof -
  have own: "sum_list (map (\<lambda>t. amount_value (tx_amount t)) (filter (\<lambda>t. tx_account t = a \<and> tx_type t = ty) txs)) =
      sum_list (map (\<lambda>t. if tx_account t = a \<and> tx_type t = ty then amount_value (tx_amount t) else 0) txs)" for ty txs
    by (induction txs) auto
  have inc: "sum_list (map amount_value (List.map_filter tx_amount_recipient (filter (\<lambda>t. tx_recipient t = Some a \<and> tx_type t = 2) txs))) =
      sum_list (map (\<lambda>t. if tx_recipient t = Some a \<and> tx_type t = 2
        then (case tx_amount_recipient t of None \<Rightarrow> 0 | Some v \<Rightarrow> amount_value v) else 0) txs)" for txs
    by (induction txs) (auto simp: List.map_filter_def split: option.splits)
  have all: "sum_list (map (\<lambda>t. if tx_account t = a \<and> tx_type t = 1 then amount_value (tx_amount t) else 0) txs) +
      sum_list (map (\<lambda>t. if tx_recipient t = Some a \<and> tx_type t = 2
        then (case tx_amount_recipient t of None \<Rightarrow> 0 | Some v \<Rightarrow> amount_value v) else 0) txs) -
      sum_list (map (\<lambda>t. if tx_account t = a \<and> tx_type t = 0 then amount_value (tx_amount t) else 0) txs) -
      sum_list (map (\<lambda>t. if tx_account t = a \<and> tx_type t = 2 then amount_value (tx_amount t) else 0) txs) =
      sum_list (map (flow a) txs)" for txs
    by (induction txs) (auto simp: flow_def)
  show ?thesis unfolding repo_balance_def gets_def Let_def own inc all funds_before_def by simp
qed

lemma repo_balance_funds: "repo_balance a all_time_balance_bound s = (Inr (to_string (from_scaled (funds a s))), s)"
  by (simp add: repo_balance_before funds_before_def funds_def)

lemma amount_value_abs: "amount_value (to_string (abs_decimal d)) = \<bar>scaled d\<bar>"
  unfolding abs_decimal_def to_string_from_scaled from_scaled_value ..

lemma scaled_balance: "scaled (round_decimal (new_decimal (to_string (from_scaled n))) balance_scale) = n"
  using from_scaled_value[of n]
  by (simp add: round_decimal_def balance_scale_def decimal_scale_def amount_value_def)

definition dated :: "store \<Rightarrow> bool" where
  "dated s \<longleftrightarrow> (\<forall>t\<in>set (st_transactions s). tx_spent_at t < all_time_balance_bound)"

definition appended :: "store \<Rightarrow> store \<Rightarrow> bool" where
  "appended s s' \<longleftrightarrow> st_accounts s' = st_accounts s \<and> (\<exists>ts. st_transactions s' = st_transactions s @ ts)"

interpretation ap: store_relation appended
proof
  fix s s' s'' assume "appended s s'" "appended s' s''"
  then show "appended s s''" by (auto simp: appended_def)
qed (simp add: appended_def)

lemma appended_dated: "\<lbrakk>appended s s'; dated s'\<rbrakk> \<Longrightarrow> dated s"
  by (auto simp: appended_def dated_def)

lemma appended_reads [obeys_intro]:
  "ap.obeys (repo_balance a b)" "ap.obeys (repo_get_account a)" "ap.obeys (save_correction c)"
  by (simp_all add: ap.obeys_read_only) (auto simp: ap.obeys_def appended_def elim!: save_correction_Inr)

lemmas [obeys_intro] = ap.obeys_rules

lemma appended_zero [obeys_intro]: "ap.obeys (zero_balance c now acct at d)" "ap.obeys (zero_deleted env a at d)"
  unfolding zero_deleted_def zero_if_deleted_def zero_balance_def Let_def by (intro obeys_intro)+

lemma zero_balance_funds:
  assumes "zero_balance c now acct at d s = (Inr w, s')" "dated s'"
  shows "funds a s' = (if a = acc_id acct then 0 else funds a s)"
proof -
  let ?n = "funds (acc_id acct) s"
  let ?b = "round_decimal (new_decimal (to_string (from_scaled ?n))) balance_scale"
  show ?thesis
  proof (cases "?n = 0")
    case True
    then have "s' = s" using assms(1) scaled_balance[of ?n]
      by (auto simp: zero_balance_def Let_def sbind_Inr_iff repo_balance_funds is_zero_def ret_iff split: if_splits)
    then show ?thesis using True by simp
  next
    case False
    let ?c = "\<lparr>co_id = c, co_user = acc_user acct, co_account = acc_id acct, co_description = d,
      co_type = (if is_negative ?b then 1 else 0), co_amount = to_string (abs_decimal ?b), co_spent_at = at, co_created = now\<rparr>"
    have "save_correction ?c s = (Inr (), s')"
      using assms(1) scaled_balance[of ?n] False
      by (auto simp: zero_balance_def Let_def sbind_Inr_iff repo_balance_funds is_zero_def ret_iff split: if_splits)
    then obtain k pend where s': "s' = s\<lparr>st_transactions := st_transactions s @ [correction_row ?c k], st_pending := pend\<rparr>"
      by (rule save_correction_Inr)
    have "flow a (correction_row ?c k) = (if a = acc_id acct then - ?n else 0)"
      using scaled_balance[of ?n] by (auto simp: flow_def correction_row_def amount_value_abs is_negative_def)
    moreover have "tx_spent_at (correction_row ?c k) < all_time_balance_bound" using assms(2) by (simp add: dated_def s')
    ultimately show ?thesis by (auto simp: s' funds_def)
  qed
qed

subsection \<open>Zeroing after a change\<close>

definition deleted_in :: "store \<Rightarrow> ident \<Rightarrow> bool" where
  "deleted_in s a \<longleftrightarrow> (\<exists>acc\<in>set (st_accounts s). acc_id acc = a \<and> acc_deleted acc)"

definition settled :: "store \<Rightarrow> bool" where
  "settled s \<longleftrightarrow> (\<forall>a. deleted_in s a \<longrightarrow> funds a s = 0)"

lemma deleted_found:
  assumes "distinct (map acc_id (st_accounts s))" "find_row acc_id a (st_accounts s) = Some acc"
  shows "deleted_in s a \<longleftrightarrow> acc_deleted acc"
proof -
  have "b = acc" if "b \<in> set (st_accounts s)" "acc_id b = a" for b
    using find_row_unique[OF assms(1) that] assms(2) by simp
  then show ?thesis using find_row_Some[OF assms(2)] unfolding deleted_in_def by blast
qed

lemma zero_deleted_funds:
  assumes "zero_deleted env i at d s = (Inr x, s')" "dated s'" "distinct (map acc_id (st_accounts s))"
  shows "funds a s' = (if a = i \<and> deleted_in s i then 0 else funds a s)"
proof -
  obtain acct w where acct: "find_row acc_id i (st_accounts s) = Some acct"
    and z: "(if \<not> acc_deleted acct then ret False
       else zero_balance (ce_correction_id env i) (ce_zero_now env i) acct at d) s = (Inr w, s')"
    using assms(1) by (auto simp: zero_deleted_def zero_if_deleted_def act_iff)
  note dl = deleted_found[OF assms(3) acct]
  show ?thesis
  proof (cases "acc_deleted acct")
    case True
    then show ?thesis using z zero_balance_funds[OF _ assms(2)] find_row_Some[OF acct] dl by auto
  next
    case False
    then show ?thesis using z dl by (simp add: ret_iff)
  qed
qed

lemma zero_all_funds:
  "\<lbrakk>for_each ps (\<lambda>p. zero_deleted env p (f p) d) s = (Inr x, s'); dated s'; distinct (map acc_id (st_accounts s))\<rbrakk> \<Longrightarrow>
     funds a s' = (if a \<in> set ps \<and> deleted_in s a then 0 else funds a s) \<and> st_accounts s' = st_accounts s"
proof (induction ps arbitrary: s)
  case (Cons p ps)
  then obtain s1 where 1: "zero_deleted env p (f p) d s = (Inr (), s1)"
    and 2: "for_each ps (\<lambda>p. zero_deleted env p (f p) d) s1 = (Inr x, s')" by (auto simp: sbind_Inr_iff)
  have ap1: "appended s s1" by (rule ap.obeys_outcome[OF appended_zero(2) 1])
  have "ap.obeys (for_each ps (\<lambda>p. zero_deleted env p (f p) d))" by (intro obeys_intro)
  then have "appended s1 s'" using 2 unfolding ap.obeys_def by blast
  then have d1: "dated s1" using Cons.prems(2) appended_dated by blast
  have acc: "st_accounts s1 = st_accounts s" using ap1 by (simp add: appended_def)
  then have del: "deleted_in s1 b = deleted_in s b" for b by (simp add: deleted_in_def)
  show ?case
    using Cons.IH[OF 2 Cons.prems(2)] Cons.prems(3) zero_deleted_funds[OF 1 d1 Cons.prems(3), of a] acc by (auto simp: del)
qed (simp add: ret_iff)

lemma settled_after:
  assumes z: "for_each ps (\<lambda>p. zero_deleted env p (f p) d) s1 = (Inr x, s')" "dated s'"
    and s1: "st_accounts s1 = st_accounts s" "\<And>a. a \<notin> set ps \<Longrightarrow> funds a s1 = funds a s"
    and s: "settled s" "distinct (map acc_id (st_accounts s))"
  shows "settled s'"
proof -
  have "deleted_in s' a = deleted_in s a" "deleted_in s1 a = deleted_in s a" for a
    using zero_all_funds[OF z] s1(1) s(2) by (simp_all add: deleted_in_def)
  then show ?thesis using zero_all_funds[OF z] s1 s unfolding settled_def by simp
qed

lemma funds_rows:
  assumes "st_transactions s' = map g (st_transactions s)"
    and "\<And>y. y \<in> set (st_transactions s) \<Longrightarrow> g y = y \<or> flow a y = 0 \<and> flow a (g y) = 0 \<or> flow a (g y) = flow a y \<and> tx_spent_at (g y) = tx_spent_at y"
  shows "funds a s' = funds a s"
proof -
  let ?c = "\<lambda>t. if tx_spent_at t < all_time_balance_bound then flow a t else 0"
  have f: "funds a s = sum_list (map ?c (st_transactions s))" for s
    unfolding funds_def by (simp add: sum_list_map_filter')
  have "map (?c \<circ> g) (st_transactions s) = map ?c (st_transactions s)"
  proof (rule map_cong[OF refl])
    fix y assume "y \<in> set (st_transactions s)"
    from assms(2)[OF this] show "(?c \<circ> g) y = ?c y" by auto
  qed
  then show ?thesis unfolding f assms(1) map_map by (rule arg_cong)
qed

subsection \<open>Changes that move no money\<close>

definition unmoved :: "store \<Rightarrow> store \<Rightarrow> bool" where
  "unmoved s s' \<longleftrightarrow> types_kept s s' \<and>
     (distinct (map category_id (st_categories s)) \<and> ledger_ok s \<longrightarrow> (\<forall>a. funds a s' = funds a s) \<and>
       map tx_spent_at (st_transactions s') = map tx_spent_at (st_transactions s))"

interpretation um: store_relation unmoved
proof
  fix s s' s'' assume "unmoved s s'" "unmoved s' s''"
  then show "unmoved s s''" unfolding unmoved_def using ty.trans[of s s' s''] by (auto simp: types_kept_def same_books_def)
qed (simp add: unmoved_def ty.refl)

lemma unmoved_rows:
  assumes "ty.obeys m" "\<And>s x s'. m s = (Inr x, s') \<Longrightarrow> \<exists>g. st_transactions s' = map g (st_transactions s) \<and>
      (\<forall>a y. flow a (g y) = flow a y \<and> tx_spent_at (g y) = tx_spent_at y)"
  shows "um.obeys m"
  unfolding um.obeys_def
proof (intro allI impI)
  fix s x s' assume m: "m s = (Inr x, s')"
  obtain g where g: "st_transactions s' = map g (st_transactions s)" "\<And>a y. flow a (g y) = flow a y \<and> tx_spent_at (g y) = tx_spent_at y"
    using assms(2)[OF m] by blast
  then show "unmoved s s'" using ty.obeys_outcome[OF assms(1) m] funds_rows[OF g(1)]
    by (simp add: unmoved_def comp_def)
qed

lemma unmoved_same:
  assumes "ty.obeys m" "\<And>s x s'. m s = (Inr x, s') \<Longrightarrow> st_transactions s' = st_transactions s"
  shows "um.obeys m"
  by (rule unmoved_rows[OF assms(1)]) (use assms(2) in \<open>auto intro!: exI[of _ id]\<close>)

lemma unmoved_map:
  assumes "ty.obeys (sbind (bump_where c) (\<lambda>_. map_transaction i f))"
    and "\<And>y a. flow a (f y) = flow a y" "\<And>y. tx_spent_at (f y) = tx_spent_at y"
  shows "um.obeys (sbind (bump_where c) (\<lambda>_. map_transaction i f))"
proof (rule unmoved_rows[OF assms(1)])
  fix s x s' assume "sbind (bump_where c) (\<lambda>_. map_transaction i f) s = (Inr x, s')"
  from map_row_pending[OF this] obtain pend where
    "s' = s\<lparr>st_transactions := map (\<lambda>x. if tx_id x = i then f x else x) (st_transactions s), st_pending := pend\<rparr>" by blast
  then show "\<exists>g. st_transactions s' = map g (st_transactions s) \<and> (\<forall>a y. flow a (g y) = flow a y \<and> tx_spent_at (g y) = tx_spent_at y)"
    using assms(2,3) by (intro exI[of _ "\<lambda>x. if tx_id x = i then f x else x"]) simp
qed

lemma unmoved_link [obeys_intro]: "um.obeys (repo_link_recurring i r now)"
  using types_link[of i r now] unfolding repo_link_recurring_def by (rule unmoved_map) (simp_all add: flow_def)

lemma unmoved_set_side_key: "valid_key k \<Longrightarrow> um.obeys (set_side_key a i k)"
  using types_set_side_key[of k a i] unfolding set_side_key_def by (rule unmoved_map) (simp_all add: flow_def)

lemma unmoved_rest [obeys_intro]:
  "um.obeys (claim i now)" "um.obeys (mark_handled i now)" "um.obeys (repo_save_recurring rt)"
  "um.obeys (repo_replace_recurring_labels j ls)" "um.obeys (repo_delete_recurring j)"
proof -
  show "um.obeys (claim i now)"
    by (rule unmoved_same[OF types_marks(1)]) (auto simp: claim_def act_iff split: option.splits)
  show "um.obeys (mark_handled i now)"
    by (rule unmoved_same[OF types_marks(2)]) (simp add: mark_handled_def act_iff)
  show "um.obeys (repo_save_recurring rt)"
    by (rule unmoved_same[OF types_template_rows(1)]) (simp add: repo_save_recurring_def act_iff)
  show "um.obeys (repo_replace_recurring_labels j ls)"
    by (rule unmoved_same[OF types_template_rows(2)]) (simp add: repo_replace_recurring_labels_def act_iff)
  show "um.obeys (repo_delete_recurring j)"
  proof (rule unmoved_rows[OF types_template_rows(3)])
    fix s x s' assume "repo_delete_recurring j s = (Inr x, s')"
    then have "st_transactions s' = map (\<lambda>t. t\<lparr>tx_recurring := set_none j (tx_recurring t)\<rparr>) (st_transactions s)"
      by (simp add: repo_delete_recurring_def sbind_Inr_iff bump_where_iff update_store_iff)
    then show "\<exists>g. st_transactions s' = map g (st_transactions s) \<and> (\<forall>a y. flow a (g y) = flow a y \<and> tx_spent_at (g y) = tx_spent_at y)"
      by (intro exI[of _ "\<lambda>t. t\<lparr>tx_recurring := set_none j (tx_recurring t)\<rparr>"]) (simp add: flow_def)
  qed
qed

lemma unmoved_reads [obeys_intro]:
  "um.obeys (check_write_access u a e)" "um.obeys (repo_get_transaction i)" "um.obeys (day_keys a day)"
  "um.obeys (template_access u a)" "um.obeys (repo_get_recurring i)" "um.obeys (labels_by_recurring i)"
  "um.obeys (template_references pf st raws prevt)" "um.obeys (labels_by_transaction i)"
  by (simp_all add: um.obeys_read_only claims.templates_read)

lemmas [obeys_intro] = um.obeys_rules

lemma unmoved_between: "(\<And>k. valid_key k \<Longrightarrow> um.obeys (f k)) \<Longrightarrow> um.obeys (sbind (lift (between p n)) f)"
  by (rule um.obeys_lift) (blast dest: between_Inr)

lemma unmoved_split_run [obeys_intro]: "um.obeys (split_run a high prev rows)"
proof (induction a high prev rows rule: split_run.induct)
  case (2 a high prev r rs)
  show ?case unfolding split_run.simps by (intro unmoved_between um.obeys_rules unmoved_set_side_key 2)
qed (simp add: obeys_intro)

lemma unmoved_split_ties [obeys_intro]: "um.obeys (split_ties a rows)"
proof (induction a rows rule: split_ties.induct)
  case (2 a r rs)
  then show ?case by (auto simp: Let_def intro!: obeys_intro)
qed (simp add: obeys_intro)

lemma unmoved_take_place: "um.obeys (take_place acc day anchor t)"
  unfolding take_place_def Let_def
  by (intro obeys_intro um.obeys_lift unmoved_set_side_key) (auto dest: key_below_Inr)

lemma unmoved_templates:
  "um.obeys (create_template_body pf env u op st source labels)"
  "um.obeys (update_template_body pf env u i st labels)" "um.obeys (skip_body env u i)" "um.obeys (delete_template_body u i)"
  unfolding create_template_body_def update_template_body_def skip_body_def delete_template_body_def Let_def
    link_transaction_to_recurring_def
  by (intro obeys_intro)+

lemma unmoved_bulk_one: "um.obeys (bulk_one pf now u req new i)"
  unfolding um.obeys_def
proof (intro allI impI)
  fix s y s'
  assume run: "bulk_one pf now u req new i s = (Inr y, s')"
  have tk: "types_kept s s'" by (rule ty.obeys_outcome[OF types_bulk_one run])
  have "(\<forall>a. funds a s' = funds a s) \<and> map tx_spent_at (st_transactions s') = map tx_spent_at (st_transactions s)"
    if ok: "ledger_ok s"
  proof -
    obtain t s1 s2 where g: "repo_get_transaction i s = (Inr t, s1)"
      and w: "check_write_access u (tx_account t) item_not_available s1 = (Inr (), s2)"
      and rest: "(if is_transfer (tx_type t)
       then if cc_category new \<noteq> None \<or> cc_payee new \<noteq> None \<or> cc_tag new \<noteq> None \<or>
               bu_clear_category req \<or> bu_clear_payee req \<or> bu_clear_tag req
            then fail (ValidationError (''transaction '' @ i @ '' is a transfer and cannot carry a category, payee, or tag'') [] [])
            else ret ()
       else
         sbind (check_references pf u (bulk_state req new now t) [] (Some t)) (\<lambda>st.
         sbind (repo_save_transaction (update_transaction st now t)) (\<lambda>_. ret ()))) s2 = (Inr (), s')"
      using run unfolding bulk_one_def by (auto simp: sbind_Inr_iff)
    obtain x where x: "s1 = s" "find_row tx_id i (st_transactions s) = Some x" "x \<in> set (st_transactions s)" "tx_id x = i"
      "t = x\<lparr>tx_labels := []\<rparr>" by (rule get_transaction_Inr[OF g])
    have s2: "s2 = s" using w x(1) by (simp add: check_write_access_iff)
    show ?thesis
    proof (cases "is_transfer (tx_type t)")
      case True
      then show ?thesis using rest s2 by (auto simp: ret_iff fail_iff split: if_splits)
    next
      case nt: False
      obtain st s3 t' where c: "check_references pf u (bulk_state req new now t) [] (Some t) s = (Inr st, s3)"
        and save: "repo_save_transaction (update_transaction st now t) s3 = (Inr t', s')"
        using rest nt s2 by (auto simp: sbind_Inr_iff ret_iff)
      obtain ls where st: "st = (bulk_state req new now t)\<lparr>tx_labels := ls\<rparr>" and s3: "s3 = s" using check_references_Inr[OF c] by auto
      obtain pend where p: "placed (update_transaction st now t) t'"
        and s': "s' = s\<lparr>st_transactions := put_transaction t' (st_transactions s), st_pending := pend\<rparr>"
        using save_pending[OF save[unfolded s3]] by blast
      have t': "tx_id t' = i" "tx_type t' = tx_type x" "tx_account t' = tx_account x" "tx_amount t' = tx_amount x"
        "tx_recipient t' = None" "tx_spent_at t' = tx_spent_at x"
        using p nt x(4,5) by (simp_all add: update_transaction_sel st bulk_state_def)
      have inj: "inj_on tx_id (set (st_transactions s))" and tx: "typed_row s x"
        using ok x(3) by (simp_all add: ledger_ok_def distinct_map)
      have rx: "tx_recipient x = None" using tx nt x(5) by (simp add: typed_row_def transaction_shape_def)
      have "tx_id t' \<in> tx_id ` set (st_transactions s)" using x(3,4) t'(1) by auto
      then have rows: "st_transactions s' = map (\<lambda>y. if tx_id y = i then stored_over t' y else y) (st_transactions s)"
        by (simp add: s' put_transaction_def t'(1))
      have eq: "flow a (if tx_id y = i then stored_over t' y else y) = flow a y \<and>
          tx_spent_at (if tx_id y = i then stored_over t' y else y) = tx_spent_at y" if y: "y \<in> set (st_transactions s)" for a y
      proof (cases "tx_id y = i")
        case True
        then have "y = x" using inj x(3,4) y by (simp add: inj_on_def)
        then show ?thesis using True t' rx by (simp add: flow_def stored_over_def)
      qed simp
      have "funds a s' = funds a s" for a by (rule funds_rows[OF rows]) (use eq in blast)
      moreover have "map tx_spent_at (st_transactions s') = map tx_spent_at (st_transactions s)"
        unfolding rows map_map using eq by (intro map_cong) simp_all
      ultimately show ?thesis by blast
    qed
  qed
  then show "unmoved s s'" using tk by (simp add: unmoved_def)
qed

subsection \<open>Bodies\<close>

text \<open>The setting a call starts in, for the id it would give a new row.\<close>

definition sound :: "call_env \<Rightarrow> store \<Rightarrow> bool" where
  "sound env s \<longleftrightarrow> settled s \<and> ledger_ok s \<and> distinct (map category_id (st_categories s)) \<and>
     distinct (map acc_id (st_accounts s)) \<and> ce_new_id env \<notin> tx_id ` set (st_transactions s)"

definition settles_down :: "call_env \<Rightarrow> 'a act \<Rightarrow> bool" where
  "settles_down env m \<longleftrightarrow> (\<forall>s x s'. sound env s \<and> m s = (Inr x, s') \<and> dated s' \<longrightarrow> settled s')"

lemma settles_downI:
  "(\<And>s x s'. \<lbrakk>sound env s; m s = (Inr x, s'); dated s'\<rbrakk> \<Longrightarrow> settled s') \<Longrightarrow> settles_down env m"
  by (auto simp: settles_down_def)

lemma settled_same: "\<lbrakk>settled s; st_accounts s' = st_accounts s; \<And>a. deleted_in s a \<Longrightarrow> funds a s' = funds a s\<rbrakk> \<Longrightarrow> settled s'"
  by (simp add: settled_def deleted_in_def)

lemma unmoved_settled:
  assumes "unmoved s s'" "ledger_ok s" "distinct (map category_id (st_categories s))"
  shows "(settled s \<longrightarrow> settled s') \<and> (dated s' \<longleftrightarrow> dated s)"
proof -
  have f: "funds a s' = funds a s" "map tx_spent_at (st_transactions s') = map tx_spent_at (st_transactions s)"
    "st_accounts s' = st_accounts s" for a
    using assms by (auto simp: unmoved_def types_kept_def same_books_def)
  have dd: "dated s \<longleftrightarrow> (\<forall>d\<in>set (map tx_spent_at (st_transactions s)). d < all_time_balance_bound)" for s
    by (simp add: dated_def)
  have "dated s' \<longleftrightarrow> dated s" unfolding dd f(2) ..
  then show ?thesis using f(1) settled_same[OF _ f(3)] by blast
qed

lemma unmoved_settles: "um.obeys m \<Longrightarrow> settles_down env m"
proof (rule settles_downI)
  fix s x s' assume m: "um.obeys m" "sound env s" "m s = (Inr x, s')"
  then show "settled s'" using unmoved_settled[OF um.obeys_outcome[OF m(1,3)]] by (simp add: sound_def)
qed

lemma for_each_checks:
  "\<lbrakk>for_each xs f s = (Inr u, s'); \<And>x. read_only (f x); x \<in> set xs\<rbrakk> \<Longrightarrow> f x s = (Inr (), s)"
proof (induction xs)
  case (Cons y ys)
  then obtain s1 where 1: "f y s = (Inr (), s1)" and 2: "for_each ys f s1 = (Inr u, s')" by (auto simp: sbind_Inr_iff)
  have "s1 = s" using read_only_outcome[OF Cons.prems(2) 1] .
  then show ?case using 1 2 Cons by auto
qed simp

lemma rejected_alive:
  assumes "reject_deleted_parties st s = (Inr u, s')" "distinct (map acc_id (st_accounts s))" "p \<in> set (party_set st)"
  shows "\<not> deleted_in s p"
proof -
  have "party_id ` set (state_parties st) = set (party_set st)"
    by (cases "tx_recipient st") (simp_all add: party_set_def state_parties_def)
  then obtain q where q: "q \<in> set (state_parties st)" "party_id q = p" using assms(3) by (metis imageE)
  have "reject_deleted_account q s = (Inr (), s)"
    using for_each_checks[OF assms(1)[unfolded reject_deleted_parties_def] _ q(1)]
    by (simp add: reject_deleted_account_def read_only_sbind)
  then obtain acc where "find_row acc_id p (st_accounts s) = Some acc" "\<not> acc_deleted acc"
    by (auto simp: reject_deleted_account_def account_is_deleted_def act_iff q(2) split: if_splits)
  then show ?thesis using deleted_found[OF assms(2)] by simp
qed

lemma on_account_party: "on_account a t \<longleftrightarrow> a \<in> set (party_set t)"
  by (auto simp: on_account_def party_set_def split: option.splits)

lemma settles_create:
  assumes kind: "typ' \<in> {TransactionTypeExpense, TransactionTypeIncome, TransactionTypeTransfer}"
  shows "settles_down env (create_body pf env u op typ' a at req rec)"
proof (rule settles_downI)
  fix s x s'
  assume so: "sound env s" and run: "create_body pf env u op typ' a at req rec s = (Inr x, s')" and d: "dated s'"
  show "settled s'"
  proof (rule create_bodyE[OF kind run])
    fix st and s1 :: store and pend
    assume cl: "claim op (ce_claim_now env) s = (Inr False, s1)" and p: "placed (new_transaction st) x" and i: "tx_id st = ce_new_id env"
      and r: "reject_deleted_parties st s1 = (Inr (), s1)"
      and mk: "mark_handled op (ce_now env) (s1\<lparr>st_transactions := write_row x (st_transactions s), st_pending := pend\<rparr>) = (Inr (), s')"
    have acc: "st_accounts s1 = st_accounts s" "st_accounts s' = st_accounts s" and tx: "st_transactions s' = st_transactions s @ [x]"
      using cl mk so p i by (auto simp: claim_False mark_handled_def update_store_iff write_row_def sound_def new_transaction_def)
    have "set (party_set x) \<subseteq> set (party_set st)" using p by (auto simp: party_set_def new_transaction_def)
    then have "\<not> on_account b x" if "deleted_in s b" for b
      using rejected_alive[OF r, of b] so that unfolding on_account_party by (auto simp: sound_def acc deleted_in_def)
    then have "funds b s' = funds b s" if "deleted_in s b" for b using that flow_off by (simp add: funds_def tx)
    then show ?thesis using settled_same[of s s'] so acc by (simp add: sound_def)
  qed
qed

lemma union_ids_set: "set (union_ids xs ys) = set xs \<union> set ys"
proof -
  have "set (foldl insert_label acc zs) = set acc \<union> set zs" for acc zs
    by (induction zs arbitrary: acc) (auto simp: insert_label_def)
  then show ?thesis by (simp add: union_ids_def)
qed

lemma funds_replaced:
  assumes rows: "st_transactions s1 = map (\<lambda>y. if tx_id y = i then g y else y) (st_transactions s)"
    and x: "distinct (map tx_id (st_transactions s))" "find_row tx_id i (st_transactions s) = Some x"
    and off: "\<not> on_account a x" "\<not> on_account a (g x)"
  shows "funds a s1 = funds a s"
proof (rule funds_rows[OF rows])
  fix y assume y: "y \<in> set (st_transactions s)"
  show "(if tx_id y = i then g y else y) = y \<or> flow a y = 0 \<and> flow a (if tx_id y = i then g y else y) = 0 \<or>
    flow a (if tx_id y = i then g y else y) = flow a y \<and> tx_spent_at (if tx_id y = i then g y else y) = tx_spent_at y"
  proof (cases "tx_id y = i")
    case True
    then have "y = x" using find_row_unique[OF x(1) y True] x(2) by simp
    then show ?thesis using True off by (simp add: flow_off)
  qed simp
qed

lemma settles_update:
  assumes kind: "typ' \<in> {TransactionTypeExpense, TransactionTypeIncome, TransactionTypeTransfer}"
  shows "settles_down env (update_body pf env u preserve i typ' a at req)"
proof (rule settles_downI)
  fix s y s'
  assume so: "sound env s" and run: "update_body pf env u preserve i typ' a at req s = (Inr y, s')" and d: "dated s'"
  show "settled s'"
  proof (rule update_bodyE[OF kind run])
    fix x :: transaction and st pend
    let ?s1 = "s\<lparr>st_transactions := write_row y (st_transactions s), st_pending := pend\<rparr>"
    assume x: "find_row tx_id i (st_transactions s) = Some x"
      and p: "placed (update_transaction st (ce_now env) (x\<lparr>tx_labels := []\<rparr>)) y"
      and z: "zero_parties env (party_set x) (tx_spent_at x) (party_set y) (tx_spent_at y) ?s1 = (Inr (), s')"
    have y: "tx_id y = i" using p find_row_Some[OF x] by (simp add: update_transaction_sel)
    have rows: "st_transactions ?s1 = map (\<lambda>z. if tx_id z = i then kept_over y z else z) (st_transactions s)"
      using row_exists[OF x] y by (simp add: write_row_def)
    have "funds b ?s1 = funds b s" if "b \<notin> set (union_ids (party_set x) (party_set y))" for b
    proof (rule funds_replaced[OF rows _ x])
      show "distinct (map tx_id (st_transactions s))" using so by (simp add: sound_def ledger_ok_def)
      show "\<not> on_account b x" "\<not> on_account b (kept_over y x)"
        using that by (auto simp: union_ids_set on_account_party kept_over_def party_set_def)
    qed
    then show ?thesis
      using settled_after[OF z[unfolded zero_parties_def] d, of s] so by (simp add: sound_def)
  qed
qed

lemma sum_filter_zero:
  "(\<And>y. y \<in> set xs \<Longrightarrow> \<not> P y \<Longrightarrow> (c y :: int) = 0) \<Longrightarrow> sum_list (map c (filter P xs)) = sum_list (map c xs)"
  by (induction xs) auto

lemma settles_delete: "settles_down env (delete_body env u i)"
proof (rule settles_downI)
  fix s y s'
  assume so: "sound env s" and run: "delete_body env u i s = (Inr y, s')" and d: "dated s'"
  obtain t s1 s2 s3 s4 where g: "repo_get_transaction i s = (Inr t, s1)"
    and w: "check_write_access u (tx_account t) item_not_available s1 = (Inr (), s2)"
    and l: "\<exists>ls. labels_by_transaction i s2 = (Inr ls, s3)" and dl: "repo_delete_transaction i s3 = (Inr (), s4)"
    and z: "for_each (party_set t) (\<lambda>a. zero_deleted env a (tx_spent_at t) correctionDeletedTx) s4 = (Inr (), s')"
    using run by (auto simp: delete_body_def sbind_Inr_iff ret_iff)
  obtain x where x: "s1 = s" "find_row tx_id i (st_transactions s) = Some x" "t = x\<lparr>tx_labels := []\<rparr>"
    by (rule get_transaction_Inr[OF g])
  have s3: "s3 = s" using w l x(1) by (auto simp: check_write_access_iff labels_by_transaction_def gets_iff)
  have s4: "st_accounts s4 = st_accounts s" "st_transactions s4 = delete_row tx_id i (st_transactions s)"
    using dl s3 by (auto simp: repo_delete_transaction_def act_iff)
  have "funds b s4 = funds b s" if "b \<notin> set (party_set t)" for b
  proof -
    let ?c = "\<lambda>t. if tx_spent_at t < all_time_balance_bound then flow b t else 0"
    have f: "funds b s = sum_list (map ?c (st_transactions s))" for s unfolding funds_def by (simp add: sum_list_map_filter')
    have "?c y = 0" if "y \<in> set (st_transactions s)" "tx_id y = i" for y
    proof -
      have "y = x" using find_row_unique[of tx_id "st_transactions s" y i] so that x(2) by (simp add: sound_def ledger_ok_def)
      then show ?thesis using \<open>b \<notin> set (party_set t)\<close> flow_off[of b x] by (auto simp: x(3) on_account_party party_set_def)
    qed
    then have "sum_list (map ?c (delete_row tx_id i (st_transactions s))) = sum_list (map ?c (st_transactions s))"
      unfolding delete_row_def by (intro sum_filter_zero) blast
    then show ?thesis unfolding f s4(2) .
  qed
  then show "settled s'" using settled_after[OF z d, of s] s4(1) so by (simp add: sound_def)
qed

lemma settles_move: "settles_down env (move_body env u i acc day anchor req)"
proof (rule settles_downI)
  fix s y s'
  assume so: "sound env s" and run: "move_body env u i acc day anchor req s = (Inr y, s')" and d: "dated s'"
  show "settled s'"
  proof (rule move_bodyE[OF run])
    fix x t' :: transaction and s2
    let ?t = "x\<lparr>tx_labels := []\<rparr>"
    assume x: "find_row tx_id i (st_transactions s) = Some x"
      and m: "(if mv_from_date req \<noteq> mv_date req then move_to_day env u ?t day else ret ?t) s = (Inr t', s2)"
      and p: "take_place acc day anchor t' s2 = (Inr y, s')"
    have um: "unmoved s2 s'" by (rule um.obeys_outcome[OF unmoved_take_place p])
    have fx: "find_row tx_id (tx_id ?t) (st_transactions s) = Some x" using x find_row_Some[OF x] by simp
    have "ledger_ok s2 \<and> distinct (map category_id (st_categories s2)) \<and> (dated s2 \<longrightarrow> settled s2)"
    proof (cases "mv_from_date req = mv_date req")
      case True
      then show ?thesis using m so by (simp add: ret_iff sound_def)
    next
      case False
      then have mv: "move_to_day env u ?t day s = (Inr t', s2)" using m by simp
      have tk: "types_kept s s2" using types_move_to_day[OF mv fx refl] .
      obtain sa sb where
        w: "with_error cannot_move (for_each (party_set ?t) (\<lambda>p. check_write_access u p account_not_available)) s = (Inr (), sa)"
        and save: "repo_save_transaction (update_transaction (moved_state day ?t) (ce_now env) ?t) sa = (Inr t', sb)"
        and z: "for_each (party_set t') (\<lambda>p. zero_deleted env p (tx_spent_at t') correctionEditedTx) sb = (Inr (), s2)"
        using mv unfolding move_to_day_def by (auto simp: sbind_Inr_iff ret_iff)
      have "read_only (with_error cannot_move (for_each (party_set ?t) (\<lambda>p. check_write_access u p account_not_available)))"
        by (intro read_only_with_error read_only_for_each read_only_write_access)
      from read_only_outcome[OF this w] have sa: "sa = s" .
      obtain pend where pl: "placed (update_transaction (moved_state day ?t) (ce_now env) ?t) t'"
        and sb: "sb = s\<lparr>st_transactions := put_transaction t' (st_transactions s), st_pending := pend\<rparr>"
        using save_pending[OF save[unfolded sa]] by blast
      have t': "tx_id t' = i" using pl find_row_Some[OF x] by simp
      have rows: "st_transactions sb = map (\<lambda>z. if tx_id z = i then stored_over t' z else z) (st_transactions s)"
        using row_exists[OF x] by (simp add: sb put_transaction_def t')
      have par: "tx_account t' = tx_account x" "tx_recipient t' = tx_recipient x"
        using pl so find_row_Some[OF x]
        by (auto simp: update_transaction_sel sound_def ledger_ok_def typed_row_def transaction_shape_def)
      have "funds b sb = funds b s" if "b \<notin> set (party_set t')" for b
        by (rule funds_replaced[OF rows _ x])
          (use so that par in \<open>auto simp: sound_def ledger_ok_def on_account_party party_set_def stored_over_def\<close>)
      moreover have "st_accounts sb = st_accounts s" by (simp add: sb)
      ultimately have "dated s2 \<longrightarrow> settled s2" using settled_after[OF z, of s] so by (simp add: sound_def)
      moreover have "ledger_ok s2" "st_categories s2 = st_categories s" using tk so by (auto simp: types_kept_def same_books_def sound_def)
      ultimately show ?thesis using so by (simp add: sound_def)
    qed
    then show ?thesis using unmoved_settled[OF um] d by blast
  qed
qed

lemma settles_post: "settles_down env (post_body pf env u i req)"
proof (rule settles_downI)
  fix s y s'
  assume so: "sound env s" and run: "post_body pf env u i req s = (Inr y, s')" and d: "dated s'"
  obtain rt s2 s3 labels s4 t s5 where g: "repo_get_recurring i s = (Inr rt, s2)"
    and a: "template_access u (rt_account rt) s2 = (Inr (), s3)"
    and l: "(if pr_labels req = None then labels_by_recurring i else ret (tr_labels (post_create_request req))) s3 = (Inr labels, s4)"
    and c: "create_transaction_in nested pf env u ((post_create_request req)\<lparr>tr_labels := labels\<rparr>) (Some i) s4 = (Inr t, s5)"
    and v: "repo_save_recurring (advance (ce_now env) rt) s5 = (Inr (), s')"
    using run unfolding post_body_def create_transaction_from_recurring_def by (auto simp: sbind_Inr_iff ret_iff)
  have "s2 = s" using g by (auto simp: repo_get_recurring_def sbind_Inr_iff gets_iff lift_iff)
  moreover have "s3 = s2" using a by (simp add: template_access_def check_write_access_iff)
  moreover have "s4 = s3" using l by (auto simp: labels_by_recurring_def gets_iff ret_iff split: if_splits)
  ultimately have s4: "s4 = s" by simp
  obtain op typ' acc at where kind: "typ' \<in> {TransactionTypeExpense, TransactionTypeIncome, TransactionTypeTransfer}"
    and n: "create_body pf env u op typ' acc at ((post_create_request req)\<lparr>tr_labels := labels\<rparr>) (Some i) s = (Inr t, s5)"
    using c unfolding s4 by (rule create_in_Inr) (simp add: nested_Inr)
  have "dated s5" using d v by (simp add: repo_save_recurring_def update_store_iff dated_def)
  then have "settled s5" using settles_create[OF kind, unfolded settles_down_def] so n by blast
  then show "settled s'" using v by (simp add: repo_save_recurring_def update_store_iff settled_def deleted_in_def funds_def)
qed

subsection \<open>Calls\<close>

definition keeps_zero :: "call_env \<Rightarrow> 'a act \<Rightarrow> bool" where
  "keeps_zero env m \<longleftrightarrow> (\<forall>s r s'. sound env s \<and> m s = (r, s') \<and> dated s' \<longrightarrow> settled s')"

lemma keeps_zero_basic: "keeps_zero env (ret x)" "keeps_zero env (fail e)"
  by (auto simp: keeps_zero_def act_iff sound_def)

lemma keeps_zero_then: "keeps_zero env m \<Longrightarrow> keeps_zero env (sbind m (\<lambda>x. ret (g x)))"
  by (auto simp: keeps_zero_def sbind_def ret_def split: prod.splits sum.splits)

lemma keeps_zero_lift: "(\<And>x. r = Inr x \<Longrightarrow> keeps_zero env (f x)) \<Longrightarrow> keeps_zero env (sbind (lift r) f)"
  by (cases r) (auto simp: keeps_zero_def sbind_def lift_def sound_def)

lemma keeps_zero_if: "\<lbrakk>b \<Longrightarrow> keeps_zero env m; \<not> b \<Longrightarrow> keeps_zero env n\<rbrakk> \<Longrightarrow> keeps_zero env (if b then m else n)"
  by simp

lemma settled_flush [simp]: "settled (flush s) = settled s" "dated (flush s) = dated s"
proof -
  have "acc_deleted (bump_account P a) = acc_deleted a" for P a by (simp add: bump_account_def)
  then have "deleted_in (flush s) a = deleted_in s a" for a by (simp add: deleted_in_def flush_accounts)
  then show "settled (flush s) = settled s" "dated (flush s) = dated s" by (simp_all add: settled_def funds_def dated_def)
qed

lemma sound_pending [simp]: "sound env (s\<lparr>st_pending := []\<rparr>) = sound env s"
proof -
  have "ledger_ok (s\<lparr>st_pending := []\<rparr>) = ledger_ok s"
    unfolding ledger_ok_def using typed_row_cong[of "s\<lparr>st_pending := []\<rparr>" s] by (simp add: same_books_def)
  then show ?thesis by (simp add: sound_def settled_def deleted_in_def funds_def)
qed

lemma keeps_zero_with_tx: "settles_down env m \<Longrightarrow> keeps_zero env (with_tx m)"
  unfolding keeps_zero_def settles_down_def
proof (intro allI impI)
  fix s r s'
  assume m: "\<forall>s x s'. sound env s \<and> m s = (Inr x, s') \<and> dated s' \<longrightarrow> settled s'"
    and a: "sound env s \<and> with_tx m s = (r, s') \<and> dated s'"
  show "settled s'"
  proof (cases r)
    case (Inl e)
    then show ?thesis using a by (simp add: with_tx_Inl_iff sound_def)
  next
    case (Inr x)
    then obtain s1 where s1: "m (s\<lparr>st_pending := []\<rparr>) = (Inr x, s1)" "s' = flush s1" using a by (auto simp: with_tx_Inr_iff)
    then show ?thesis using m[rule_format, of "s\<lparr>st_pending := []\<rparr>" x s1] a by simp
  qed
qed

lemma zero_balance_appends:
  assumes "with_tx (zero_balance c now acct at d) s = (r, s')"
  shows "\<exists>ts. st_transactions s' = st_transactions s @ ts"
proof (cases r)
  case (Inl e)
  then show ?thesis using assms by (simp add: with_tx_Inl_iff)
next
  case (Inr x)
  then obtain s1 where "zero_balance c now acct at d (s\<lparr>st_pending := []\<rparr>) = (Inr x, s1)" "s' = flush s1"
    using assms by (auto simp: with_tx_Inr_iff)
  from ap.obeys_outcome[OF appended_zero(1) this(1)] this(2) show ?thesis by (auto simp: appended_def)
qed

lemma zero_accounts_appends: "zero_accounts env accts n s = (r, s') \<Longrightarrow> \<exists>ts. st_transactions s' = st_transactions s @ ts"
proof (induction accts arbitrary: n s)
  case (Cons acct accts)
  let ?m = "with_tx (zero_balance (ce_correction_id env (acc_id acct)) (ce_zero_now env (acc_id acct)) acct
    (acc_updated acct) correctionAccountDeleted)"
  obtain r1 s1 where m: "?m s = (r1, s1)" by (cases "?m s")
  obtain ts where ts: "st_transactions s1 = st_transactions s @ ts" using zero_balance_appends[OF m] by blast
  show ?case
  proof (cases r1)
    case (Inl e)
    then show ?thesis using Cons.prems m ts by (simp add: sbind_def)
  next
    case (Inr w)
    then have "zero_accounts env accts (if w then Suc n else n) s1 = (r, s')" using Cons.prems m by (simp add: sbind_def)
    then obtain us where "st_transactions s' = st_transactions s1 @ us" using Cons.IH by blast
    then show ?thesis using ts by simp
  qed
qed (simp add: ret_iff)

text \<open>Zeroing every deleted account: each one the loop has passed is at zero, the others are as they were.\<close>

lemma zero_accounts_funds:
  "\<lbrakk>zero_accounts env accts n s = (r, s'); dated s'\<rbrakk> \<Longrightarrow>
     (\<forall>a. funds a s' = funds a s \<or> a \<in> acc_id ` set accts \<and> funds a s' = 0) \<and>
     (\<forall>a. deleted_in s' a = deleted_in s a) \<and> (isl r \<or> (\<forall>a\<in>acc_id ` set accts. funds a s' = 0))"
proof (induction accts arbitrary: n s)
  case (Cons acct accts)
  let ?m = "with_tx (zero_balance (ce_correction_id env (acc_id acct)) (ce_zero_now env (acc_id acct)) acct
    (acc_updated acct) correctionAccountDeleted)"
  obtain r1 s1 where m: "?m s = (r1, s1)" by (cases "?m s")
  show ?case
  proof (cases r1)
    case (Inl e)
    then have "s1 = s" using m by (simp add: with_tx_Inl_iff)
    then show ?thesis using Cons.prems(1) m Inl by (auto simp: sbind_def)
  next
    case (Inr w)
    then have more: "zero_accounts env accts (if w then Suc n else n) s1 = (r, s')" using Cons.prems(1) m by (simp add: sbind_def)
    have d1: "dated s1" using zero_accounts_appends[OF more] Cons.prems(2) by (auto simp: dated_def)
    obtain s0 where z: "zero_balance (ce_correction_id env (acc_id acct)) (ce_zero_now env (acc_id acct)) acct
        (acc_updated acct) correctionAccountDeleted (s\<lparr>st_pending := []\<rparr>) = (Inr w, s0)" and s1: "s1 = flush s0"
      using m Inr by (auto simp: with_tx_Inr_iff)
    have f1: "funds a s1 = (if a = acc_id acct then 0 else funds a s)" for a
      using zero_balance_funds[OF z, of a] d1 by (simp add: s1 funds_def)
    have "st_accounts s0 = st_accounts s" using ap.obeys_outcome[OF appended_zero(1) z] by (simp add: appended_def)
    moreover have "acc_deleted (bump_account P a) = acc_deleted a" for P a by (simp add: bump_account_def)
    ultimately have d: "deleted_in s1 a = deleted_in s a" for a by (simp add: s1 deleted_in_def flush_accounts)
    show ?thesis using Cons.IH[OF more Cons.prems(2)] f1 d by (auto split: if_splits)
  qed
qed (simp add: ret_iff)

lemma keeps_zero_command: "keeps_zero env (zero_deleted_accounts env)"
  unfolding keeps_zero_def
proof (intro allI impI)
  fix s r s' assume a: "sound env s \<and> zero_deleted_accounts env s = (r, s') \<and> dated s'"
  then have "zero_accounts env (List.sort_key acc_id (filter acc_deleted (st_accounts s))) 0 s = (r, s')"
    by (simp add: zero_deleted_accounts_def repo_list_deleted_accounts_def sbind_def gets_def)
  note f = zero_accounts_funds[OF this]
  show "settled s'"
    unfolding settled_def
  proof (intro allI impI)
    fix b assume "deleted_in s' b"
    then have "funds b s = 0" using f a by (auto simp: settled_def sound_def)
    then show "funds b s' = 0" using f a by metis
  qed
qed

lemma keeps_zero_perform: "keeps_zero env (ledger_perform pf env u c)"
proof (cases c)
  case (CreateTransaction req)
  show ?thesis unfolding CreateTransaction ledger_perform.simps create_transaction_def create_transaction_in_def
    by (intro keeps_zero_then keeps_zero_lift keeps_zero_with_tx settles_create parse_type_Inr)
next
  case (UpdateTransaction req preserve)
  show ?thesis unfolding UpdateTransaction ledger_perform.simps update_transaction_call_def
    by (intro keeps_zero_then keeps_zero_lift keeps_zero_with_tx settles_update parse_type_Inr)
next
  case (DeleteTransaction q)
  show ?thesis unfolding DeleteTransaction ledger_perform.simps delete_transaction_def
    by (intro keeps_zero_then keeps_zero_lift keeps_zero_with_tx settles_delete)
next
  case (BulkUpdateTransactions req)
  show ?thesis unfolding BulkUpdateTransactions ledger_perform.simps bulk_update_transactions_def
    by (intro keeps_zero_then keeps_zero_lift keeps_zero_if keeps_zero_basic keeps_zero_with_tx unmoved_settles
        um.obeys_for_each unmoved_bulk_one)
next
  case (MoveTransaction req)
  show ?thesis unfolding MoveTransaction ledger_perform.simps move_transaction_def Let_def
    by (intro keeps_zero_then keeps_zero_lift keeps_zero_if keeps_zero_basic keeps_zero_with_tx settles_move)
next
  case ZeroDeletedAccounts
  show ?thesis unfolding ZeroDeletedAccounts ledger_perform.simps by (intro keeps_zero_then keeps_zero_command)
next
  case (CreateRecurring req)
  show ?thesis unfolding CreateRecurring ledger_perform.simps create_recurring_transaction_def
    by (intro keeps_zero_then keeps_zero_lift keeps_zero_with_tx unmoved_settles unmoved_templates)
next
  case (UpdateRecurring req)
  show ?thesis unfolding UpdateRecurring ledger_perform.simps update_recurring_transaction_def
    by (intro keeps_zero_then keeps_zero_lift keeps_zero_with_tx unmoved_settles unmoved_templates)
next
  case (DeleteRecurring q)
  show ?thesis unfolding DeleteRecurring ledger_perform.simps delete_recurring_transaction_def delete_template_body_def[symmetric]
    by (intro keeps_zero_lift keeps_zero_with_tx unmoved_settles unmoved_templates)
next
  case (SkipRecurring q)
  show ?thesis unfolding SkipRecurring ledger_perform.simps skip_recurring_transaction_def skip_body_def[symmetric]
    by (intro keeps_zero_then keeps_zero_lift keeps_zero_with_tx unmoved_settles unmoved_templates)
next
  case (PostRecurring req)
  show ?thesis unfolding PostRecurring ledger_perform.simps post_recurring_transaction_def
    by (intro keeps_zero_then keeps_zero_lift keeps_zero_with_tx settles_post)
qed

lemma zero_text: "to_string (from_scaled n) = ''0'' \<longleftrightarrow> n = 0"
proof -
  have z: "to_string (from_scaled 0) = ''0''" by code_simp
  have "n = 0" if "to_string (from_scaled n) = ''0''"
  proof -
    have "dvalue (from_scaled n) = dvalue (from_scaled 0)" using that z by simp
    then show ?thesis by (metis from_scaled_value)
  qed
  then show ?thesis using z by blast
qed

lemma zero_balance_noop: "funds (acc_id acct) s = 0 \<Longrightarrow> zero_balance c now acct at d s = (Inr False, s)"
  using scaled_balance[of 0]
  by (simp add: zero_balance_def Let_def sbind_def repo_balance_funds is_zero_def ret_def)

lemma zero_accounts_noop:
  "\<forall>acct\<in>set accts. funds (acc_id acct) s = 0 \<Longrightarrow>
     \<exists>s'. zero_accounts env accts n s = (Inr n, s') \<and> st_transactions s' = st_transactions s"
proof (induction accts arbitrary: s)
  case (Cons acct accts)
  let ?s = "flush (s\<lparr>st_pending := []\<rparr>)"
  have f: "funds a (s\<lparr>st_pending := []\<rparr>) = funds a s" "funds a ?s = funds a s" for a by (simp_all add: funds_def)
  have "zero_accounts env (acct # accts) n s = zero_accounts env accts n ?s"
    using Cons.prems by (simp add: sbind_def with_tx_def zero_balance_noop f)
  then show ?case using Cons.IH[of ?s] Cons.prems by (simp add: f)
qed (simp add: ret_def)

text \<open>C6: a deleted account at zero stays at zero. If the all-time balance of every deleted account is zero before a
  ledger call, whatever call and whatever its outcome, it is zero after it: a new row on a deleted account is rejected, and a
  row that is changed, moved or deleted is followed by a correction. The database is well typed, a new row has a new id, and
  no row is dated on or after 9999-12-31, which the sum leaves out.\<close>

theorem deleted_accounts_stay_at_zero:
  assumes "ledger_perform pf env u c s = (r, s')" "ledger_ok s" "distinct (map category_id (st_categories s))"
    "distinct (map acc_id (st_accounts s))" "ce_new_id env \<notin> tx_id ` set (st_transactions s)"
    "\<forall>t\<in>set (st_transactions s'). tx_spent_at t < all_time_balance_bound"
    "\<forall>acc\<in>set (st_accounts s). acc_deleted acc \<longrightarrow> fst (repo_balance (acc_id acc) all_time_balance_bound s) = Inr ''0''"
  shows "\<forall>acc\<in>set (st_accounts s'). acc_deleted acc \<longrightarrow> fst (repo_balance (acc_id acc) all_time_balance_bound s') = Inr ''0''"
proof -
  have set: "settled s \<longleftrightarrow> (\<forall>acc\<in>set (st_accounts s). acc_deleted acc \<longrightarrow> fst (repo_balance (acc_id acc) all_time_balance_bound s) = Inr ''0'')"
    for s by (auto simp: settled_def deleted_in_def repo_balance_funds zero_text[unfolded to_string_from_scaled])
  show ?thesis using keeps_zero_perform[of env pf u c] assms unfolding set[symmetric] keeps_zero_def sound_def dated_def by blast
qed

text \<open>C40: after \<open>ZeroDeletedAccounts\<close> has returned without an error, from any state, the all-time balance of every
  deleted account is zero, and running it again reports 0 corrections and books none; provided the rows then stored are dated
  before 9999-12-31, the bound the code's all-time balance reads up to.\<close>

theorem zero_command_settles:
  assumes "zero_deleted_accounts env s = (Inr n, s')" "\<forall>t\<in>set (st_transactions s'). tx_spent_at t < all_time_balance_bound"
  shows "(\<forall>acc\<in>set (st_accounts s'). acc_deleted acc \<longrightarrow> fst (repo_balance (acc_id acc) all_time_balance_bound s') = Inr ''0'') \<and>
    (\<forall>env'. \<exists>s''. zero_deleted_accounts env' s' = (Inr 0, s'') \<and> st_transactions s'' = st_transactions s')"
proof -
  let ?accts = "List.sort_key acc_id (filter acc_deleted (st_accounts s))"
  let ?accts' = "List.sort_key acc_id (filter acc_deleted (st_accounts s'))"
  have z: "zero_accounts env ?accts 0 s = (Inr n, s')"
    using assms(1) by (simp add: zero_deleted_accounts_def repo_list_deleted_accounts_def sbind_def gets_def)
  have "deleted_in s a \<Longrightarrow> a \<in> acc_id ` set ?accts" for a by (auto simp: deleted_in_def)
  moreover have "\<forall>a\<in>acc_id ` set ?accts. funds a s' = 0" "\<forall>a. deleted_in s' a = deleted_in s a"
    using zero_accounts_funds[OF z] assms(2) unfolding dated_def by auto
  ultimately have f: "funds a s' = 0" if "deleted_in s' a" for a using that by blast
  then have 1: "\<forall>acc\<in>set (st_accounts s'). acc_deleted acc \<longrightarrow> fst (repo_balance (acc_id acc) all_time_balance_bound s') = Inr ''0''"
    by (auto simp: repo_balance_funds zero_text[unfolded to_string_from_scaled] deleted_in_def)
  have "\<forall>acct\<in>set ?accts'. funds (acc_id acct) s' = 0" using f by (auto simp: deleted_in_def)
  from zero_accounts_noop[OF this] have "\<exists>s''. zero_deleted_accounts env' s' = (Inr 0, s'') \<and> st_transactions s'' = st_transactions s'" for env'
    by (simp add: zero_deleted_accounts_def repo_list_deleted_accounts_def sbind_def gets_def)
  with 1 show ?thesis by blast
qed

subsection \<open>A deleted account\<close>

lemma typed_accounts:
  assumes "\<And>a. acc_id (f a) = acc_id a" "\<And>a. acc_currency (f a) = acc_currency a" "\<And>a. acc_user (f a) = acc_user a"
  shows "typed_row (s\<lparr>st_accounts := map f (st_accounts s)\<rparr>) t = typed_row s t"
proof -
  let ?s = "s\<lparr>st_accounts := map f (st_accounts s)\<rparr>"
  have "find_row acc_id i (map f xs) = map_option f (find_row acc_id i xs)" for i xs
    using assms(1) by (induction xs) (simp_all add: find_row_def)
  then have g: "find_row acc_id i (st_accounts ?s) = map_option f (find_row acc_id i (st_accounts s))" for i by simp
  have "booked ?s (f acc) t = booked s acc t" for acc
    unfolding booked_def g map_option_eq_Some by (auto simp: assms(2))
  moreover have "classified ?s owner t = classified s owner t" for owner by (simp add: classified_def)
  ultimately show ?thesis unfolding typed_row_def g map_option_eq_Some by (auto simp: assms(3))
qed

definition cash :: account where
  "cash = sample_account\<lparr>acc_deleted := True\<rparr>"

definition lunch_row :: transaction where
  "lunch_row = \<lparr>tx_id = ''t1'', tx_user = ''ann'', tx_type = 0, tx_account = ''acc'', tx_recipient = None, tx_amount = ''12.5'',
     tx_amount_recipient = None, tx_category = None, tx_payee = None, tx_tag = None, tx_labels = [], tx_description = [],
     tx_spent_at = 5, tx_created = 0, tx_updated = 0, tx_recurring = None, tx_sort_key = ''a0'', tx_recipient_sort_key = None\<rparr>"

text \<open>The account \<open>acc\<close> deleted, before and after its balance was booked off.\<close>

definition cash_open :: store where
  "cash_open = empty_store\<lparr>st_accounts := [cash], st_transactions := [lunch_row]\<rparr>"

definition cash_closed :: store where
  "cash_closed = cash_open\<lparr>st_transactions := [lunch_row, lunch_row\<lparr>tx_id := ''c1'', tx_type := 1, tx_spent_at := 7\<rparr>]\<rparr>"

lemma lunch_amount: "amount_value ''12.5'' = 1250000000"
proof -
  have "plain_text False ''12'' (Some ''5'') = ''12.5''" "plain_parts ''12'' (Some ''5'')" "plain_value False ''12'' (Some ''5'') = 1250000000"
    by code_simp+
  then show ?thesis using new_decimal_plain[of "''12''" "Some ''5''" False] by (simp add: amount_value_def)
qed

lemma bound_value: "(7::int) < all_time_balance_bound" "(5::int) < all_time_balance_bound"
  by code_simp+

lemma cash_simps [simp]:
  "st_transactions cash_open = [lunch_row]" "st_accounts cash_open = [cash]" "st_categories cash_open = []"
  "st_transactions cash_closed = [lunch_row, lunch_row\<lparr>tx_id := ''c1'', tx_type := 1, tx_spent_at := 7\<rparr>]"
  "st_accounts cash_closed = [cash]" "st_categories cash_closed = []" "acc_deleted cash" "acc_id cash = ''acc''"
  by (simp_all add: cash_open_def cash_closed_def cash_def sample_account_def new_account_def empty_store_def)

lemma cash_funds: "funds ''acc'' cash_open = -1250000000" "funds ''acc'' cash_closed = 0"
  using bound_value by (simp_all add: funds_def flow_def lunch_row_def lunch_amount)

lemma cash_closed_ok: "ledger_ok cash_closed"
proof -
  have "valid_key ''a0''" by code_simp
  then show ?thesis
    by (simp add: ledger_ok_def typed_row_def transaction_shape_def keyed_def booked_def classified_def lunch_row_def
        transaction_type_defs is_transfer_def find_row_def)
qed

lemma save_correction_succeeds:
  assumes "order_top (co_account c) (co_spent_at c) s = (Inr k, s)" "co_id c \<notin> tx_id ` set (st_transactions s)"
  obtains pend where "save_correction c s = (Inr (), s\<lparr>st_transactions := st_transactions s @ [correction_row c k], st_pending := pend\<rparr>)"
proof -
  have "tx_id (correction_row c k) = co_id c" by (simp add: correction_row_def)
  then show thesis using that assms
    by (simp add: save_correction_def sbind_def insert_transaction_def gets_def update_store_def bump_def)
qed

lemma zero_balance_succeeds:
  assumes "funds (acc_id acct) s \<noteq> 0" "order_top (acc_id acct) at s = (Inr k, s)" "c \<notin> tx_id ` set (st_transactions s)"
  obtains t pend where "zero_balance c now acct at d s = (Inr True, s\<lparr>st_transactions := st_transactions s @ [t], st_pending := pend\<rparr>)"
    "tx_id t = c" "tx_spent_at t = at"
proof -
  let ?n = "funds (acc_id acct) s"
  let ?b = "round_decimal (new_decimal (to_string (from_scaled ?n))) balance_scale"
  let ?c = "\<lparr>co_id = c, co_user = acc_user acct, co_account = acc_id acct, co_description = d,
      co_type = (if is_negative ?b then 1 else 0), co_amount = to_string (abs_decimal ?b), co_spent_at = at, co_created = now\<rparr>"
  obtain pend where "save_correction ?c s = (Inr (), s\<lparr>st_transactions := st_transactions s @ [correction_row ?c k], st_pending := pend\<rparr>)"
    by (rule save_correction_succeeds[of ?c s k]) (use assms in simp_all)
  then have "zero_balance c now acct at d s = (Inr True, s\<lparr>st_transactions := st_transactions s @ [correction_row ?c k], st_pending := pend\<rparr>)"
    using scaled_balance[of ?n] assms(1)
    by (simp add: zero_balance_def Let_def sbind_def repo_balance_funds is_zero_def ret_def del: to_string_from_scaled)
  then show thesis by (rule that) (simp_all add: correction_row_def)
qed

theorem zero_command_settles_witness:
  "\<exists>s'. zero_deleted_accounts sample_env cash_open = (Inr 1, s') \<and> funds ''acc'' cash_open = -1250000000 \<and>
     (\<forall>acc\<in>set (st_accounts s'). acc_deleted acc \<longrightarrow> fst (repo_balance (acc_id acc) all_time_balance_bound s') = Inr ''0'')"
proof -
  have k: "order_top ''acc'' 0 cash_open = (Inr ''a1'', cash_open)" by code_simp
  have u: "acc_updated cash = 0" "cash_open\<lparr>st_pending := []\<rparr> = cash_open" "(0::int) < all_time_balance_bound"
    using bound_value by (simp_all add: cash_def sample_account_def new_account_def cash_open_def empty_store_def)
  obtain t pend where z: "zero_balance (ce_correction_id sample_env ''acc'') (ce_zero_now sample_env ''acc'') cash 0
      correctionAccountDeleted cash_open = (Inr True, cash_open\<lparr>st_transactions := [lunch_row, t], st_pending := pend\<rparr>)"
    and t: "tx_spent_at t = 0"
    by (rule zero_balance_succeeds[of cash cash_open 0 "''a1''" "ce_correction_id sample_env ''acc''" "ce_zero_now sample_env ''acc''"
          correctionAccountDeleted]) (use k cash_funds in \<open>simp_all add: sample_env_def lunch_row_def\<close>)
  let ?s = "flush (cash_open\<lparr>st_transactions := [lunch_row, t], st_pending := pend\<rparr>)"
  have run: "zero_deleted_accounts sample_env cash_open = (Inr 1, ?s)"
    using z u by (simp add: zero_deleted_accounts_def repo_list_deleted_accounts_def sbind_def gets_def ret_def with_tx_def)
  have "\<forall>t\<in>set (st_transactions ?s). tx_spent_at t < all_time_balance_bound"
    using t u(3) bound_value by (simp add: lunch_row_def)
  then show ?thesis using zero_command_settles[OF run] run cash_funds(1) by blast
qed

definition later_env :: call_env where
  "later_env = sample_env\<lparr>ce_new_id := ''t9''\<rparr>"

theorem deleted_accounts_stay_at_zero_witness:
  "\<exists>s'. ledger_perform sample_platform later_env ''ann'' (DeleteTransaction ''t1'') cash_closed = (Inr (), s') \<and>
     fst (repo_balance ''acc'' all_time_balance_bound cash_closed) = Inr ''0'' \<and>
     (\<forall>acc\<in>set (st_accounts s'). acc_deleted acc \<longrightarrow> fst (repo_balance (acc_id acc) all_time_balance_bound s') = Inr ''0'')"
proof -
  let ?c1 = "lunch_row\<lparr>tx_id := ''c1'', tx_type := 1, tx_spent_at := 7\<rparr>"
  let ?s = "cash_closed\<lparr>st_transactions := [?c1], st_pending := [''acc'']\<rparr>"
  have k: "order_top ''acc'' 5 ?s = (Inr ''a1'', ?s)" by code_simp
  have f: "funds ''acc'' ?s \<noteq> 0" using bound_value by (simp add: funds_def flow_def lunch_row_def lunch_amount)
  obtain t pend where z: "zero_balance (ce_correction_id later_env ''acc'') (ce_zero_now later_env ''acc'') cash 5
      correctionDeletedTx ?s = (Inr True, ?s\<lparr>st_transactions := [?c1, t], st_pending := pend\<rparr>)"
    and t: "tx_spent_at t = 5"
    by (rule zero_balance_succeeds[of cash ?s 5 "''a1''" "ce_correction_id later_env ''acc''" "ce_zero_now later_env ''acc''"
          correctionDeletedTx]) (use k f in \<open>simp_all add: later_env_def sample_env_def\<close>)
  let ?r = "flush (?s\<lparr>st_transactions := [?c1, t], st_pending := pend\<rparr>)"
  have run: "ledger_perform sample_platform later_env ''ann'' (DeleteTransaction ''t1'') cash_closed = (Inr (), ?r)"
  proof -
    have p: "cash_closed\<lparr>st_pending := []\<rparr> = cash_closed" by (simp add: cash_closed_def cash_open_def empty_store_def)
    have "repo_get_transaction ''t1'' cash_closed = (Inr lunch_row, cash_closed)"
      by (simp add: repo_get_transaction_def sbind_def gets_def lift_def find_row_def row_or_not_found_def lunch_row_def rbind_def)
    moreover have "check_write_access ''ann'' ''acc'' item_not_available cash_closed = (Inr (), cash_closed)"
      by (simp add: check_write_access_iff may_write_def find_row_def cash_def sample_account_def new_account_def)
    moreover have "bump_where (\<lambda>x. tx_id x = ''t1'') cash_closed = (Inr (), cash_closed\<lparr>st_pending := [''acc'']\<rparr>)"
      using arg_cong[OF p, of st_pending]
      unfolding bump_where_iff by (simp add: touched_def List.map_filter_def lunch_row_def)
    then have "repo_delete_transaction ''t1'' cash_closed = (Inr (), ?s)"
      by (simp add: repo_delete_transaction_def sbind_def update_store_def delete_row_def lunch_row_def)
    moreover have "zero_deleted later_env ''acc'' 5 correctionDeletedTx ?s = (Inr (), ?s\<lparr>st_transactions := [?c1, t], st_pending := pend\<rparr>)"
      using z by (simp add: zero_deleted_def zero_if_deleted_def sbind_def repo_get_account_def gets_def lift_def find_row_def
          row_or_not_found_def ret_def)
    ultimately have "delete_body later_env ''ann'' ''t1'' cash_closed = (Inr lunch_row, ?s\<lparr>st_transactions := [?c1, t], st_pending := pend\<rparr>)"
      by (simp add: delete_body_def sbind_def labels_by_transaction_def gets_def ret_def lunch_row_def party_set_def)
    then show ?thesis using p
      by (simp add: delete_transaction_def sbind_def lift_def parse_id_def sample_platform_def with_tx_def ret_def)
  qed
  have "\<forall>t\<in>set (st_transactions ?r). tx_spent_at t < all_time_balance_bound"
    using t bound_value by (simp add: lunch_row_def)
  moreover have "ce_new_id later_env \<notin> tx_id ` set (st_transactions cash_closed)"
    by (simp add: later_env_def lunch_row_def)
  moreover have "fst (repo_balance ''acc'' all_time_balance_bound cash_closed) = Inr ''0''"
    by (simp add: repo_balance_funds cash_funds zero_text[unfolded to_string_from_scaled])
  ultimately show ?thesis
    using deleted_accounts_stay_at_zero[OF run cash_closed_ok] run by auto
qed

end
