(* ===== verification/Account_Balances.thy ===== *)
theory Account_Balances
  imports Account_Calls Ledger_Zeroing
begin

section \<open>The balance a user asks for\<close>

text \<open>
  Creating an account with an opening balance and editing the balance of one both book a correction; the balance the module
  shows afterwards is the one asked for. Deleting an account books its balance off. Balances are exact sums of the amounts at
  scale 8, up to the instant the caller's day ends, where SQLite and PostgreSQL add with the rounding of their own numbers.
\<close>

lemma new_decimal_printed: "new_decimal (to_string (from_scaled n)) = from_scaled n"
  by (rule normalize_from_scaled[of n]) (metis new_decimal_plain to_string_from_scaled)

lemma corrected_funds:
  assumes "save_correction c s = (Inr x, s')" "co_spent_at c < b" "co_type c \<in> {0, 1}"
  shows "funds_before b i s' = funds_before b i s + (if i = co_account c
    then (if co_type c = 1 then amount_value (co_amount c) else - amount_value (co_amount c)) else 0)"
proof -
  obtain k pend where "s' = s\<lparr>st_transactions := st_transactions s @ [correction_row c k], st_pending := pend\<rparr>"
    by (rule save_correction_Inr[OF assms(1)])
  then show ?thesis using assms(2,3) by (auto simp: funds_before_def flow_def correction_row_def)
qed

text \<open>A correction by \<open>n\<close>, or none when \<open>n\<close> is zero.\<close>

definition corrects :: "ident \<Rightarrow> int \<Rightarrow> account_correction \<Rightarrow> bool" where
  "corrects i n c \<longleftrightarrow> n = 0 \<or> co_account c = i \<and> co_type c = (if n < 0 then 0 else 1) \<and> amount_value (co_amount c) = \<bar>n\<bar>"

lemma after_correction:
  assumes "corrects i n c" "z \<longleftrightarrow> n = 0" "co_spent_at c < b"
  shows "after (if z then ret None else sbind (save_correction c) (\<lambda>_. ret (Some c)))
    (\<lambda>corr s'. corr = (if n = 0 then None else Some c) \<and> funds_before b i s' = funds_before b i s + n) s"
proof (cases "n = 0")
  case False
  have "co_type c \<in> {0, 1}" using assms(1) False by (simp add: corrects_def)
  note f = corrected_funds[OF _ assms(3) this]
  have "after (save_correction c) (\<lambda>_ s'. funds_before b i s' = funds_before b i s + n) s"
    using assms(1) False f[of s _ _ i] unfolding after_def corrects_def by (auto split: if_splits)
  then show ?thesis using False assms(2) by (auto simp: after_sbind after_basic elim: after_mono)
qed (simp add: assms(2) after_basic)

lemma funds_before_tables [simp]:
  "funds_before b i (s\<lparr>st_accounts := x\<rparr>) = funds_before b i s" "funds_before b i (s\<lparr>st_options := y\<rparr>) = funds_before b i s"
  "funds_before b i (s\<lparr>st_folders := f\<rparr>) = funds_before b i s" "funds_before b i (s\<lparr>st_memberships := m\<rparr>) = funds_before b i s"
  "funds_before b i (s\<lparr>st_operations := q\<rparr>) = funds_before b i s" "funds_before b i (s\<lparr>st_pending := p\<rparr>) = funds_before b i s"
  "funds_before b i (flush s) = funds_before b i s"
  by (simp_all add: funds_before_def)

lemma no_rows_no_funds: "\<forall>t\<in>set (st_transactions s). \<not> on_account i t \<Longrightarrow> funds_before b i s = 0"
proof -
  assume "\<forall>t\<in>set (st_transactions s). \<not> on_account i t"
  then have "map (flow i) (filter (\<lambda>t. tx_spent_at t < b) (st_transactions s)) = map (\<lambda>_. 0) (filter (\<lambda>t. tx_spent_at t < b) (st_transactions s))"
    by (intro map_cong) (auto intro: flow_off)
  then show ?thesis by (simp only: funds_before_def sum_list_0)
qed

text \<open>The balance of the shown account is the sum of its rows.\<close>

lemma after_balance: "after (repo_balance i b) Q s \<longleftrightarrow> Q (to_string (from_scaled (funds_before b i s))) s"
  by (simp add: after_def repo_balance_before)

lemma item_reads:
  "read_only (sorted_folders u)" "read_only (repo_memberships u)" "read_only (account_index u i)"
  "read_only (repo_account_revision i)" "read_only (repo_transactions_count i)" "read_only (shared_access_for i)"
  unfolding sorted_folders_def account_index_def repo_list_folders_def repo_list_available_def repo_sort_keys_def
    repo_memberships_def shared_access_for_def repo_access_by_account_def repo_account_revision_def repo_transactions_count_def
  by (intro atomic_intro | simp)+

lemma after_item:
  "after (account_item_of env u acct) (\<lambda>item s'. s' = s \<and>
      ar_balance item = to_string (from_scaled (funds_before (balance_before env) (acc_id acct) s))) s"
  unfolding account_item_of_def build_account_result_def after_sbind after_balance after_basic
  by (rule after_read_only, rule item_reads)+ (simp add: new_decimal_printed del: to_string_from_scaled)

subsection \<open>Editing an account\<close>

text \<open>The last statement of both bodies, over any rest of the database.\<close>

lemma after_booked:
  assumes "corrects i n c" "z \<longleftrightarrow> n = 0" "co_spent_at c < b" "acc_id acct = i" "funds_before b i s = g - n"
  shows "after (if z then ret None else sbind (save_correction c) (\<lambda>_. ret (Some c)))
    (\<lambda>corr s'. acc_id acct = i \<and> corr = (if n = 0 then None else Some c) \<and> funds_before b i s' = g) s"
  by (rule after_mono[OF after_correction[OF assms(1-3)]]) (simp add: assms(4,5))

lemma after_update_account_funds:
  assumes "at < balance_before env"
  shows "after (update_account_body env u i nm ic cur at req) (\<lambda>r s'. acc_id (fst r) = i \<and>
     (snd r = None \<longleftrightarrow> funds_before (balance_before env) i s = scaled req) \<and>
     funds_before (balance_before env) i s' = scaled req) s"
proof -
  let ?b = "balance_before env" and ?F = "funds_before (balance_before env) i s"
  let ?diff = "sub_decimal (new_decimal (to_string (from_scaled ?F))) req"
  have d: "scaled ?diff = ?F - scaled req" by (simp add: sub_decimal_def new_decimal_printed del: to_string_from_scaled)
  have c: "corrects i (scaled req - ?F) c"
    if "co_account c = i" "co_type c = (if is_negative ?diff then 1 else 0)" "co_amount c = to_string (abs_decimal ?diff)" for c
    using that d by (simp add: corrects_def amount_value_abs is_negative_def)
  have fin: "after (sbind (repo_save_account acct) (\<lambda>_. sbind (repo_balance i ?b) (\<lambda>actual.
      sbind (if is_zero (sub_decimal (new_decimal actual) req) then ret None
        else sbind (save_correction (co actual)) (\<lambda>_. ret (Some (co actual)))) (\<lambda>corr. ret (acct, corr)))))
      (\<lambda>r s'. acc_id (fst r) = i \<and> (snd r = None \<longleftrightarrow> ?F = scaled req) \<and> funds_before ?b i s' = scaled req) s"
    if "acc_id acct = i" "\<And>v. co_account (co v) = i" "\<And>v. co_spent_at (co v) = at"
      "\<And>v. co_type (co v) = (if is_negative (sub_decimal (new_decimal v) req) then 1 else 0)"
      "\<And>v. co_amount (co v) = to_string (abs_decimal (sub_decimal (new_decimal v) req))" for acct co
    unfolding after_sbind repo_save_account_def after_update after_balance funds_before_tables
    apply (rule after_mono, rule after_booked[where n = "scaled req - ?F" and b = ?b and i = i and acct = acct and g = "scaled req"])
    using d by (auto intro!: c simp: that assms is_zero_def after_basic simp del: to_string_from_scaled)
  show ?thesis
    unfolding update_account_body_def Let_def
    apply (rule after_seq, rule step_read[of _ "\<lambda>t. t = s", OF read_only_owner_admin refl], hypsubst)
    apply (rule after_seq[where R = "\<lambda>a t. t = s \<and> find_row acc_id i (st_accounts s) = Some a"], simp add: after_get_account)
    apply (erule conjE, hypsubst, rule after_seq, rule step_read[where P = "\<lambda>t. t = s"])
    apply (force intro!: atomic_intro read_only_ensure_usable split: option.split, rule refl, hypsubst)
    apply (rule fin)
    apply (auto dest: known_account split: option.split)
    done
qed

subsection \<open>Opening an account\<close>

interpretation rows: store_relation "\<lambda>s s'. st_transactions s' = st_transactions s"
  by unfold_locales simp_all

lemma rows_not_found: "\<lbrakk>read_only m; \<And>e. rows.obeys (missing e); \<And>x. rows.obeys (found x)\<rbrakk> \<Longrightarrow> rows.obeys (on_not_found m missing found)"
  unfolding rows.obeys_def on_not_found_def
  by (auto dest: read_only_outcome split: prod.splits sum.splits if_splits)

lemma rows_writes:
  "rows.obeys (claim op now)" "rows.obeys (mark_handled op now)" "rows.obeys (repo_save_account a)"
  "rows.obeys (repo_save_sort_key i u k now)" "rows.obeys (repo_add_member f i)" "rows.obeys (repo_save_folder fd)"
  unfolding claim_def mark_handled_def repo_save_account_def repo_save_sort_key_def repo_add_member_def repo_save_folder_def
  by (intro rows.obeys_rules rows.obeys_update | simp)+

lemma rows_steps:
  "rows.obeys (next_account_key u)" "rows.obeys (create_folder_tx env u nm)" "rows.obeys (resolve_account_folder pf env u raw)"
proof -
  show "rows.obeys (next_account_key u)"
    unfolding next_account_key_def repo_sort_keys_def Let_def by (intro rows.obeys_rules)
  show f: "rows.obeys (create_folder_tx env u nm)" for nm
    unfolding create_folder_tx_def repo_list_folders_def Let_def by (intro rows.obeys_rules rows_writes)
  have d: "rows.obeys (default_folder_or env u e)" for e
    unfolding default_folder_or_def repo_count_folders_def by (intro rows.obeys_rules f)
  show "rows.obeys (resolve_account_folder pf env u raw)"
    unfolding resolve_account_folder_def repo_get_folder_def by (intro rows.obeys_rules rows_not_found d) (auto intro!: atomic_intro)
qed

lemma step_rows: "\<lbrakk>rows.obeys m; funds_before b i s = n\<rbrakk> \<Longrightarrow> after m (\<lambda>_ s'. funds_before b i s' = n) s"
  by (auto simp: after_def rows.obeys_def funds_before_def)

lemma after_create_account_funds:
  assumes "local_now env < balance_before env" "funds_before (balance_before env) (ae_new_id env) s = 0"
  shows "after (create_account_body pf env u op nm cur ic bal folder) (\<lambda>r s'. acc_id (fst r) = ae_new_id env \<and>
     (snd r = None \<longleftrightarrow> scaled bal = 0) \<and>
     funds_before (balance_before env) (ae_new_id env) s' = scaled bal) s"
proof -
  let ?b = "balance_before env" and ?i = "ae_new_id env"
  have fin: "after (sbind (if is_zero bal then ret None else sbind (save_correction c) (\<lambda>_. ret (Some c)))
      (\<lambda>corr. sbind (mark_handled op now) (\<lambda>_. ret (acct, corr))))
      (\<lambda>r s'. acc_id (fst r) = ?i \<and> (snd r = None \<longleftrightarrow> scaled bal = 0) \<and> funds_before ?b ?i s' = scaled bal) t"
    if "acc_id acct = ?i" "corrects ?i (scaled bal) c" "co_spent_at c < ?b" "funds_before ?b ?i t = 0" for acct c t now
    unfolding after_sbind
    apply (rule after_mono, rule after_booked[where n = "scaled bal" and b = ?b and i = ?i and acct = acct and g = "scaled bal"])
    using that by (auto simp: is_zero_def after_basic mark_handled_def after_update)
  have c: "corrects ?i (scaled bal) c"
    if "co_account c = ?i" "co_type c = correction_type bal" "co_amount c = to_string (abs_decimal bal)" for c
    using that by (simp add: corrects_def amount_value_abs correction_type_def is_negative_def)
  show ?thesis
    unfolding create_account_body_def Let_def
    apply (rule after_seq, rule step_rows[OF rows_writes(1) assms(2)], rule after_unless)
    apply (rule after_seq, erule step_rows[OF rows_steps(1)], rule after_seq, erule step_rows[OF rows_writes(3)])
    apply (rule after_seq, erule step_rows[OF rows_writes(4)], rule after_seq, erule step_rows[OF rows_steps(3)])
    apply (rule after_seq, erule step_rows[OF rows_writes(5)])
    apply (rule fin, simp add: new_account_def, rule c, simp_all add: assms(1))
    done
qed

subsection \<open>Properties\<close>

lemma find_row_map: "(\<And>x. rid (f x) = rid x) \<Longrightarrow> find_row rid i (map f xs) = map_option f (find_row rid i xs)"
  by (induction xs) (simp_all add: find_row_def)

lemma put_known: "find_row acc_id (acc_id a) accs = Some x \<Longrightarrow> find_row acc_id (acc_id a) (put_account a accs) = Some (account_over a x)"
proof -
  assume f: "find_row acc_id (acc_id a) accs = Some x"
  then have "acc_id a \<in> acc_id ` set accs" "acc_id x = acc_id a" using find_row_Some[OF f] by (auto intro: rev_image_eqI)
  then show ?thesis using f by (simp add: put_account_def find_row_map account_over_def)
qed

lemma funds_tables [simp]: "funds i (s\<lparr>st_accounts := x\<rparr>) = funds i s" "funds i (s\<lparr>st_pending := p\<rparr>) = funds i s" "funds i (flush s) = funds i s"
  by (simp_all add: funds_def)

lemma printed_inj: "to_string (from_scaled m) = to_string (from_scaled n) \<longleftrightarrow> m = n"
  using new_decimal_printed[of m] new_decimal_printed[of n] from_scaled_inj[of m n] by metis

subsection \<open>The day of the caller\<close>

text \<open>The local date of the server's clock in the caller's zone: the day the balance is read for.\<close>

definition local_day :: "(instant \<Rightarrow> int) \<Rightarrow> instant \<Rightarrow> int" where
  "local_day zone now = t_days (now + zone now)"

lemma t_days_wall_clock: "t_days (wall_clock_in zone now) = local_day zone now"
proof -
  obtain y m d hh mi ss where d: "t_date (now + zone now) = (y, m, d)" and c: "t_clock (now + zone now) = (hh, mi, ss)"
    using prod_cases3 by metis
  have "t_days (go_date y m d hh mi ss 0) = days_of y m d" using t_clock_bounds[OF c] by (intro t_clock_go_date(1)) simp_all
  also have "\<dots> = t_days (now + zone now)" using civil_of_days_valid(2) d by (simp add: t_date_def)
  finally show ?thesis by (simp add: wall_clock_in_def d c local_day_def)
qed

lemma tomorrow_in_eq: "tomorrow_in zone now = (local_day zone now + 1) * day_ns"
proof -
  obtain y m d where d: "t_date (now + zone now) = (y, m, d)" using prod_cases3 by metis
  then have n: "civil_of_days (t_days (now + zone now)) = (y, m, d)" by (simp add: t_date_def)
  note day = civil_of_days_valid(2)[OF n]
  have "t_date (days_of y m d * day_ns) = (y, m, d)" by (simp only: t_date_def t_days_midnight day n)
  then have "add_date (days_of y m d * day_ns) 0 0 1 = days_of y m (d + 1) * day_ns" by (simp add: add_date_eq)
  moreover have "days_of y m (d + 1) = days_of y m d + 1" by (simp add: days_of_def Let_def)
  ultimately show ?thesis by (simp add: tomorrow_in_def d day local_day_def)
qed

lemma before_next_midnight: "t < (n + 1) * day_ns \<longleftrightarrow> t_days t \<le> n"
  unfolding t_days_less by simp

text \<open>The opening correction falls on the day the balance is read for.\<close>

lemma local_now_today: "local_now env < balance_before env \<longleftrightarrow> local_day (ae_zone env) (ae_local_now env) \<le> local_day (ae_zone env) (ae_balance_now env)"
  unfolding local_now_def balance_before_def tomorrow_in_eq before_next_midnight t_days_wall_clock ..

lemma local_day_mono: "\<lbrakk>a \<le> b; zone a = zone b\<rbrakk> \<Longrightarrow> local_day zone a \<le> local_day zone b"
  by (simp add: local_day_def t_days_def zdiv_mono1)

text \<open>C9: A new account opens at the balance asked for: the balance the answer shows, and every later reading of it up to
  the end of the caller's day, is the requested number, through a correction booked on the account exactly when that number
  is not zero, of either sign. The request reads the clock twice, for the date of the correction and for the end of the day;
  the one condition on the clock is that the caller's local date does not run back between the two readings. The zone
  is any function from instants to offsets, on either side of UTC.
\<close>
theorem create_account_opens_at_balance:
  assumes "create_account pf env u req s = (Inr (item, corr), s')"
    and "local_day (ae_zone env) (ae_local_now env) \<le> local_day (ae_zone env) (ae_balance_now env)"
    and "\<forall>t\<in>set (st_transactions s). \<not> on_account (ae_new_id env) t"
  shows "ar_balance item = to_string (from_scaled (scaled (new_decimal (car_balance req)))) \<and>
    fst (repo_balance (ae_new_id env) (balance_before env) s') = Inr (ar_balance item) \<and>
    (corr = None \<longleftrightarrow> is_zero (new_decimal (car_balance req)))"
proof -
  let ?b = "balance_before env" and ?i = "ae_new_id env" and ?n = "scaled (new_decimal (car_balance req))"
  obtain op nm cur ic acct s1 where b: "with_tx (create_account_body pf env u op nm cur ic (new_decimal (car_balance req)) (car_folder req)) s
      = (Inr (acct, corr), s1)" and i: "account_item_of env u acct s1 = (Inr item, s')"
    using assms(1) read_only_outcome[OF read_only_ensure_usable]
    by (auto simp: create_account_def sbind_Inr_iff lift_iff ret_iff dest!: read_only_outcome[OF read_only_ensure_usable])
  have today: "local_now env < balance_before env" using assms(2) by (simp only: local_now_today)
  have none: "funds_before ?b ?i (s\<lparr>st_pending := []\<rparr>) = 0" using no_rows_no_funds[OF assms(3)] by simp
  obtain s2 where "create_account_body pf env u op nm cur ic (new_decimal (car_balance req)) (car_folder req) (s\<lparr>st_pending := []\<rparr>)
      = (Inr (acct, corr), s2)" "s1 = flush s2" using b by (auto simp: with_tx_Inr_iff)
  with afterD[OF after_create_account_funds[OF today none] this(1)]
  have "acc_id acct = ?i" "corr = None \<longleftrightarrow> ?n = 0" "funds_before ?b ?i s1 = ?n" by simp_all
  then show ?thesis using afterD[OF after_item i] by (simp add: repo_balance_before is_zero_def)
qed

text \<open>C10: Editing the balance of an account reaches the balance asked for: the answer shows it and it is what the rows then
  add up to, for an edit dated before the end of the caller's day; a correction is booked exactly when the balance before
  was another one.
\<close>
theorem update_account_reaches_balance:
  assumes "update_account pf env u req s = (Inr (item, corr), s')" "pf_uuid pf (uar_id req) = Some i"
    and "parse_updated_at (uar_updated req) = Inr at" "at < balance_before env"
  shows "ar_balance item = to_string (from_scaled (scaled (new_decimal (uar_balance req)))) \<and>
    fst (repo_balance i (balance_before env) s') = Inr (ar_balance item) \<and>
    (corr = None \<longleftrightarrow> fst (repo_balance i (balance_before env) s) = Inr (ar_balance item))"
proof -
  let ?b = "balance_before env" and ?n = "scaled (new_decimal (uar_balance req))"
  obtain nm cur ic acct s1 where b: "with_tx (update_account_body env u i nm ic cur at (new_decimal (uar_balance req))) s
      = (Inr (acct, corr), s1)" and it: "account_item_of env u acct s1 = (Inr item, s')"
    using assms(1-3) by (auto simp: update_account_def parse_id_def sbind_Inr_iff lift_iff ret_iff)
  obtain s2 where "update_account_body env u i nm ic cur at (new_decimal (uar_balance req)) (s\<lparr>st_pending := []\<rparr>) = (Inr (acct, corr), s2)"
    "s1 = flush s2" using b by (auto simp: with_tx_Inr_iff)
  with afterD[OF after_update_account_funds[OF assms(4)] this(1)]
  have "acc_id acct = i" "corr = None \<longleftrightarrow> funds_before ?b i s = ?n" "funds_before ?b i s1 = ?n" by simp_all
  then show ?thesis
    using afterD[OF after_item it] by (simp add: repo_balance_before printed_inj del: to_string_from_scaled)
qed

text \<open>C11: Deleting an account of one's own books its balance off and marks it deleted: it then stands at zero, and no other
  account's balance moved. The rows then stored are dated before 9999-12-31 (\<open>dated\<close>), the bound the code's all-time balance reads up to.
\<close>
theorem delete_account_settles:
  assumes "delete_account pf env u raw s = (Inr (), s')" "pf_uuid pf raw = Some i"
    and "find_row acc_id i (st_accounts s) = Some acct" "acc_user acct = u" "dated s'"
  shows "fst (repo_balance i all_time_balance_bound s') = Inr ''0'' \<and>
    (\<exists>a. find_row acc_id i (st_accounts s') = Some a \<and> acc_deleted a \<and> acc_user a = u) \<and>
    (\<forall>j. j \<noteq> i \<longrightarrow> fst (repo_balance j all_time_balance_bound s') = fst (repo_balance j all_time_balance_bound s))"
proof -
  let ?del = "account_delete (ae_now env) acct"
  have i: "acc_id acct = i" using find_row_Some[OF assms(3)] by simp
  have "with_tx (delete_account_body env acct) s = (Inr (), s')"
    using assms(1-4) by (simp add: delete_account_def parse_id_def sbind_def lift_def repo_get_account_def gets_def row_or_not_found_def)
  then obtain w s1 where z: "zero_balance (ae_correction_id env) (ae_now env) acct (local_now env) correctionAccountDeleted (s\<lparr>st_pending := []\<rparr>) = (Inr w, s1)"
    and s': "s' = flush (s1\<lparr>st_accounts := put_account ?del (st_accounts s1)\<rparr>)"
    by (auto simp: with_tx_Inr_iff delete_account_body_def sbind_Inr_iff repo_save_account_def update_store_def)
  have "dated s1" using assms(5) by (simp add: s' dated_def)
  note f = zero_balance_funds[OF z this]
  have "st_accounts s1 = st_accounts s" using ap.obeys_outcome[OF appended_zero(1) z] by (simp add: appended_def)
  then have "find_row acc_id i (put_account ?del (st_accounts s1)) = Some (account_over ?del acct)"
    using put_known[of ?del "st_accounts s" acct] assms(3) i by simp
  then have "\<exists>a. find_row acc_id i (st_accounts s') = Some a \<and> acc_deleted a \<and> acc_user a = u"
    unfolding s' using assms(4)
    by (simp add: flush_accounts find_row_map bump_account_def account_over_def account_delete_def)
  then show ?thesis using f i by (simp add: repo_balance_funds s' zero_text del: to_string_from_scaled)
qed

subsection \<open>Concrete accounts\<close>

definition noon_env :: account_env where
  "noon_env = \<lparr>ae_claim_now = 0, ae_now = 0, ae_folder_now = 0, ae_local_now = 43200000000000, ae_balance_now = 43200000000000,
     ae_key_now = 0, ae_new_id = ''new'', ae_correction_id = ''fix'', ae_folder_id = ''folder'', ae_zone = (\<lambda>_. 0)\<rparr>"

definition evening_env :: account_env where
  "evening_env = noon_env\<lparr>ae_local_now := 93600000000000, ae_balance_now := 93600000000000, ae_zone := (\<lambda>_. - 14400000000000)\<rparr>"

definition dollars :: store where
  "dollars = empty_store\<lparr>st_accounts := [sample_account], st_currencies := [\<lparr>cur_id = ''USD'', cur_user = None, cur_deleted = False\<rparr>]\<rparr>"

definition wallet :: create_account_request where
  "wallet = \<lparr>car_id = ''op1'', car_name = ''Wallet'', car_currency = ''USD'', car_balance = ''-12.50'', car_icon = ''i'', car_folder = []\<rparr>"

definition new_balance :: update_account_request where
  "new_balance = \<lparr>uar_id = ''acc'', uar_name = ''Cash'', uar_balance = ''7.5'', uar_icon = ''i'', uar_currency = None,
     uar_updated = ''1970-01-01 10:00:00''\<rparr>"

lemma item_succeeds:
  assumes "find_row acc_id (acc_id acct) (st_accounts s) = Some a"
  obtains item where "account_item_of env u acct s = (Inr item, s)"
proof -
  have "\<exists>item. account_item_of env u acct s = (Inr item, s)"
    using assms
    by (simp add: account_item_of_def build_account_result_def sorted_folders_def account_index_def repo_list_folders_def
        repo_list_available_def repo_sort_keys_def repo_memberships_def shared_access_for_def repo_access_by_account_def
        repo_account_revision_def repo_transactions_count_def repo_balance_before sbind_def gets_def lift_def ret_def
        row_or_not_found_def rbind_def)
  then show thesis using that by blast
qed

theorem create_account_opens_at_balance_witness:
  "\<exists>item corr s'. create_account sample_platform evening_env ''ann'' wallet dollars = (Inr (item, corr), s') \<and> ar_balance item = ''-12.5'' \<and>
     corr \<noteq> None \<and> fst (repo_balance ''new'' (balance_before evening_env) s') = Inr ''-12.5''"
proof -
  let ?body = "create_account_body sample_platform evening_env ''ann'' ''op1'' ''Wallet'' ''USD'' ''i'' (new_decimal ''-12.50'') [] dollars"
  have "case ?body of (r, s') \<Rightarrow> \<not> isl r \<and> find_row acc_id ''new'' (st_accounts (flush s')) \<noteq> None" by code_simp
  then have ok: "\<not> isl (fst ?body)" "find_row acc_id ''new'' (st_accounts (flush (snd ?body))) \<noteq> None" by (simp_all add: case_prod_beta)
  have checks: "parse_id (pf_uuid sample_platform) ''op1'' = Inr ''op1''" "new_account_name ''Wallet'' = Inr ''Wallet''"
    "parse_id (pf_uuid sample_platform) ''USD'' = Inr ''USD''" "ensure_usable ''ann'' ''USD'' dollars = (Inr (), dollars)"
    "new_account_icon ''i'' = Inr ''i''" by code_simp+
  obtain acct corr s1 where b: "?body = (Inr (acct, corr), s1)" using ok(1) by (cases ?body; cases "fst ?body") auto
  have today: "local_day (ae_zone evening_env) (ae_local_now evening_env) \<le> local_day (ae_zone evening_env) (ae_balance_now evening_env)"
    by code_simp
  have none: "funds_before (balance_before evening_env) (ae_new_id evening_env) dollars = 0" by (simp add: funds_before_def dollars_def empty_store_def)
  have "acc_id acct = ae_new_id evening_env"
    using afterD[OF after_create_account_funds[OF iffD2[OF local_now_today today] none] b] by simp
  then obtain a where "find_row acc_id (acc_id acct) (st_accounts (flush s1)) = Some a" using ok(2) b by (auto simp: evening_env_def noon_env_def)
  then obtain item where "account_item_of evening_env ''ann'' acct (flush s1) = (Inr item, flush s1)" by (rule item_succeeds)
  moreover have "dollars\<lparr>st_pending := []\<rparr> = dollars" by (simp add: dollars_def empty_store_def)
  ultimately have c: "create_account sample_platform evening_env ''ann'' wallet dollars = (Inr (item, corr), flush s1)"
    using checks b by (simp add: create_account_def wallet_def parse_id_def sbind_def lift_def with_tx_def ret_def)
  have d: "to_string (from_scaled (scaled (new_decimal ''-12.50''))) = ''-12.5''" "\<not> is_zero (new_decimal ''-12.50'')" by code_simp+
  have "\<forall>t\<in>set (st_transactions dollars). \<not> on_account (ae_new_id evening_env) t" by (simp add: dollars_def empty_store_def)
  from create_account_opens_at_balance[OF c today this] c d show ?thesis
    by (intro exI[of _ item] exI[of _ corr] exI[of _ "flush s1"]) (simp add: wallet_def evening_env_def noon_env_def)
qed

theorem update_account_reaches_balance_witness:
  "\<exists>item corr s'. update_account sample_platform noon_env ''ann'' new_balance dollars = (Inr (item, corr), s') \<and> ar_balance item = ''7.5'' \<and>
     fst (repo_balance ''acc'' (balance_before noon_env) s') = Inr ''7.5''"
proof -
  let ?at = "36000000000000" and ?b = "balance_before noon_env"
  let ?acct = "account_update_icon ''i'' 0 (account_update_name ''Cash'' 0 sample_account)"
  let ?s = "dollars\<lparr>st_accounts := put_account ?acct (st_accounts dollars)\<rparr>"
  let ?c = "\<lparr>co_id = ''fix'', co_user = ''ann'', co_account = ''acc'', co_description = correctionComment,
      co_type = (if is_negative (sub_decimal (new_decimal ''0'') (new_decimal ''7.5'')) then 1 else 0),
      co_amount = to_string (abs_decimal (sub_decimal (new_decimal ''0'') (new_decimal ''7.5''))), co_spent_at = ?at, co_created = 0\<rparr>"
  have "case save_correction ?c ?s of (r, s') \<Rightarrow> \<not> isl r \<and> find_row acc_id ''acc'' (st_accounts (flush s')) \<noteq> None" "acc_id ?acct = ''acc''"
    by code_simp+
  then have ok: "\<not> isl (fst (save_correction ?c ?s))" "find_row acc_id ''acc'' (st_accounts (flush (snd (save_correction ?c ?s)))) \<noteq> None"
    "acc_id ?acct = ''acc''" by (simp_all add: case_prod_beta)
  have checks: "parse_id (pf_uuid sample_platform) ''acc'' = Inr ''acc''" "new_account_name ''Cash'' = Inr ''Cash''"
    "parse_opt_id sample_platform None = Inr None" "new_account_icon ''i'' = Inr ''i''"
    "parse_updated_at ''1970-01-01 10:00:00'' = Inr ?at" "pf_uuid sample_platform ''acc'' = Some ''acc''"
    "require_owner_admin ''ann'' ''acc'' dollars = (Inr (), dollars)" "repo_get_account ''acc'' dollars = (Inr sample_account, dollars)"
    "\<not> is_zero (sub_decimal (new_decimal ''0'') (new_decimal ''7.5''))" "?at < balance_before noon_env" by code_simp+
  have "repo_balance ''acc'' ?b ?s = (Inr ''0'', ?s)"
    using zero_text by (simp add: repo_balance_before funds_before_def dollars_def empty_store_def)
  moreover obtain s1 where s1: "save_correction ?c ?s = (Inr (), s1)" using ok(1) by (cases "save_correction ?c ?s"; cases "fst (save_correction ?c ?s)") auto
  ultimately have b: "update_account_body noon_env ''ann'' ''acc'' ''Cash'' ''i'' None ?at (new_decimal ''7.5'') dollars = (Inr (?acct, Some ?c), s1)"
    using checks(7-9) by (simp add: update_account_body_def Let_def sbind_def ret_def repo_save_account_def update_store_def noon_env_def)
  obtain a where "find_row acc_id (acc_id ?acct) (st_accounts (flush s1)) = Some a" using ok(2,3) s1 by auto
  then obtain item where it: "account_item_of noon_env ''ann'' ?acct (flush s1) = (Inr item, flush s1)" by (rule item_succeeds)
  obtain acct corr where c: "update_account_body noon_env ''ann'' ''acc'' ''Cash'' ''i'' None ?at (new_decimal ''7.5'') dollars = (Inr (acct, corr), s1)"
    and it: "account_item_of noon_env ''ann'' acct (flush s1) = (Inr item, flush s1)" using b it by blast
  have p: "dollars\<lparr>st_pending := []\<rparr> = dollars" by (simp add: dollars_def empty_store_def)
  have u: "update_account sample_platform noon_env ''ann'' new_balance dollars = (Inr (item, corr), flush s1)"
    using checks(1-5) c it p by (simp add: update_account_def new_balance_def parse_id_def sbind_def lift_def with_tx_def ret_def)
  have d: "to_string (from_scaled (scaled (new_decimal ''7.5''))) = ''7.5''" by code_simp
  have q: "pf_uuid sample_platform (uar_id new_balance) = Some ''acc''" "parse_updated_at (uar_updated new_balance) = Inr ?at"
    "uar_balance new_balance = ''7.5''" using checks by (simp_all add: new_balance_def)
  note r = update_account_reaches_balance[OF u q(1,2) checks(10), unfolded q(3) d]
  have "ar_balance item = ''7.5''" "fst (repo_balance ''acc'' (balance_before noon_env) (flush s1)) = Inr ''7.5''"
    using r by metis+
  then show ?thesis using u by blast
qed

definition cash_kept :: store where
  "cash_kept = empty_store\<lparr>st_accounts := [sample_account], st_transactions := [lunch_row]\<rparr>"

theorem delete_account_settles_witness:
  "\<exists>s'. delete_account sample_platform noon_env ''ann'' ''acc'' cash_kept = (Inr (), s') \<and> funds ''acc'' cash_kept = -1250000000 \<and>
     fst (repo_balance ''acc'' all_time_balance_bound s') = Inr ''0''"
proof -
  have k: "order_top ''acc'' (local_now noon_env) cash_kept = (Inr ''a1'', cash_kept)" "local_now noon_env < all_time_balance_bound" by code_simp+
  have acc: "acc_id sample_account = ''acc''" "acc_user sample_account = ''ann''" by (simp_all add: sample_account_def new_account_def)
  have f: "funds ''acc'' cash_kept = -1250000000"
    using bound_value by (simp add: cash_kept_def funds_def flow_def lunch_row_def lunch_amount)
  obtain t pend where z: "zero_balance (ae_correction_id noon_env) (ae_now noon_env) sample_account (local_now noon_env) correctionAccountDeleted cash_kept =
      (Inr True, cash_kept\<lparr>st_transactions := [lunch_row, t], st_pending := pend\<rparr>)" and t: "tx_spent_at t = local_now noon_env"
    by (rule zero_balance_succeeds[of sample_account cash_kept "local_now noon_env" "''a1''" "ae_correction_id noon_env" "ae_now noon_env" correctionAccountDeleted])
      (use k f acc in \<open>simp_all add: noon_env_def lunch_row_def cash_kept_def\<close>)
  have c: "cash_kept\<lparr>st_pending := []\<rparr> = cash_kept" "find_row acc_id ''acc'' (st_accounts cash_kept) = Some sample_account"
    "pf_uuid sample_platform ''acc'' = Some ''acc''"
    by (simp_all add: cash_kept_def empty_store_def find_row_def acc sample_platform_def)
  let ?s1 = "cash_kept\<lparr>st_transactions := [lunch_row, t], st_pending := pend\<rparr>"
  obtain s' where d: "delete_account sample_platform noon_env ''ann'' ''acc'' cash_kept = (Inr (), s')"
    and s': "s' = flush (?s1\<lparr>st_accounts := put_account (account_delete (ae_now noon_env) sample_account) (st_accounts ?s1)\<rparr>)"
    using z c acc
    by (simp add: delete_account_def parse_id_def sbind_def lift_def repo_get_account_def gets_def row_or_not_found_def with_tx_def
        delete_account_body_def repo_save_account_def update_store_def)
  have "dated s'" using t k(2) bound_value by (simp add: s' dated_def lunch_row_def)
  from delete_account_settles[OF d c(3,2) acc(2) this] d f show ?thesis by blast
qed

end
