(* ===== verification/Account_Histories.thy ===== *)
theory Account_Histories
  imports Account_Calls
begin

section \<open>Histories of account and ledger calls\<close>

text \<open>
  Every call of the account module, and every call of the ledger, leaves \<open>desk_ok\<close> true whatever its outcome: the bodies of moving
  accounts and of folders, \<open>leaves\<close> for calls that may fail, the datatype of the calls with \<open>account_perform\<close>, and the histories
  \<open>account_reaches\<close> of calls by any users.
\<close>

subsection \<open>Moving an account\<close>

text \<open>Every account of a set is held by the user.\<close>

definition desk_holds_all :: "ident \<Rightarrow> ident set \<Rightarrow> store \<Rightarrow> bool" where
  "desk_holds_all u as s \<longleftrightarrow> desk_ok s \<and> (\<forall>a\<in>as. holds_account s u a)"

lemma after_set_folder:
  assumes ok: "desk_holds_all u as s" and a: "a \<in> as"
  shows "after (set_account_folder u a target) (\<lambda>_. desk_holds_all u as) s"
proof -
  let ?I = "\<lambda>s'. desk_holds_all u as s' \<and> st_folders s' = st_folders s"
  have step: "after (let contains = c; wanted = w in
       if wanted \<and> \<not> contains then repo_add_member (fd_id f) a
       else if \<not> wanted \<and> contains then repo_remove_member (fd_id f) a else ret ()) (\<lambda>_. ?I) t"
    if "f \<in> {f \<in> set (st_folders s). fd_user f = u}" "?I t" for f t c w
  proof -
    have "after (repo_add_member (fd_id f) a) (\<lambda>_. ?I) t"
      using that a by (intro after_add_member) (auto simp: desk_holds_all_def)
    moreover have "after (repo_remove_member (fd_id f) a) (\<lambda>_. ?I) t"
      using that(2) by (simp add: repo_remove_member_def after_update desk_remove_member desk_holds_all_def)
    ultimately show ?thesis using that(2) by (simp add: after_basic)
  qed
  have "after (for_each (filter (\<lambda>f. fd_user f = u) (st_folders s)) (\<lambda>f.
       let contains = a \<in> set (members_of rows (fd_id f)); wanted = (target = Some (fd_id f)) in
       if wanted \<and> \<not> contains then repo_add_member (fd_id f) a
       else if \<not> wanted \<and> contains then repo_remove_member (fd_id f) a else ret ())) (\<lambda>_. ?I) s" for rows
  proof (rule after_for_each)
    show "?I s" using ok by simp
  qed (rule step, simp_all)
  then show ?thesis
    unfolding set_account_folder_def repo_list_folders_def repo_memberships_def after_sbind after_basic
    by (rule after_mono) auto
qed

lemma move_within_Inr: "move_within items i anchor f g = Inr (Some (x, k)) \<Longrightarrow> valid_key k \<and> x \<in> set items \<and> item_id (f x) = i"
proof -
  have t: "take_out f i xs = (Some x, sibs) \<Longrightarrow> x \<in> set xs \<and> item_id (f x) = i" for xs sibs
    by (induction xs arbitrary: sibs) (auto split: if_splits prod.splits)
  have p: "place sibs anchor g = Inr k \<Longrightarrow> valid_key k" for sibs
    using validate_seed[of g] by (auto simp: place_def Let_def dest: between_Inr split: if_splits option.splits)
  assume "move_within items i anchor f g = Inr (Some (x, k))"
  then show ?thesis using t p by (auto simp: move_within_def split: option.splits prod.splits)
qed

text \<open>The keys \<open>give_keys\<close> hands out go to accounts of the list.\<close>

lemma resequence_Inr:
  assumes "resequence items (map item_id items) (\<lambda>i. i) g = Inr changed" "changed i = Some k"
  shows "valid_key k"
proof -
  let ?P = "\<lambda>st. \<forall>i k. fst st i = Some k \<longrightarrow> valid_key k"
  obtain st where r: "rfold (reseq_step (by_id items (\<lambda>i. i)) g) (Map.empty, []) (map item_id items) = Inr st" "fst st = changed"
    using assms(1) by (auto simp: resequence_def split: sum.splits prod.splits)
  have "?P st"
  proof (rule rfold_invariant[OF r(1)])
    fix st i st' assume "?P st" "reseq_step (by_id items (\<lambda>i. i)) g st i = Inr st'"
    then show "?P st'" using validate_seed[of g]
      by (cases st) (auto simp: reseq_step_def split: option.splits if_splits sum.splits dest!: between_Inr)
  qed simp
  then show ?thesis using r(2) assms(2) by blast
qed

lemma read_only_build_items: "read_only (build_items before folders rows n accts)"
  by (induction accts arbitrary: n)
    (auto intro!: atomic_intro simp: build_account_result_def shared_access_for_def repo_access_by_account_def
      repo_transactions_count_def)

lemma read_only_build_pending: "read_only (build_pending gs)"
  by (induction gs) (auto intro!: atomic_intro simp: build_account_result_def shared_access_for_def repo_access_by_account_def)

lemma read_only_lists:
  "read_only (sorted_folders u)" "read_only (account_index u i)" "read_only (folder_index u i)"
  "read_only (build_account_list env u reversed)" "read_only (account_item_of env u acct)"
  unfolding sorted_folders_def account_index_def folder_index_def build_account_list_def account_item_of_def
    repo_list_folders_def repo_list_available_def repo_sort_keys_def repo_memberships_def repo_access_pending_def
    build_account_result_def shared_access_for_def repo_access_by_account_def repo_account_revision_def repo_transactions_count_def
  by (intro atomic_intro read_only_build_items read_only_build_pending | simp)+

lemma available_holds: "available_to s u a \<Longrightarrow> a \<in> set (st_accounts s) \<Longrightarrow> holds_account s u (acc_id a)"
  by (auto simp: available_to_def holds_account_def)

lemma step_key_of: "\<lbrakk>desk_holds_all u as s; a \<in> as; valid_key k\<rbrakk> \<Longrightarrow> after (repo_save_sort_key a u k now) (\<lambda>_. desk_holds_all u as) s"
  by (rule after_save_key[of s u a k]) (auto simp: desk_holds_all_def)

lemma after_give_keys:
  assumes "desk_holds_all u as s" "item_id ` set items \<subseteq> as"
  shows "after (give_keys env u items) (\<lambda>its s'. desk_holds_all u as s' \<and> map item_id its = map item_id items) s"
proof -
  have "after (for_each items (\<lambda>it. case changed (item_id it) of None \<Rightarrow> ret ()
      | Some k \<Rightarrow> repo_save_sort_key (item_id it) u k (ae_now env))) (\<lambda>_. desk_holds_all u as) s"
    if "resequence items (map item_id items) (\<lambda>i. i) GrowsUp = Inr changed" for changed
  proof (rule after_for_each[where I = "desk_holds_all u as", OF assms(1)])
    fix it t assume it: "it \<in> set items" "desk_holds_all u as t"
    show "after (case changed (item_id it) of None \<Rightarrow> ret () | Some k \<Rightarrow> repo_save_sort_key (item_id it) u k (ae_now env))
        (\<lambda>_. desk_holds_all u as) t"
      using it assms(2) resequence_Inr[OF that] by (auto simp: after_basic intro!: step_key_of split: option.split)
  qed
  moreover have "map item_id (map (rekeyed changed) items) = map item_id items" for changed
    by (simp add: rekeyed_def split: option.split)
  ultimately show ?thesis
    using assms(1) unfolding give_keys_def by (auto simp: after_basic after_sbind intro: after_mono)
qed

lemma after_reorder:
  assumes "desk_holds_all u as s" "acc_id ` set accts \<subseteq> as" "a \<in> as"
  shows "after (reorder_account env u a anchor accts) (\<lambda>_. desk_holds_all u as) s"
proof -
  let ?items = "\<lambda>keys. ordered item_key item_id (map (\<lambda>a. \<lparr>item_id = acc_id a, item_key = key_in keys (acc_id a)\<rparr>) accts)"
  have i: "item_id ` set (?items keys) \<subseteq> as" for keys using assms(2) by (auto simp: image_iff)
  have "after (sbind (lift (move_within its a anchor (\<lambda>i. i) GrowsUp)) (\<lambda>moved.
      case moved of None \<Rightarrow> ret () | Some (_, k) \<Rightarrow> repo_save_sort_key a u k (ae_key_now env))) (\<lambda>_. desk_holds_all u as) t"
    if "desk_holds_all u as t" for its t
    using that assms(3)
    by (auto simp: after_sbind after_basic intro!: step_key_of dest: move_within_Inr split: option.split)
  note m = this
  show ?thesis
    unfolding reorder_account_def repo_sort_keys_def Let_def
    by (simp add: after_sbind[of "gets _"] after_basic, rule after_seq, rule after_give_keys[OF assms(1) i], rule m, simp)
qed

lemma after_move_account_body:
  assumes ok: "desk_ok s"
  shows "after (move_account_body env u a target anchor) (\<lambda>_. desk_ok) s"
proof -
  let ?accts = "List.sort_key (\<lambda>a. (acc_created a, acc_id a)) (filter (available_to s u) (st_accounts s))"
  let ?as = "acc_id ` set ?accts"
  have h: "desk_holds_all u ?as s" using ok available_holds by (auto simp: desk_holds_all_def)
  have "after (if a \<in> ?as then sbind (set_account_folder u a target) (\<lambda>_. reorder_account env u a anchor ?accts) else ret ())
      (\<lambda>_. desk_holds_all u ?as) s"
  proof (cases "a \<in> ?as")
    case True
    have "after (sbind (set_account_folder u a target) (\<lambda>_. reorder_account env u a anchor ?accts)) (\<lambda>_. desk_holds_all u ?as) s"
      by (rule after_seq, rule after_set_folder[OF h True], erule after_reorder[OF _ order.refl True])
    then show ?thesis using True by simp
  qed (use h in \<open>simp add: after_basic\<close>)
  note m = after_mono[OF this, of "\<lambda>_. desk_ok"]
  have "after (build_account_list env u False) (\<lambda>_. desk_ok) t" if "desk_ok t" for t
    using that by (intro after_read_only read_only_lists)
  note r = this
  show ?thesis
    unfolding move_account_body_def repo_list_available_def after_sbind[of "gets _"] after_basic
    by (rule after_seq, rule m) (simp_all add: desk_holds_all_def r)
qed

subsection \<open>Folders\<close>

lemma folder_row_unique:
  assumes "desk_ok s" "find_row fd_id i (st_folders s) = Some f" "x \<in> set (st_folders s)" "fd_id x = i"
  shows "x = f"
proof -
  have "find_row fd_id i (st_folders s) = Some x"
    using assms by (intro find_row_unique) (simp_all add: desk_ok_def rows_unique_def)
  then show ?thesis using assms(2) by simp
qed

lemma folder_name_unique:
  assumes "desk_ok s" "x \<in> set (st_folders s)" "y \<in> set (st_folders s)" "fd_user y = fd_user x" "fd_name y = fd_name x"
  shows "y = x"
proof -
  have "inj_on (\<lambda>f. (fd_user f, fd_name f)) (set (st_folders s))"
    using assms(1) by (simp add: desk_ok_def rows_unique_def distinct_map)
  then show ?thesis using assms(2-5) by (auto dest!: inj_onD)
qed

text \<open>A change of a folder that keeps its id, owner and name, or gives it a name that is free.\<close>

lemma step_save_folder:
  assumes ok: "desk_ok s" and f: "f \<in> set (st_folders s)" "fd_id f' = fd_id f" "key_ok (fd_sort_key f')"
    and n: "fd_name f' = fd_name f \<or> (\<forall>y\<in>set (st_folders s). fd_user y = fd_user f \<and> fd_name y = fd_name f' \<longrightarrow> fd_id y = fd_id f)"
  shows "after (repo_save_folder f') (\<lambda>_. desk_ok) s"
  unfolding repo_save_folder_def after_update
proof (rule desk_save_folder[OF ok _ f(3)])
  have i: "inj_on fd_id (set (st_folders s))" using ok by (simp add: desk_ok_def rows_unique_def distinct_map)
  show "fd_id f' \<in> fd_id ` set (st_folders s)" using f by simp
  fix x y assume x: "x \<in> set (st_folders s)" "fd_id x = fd_id f'" "y \<in> set (st_folders s)" "fd_id y \<noteq> fd_id f'" "fd_user y = fd_user x"
  have xf: "x = f" by (rule inj_onD[OF i _ x(1) f(1)]) (simp add: x(2) f(2))
  show "fd_name y \<noteq> fd_name f'"
  proof
    assume e: "fd_name y = fd_name f'"
    from n show False
    proof
      assume "fd_name f' = fd_name f"
      then have "y = f" using e x(5) xf by (intro folder_name_unique[OF ok f(1) x(3)]) simp_all
      then show False using x(4) f(2) by simp
    next
      assume "\<forall>y\<in>set (st_folders s). fd_user y = fd_user f \<and> fd_name y = fd_name f' \<longrightarrow> fd_id y = fd_id f"
      then show False using x e xf f(2) by auto
    qed
  qed
qed

lemma folder_key_ok: "\<lbrakk>desk_ok s; f \<in> set (st_folders s)\<rbrakk> \<Longrightarrow> key_ok (fd_sort_key f)"
  by (simp add: desk_ok_def desk_keys_def)

lemma folder_mutators [simp]:
  "fd_id (account_folder_update_name nm now f) = fd_id f" "fd_name (account_folder_update_name nm now f) = nm"
  "fd_sort_key (account_folder_update_name nm now f) = fd_sort_key f"
  "fd_id (make_visible now f) = fd_id f" "fd_name (make_visible now f) = fd_name f" "fd_sort_key (make_visible now f) = fd_sort_key f"
  "fd_id (make_invisible now f) = fd_id f" "fd_name (make_invisible now f) = fd_name f" "fd_sort_key (make_invisible now f) = fd_sort_key f"
  "fd_id (account_folder_update_sort_key k now f) = fd_id f" "fd_name (account_folder_update_sort_key k now f) = fd_name f"
  "fd_sort_key (account_folder_update_sort_key k now f) = k"
  by (simp_all add: account_folder_update_name_def make_visible_def make_invisible_def account_folder_update_sort_key_def)

lemma after_folder_bodies:
  assumes ok: "desk_ok s"
  shows "after (update_folder_body env u i nm) (\<lambda>_. desk_ok) s" "after (toggle_body env u i v) (\<lambda>_. desk_ok) s"
    "after (replace_folder_body u i j) (\<lambda>_. desk_ok) s" "after (move_folder_body env u i anchor) (\<lambda>_. desk_ok) s"
proof -
  show "after (update_folder_body env u i nm) (\<lambda>_. desk_ok) s"
    unfolding update_folder_body_def repo_list_folders_def Let_def
    apply (rule after_seq[where R = "\<lambda>f t. t = s \<and> find_row fd_id i (st_folders s) = Some f"], simp add: after_get_folder)
    apply (clarify, rule after_unless)
    apply (rule after_seq[where R = "\<lambda>fs t. t = s \<and> fs = filter (\<lambda>f. fd_user f = u) (st_folders s)"], simp add: after_basic)
    apply (erule conjE, hypsubst, rule after_unless, rule after_seq[where R = "\<lambda>_. desk_ok"])
     apply (rule step_save_folder[OF ok]; auto dest: folder_found intro: folder_key_ok[OF ok])
    apply (simp add: after_basic)
    done
  have "after (repo_save_folder (if v then make_visible now f else make_invisible now f)) (\<lambda>_. desk_ok) s"
    if "find_row fd_id i (st_folders s) = Some f" for f now
    using find_row_Some[OF that] by (intro step_save_folder[OF ok, of f]) (auto intro: folder_key_ok[OF ok])
  then show "after (toggle_body env u i v) (\<lambda>_. desk_ok) s"
    unfolding toggle_body_def by (simp add: after_sbind after_get_folder after_if after_basic)
  have "after (sbind (for_each accounts (\<lambda>a. repo_add_member j a)) (\<lambda>_. repo_delete_folder i)) (\<lambda>_. desk_ok) s"
    if f: "find_row fd_id i (st_folders s) = Some f" and r: "find_row fd_id j (st_folders s) = Some r" "fd_user r = fd_user f"
      and a: "set accounts \<subseteq> set (members_of (st_memberships s) i)" for accounts f r
  proof (rule after_seq)
    let ?I = "desk_holds_all (fd_user r) (set accounts)"
    have "holds_account s (fd_user f) x" if "x \<in> set accounts" for x
    proof -
      have "(i, x) \<in> set (st_memberships s)" using that a by (auto simp: members_of_def)
      then obtain fd where "fd \<in> set (st_folders s)" "fd_id fd = i" "holds_account s (fd_user fd) x"
        using ok by (auto simp: desk_ok_def places_held_def)
      then show ?thesis using folder_row_unique[OF ok f] by auto
    qed
    then have I: "?I s \<and> r \<in> set (st_folders s)" using ok r find_row_Some[OF r(1)] by (simp add: desk_holds_all_def)
    show "after (for_each accounts (\<lambda>a. repo_add_member j a)) (\<lambda>_ t. ?I t \<and> r \<in> set (st_folders t)) s"
    proof (rule after_for_each[where I = "\<lambda>t. ?I t \<and> r \<in> set (st_folders t)", OF I])
      fix x t assume x: "x \<in> set accounts" "?I t \<and> r \<in> set (st_folders t)"
      have "after (repo_add_member (fd_id r) x) (\<lambda>_ t. ?I t \<and> r \<in> set (st_folders t)) t"
        using x by (intro after_add_member) (auto simp: desk_holds_all_def)
      then show "after (repo_add_member j x) (\<lambda>_ t. ?I t \<and> r \<in> set (st_folders t)) t"
        using find_row_Some[OF r(1)] by simp
    qed
    fix t assume "?I t \<and> r \<in> set (st_folders t)"
    then show "after (repo_delete_folder i) (\<lambda>_. desk_ok) t"
      by (simp add: repo_delete_folder_def after_update desk_holds_all_def desk_delete_folder)
  qed
  then show "after (replace_folder_body u i j) (\<lambda>_. desk_ok) s"
    unfolding replace_folder_body_def repo_folder_accounts_def by (auto simp: after_sbind after_basic after_get_folder)
  have m: "after (repo_save_folder (account_folder_update_sort_key k now f)) (\<lambda>_. desk_ok) s"
    if "f \<in> set (st_folders s)" "valid_key k" for k f now
    using that by (intro step_save_folder[OF ok, of f]) (auto simp: key_ok_def)
  have "after (sbind (sorted_folders u) (\<lambda>fs. ret (number_folders fs))) (\<lambda>_. desk_ok) t" if "desk_ok t" for t
    using that by (intro after_read_only atomic_intro read_only_lists)
  note r = this
  show "after (move_folder_body env u i anchor) (\<lambda>_. desk_ok) s"
    unfolding move_folder_body_def
    apply (rule after_seq[where R = "\<lambda>fs t. t = s \<and> set fs \<subseteq> set (st_folders s)"])
     apply (auto simp: sorted_folders_def repo_list_folders_def after_sbind after_basic)[1]
    apply (clarify, simp only: after_sbind[of "lift _"] after_basic, intro allI impI, rule after_seq[where R = "\<lambda>_. desk_ok"])
     apply (auto simp: after_basic ok intro!: m dest: move_within_Inr split: option.split)[1]
    apply (erule r)
    done
qed

subsection \<open>Whatever the outcome\<close>

text \<open>\<open>leaves m P s\<close>: the database \<open>m\<close> leaves satisfies \<open>P\<close>, also when it fails.\<close>

definition leaves :: "'a act \<Rightarrow> (store \<Rightarrow> bool) \<Rightarrow> store \<Rightarrow> bool" where
  "leaves m P s \<longleftrightarrow> P (snd (m s))"

lemma leaves_read: "\<lbrakk>read_only m; P s\<rbrakk> \<Longrightarrow> leaves m P s"
  by (simp add: leaves_def read_only_def)

lemma leaves_seq: "\<lbrakk>leaves m P s; \<And>x t. P t \<Longrightarrow> leaves (f x) P t\<rbrakk> \<Longrightarrow> leaves (sbind m f) P s"
  by (auto simp: leaves_def sbind_def split: prod.splits sum.splits)

lemma leaves_after_read: "\<lbrakk>read_only m; P s; \<And>x. m s = (Inr x, s) \<Longrightarrow> leaves (f x) P s\<rbrakk> \<Longrightarrow> leaves (sbind m f) P s"
  by (auto simp: leaves_def sbind_def split: prod.splits sum.splits dest: read_only_outcome)

lemma leaves_lift: "\<lbrakk>P s; \<And>x. r = Inr x \<Longrightarrow> leaves (f x) P s\<rbrakk> \<Longrightarrow> leaves (sbind (lift r) f) P s"
  by (rule leaves_after_read) (simp_all add: lift_def)

lemma leaves_not_found:
  "\<lbrakk>read_only m; P s; \<And>e. leaves (missing e) P s; \<And>x. leaves (found x) P s\<rbrakk> \<Longrightarrow> leaves (on_not_found m missing found) P s"
  by (auto simp: leaves_def on_not_found_def split: prod.splits sum.splits dest: read_only_outcome)

lemma leaves_if: "\<lbrakk>b \<Longrightarrow> leaves m P s; \<not> b \<Longrightarrow> leaves n P s\<rbrakk> \<Longrightarrow> leaves (if b then m else n) P s"
  by simp

lemma desk_flush [simp]: "desk_ok (flush s) = desk_ok s" "desk_ok (s\<lparr>st_pending := p\<rparr>) = desk_ok s"
  by (rule same_desk_ok[OF same_desk_flush(1)], rule same_desk_ok[OF same_desk_flush(2)])

lemma leaves_tx:
  assumes "desk_ok s" "after m (\<lambda>_. desk_ok) (s\<lparr>st_pending := []\<rparr>)"
  shows "leaves (with_tx m) desk_ok s"
proof (cases "m (s\<lparr>st_pending := []\<rparr>)")
  case (Pair r s1)
  then show ?thesis using assms by (cases r) (auto simp: leaves_def with_tx_def dest: afterD)
qed

subsection \<open>Histories\<close>

text \<open>
  The use cases of the account module, the unwinding of shares that deleting a connection runs in its transaction, and the
  calls of the ledger.
\<close>

datatype account_call =
    CreateAccount create_account_request
  | UpdateAccount update_account_request
  | DeleteAccount string
  | MoveAccount move_account_request
  | CreateFolder string
  | UpdateFolder update_folder_request
  | HideFolder string
  | ShowFolder string
  | ReplaceFolder replace_folder_request
  | MoveFolder move_folder_request
  | GrantAccess grant_access_request
  | AcceptAccess accept_access_request
  | DeclineAccess string
  | RevokeAccess revoke_access_request
  | RevokeBetween ident
  | LedgerCall call_env ledger_call

fun account_perform :: "platform \<Rightarrow> account_env \<Rightarrow> ident \<Rightarrow> account_call \<Rightarrow> unit act" where
  "account_perform pf env u (CreateAccount req) = sbind (create_account pf env u req) (\<lambda>_. ret ())"
| "account_perform pf env u (UpdateAccount req) = sbind (update_account pf env u req) (\<lambda>_. ret ())"
| "account_perform pf env u (DeleteAccount i) = delete_account pf env u i"
| "account_perform pf env u (MoveAccount req) = sbind (move_account pf env u req) (\<lambda>_. ret ())"
| "account_perform pf env u (CreateFolder nm) = sbind (create_folder env u nm) (\<lambda>_. ret ())"
| "account_perform pf env u (UpdateFolder req) = sbind (update_folder pf env u req) (\<lambda>_. ret ())"
| "account_perform pf env u (HideFolder i) = hide_folder pf env u i"
| "account_perform pf env u (ShowFolder i) = show_folder pf env u i"
| "account_perform pf env u (ReplaceFolder req) = replace_folder pf u req"
| "account_perform pf env u (MoveFolder req) = sbind (move_folder pf env u req) (\<lambda>_. ret ())"
| "account_perform pf env u (GrantAccess req) = grant_access pf env u req"
| "account_perform pf env u (AcceptAccess req) = accept_access pf env u req"
| "account_perform pf env u (DeclineAccess i) = decline_access pf u i"
| "account_perform pf env u (RevokeAccess req) = revoke_access pf u req"
| "account_perform pf env u (RevokeBetween other) = with_tx (revoke_access_between u other)"
| "account_perform pf env u (LedgerCall lenv c) = ledger_perform pf lenv u c"

text \<open>Any number of calls by any users, whatever their outcomes; the ids a call draws are new.\<close>

inductive account_reaches :: "platform \<Rightarrow> store \<Rightarrow> store \<Rightarrow> bool" for pf where
  start: "account_reaches pf s s"
| more: "\<lbrakk>account_reaches pf s s1; fresh_in env s1; account_perform pf env u c s1 = (r, s2)\<rbrakk> \<Longrightarrow> account_reaches pf s s2"

lemma desk_templates:
  "sd.obeys (repo_save_recurring rt)" "sd.obeys (repo_replace_recurring_labels j ls)" "sd.obeys (repo_delete_recurring j)"
  unfolding sd.obeys_def repo_save_recurring_def repo_replace_recurring_labels_def repo_delete_recurring_def
  by (auto simp: act_iff same_desk_def)

interpretation desks: ledger_contract same_desk same_desk
proof unfold_locales
  fix s s' assume "same_desk (s\<lparr>st_pending := []\<rparr>) s'"
  then show "same_desk s (flush s')" by (simp add: same_desk_def flush_accounts owners_bump)
next
  fix s s' assume "same_desk s s'"
  then show "map acc_id (st_accounts s') = map acc_id (st_accounts s)" by (simp add: same_desk_def flip: owners_ids)
next
  fix acct c now at d w and s s' :: store assume "zero_balance c now acct at d s = (Inr w, s')"
  then show "same_desk s s'" using sd.obeys_outcome[OF same_desk_steps(4)] by blast
qed (simp_all add: desk_framed framed_bodies framed_marks desk_templates)

lemma ledger_desk: "desk_ok s \<Longrightarrow> leaves (ledger_perform pf env u c) desk_ok s"
  using desks.perform_settles[of pf env u c] same_desk_ok
  unfolding leaves_def sd.settles_def by (metis prod.collapse)

lemma fresh_pending [simp]: "desk_ok (s\<lparr>st_pending := []\<rparr>) \<and> fresh_in env (s\<lparr>st_pending := []\<rparr>) \<longleftrightarrow> desk_ok s \<and> fresh_in env s"
  by (simp add: fresh_in_def)

lemma leaves_respond: "\<lbrakk>leaves (with_tx m) desk_ok s; \<And>x. read_only (f x)\<rbrakk> \<Longrightarrow> leaves (sbind (with_tx m) f) desk_ok s"
  by (rule leaves_seq) (auto intro: leaves_read)

lemma leaves_done: "leaves m P s \<Longrightarrow> leaves (sbind m (\<lambda>_. ret x)) P s"
  by (rule leaves_seq) (auto intro: leaves_read)

lemma read_only_connected: "read_only (are_connected a b)"
  by (simp add: are_connected_def)

lemma read_only_access: "read_only (repo_get_access a u)"
  by (simp add: read_only_def repo_get_access_outcome)

lemma perform_desk:
  assumes ok: "desk_ok s" and fresh: "fresh_in env s"
  shows "leaves (account_perform pf env u c) desk_ok s"
proof -
  let ?s = "s\<lparr>st_pending := []\<rparr>"
  have ok': "desk_ok ?s" and f': "desk_fresh env ?s" "ae_folder_id env \<notin> fd_id ` set (st_folders ?s)"
    using ok fresh by (simp_all add: desk_fresh_def fresh_in_def)
  note rules = leaves_done leaves_lift ok leaves_respond leaves_tx leaves_if leaves_read
  note reads = atomic_intro read_only_lists
  show ?thesis
  proof (cases c)
    case (CreateAccount req)
    show ?thesis unfolding CreateAccount account_perform.simps create_account_def
      by (intro leaves_done leaves_lift leaves_after_read[OF read_only_ensure_usable] leaves_respond leaves_tx ok
          after_create_account_body f' ok) (auto intro!: reads split: prod.split)
  next
    case (UpdateAccount req)
    show ?thesis unfolding UpdateAccount account_perform.simps update_account_def
      by (intro leaves_done leaves_lift leaves_respond leaves_tx ok after_update_account_body ok') (auto intro!: reads split: prod.split)
  next
    case (DeleteAccount i)
    have "after (delete_account_body env a) (\<lambda>_. desk_ok) ?s" if "repo_get_account j s = (Inr a, s)" for a j
      using that ok' by (intro after_delete_account_body[of j]) (auto simp: desk_row_def repo_get_account_iff)
    then show ?thesis unfolding DeleteAccount account_perform.simps delete_account_def revoke_own_access_def
      by (intro leaves_lift leaves_after_read leaves_if leaves_tx leaves_not_found read_only_access ok after_revoke_bodies ok')
        (auto intro: leaves_read ok)
  next
    case (MoveAccount req)
    show ?thesis unfolding MoveAccount account_perform.simps move_account_def
      by (intro leaves_done leaves_lift leaves_tx ok after_move_account_body ok')
  next
    case (CreateFolder nm)
    have "after (create_folder_tx env u n) (\<lambda>_. desk_ok) ?s" for n by (rule after_create_folder[OF ok' f'(2)])
    then show ?thesis unfolding CreateFolder account_perform.simps create_folder_def
      by (intro leaves_done leaves_lift leaves_respond leaves_tx ok) (auto intro!: reads)
  next
    case (UpdateFolder req)
    show ?thesis unfolding UpdateFolder account_perform.simps update_folder_def
      by (intro leaves_done leaves_lift leaves_respond leaves_tx ok after_folder_bodies ok') (auto intro!: reads)
  next
    case (HideFolder i)
    show ?thesis unfolding HideFolder account_perform.simps hide_folder_def toggle_visibility_def
      by (intro leaves_lift leaves_tx ok after_folder_bodies ok')
  next
    case (ShowFolder i)
    show ?thesis unfolding ShowFolder account_perform.simps show_folder_def toggle_visibility_def
      by (intro leaves_lift leaves_tx ok after_folder_bodies ok')
  next
    case (ReplaceFolder req)
    show ?thesis unfolding ReplaceFolder account_perform.simps replace_folder_def
      by (intro leaves_lift leaves_tx ok after_folder_bodies ok')
  next
    case (MoveFolder req)
    show ?thesis unfolding MoveFolder account_perform.simps move_folder_def
      by (intro leaves_done leaves_lift leaves_tx ok after_folder_bodies ok')
  next
    case (GrantAccess req)
    show ?thesis unfolding GrantAccess account_perform.simps grant_access_def
      by (intro leaves_lift leaves_after_read[OF read_only_connected] leaves_if leaves_tx ok after_grant_body ok')
        (auto intro: leaves_read ok)
  next
    case (AcceptAccess req)
    show ?thesis unfolding AcceptAccess account_perform.simps accept_access_def
      by (intro leaves_lift leaves_tx ok after_accept_body ok' f')
  next
    case (DeclineAccess i)
    show ?thesis unfolding DeclineAccess account_perform.simps decline_access_def
      by (intro leaves_lift leaves_tx ok after_decline_body ok')
  next
    case (RevokeAccess req)
    show ?thesis unfolding RevokeAccess account_perform.simps revoke_access_def
      by (intro leaves_lift leaves_tx ok after_revoke_bodies ok')
  next
    case (RevokeBetween other)
    show ?thesis unfolding RevokeBetween account_perform.simps by (intro leaves_tx ok after_revoke_bodies ok')
  next
    case (LedgerCall lenv lc)
    show ?thesis unfolding LedgerCall account_perform.simps by (rule ledger_desk[OF ok])
  qed
qed


lemma history_desk: "\<lbrakk>account_reaches pf s s'; desk_ok s\<rbrakk> \<Longrightarrow> desk_ok s'"
proof (induction rule: account_reaches.induct)
  case (more s s1 env u c r s2)
  then show ?case using perform_desk[of s1 env pf u c] by (simp add: leaves_def)
qed simp

end
