(* ===== verification/Account_Shares.thy ===== *)
theory Account_Shares
  imports Account_Histories
begin

section \<open>Shares over histories and their end\<close>

text \<open>
  The two promises of sharing an account: over any history of calls only the users entitled to an account have it placed, and
  a share that ends takes with it everything the grantee had of the account. The concrete history is an offer, its acceptance
  and its revocation.
\<close>

subsection \<open>Ending a share\<close>

text \<open>The account and the user whose share a call ends: a revocation, a refusal, a deletion by someone who is not the owner.\<close>

fun ended_share :: "platform \<Rightarrow> ident \<Rightarrow> account_call \<Rightarrow> (ident \<times> ident) option" where
  "ended_share pf u (RevokeAccess req) =
     (case (pf_uuid pf (var_account req), pf_uuid pf (var_user req)) of (Some a, Some v) \<Rightarrow> Some (a, v) | _ \<Rightarrow> None)"
| "ended_share pf u (DeclineAccess raw) = map_option (\<lambda>a. (a, u)) (pf_uuid pf raw)"
| "ended_share pf u (DeleteAccount raw) = map_option (\<lambda>a. (a, u)) (pf_uuid pf raw)"
| "ended_share pf u _ = None"

lemma detached_nothing:
  "find_grant (detached a v s) a v = None" "f \<in> set (st_folders s) \<Longrightarrow> fd_user f = v \<Longrightarrow> a \<notin> set (members_of (st_memberships (detached a v s)) (fd_id f))"
  "r \<in> set (st_options (detached a v s)) \<Longrightarrow> ao_user r = v \<Longrightarrow> ao_account r \<noteq> a"
  by (auto simp: find_grant_None detached_def members_of_def)

lemma detached_shut:
  assumes "find_row acc_id a (st_accounts s) = Some acct" "acc_user acct \<noteq> v"
  shows "\<not> may_write (detached a v s) v a"
proof -
  have "\<not> write_grant (detached a v s) a v" using detached_nothing(1)[of a v s] by (simp add: write_grant_def find_grant_def)
  then show ?thesis using assms by (simp add: may_write_def detached_def)
qed

lemma unwound: "sbind (repo_get_access a v) (\<lambda>_. unwind_grant a v) s = (Inr (), s') \<longleftrightarrow> find_grant s a v \<noteq> None \<and> s' = detached a v s"
  by (auto simp: sbind_def repo_get_access_outcome unwind_grant_detaches split: option.split)

lemma after_unwind: "after (unwind_grant a v) Q s \<longleftrightarrow> Q () (detached a v s)"
  by (simp add: after_def unwind_grant_detaches)

lemma find_grant_pending [simp]: "find_grant (s\<lparr>st_pending := p\<rparr>) a v = find_grant s a v" "manages (s\<lparr>st_pending := p\<rparr>) u a = manages s u a"
  by (simp_all add: find_grant_def manages_def)

lemma detached_pending: "flush (detached a v (s\<lparr>st_pending := []\<rparr>)) = (detached a v s)\<lparr>st_pending := []\<rparr>"
  by (subst flush_no_pending) (simp_all add: detached_def)

lemma revoked: "with_tx (sbind (repo_get_access a v) (\<lambda>_. unwind_grant a v)) s = (Inr (), s') \<Longrightarrow>
    find_grant s a v \<noteq> None \<and> s' = (detached a v s)\<lparr>st_pending := []\<rparr>"
  by (auto simp: with_tx_Inr_iff unwound detached_pending)

lemma share_ended:
  assumes "account_perform pf env u c s = (Inr (), s')" "ended_share pf u c = Some (a, v)"
    and "find_row acc_id a (st_accounts s) = Some acct" "acc_user acct \<noteq> v"
  shows "find_grant s a v \<noteq> None \<and> s' = (detached a v s)\<lparr>st_pending := []\<rparr> \<and> (u = v \<or> manages s u a)"
  using assms(2)
proof (cases c)
  case (RevokeAccess req)
  then have "with_tx (revoke_body u a v) s = (Inr (), s')"
    using assms(1,2) by (auto simp: revoke_access_def parse_access_id_def sbind_Inr_iff lift_iff split: option.splits)
  then obtain s1 where r: "revoke_body u a v (s\<lparr>st_pending := []\<rparr>) = (Inr (), s1)" "s' = flush s1" by (auto simp: with_tx_Inr_iff)
  have "after (revoke_body u a v) (\<lambda>_ s1. manages s u a \<and> find_grant s a v \<noteq> None \<and> s1 = detached a v (s\<lparr>st_pending := []\<rparr>)) (s\<lparr>st_pending := []\<rparr>)"
    by (auto simp: revoke_body_def after_sbind after_owner_admin after_get_access after_unwind)
  from afterD[OF this r(1)] show ?thesis using r(2) detached_pending by simp
next
  case (DeclineAccess raw)
  then have v: "v = u" and "with_tx (on_not_found (repo_get_access a u) (\<lambda>_. fail access_denied) (\<lambda>_. unwind_grant a u)) s = (Inr (), s')"
    using assms(1,2) by (auto simp: decline_access_def parse_access_id_def sbind_Inr_iff lift_iff split: option.splits)
  then have "after (on_not_found (repo_get_access a u) (\<lambda>_. fail access_denied) (\<lambda>_. unwind_grant a u))
      (\<lambda>_ s1. find_grant s a u \<noteq> None \<and> s1 = detached a u (s\<lparr>st_pending := []\<rparr>)) (s\<lparr>st_pending := []\<rparr>) \<and>
      (\<exists>s1. on_not_found (repo_get_access a u) (\<lambda>_. fail access_denied) (\<lambda>_. unwind_grant a u) (s\<lparr>st_pending := []\<rparr>) = (Inr (), s1) \<and> s' = flush s1)"
    by (auto simp: after_access_or after_basic after_unwind with_tx_Inr_iff split: option.split)
  then show ?thesis using v detached_pending by (auto dest: afterD)
next
  case (DeleteAccount raw)
  then have v: "v = u" "pf_uuid pf raw = Some a" using assms(2) by auto
  then have "on_not_found (repo_get_access a u) (\<lambda>_. fail access_denied) (\<lambda>_. revoke_own_access u a) s = (Inr (), s')"
    using assms DeleteAccount by (auto simp: delete_account_def parse_id_def sbind_Inr_iff lift_iff repo_get_account_iff)
  then have "revoke_own_access u a s = (Inr (), s')"
    by (auto simp: on_not_found_def repo_get_access_outcome fail_def split: option.splits if_splits)
  then show ?thesis using revoked v by (simp add: revoke_own_access_def)
qed simp_all


subsection \<open>Properties\<close>

text \<open>C7: Through any history of calls on accounts, folders, shares and the ledger, by any users and whatever their
  outcomes, only the owner of an account and the holders of an accepted grant have it in a folder or a place for it in
  their list; every row of a folder belongs to a folder that exists, no user has two folders of one name, no account is twice in
  a folder, a user has one grant and one place per account, and every key a list is sorted by is well formed.
\<close>
theorem placements_follow_access:
  assumes "account_reaches pf s s'" "desk_ok s"
  shows "rows_unique s' \<and> desk_keys s' \<and>
    (\<forall>(f, a)\<in>set (st_memberships s'). \<exists>fd\<in>set (st_folders s'). fd_id fd = f \<and> holds_account s' (fd_user fd) a) \<and>
    (\<forall>r\<in>set (st_options s'). holds_account s' (ao_user r) (ao_account r))"
  using history_desk[OF assms] by (simp add: desk_ok_def places_held_def)

text \<open>C8: A share that ends leaves nothing behind: when the owner or an admin revokes it, when the grantee refuses or gives
  up an account, or deletes one of somebody else, the grantee's folder rows, place and grant of that account are gone, the
  grantee can no longer write to it and everything else in the database is as it was, other users' folders included.
\<close>
theorem ended_share_leaves_nothing:
  assumes "account_perform pf env u c s = (Inr (), s')" "ended_share pf u c = Some (a, v)"
    and "find_row acc_id a (st_accounts s) = Some acct" "acc_user acct \<noteq> v"
  shows "(u = v \<or> manages s u a) \<and> find_grant s a v \<noteq> None \<and> s' = (detached a v s)\<lparr>st_pending := []\<rparr> \<and>
    find_grant s' a v = None \<and> \<not> may_write s' v a \<and>
    (\<forall>f\<in>set (st_folders s'). fd_user f = v \<longrightarrow> a \<notin> set (members_of (st_memberships s') (fd_id f))) \<and>
    (\<forall>r\<in>set (st_options s'). ao_user r = v \<longrightarrow> ao_account r \<noteq> a)"
proof -
  have s': "find_grant s a v \<noteq> None" "s' = (detached a v s)\<lparr>st_pending := []\<rparr>" "u = v \<or> manages s u a"
    using share_ended[OF assms] by simp_all
  have "may_write s' v a = may_write (detached a v s) v a" by (simp add: s'(2) may_write_def write_grant_def)
  moreover have "st_folders s' = st_folders s" by (simp add: s'(2) detached_def)
  ultimately show ?thesis
    using s' detached_nothing(1)[of a v s] detached_nothing(2)[of _ s v a] detached_nothing(3)[of _ a v s] detached_shut[OF assms(3,4)]
    by simp
qed

subsection \<open>A share and its end\<close>

definition desk_env :: account_env where
  "desk_env = \<lparr>ae_claim_now = 0, ae_now = 0, ae_folder_now = 0, ae_local_now = 0, ae_balance_now = 0, ae_key_now = 0,
     ae_new_id = ''new'', ae_correction_id = ''fix'', ae_folder_id = ''folder'', ae_zone = (\<lambda>_. 0)\<rparr>"

text \<open>An account of \<open>ann\<close> and a folder of \<open>bob\<close>, before \<open>ann\<close> shares the account.\<close>

definition two_users :: store where
  "two_users = empty_store\<lparr>st_accounts := [sample_account],
     st_folders := [account_folder_set_sort_key ''a0'' (new_account_folder ''shelf'' ''bob'' ''Shared'' 0)],
     st_connections := [(''ann'', ''bob''), (''bob'', ''ann'')]\<rparr>"

definition offered :: store where
  "offered = two_users\<lparr>st_access := [new_account_access ''acc'' ''bob'' RoleUser 0]\<rparr>"

definition shared :: store where
  "shared = two_users\<lparr>st_access := [account_access_accept 0 (new_account_access ''acc'' ''bob'' RoleUser 0)],
     st_memberships := [(''shelf'', ''acc'')],
     st_options := [\<lparr>ao_account = ''acc'', ao_user = ''bob'', ao_key = ''a0'', ao_created = 0, ao_updated = 0\<rparr>]\<rparr>"

lemma two_users_ok: "desk_ok two_users"
proof -
  have "valid_key ''a0''" by code_simp
  then show ?thesis
    by (simp add: desk_defs key_ok_def two_users_def empty_store_def account_folder_set_sort_key_def new_account_folder_def)
qed

lemma offer: "account_perform sample_platform desk_env ''ann'' (GrantAccess \<lparr>gar_account = ''acc'', gar_user = ''bob'', gar_role = ''user''\<rparr>)
    two_users = (Inr (), offered)"
  by code_simp

lemma acceptance: "account_perform sample_platform desk_env ''bob'' (AcceptAccess \<lparr>aar_account = ''acc'', aar_folder = ''shelf''\<rparr>)
    offered = (Inr (), shared)"
  by code_simp

lemma revocation: "account_perform sample_platform desk_env ''ann'' (RevokeAccess \<lparr>var_account = ''acc'', var_user = ''bob''\<rparr>)
    shared = (Inr (), two_users)"
  by code_simp

theorem placements_follow_access_witness:
  "account_reaches sample_platform two_users shared \<and> rows_unique shared \<and> desk_keys shared \<and> st_memberships shared = [(''shelf'', ''acc'')] \<and>
   (\<exists>fd\<in>set (st_folders shared). fd_id fd = ''shelf'' \<and> holds_account shared (fd_user fd) ''acc'')"
proof -
  have "fresh_in desk_env two_users" "fresh_in desk_env offered"
    by (simp_all add: fresh_in_def desk_env_def offered_def two_users_def sample_account_def new_account_def empty_store_def
        account_folder_set_sort_key_def new_account_folder_def)
  then have h: "account_reaches sample_platform two_users shared"
    by (intro account_reaches.more[OF account_reaches.more[OF account_reaches.start _ offer] _ acceptance])
  show ?thesis using h placements_follow_access[OF h two_users_ok] by (simp add: shared_def)
qed

theorem ended_share_leaves_nothing_witness:
  "account_perform sample_platform desk_env ''ann'' (RevokeAccess \<lparr>var_account = ''acc'', var_user = ''bob''\<rparr>) shared = (Inr (), two_users) \<and>
   find_grant shared ''acc'' ''bob'' \<noteq> None \<and> find_grant two_users ''acc'' ''bob'' = None \<and> \<not> may_write two_users ''bob'' ''acc''"
proof -
  have "ended_share sample_platform ''ann'' (RevokeAccess \<lparr>var_account = ''acc'', var_user = ''bob''\<rparr>) = Some (''acc'', ''bob'')"
    "find_row acc_id ''acc'' (st_accounts shared) = Some sample_account" "acc_user sample_account \<noteq> ''bob''"
    by code_simp+
  from ended_share_leaves_nothing[OF revocation this] show ?thesis using revocation by simp
qed

subsection \<open>The owner among the grantees\<close>

text \<open>
  A holder of an accepted admin grant, connected to the owner, may grant the account to its owner; revoking that grant then
  takes the account out of the owner's own folders and list.
\<close>

definition co_managed :: store where
  "co_managed = empty_store\<lparr>st_accounts := [sample_account],
     st_folders := [account_folder_set_sort_key ''a0'' (new_account_folder ''home'' ''ann'' ''Main'' 0)],
     st_memberships := [(''home'', ''acc'')], st_connections := [(''ann'', ''bob''), (''bob'', ''ann'')],
     st_options := [\<lparr>ao_account = ''acc'', ao_user = ''ann'', ao_key = ''a0'', ao_created = 0, ao_updated = 0\<rparr>],
     st_access := [account_access_accept 0 (new_account_access ''acc'' ''bob'' RoleAdmin 0)]\<rparr>"

lemma owner_can_be_unplaced:
  "case account_perform sample_platform desk_env ''bob'' (GrantAccess \<lparr>gar_account = ''acc'', gar_user = ''ann'', gar_role = ''user''\<rparr>) co_managed of
     (r, s1) \<Rightarrow> (case account_perform sample_platform desk_env ''bob'' (RevokeAccess \<lparr>var_account = ''acc'', var_user = ''ann''\<rparr>) s1 of
       (r', s2) \<Rightarrow> \<not> isl r \<and> \<not> isl r' \<and> st_memberships s2 = [] \<and> st_options s2 = [])"
  by code_simp

end
