(* ===== verification/Spec2Isabelle.thy ===== *)
theory Spec2Isabelle
  imports Merging Convertor Ledger_Revisions Ledger_Moves Ledger_Templates Account_Balances Account_Shares
begin

text \<open>
  Econumo, the Go back end under \<open>src/internal\<close>: a self-hosted budgeting application in which users keep accounts, book
  transactions on them, classify these by category, payee, tag and label, plan budgets and share accounts with connected
  users. This development models its core: the values, the entities, the repositories over the tables of the database and
  the services that classify, book and share.

  \<^bold>\<open>How the program is read.\<close> A Go function returning \<open>(T, error)\<close> is a value of \<open>'a result\<close>, \<open>Inl\<close> of a \<open>go_error\<close>
  (\<open>Errs\<close>, from \<open>shared/errs\<close>) or \<open>Inr\<close>. A use case is an \<open>'a act\<close>, a function from the database (\<open>store\<close>, one list of rows per
  table) to a result and the database after it; \<open>sbind\<close> is the sequencing of statements with the early return on an error and
  \<open>with_tx\<close> is \<open>TxManager.WithTx\<close>: all or nothing, with one bump of the revision of each account whose list changed, just before
  the commit. Strings are lists of bytes, read as UTF-8 where the code counts or folds runes (\<open>Runes\<close>). Instants are
  nanoseconds since 1970 in UTC. What a call reads from outside (the clock, fresh ids, the time zone of the caller) is its
  environment, \<open>call_env\<close> or \<open>account_env\<close>; the parsing of UUIDs and the folding of case are the \<open>platform\<close>. Both are arguments of every
  definition that uses them.

  \<^bold>\<open>Values.\<close> \<open>Sort_Key\<close> and \<open>Placement\<close> (\<open>shared/sortkey\<close>): fractional-index keys, and moving, appending and resequencing rows by
  them. \<open>Decimal\<close> (\<open>shared/vo/decimal.go\<close>): decimal texts at scale 8. \<open>Calendar\<close> (\<open>shared/datetime\<close>): civil dates, the wire layouts.
  \<open>Go_Strings\<close>, \<open>Runes\<close>: the parts of the standard library the code uses. The lemmas: a key between two keys exists, is
  well formed and strictly between; moved and resequenced rows sort where they were asked to; the wire form of a number
  is canonical, addition exact, division truncating, rounding half away from zero; the layouts round-trip.

  \<^bold>\<open>Entities.\<close> \<open>Budget_Model\<close>, \<open>Transaction_Model\<close>, \<open>Recurring_Model\<close>, \<open>Account_Model\<close>, \<open>Classification_Model\<close> (\<open>model/*.go\<close>) with their
  constructors and mutators; \<open>Classification_Requests\<close>, \<open>Ledger_Requests\<close>, \<open>Account_Requests\<close> (\<open>model/*_dto.go\<close>) with the \<open>Validate\<close>
  methods. The lemmas: budget periods tile time, schedules do not drift from their scheduled day, transactions
  have the shape of their type.

  \<^bold>\<open>Classification.\<close> \<open>Classification_Repos\<close> and \<open>Category_Service\<close>, \<open>Tag_Service\<close>, \<open>Payee_Service\<close>, \<open>Label_Service\<close> (\<open>internal/category\<close>,
  \<open>tag\<close>, \<open>payee\<close>, \<open>label\<close>): create, update, archive, delete, move, sort, merge and list. What the four share is the locale \<open>owned_table\<close>
  (rows with an id, an owner and a key) and its extension \<open>classified_table\<close> (the repository calls and bodies over it),
  interpreted for the four tables. \<open>Classification\<close> runs them together: \<open>consistent\<close> holds in every reachable database, an
  operation id is used once, calls leave other users' rows alone, a failed call changes nothing. \<open>Budget_Merge\<close> and
  \<open>Budget_Merge_Laws\<close> (\<open>budget/merge.go\<close>) keep the planned money when elements merge; \<open>Merging\<close> joins the two for \<open>MergeCategory\<close>.

  \<^bold>\<open>Ledger.\<close> \<open>Ledger_Repos\<close> (\<open>transaction/repo\<close>, \<open>infra/txorder\<close>), \<open>Ledger_Service\<close> (\<open>internal/transaction\<close>, \<open>account/zero.go\<close>) and
  \<open>Recurring_Service\<close> (\<open>internal/recurring\<close>). \<open>Ledger_Calls\<close> has the calls as a datatype, \<open>ledger_perform\<close>, their histories
  \<open>ledger_reaches\<close> and the locale \<open>ledger_contract\<close>: a relation that each body respects, and that a commit carries over, is
  respected by every call and every history. It is interpreted for the types of rows (\<open>Ledger_Typing\<close>), for revisions
  (\<open>Ledger_Revisions\<close>), for claimed operation ids (\<open>Ledger_Posting\<close>) and for the tables of the desk (\<open>Account_Histories\<close>). The locale
  \<open>store_relation\<close> (\<open>Act_Relations\<close>) closes such relations under sequencing. The lemmas: every stored row is well typed; an account
  with an unchanged revision has an unchanged list; a post books once and advances the schedule once whatever is
  retried; moving within a day (\<open>Ledger_Moves\<close>) is a list move, ties included; deleted accounts stay at zero (\<open>Ledger_Zeroing\<close>); the stored
  templates stay well formed (\<open>Ledger_Templates\<close>).

  \<^bold>\<open>Accounts.\<close> \<open>Account_Repos\<close> and \<open>Account_Service\<close> (\<open>internal/account\<close>): accounts, folders, the order of a user's accounts, the
  handshake that shares one. \<open>Act_Outcomes\<close> has \<open>after m Q s\<close>, what holds when \<open>m\<close> succeeds, with the equations that push it
  through statements; \<open>Account_Sharing\<close> the invariant \<open>desk_ok\<close>, \<open>Account_Calls\<close> and \<open>Account_Histories\<close> its preservation by every call;
  \<open>Account_Shares\<close> the promises of sharing over histories and at the end of a share; \<open>Account_Balances\<close> that creating, editing and
  deleting an account reach the balance they promise, in the day of the caller's zone (\<open>local_day\<close>).

  \<^bold>\<open>Currencies.\<close> \<open>Convertor\<close> (\<open>currency/convertor.go\<close>): the grouping and the memo of a bulk conversion are transparent, and the order
  of its map cannot be seen while each month comes with one period, as the windows of a budget do. The rates are an argument,
  free to depend on both ends of a period.

  \<^bold>\<open>Termination and bounds.\<close> No definition takes fuel. The recursions that are not structural (\<open>midpoint\<close>, \<open>runes\<close>, the trims,
  \<open>split_ties\<close>) carry a termination proof, so the functions are total. \<open>project_loop\<close> is cut at \<open>max_projected_occurrences\<close>, as in the
  code. \<open>big.Int\<close> is \<open>int\<close>; the exponent of a scientific text wraps at 64 bits. Sort keys stay at four bytes for the first 242,234
  appended rows.

  \<^bold>\<open>Assumptions.\<close> A query does not fail by itself: a failing driver is one more early return, rolled back alike. Balances are
  exact sums at scale 8. Two calls do not interleave inside a transaction; between transactions any order of calls by any
  users is a history. The order in which Go ranges a map is that of the rows; where a result
  could depend on it, the bulk conversion, a theorem says when it does not and a lemma shows that it otherwise can.
  \<open>isBumped\<close> of the revision tracker saves reads only and is left out.

  \<^bold>\<open>Not modelled.\<close> The HTTP, MCP and OAuth layers, the web and mobile clients, configuration, the command line and the mailer; the
  import of files and bank feeds; the budget services other than merging; users, connections and currency management;
  exports and filtered lists of transactions; the code generated from the SQL queries, whose meaning is in the
  repositories. Where a result embeds a user or a currency the model has its id.
\<close>

end
